(* ===== verification/Prelude.thy ===== *)
theory Prelude
  imports Main "HOL-Library.AList" "HOL-Library.Multiset" "HOL-Library.Char_ord"
    "HOL-Library.List_Lexorder" "HOL-Library.Word"
begin

text \<open>
  Shared vocabulary of the development: the pieces of the C++ standard library that the
  AsterNet sources use (decimal printing, character classes, substring search, hash tables),
  the abstract clock, and the generic facts about lists and association lists on which the
  component theories rest.

  \<^item> A \<open>std::string\<close> is a \<open>string\<close>: a HOL \<open>char\<close> is one byte.
  \<^item> A \<open>std::unordered_map\<close> is an association list with distinct keys. The order in which it is
    iterated is not specified by C++; the sources use it only for \<open>erase(begin())\<close> and for a
    scan for a strict minimum. Operations that iterate take a parameter \<open>ho\<close> (the hash order),
    and iterate over the entries rotated by \<open>ho m\<close>: whichever entry a real hash order puts
    first (among all, or among the minima), some rotation puts first too.
  \<^item> A monotonic clock is a function on an abstract world \<open>'w\<close>: it returns the reading and the
    world after it. Nothing is assumed of it unless a theorem says so.
\<close>

section \<open>Collections of facts\<close>

named_theorems key_facts \<open>separators and digits in the printed map keys\<close>
named_theorems table_facts \<open>association lists used as hash tables\<close>

section \<open>The clock\<close>

type_synonym 'w clock = "'w \<Rightarrow> int \<times> 'w"

section \<open>Characters of the C locale\<close>

abbreviation newline :: char where "newline \<equiv> CHR 0x0A"
abbreviation carriage_return :: char where "carriage_return \<equiv> CHR 0x0D"
abbreviation tab :: char where "tab \<equiv> CHR 0x09"
abbreviation nul :: char where "nul \<equiv> CHR 0x00"

definition crlf :: string where
  "crlf = [carriage_return, newline]"

definition byte :: "char \<Rightarrow> nat" where
  "byte c = of_char c"

definition tolower :: "char \<Rightarrow> char" where
  "tolower c = (if 65 \<le> byte c \<and> byte c \<le> 90 then char_of (byte c + 32) else c)"

definition isspace :: "char \<Rightarrow> bool" where
  "isspace c \<longleftrightarrow> byte c = 32 \<or> (9 \<le> byte c \<and> byte c \<le> 13)"

definition isdigit :: "char \<Rightarrow> bool" where
  "isdigit c \<longleftrightarrow> 48 \<le> byte c \<and> byte c \<le> 57"

definition isalnum :: "char \<Rightarrow> bool" where
  "isalnum c \<longleftrightarrow> isdigit c \<or> (65 \<le> byte c \<and> byte c \<le> 90) \<or> (97 \<le> byte c \<and> byte c \<le> 122)"

text \<open>\<open>s.c_str()\<close> as a C function sees it: the bytes before the first NUL.\<close>

definition c_str :: "string \<Rightarrow> string" where
  "c_str s = takeWhile (\<lambda>c. c \<noteq> nul) s"

definition has_crlf :: "string \<Rightarrow> bool" where
  "has_crlf s \<longleftrightarrow> (\<exists>c \<in> set s. c = carriage_return \<or> c = newline)"

lemma has_crlf_simps [simp]:
  "\<not> has_crlf []"
  "has_crlf (c # s) \<longleftrightarrow> c = carriage_return \<or> c = newline \<or> has_crlf s"
  "has_crlf (s @ t) \<longleftrightarrow> has_crlf s \<or> has_crlf t"
  by (auto simp: has_crlf_def)

lemma byte_less: "byte c < 256"
  by (simp add: byte_def)

lemma char_of_byte [simp]: "char_of (byte c) = c"
  by (simp add: byte_def)

lemma byte_char_of [simp]: "n < 256 \<Longrightarrow> byte (char_of n) = n"
  by (simp add: byte_def)

lemma byte_inject: "byte c = byte d \<longleftrightarrow> c = d"
  by (simp add: byte_def)

lemma tolower_idem [simp]: "tolower (tolower c) = tolower c"
  by (simp add: tolower_def)

text \<open>Evaluation of the character functions at a literal character.\<close>

lemmas char_eval = tolower_def isspace_def isalnum_def isdigit_def byte_def char_of_def

section \<open>Decimal printing: std::to_string\<close>

fun dec_digits :: "nat \<Rightarrow> string" where
  "dec_digits n =
     (if n < 10 then [char_of (48 + n)] else dec_digits (n div 10) @ [char_of (48 + n mod 10)])"

declare dec_digits.simps [simp del]

definition to_string :: "int \<Rightarrow> string" where
  "to_string i = (if i < 0 then CHR ''-'' # dec_digits (nat (- i)) else dec_digits (nat i))"

definition dec_value :: "string \<Rightarrow> nat" where
  "dec_value s = foldl (\<lambda>acc c. acc * 10 + (byte c - 48)) 0 s"

lemma dec_value_digits [simp]: "dec_value (dec_digits n) = n"
proof (induction n rule: dec_digits.induct)
  case (1 n)
  show ?case
  proof (cases "n < 10")
    case True
    then show ?thesis by (subst dec_digits.simps) (simp add: dec_value_def)
  next
    case False
    with 1 have "dec_value (dec_digits (n div 10)) = n div 10" by simp
    with False show ?thesis by (subst dec_digits.simps) (simp add: dec_value_def)
  qed
qed

lemma dec_digits_inject [key_facts]: "dec_digits m = dec_digits n \<longleftrightarrow> m = n"
  by (metis dec_value_digits)

lemma dec_digits_isdigit: "c \<in> set (dec_digits n) \<Longrightarrow> isdigit c"
proof (induction n rule: dec_digits.induct)
  case (1 n)
  show ?case
  proof (cases "n < 10")
    case True
    with "1.prems" show ?thesis
      by (simp add: dec_digits.simps [of n] isdigit_def)
  next
    case False
    with 1 show ?thesis
      by (auto simp: dec_digits.simps [of n] isdigit_def)
  qed
qed

lemma dec_digits_nonempty [simp]: "dec_digits n \<noteq> []"
  by (subst dec_digits.simps) simp

lemma not_isdigit_newline [simp]: "\<not> isdigit newline" "\<not> isdigit CHR ''-''"
  by (simp_all add: isdigit_def byte_def)

lemma newline_notin_digits [simp, key_facts]: "newline \<notin> set (dec_digits n)"
  using dec_digits_isdigit [of newline n] by auto

lemma hd_digits_isdigit: "isdigit (hd (dec_digits n))"
  by (rule dec_digits_isdigit [of _ n]) simp

lemma newline_notin_to_string [simp, key_facts]: "newline \<notin> set (to_string i)"
  by (simp add: to_string_def)

lemma minus_notin_digits: "CHR ''-'' # s \<noteq> dec_digits n"
proof
  assume eq: "CHR ''-'' # s = dec_digits n"
  have "isdigit (hd (CHR ''-'' # s))"
    unfolding eq by (rule hd_digits_isdigit)
  then show False by simp
qed

lemma to_string_inject [key_facts]: "to_string i = to_string j \<longleftrightarrow> i = j"
  using minus_notin_digits minus_notin_digits [symmetric]
  by (auto simp: to_string_def dec_digits_inject nat_eq_iff2 dest: sym split: if_splits)

section \<open>Separated keys\<close>

text \<open>
  The sources build their table keys by joining fields with newlines. A join can be taken apart
  where the part before (or after) the separator does not contain it.
\<close>

lemma append_sep_first:
  assumes "x \<notin> set a" and "x \<notin> set a'"
  shows "a @ x # b = a' @ x # b' \<longleftrightarrow> a = a' \<and> b = b'"
  using assms
proof (induction a arbitrary: a')
  case Nil
  then show ?case by (cases a') auto
next
  case (Cons y a)
  then show ?case by (cases a') auto
qed

lemma append_sep_last:
  assumes "x \<notin> set b" and "x \<notin> set b'"
  shows "a @ x # b = a' @ x # b' \<longleftrightarrow> a = a' \<and> b = b'"
proof -
  have "a @ x # b = a' @ x # b' \<longleftrightarrow> rev b @ x # rev a = rev b' @ x # rev a'"
    by (metis append.assoc append_Cons append_Nil rev.simps(2) rev_append rev_is_rev_conv)
  also have "\<dots> \<longleftrightarrow> rev b = rev b' \<and> rev a = rev a'"
    using assms by (intro append_sep_first) auto
  finally show ?thesis by auto
qed

lemma append_sep_last2:
  assumes "x \<notin> set b" "x \<notin> set b'" "x \<notin> set c" "x \<notin> set c'"
  shows "a @ x # b @ x # c = a' @ x # b' @ x # c' \<longleftrightarrow> a = a' \<and> b = b' \<and> c = c'"
  using append_sep_last [OF assms(3,4), of "a @ x # b" "a' @ x # b'"] append_sep_last [OF assms(1,2)]
  by auto

lemma append_sep_last3:
  assumes "x \<notin> set b" "x \<notin> set b'" "x \<notin> set c" "x \<notin> set c'" "x \<notin> set d" "x \<notin> set d'"
  shows "a @ x # b @ x # c @ x # d = a' @ x # b' @ x # c' @ x # d'
    \<longleftrightarrow> a = a' \<and> b = b' \<and> c = c' \<and> d = d'"
  using append_sep_last [OF assms(5,6), of "a @ x # b @ x # c" "a' @ x # b' @ x # c'"]
    append_sep_last2 [OF assms(1,2,3,4)]
  by auto

text \<open>
  An interface: a printed key that identifies its parameters. The tables of the selector, the
  resolver and the connection pool rely on it; each component interprets it with its own key
  function.
\<close>

locale table_key =
  fixes key :: "'a \<Rightarrow> string" and valid :: "'a \<Rightarrow> bool"
  assumes key_inject: "valid x \<Longrightarrow> valid y \<Longrightarrow> key x = key y \<Longrightarrow> x = y"
begin

lemma key_distinct: "valid x \<Longrightarrow> valid y \<Longrightarrow> x \<noteq> y \<Longrightarrow> key x \<noteq> key y"
  using key_inject by blast

lemma update_other:
  "valid x \<Longrightarrow> valid y \<Longrightarrow> x \<noteq> y \<Longrightarrow>
     map_of (AList.update (key x) v m) (key y) = map_of m (key y)"
  using key_distinct [of x y] by (simp add: update_conv)

lemma delete_other:
  "valid x \<Longrightarrow> valid y \<Longrightarrow> x \<noteq> y \<Longrightarrow>
     map_of (AList.delete (key x) m) (key y) = map_of m (key y)"
  using key_distinct [of x y] by (simp add: delete_conv)

end

section \<open>Substring search: std::string::find\<close>

fun find_sub :: "string \<Rightarrow> string \<Rightarrow> nat option" where
  "find_sub p [] = (if p = [] then Some 0 else None)"
| "find_sub p (x # xs) =
     (if take (length p) (x # xs) = p then Some 0 else map_option Suc (find_sub p xs))"

lemma find_sub_Some:
  "find_sub p s = Some i \<Longrightarrow> take (length p) (drop i s) = p \<and> i + length p \<le> length s"
proof (induction s arbitrary: i)
  case Nil
  then show ?case by (auto split: if_splits)
next
  case (Cons x xs)
  show ?case
  proof (cases "take (length p) (x # xs) = p")
    case True
    then have "length p \<le> length (x # xs)"
      by (metis length_take min.absorb_iff2 min.commute)
    with True Cons.prems show ?thesis by auto
  next
    case False
    with Cons.prems obtain j where "find_sub p xs = Some j" and "i = Suc j"
      by (auto split: if_splits)
    with Cons.IH show ?thesis by auto
  qed
qed

lemma find_sub_split:
  assumes "find_sub p s = Some i"
  shows "s = take i s @ p @ drop (i + length p) s"
proof -
  from find_sub_Some [OF assms] have p: "take (length p) (drop i s) = p" by simp
  have "s = take i s @ drop i s" by simp
  also have "drop i s = take (length p) (drop i s) @ drop (length p) (drop i s)"
    by (rule append_take_drop_id [symmetric])
  finally show ?thesis by (simp add: p add.commute)
qed

lemma find_sub_bound: "find_sub p s = Some i \<Longrightarrow> i + length p \<le> length s"
  using find_sub_Some by blast

section \<open>Hash tables\<close>

type_synonym ('k, 'v) table = "('k \<times> 'v) list"
type_synonym ('k, 'v) hash_order = "('k, 'v) table \<Rightarrow> nat"

definition iterate :: "('k, 'v) hash_order \<Rightarrow> ('k, 'v) table \<Rightarrow> ('k \<times> 'v) list" where
  "iterate ho m = rotate (ho m) m"

lemma set_iterate [simp]: "set (iterate ho m) = set m"
  by (simp add: iterate_def)

lemma iterate_Nil [simp]: "iterate ho m = [] \<longleftrightarrow> m = []"
  by (simp add: iterate_def)

text \<open>\<open>m.begin()\<close>, as the key it refers to.\<close>

definition begin_key :: "('k, 'v) hash_order \<Rightarrow> ('k, 'v) table \<Rightarrow> 'k option" where
  "begin_key ho m = (case iterate ho m of [] \<Rightarrow> None | (k, _) # _ \<Rightarrow> Some k)"

text \<open>
  The scan for the oldest entry among those that may be evicted: the first strict minimum in
  iteration order.
\<close>

fun scan_oldest :: "('v \<Rightarrow> int) \<Rightarrow> ('v \<Rightarrow> bool) \<Rightarrow> ('k \<times> 'v) list \<Rightarrow> ('k \<times> 'v) option \<Rightarrow> ('k \<times> 'v) option"
where
  "scan_oldest age idle [] best = best"
| "scan_oldest age idle ((k, v) # rest) best =
     (if \<not> idle v then scan_oldest age idle rest best
      else if (case best of None \<Rightarrow> True | Some (_, b) \<Rightarrow> age v < age b)
        then scan_oldest age idle rest (Some (k, v))
      else scan_oldest age idle rest best)"

definition oldest_key :: "('k, 'v) hash_order \<Rightarrow> ('v \<Rightarrow> int) \<Rightarrow> ('v \<Rightarrow> bool) \<Rightarrow> ('k, 'v) table \<Rightarrow> 'k option"
where
  "oldest_key ho age idle m = map_option fst (scan_oldest age idle (iterate ho m) None)"

lemma scan_oldest_mem:
  "scan_oldest age idle xs best = Some (k, v) \<Longrightarrow>
     (best = Some (k, v)) \<or> ((k, v) \<in> set xs \<and> idle v)"
  by (induction age idle xs best rule: scan_oldest.induct) (auto split: if_splits)

lemma scan_oldest_None:
  "scan_oldest age idle xs best = None \<longleftrightarrow> best = None \<and> (\<forall>(k, v) \<in> set xs. \<not> idle v)"
  by (induction age idle xs best rule: scan_oldest.induct) (auto split: option.splits)

lemma scan_oldest_min:
  assumes "scan_oldest age idle xs best = Some (k, v)"
  shows "(\<forall>(k', v') \<in> set xs. idle v' \<longrightarrow> age v \<le> age v')
    \<and> (\<forall>k' v'. best = Some (k', v') \<longrightarrow> age v \<le> age v')"
  using assms
proof (induction age idle xs best rule: scan_oldest.induct)
  case (1 age idle best)
  then show ?case by simp
next
  case (2 age idle k' v' rest best)
  show ?case
  proof (cases "idle v'")
    case False
    with 2 show ?thesis by auto
  next
    case True
    show ?thesis
    proof (cases "case best of None \<Rightarrow> True | Some (_, b) \<Rightarrow> age v' < age b")
      case younger: True
      with 2 True have "scan_oldest age idle rest (Some (k', v')) = Some (k, v)"
        by (simp split: option.splits prod.splits)
      with 2(2) [OF _ younger] True younger show ?thesis
        by (fastforce split: option.splits)
    next
      case older: False
      then obtain kb b where b: "best = Some (kb, b)" and le: "age b \<le> age v'"
        by (auto split: option.splits)
      with 2 True older have res: "scan_oldest age idle rest best = Some (k, v)"
        by auto
      with 2(3) True older have ih: "(\<forall>(k', v') \<in> set rest. idle v' \<longrightarrow> age v \<le> age v')
          \<and> (\<forall>k' v'. best = Some (k', v') \<longrightarrow> age v \<le> age v')"
        by blast
      with b have "age v \<le> age b" by blast
      with le ih show ?thesis by auto
    qed
  qed
qed

text \<open>
  Making room in a bounded table: when it is full and the key is new, one entry is erased. The
  contract of the choice of the victim is an interface; the generic bound is proved inside it.
\<close>

definition make_room :: "(('k, 'v) table \<Rightarrow> 'k option) \<Rightarrow> nat \<Rightarrow> 'k \<Rightarrow> ('k, 'v) table \<Rightarrow> ('k, 'v) table" where
  "make_room victim cap k m =
     (if cap \<le> length m \<and> map_of m k = None
      then (case victim m of None \<Rightarrow> m | Some d \<Rightarrow> AList.delete d m) else m)"

definition keys_distinct :: "('k, 'v) table \<Rightarrow> bool" where
  "keys_distinct m \<longleftrightarrow> distinct (map fst m)"

lemma keys_distinct_update [simp, table_facts]: "keys_distinct m \<Longrightarrow> keys_distinct (AList.update k v m)"
  by (simp add: keys_distinct_def distinct_update)

lemma keys_distinct_delete [simp, table_facts]: "keys_distinct m \<Longrightarrow> keys_distinct (AList.delete k m)"
  by (simp add: keys_distinct_def distinct_delete)

lemma keys_distinct_filter [simp, table_facts]: "keys_distinct m \<Longrightarrow> keys_distinct (filter P m)"
  by (simp add: keys_distinct_def distinct_map_filter)

lemma keys_distinct_Nil [simp, table_facts]: "keys_distinct []"
  by (simp add: keys_distinct_def)

lemma length_update: 
  "length (AList.update k v m) = (if map_of m k = None then Suc (length m) else length m)"
  by (induction m) auto

lemma length_delete_le [simp]: "length (AList.delete k m) \<le> length m"
  by (simp add: AList.delete_eq)

lemma length_delete:
  "keys_distinct m \<Longrightarrow> map_of m k \<noteq> None \<Longrightarrow> Suc (length (AList.delete k m)) = length m"
proof (induction m)
  case Nil
  then show ?case by simp
next
  case (Cons p m)
  obtain a b where p: "p = (a, b)" by (cases p)
  show ?case
  proof (cases "a = k")
    case True
    with Cons.prems p have "AList.delete k m = m"
      by (simp add: keys_distinct_def delete_idem)
    with True p show ?thesis by simp
  next
    case False
    with Cons p show ?thesis by (simp add: keys_distinct_def)
  qed
qed

lemma make_room_distinct [simp, table_facts]: "keys_distinct m \<Longrightarrow> keys_distinct (make_room victim cap k m)"
  by (auto simp: make_room_def split: option.splits)

locale eviction =
  fixes victim :: "('k, 'v) table \<Rightarrow> 'k option"
  assumes victim_mem: "victim m = Some d \<Longrightarrow> map_of m d \<noteq> None"
    and victim_some: "m \<noteq> [] \<Longrightarrow> victim m \<noteq> None"
begin

lemma make_room_length:
  assumes "keys_distinct m" and "length m \<le> cap" and "0 < cap"
  shows "length (AList.update k v (make_room victim cap k m)) \<le> cap"
proof (cases "cap \<le> length m \<and> map_of m k = None")
  case True
  with assms have "m \<noteq> []" by auto
  then obtain d where d: "victim m = Some d" using victim_some by blast
  with victim_mem have "map_of m d \<noteq> None" by blast
  with assms(1) have "Suc (length (AList.delete d m)) = length m"
    by (rule length_delete)
  with True d assms(2) show ?thesis
    by (simp add: make_room_def length_update)
next
  case False
  with assms show ?thesis
    by (auto simp: make_room_def length_update)
qed

lemma make_room_keeps:
  assumes "map_of m k \<noteq> None"
  shows "make_room victim cap k m = m"
  using assms by (auto simp: make_room_def)

lemma make_room_lookup:
  "map_of (make_room victim cap k m) j = None \<or> map_of (make_room victim cap k m) j = map_of m j"
  by (auto simp: make_room_def delete_conv split: option.splits)

end

interpretation begin_evict: eviction "begin_key ho" for ho :: "('k, 'v) hash_order"
proof
  fix m :: "('k, 'v) table" and d
  assume "begin_key ho m = Some d"
  then obtain v rest where "iterate ho m = (d, v) # rest"
    by (auto simp: begin_key_def split: list.splits)
  then have "(d, v) \<in> set m"
    by (metis list.set_intros(1) set_iterate)
  then show "map_of m d \<noteq> None"
    by (metis option.distinct(1) weak_map_of_SomeI)
next
  fix m :: "('k, 'v) table"
  assume "m \<noteq> []"
  then show "begin_key ho m \<noteq> None"
    using iterate_Nil [of ho m] by (auto simp: begin_key_def split: list.splits)
qed

interpretation oldest_evict: eviction "oldest_key ho age (\<lambda>_. True)"
  for ho :: "('k, 'v) hash_order" and age
proof
  fix m :: "('k, 'v) table" and d
  assume "oldest_key ho age (\<lambda>_. True) m = Some d"
  then obtain v where "(d, v) \<in> set m"
    by (auto simp: oldest_key_def dest!: scan_oldest_mem)
  then show "map_of m d \<noteq> None"
    by (metis option.distinct(1) weak_map_of_SomeI)
next
  fix m :: "('k, 'v) table"
  assume "m \<noteq> []"
  then show "oldest_key ho age (\<lambda>_. True) m \<noteq> None"
    by (cases m) (auto simp: oldest_key_def scan_oldest_None)
qed

end
