(* ===== verification/Api_Types.thy ===== *)
theory Api_Types
  imports Prelude
begin

text \<open>
  The data that crosses the component boundaries: the result codes, enumerations and C structs of
  \<open>public/asternet/asternet.h\<close>, and the engine-level \<open>Request\<close> and \<open>Response\<close> of
  \<open>engine/engine.h\<close>.

  Result codes stay integers, because every function of the core returns an \<open>int\<close> and the code
  compares codes numerically. Enumerations that a C caller can fill with any integer carry an
  extra constructor for a value outside the enumerators (the \<open>default:\<close> branches of the code
  handle it). A nullable \<open>const char *\<close> is a \<open>string option\<close>; the string holds the bytes before
  the terminating NUL.
\<close>

section \<open>Result codes\<close>

definition ASTERNET_OK :: int where [simp]: "ASTERNET_OK = 0"
definition ASTERNET_ERR_ABI_VERSION :: int where [simp]: "ASTERNET_ERR_ABI_VERSION = -1"
definition ASTERNET_ERR_INVALID_ARGUMENT :: int where [simp]: "ASTERNET_ERR_INVALID_ARGUMENT = -2"
definition ASTERNET_ERR_NOT_INITIALIZED :: int where [simp]: "ASTERNET_ERR_NOT_INITIALIZED = -3"
definition ASTERNET_ERR_OUT_OF_MEMORY :: int where [simp]: "ASTERNET_ERR_OUT_OF_MEMORY = -4"
definition ASTERNET_ERR_TIMEOUT :: int where [simp]: "ASTERNET_ERR_TIMEOUT = -5"
definition ASTERNET_ERR_DNS :: int where [simp]: "ASTERNET_ERR_DNS = -6"
definition ASTERNET_ERR_CONNECT :: int where [simp]: "ASTERNET_ERR_CONNECT = -7"
definition ASTERNET_ERR_TLS :: int where [simp]: "ASTERNET_ERR_TLS = -8"
definition ASTERNET_ERR_PROTOCOL :: int where [simp]: "ASTERNET_ERR_PROTOCOL = -9"
definition ASTERNET_ERR_CANCELED :: int where [simp]: "ASTERNET_ERR_CANCELED = -10"
definition ASTERNET_ERR_DEGRADED :: int where [simp]: "ASTERNET_ERR_DEGRADED = -11"
definition ASTERNET_ERR_NETWORK_CHANGED :: int where [simp]: "ASTERNET_ERR_NETWORK_CHANGED = -12"
definition ASTERNET_ERR_UNSUPPORTED :: int where [simp]: "ASTERNET_ERR_UNSUPPORTED = -13"
definition ASTERNET_ERR_BUFFER_TOO_SMALL :: int where [simp]: "ASTERNET_ERR_BUFFER_TOO_SMALL = -14"
definition ASTERNET_ERR_INTERNAL :: int where [simp]: "ASTERNET_ERR_INTERNAL = -100"

section \<open>Enumerations\<close>

datatype asternet_protocol = PROTOCOL_UNKNOWN | PROTOCOL_HTTP_1_1 | PROTOCOL_HTTP_2 | PROTOCOL_HTTP_3

fun protocol_code :: "asternet_protocol \<Rightarrow> int" where
  "protocol_code PROTOCOL_UNKNOWN = 0"
| "protocol_code PROTOCOL_HTTP_1_1 = 1"
| "protocol_code PROTOCOL_HTTP_2 = 2"
| "protocol_code PROTOCOL_HTTP_3 = 3"

lemma protocol_code_inject [simp]: "protocol_code p = protocol_code q \<longleftrightarrow> p = q"
  by (cases p; cases q) auto

datatype asternet_policy =
    POLICY_AUTO | POLICY_HTTP_1_1_ONLY | POLICY_HTTP_2_ONLY | POLICY_HTTP_3_ONLY
  | POLICY_PREFER_HTTP_3 | POLICY_PREFER_HTTP_2 | POLICY_OTHER int

text \<open>\<open>static_cast<asternet_protocol_policy_t>(n)\<close> and back.\<close>

definition policy_of_int :: "int \<Rightarrow> asternet_policy" where
  "policy_of_int n =
     (if n = 0 then POLICY_AUTO else if n = 1 then POLICY_HTTP_1_1_ONLY
      else if n = 2 then POLICY_HTTP_2_ONLY else if n = 3 then POLICY_HTTP_3_ONLY
      else if n = 4 then POLICY_PREFER_HTTP_3 else if n = 5 then POLICY_PREFER_HTTP_2
      else POLICY_OTHER n)"

fun policy_code :: "asternet_policy \<Rightarrow> int" where
  "policy_code POLICY_AUTO = 0"
| "policy_code POLICY_HTTP_1_1_ONLY = 1"
| "policy_code POLICY_HTTP_2_ONLY = 2"
| "policy_code POLICY_HTTP_3_ONLY = 3"
| "policy_code POLICY_PREFER_HTTP_3 = 4"
| "policy_code POLICY_PREFER_HTTP_2 = 5"
| "policy_code (POLICY_OTHER n) = n"

text \<open>A policy as it can arise from an integer: the extra constructor only for other integers.\<close>

definition policy_wf :: "asternet_policy \<Rightarrow> bool" where
  "policy_wf p \<longleftrightarrow> policy_of_int (policy_code p) = p"

lemma policy_code_inject: "policy_wf p \<Longrightarrow> policy_wf q \<Longrightarrow> policy_code p = policy_code q \<Longrightarrow> p = q"
  by (metis policy_wf_def)

lemma policy_wf_of_int [simp]: "policy_wf (policy_of_int n)"
  by (auto simp: policy_wf_def policy_of_int_def)

datatype asternet_network =
    NETWORK_UNKNOWN | NETWORK_NONE | NETWORK_WIFI | NETWORK_CELLULAR | NETWORK_ETHERNET
  | NETWORK_OTHER int

definition network_of_int :: "int \<Rightarrow> asternet_network" where
  "network_of_int n =
     (if n = 0 then NETWORK_UNKNOWN else if n = 1 then NETWORK_NONE else if n = 2 then NETWORK_WIFI
      else if n = 3 then NETWORK_CELLULAR else if n = 4 then NETWORK_ETHERNET else NETWORK_OTHER n)"

fun network_code :: "asternet_network \<Rightarrow> int" where
  "network_code NETWORK_UNKNOWN = 0"
| "network_code NETWORK_NONE = 1"
| "network_code NETWORK_WIFI = 2"
| "network_code NETWORK_CELLULAR = 3"
| "network_code NETWORK_ETHERNET = 4"
| "network_code (NETWORK_OTHER n) = n"

lemma network_code_of_int [simp]: "network_code (network_of_int n) = n"
  by (simp add: network_of_int_def)

datatype asternet_quality =
    QUALITY_UNKNOWN | QUALITY_GOOD | QUALITY_DEGRADED | QUALITY_BAD | QUALITY_OFFLINE

section \<open>The structs of the C ABI\<close>

record c_header =
  ch_name :: "string option"
  ch_value :: "string option"

record client_config =
  cfg_struct_size :: nat
  cfg_abi_version :: "32 word"
  cfg_default_timeout_ms :: int
  cfg_max_response_body_bytes :: int
  cfg_enable_http3 :: int
  cfg_allow_insecure_tls_for_testing :: int
  cfg_ca_cert_pem :: "string option"
  cfg_allow_private_networks :: int

text \<open>
  \<open>headers\<close> and \<open>body\<close> are pointers with a separate count; the pointed-to array has at least
  that many elements where it is not null, as the ABI requires of its caller.
\<close>

record c_request =
  cr_host :: "string option"
  cr_port :: nat
  cr_method :: "string option"
  cr_path :: "string option"
  cr_headers :: "c_header list option"
  cr_header_count :: nat
  cr_body :: "string option"
  cr_body_len :: nat
  cr_protocol_policy :: asternet_policy
  cr_timeout_ms :: int
  cr_idempotent :: int
  cr_allow_insecure_tls_for_testing :: int

record response_info =
  ri_result :: int
  ri_http_status :: int
  ri_protocol :: asternet_protocol
  ri_degraded :: int
  ri_body_size :: nat
  ri_body_copied :: nat
  ri_dns_ms :: int
  ri_connect_ms :: int
  ri_tls_ms :: int
  ri_ttfb_ms :: int
  ri_total_ms :: int

record public_snapshot =
  pq_score :: int
  pq_quality :: asternet_quality
  pq_network :: asternet_network
  pq_samples :: nat
  pq_probe_count :: nat
  pq_success_samples :: nat
  pq_failure_samples :: nat
  pq_consecutive_failures :: nat
  pq_total_failures :: nat
  pq_smoothed_rtt_ms :: int
  pq_loss_permil :: int
  pq_bandwidth_kbps :: int
  pq_last_quality_change_ms :: int
  pq_last_sample_ms :: int
  pq_network_epoch :: nat

section \<open>Engines: requests and responses\<close>

datatype engine_type = kHttp1 | kHttp2 | kHttp3 | kCronet

text \<open>The enumerators are ordered as they are declared, i.e. by the protocol's generation.\<close>

fun engine_rank :: "engine_type \<Rightarrow> nat" where
  "engine_rank kHttp1 = 0"
| "engine_rank kHttp2 = 1"
| "engine_rank kHttp3 = 2"
| "engine_rank kCronet = 3"

lemma engine_rank_inject [simp]: "engine_rank a = engine_rank b \<longleftrightarrow> a = b"
  by (cases a; cases b) auto

instantiation engine_type :: linorder
begin

definition less_eq_engine_type :: "engine_type \<Rightarrow> engine_type \<Rightarrow> bool" where
  "less_eq_engine_type a b \<longleftrightarrow> engine_rank a \<le> engine_rank b"

definition less_engine_type :: "engine_type \<Rightarrow> engine_type \<Rightarrow> bool" where
  "less_engine_type a b \<longleftrightarrow> engine_rank a < engine_rank b"

instance
  by standard (auto simp: less_eq_engine_type_def less_engine_type_def intro: antisym)

end

record header =
  h_name :: string
  h_value :: string

record request =
  req_host :: string
  req_connect_host :: string
  req_port :: nat
  req_method :: string
  req_path :: string
  req_body :: string
  req_headers :: "header list"
  req_timeout_ms :: int
  req_idempotent :: bool
  req_retry_safe :: bool
  req_allow_insecure :: bool
  req_ca_cert_pem :: string
  req_max_body :: nat
  req_dns_ms :: int
  req_network_epoch :: nat

definition default_request :: request where
  "default_request =
     \<lparr>req_host = [], req_connect_host = [], req_port = 443, req_method = ''GET'', req_path = ''/'',
      req_body = [], req_headers = [], req_timeout_ms = 15000, req_idempotent = False,
      req_retry_safe = False, req_allow_insecure = False, req_ca_cert_pem = [],
      req_max_body = 16 * 1024 * 1024, req_dns_ms = -1, req_network_epoch = 0\<rparr>"

record response =
  resp_err_code :: int
  resp_http_status :: int
  resp_protocol :: asternet_protocol
  resp_degraded :: bool
  resp_body :: string
  resp_dns_ms :: int
  resp_connect_ms :: int
  resp_tls_ms :: int
  resp_ttfb_ms :: int
  resp_total_ms :: int
  resp_connection_reused :: bool
  resp_attempts :: int
  resp_failure_stage :: string

definition default_response :: response where
  "default_response =
     \<lparr>resp_err_code = 0, resp_http_status = 0, resp_protocol = PROTOCOL_UNKNOWN,
      resp_degraded = False, resp_body = [], resp_dns_ms = -1, resp_connect_ms = -1,
      resp_tls_ms = -1, resp_ttfb_ms = -1, resp_total_ms = -1, resp_connection_reused = False,
      resp_attempts = 1, resp_failure_stage = []\<rparr>"

lemma default_response_simps [simp]:
  "resp_err_code default_response = 0"
  "resp_http_status default_response = 0"
  "resp_protocol default_response = PROTOCOL_UNKNOWN"
  "resp_degraded default_response = False"
  "resp_body default_response = []"
  "resp_dns_ms default_response = -1"
  "resp_connect_ms default_response = -1"
  "resp_tls_ms default_response = -1"
  "resp_ttfb_ms default_response = -1"
  "resp_total_ms default_response = -1"
  "resp_connection_reused default_response = False"
  "resp_attempts default_response = 1"
  "resp_failure_stage default_response = []"
  by (simp_all add: default_response_def)

text \<open>
  \<open>NetworkEngine::request\<close> is synchronous: it takes the request and the world (sockets, peers,
  clocks, the engine's own connection state) and returns the result code, the response it filled
  in and the world after it. The callers pass it a default-constructed response.
\<close>

type_synonym 'w engine = "request \<Rightarrow> 'w \<Rightarrow> int \<times> response \<times> 'w"

text \<open>
  What every engine of the program keeps: the code it returns is the one it stores in the
  response, the protocol it reports is its own, and a successful response fits the body limit of
  its request.
\<close>

definition engine_contract :: "asternet_protocol \<Rightarrow> 'w engine \<Rightarrow> bool" where
  "engine_contract p e \<longleftrightarrow>
     (\<forall>req w ret resp w'. e req w = (ret, resp, w') \<longrightarrow>
        resp_err_code resp = ret \<and> resp_protocol resp = p
        \<and> (ret = ASTERNET_OK \<longrightarrow> length (resp_body resp) \<le> req_max_body req))"

lemma engine_contractD:
  "engine_contract p e \<Longrightarrow> e req w = (ret, resp, w') \<Longrightarrow>
     resp_err_code resp = ret \<and> resp_protocol resp = p
     \<and> (ret = ASTERNET_OK \<longrightarrow> length (resp_body resp) \<le> req_max_body req)"
  unfolding engine_contract_def by blast

lemma engine_contractI:
  assumes "\<And>req w ret resp w'. e req w = (ret, resp, w') \<Longrightarrow>
     resp_err_code resp = ret \<and> resp_protocol resp = p
     \<and> (ret = ASTERNET_OK \<longrightarrow> length (resp_body resp) \<le> req_max_body req)"
  shows "engine_contract p e"
  using assms unfolding engine_contract_def by blast

end
