(* ===== verification/Protocol.thy ===== *)
theory Protocol
  imports Api_Types
begin

unbundle bit_operations_syntax

text \<open>
  \<open>protocol/protocol.cpp\<close>: the length-prefixed message codec and the adapter from a gateway
  request to an engine request. Bytes on the wire are \<open>8 word\<close>s, the length prefix is a
  \<open>32 word\<close> assembled and taken apart by shifts as in the code. The lemmas show that decoding
  inverts encoding and the other way round, which errors are reported for which input, and that
  an adapted request cannot smuggle a header or a request line.
\<close>

section \<open>LengthPrefixedCodec\<close>

type_synonym bytes = "8 word list"

definition byte_of :: "char \<Rightarrow> 8 word" where
  "byte_of c = word_of_nat (byte c)"

definition char_of_byte8 :: "8 word \<Rightarrow> char" where
  "char_of_byte8 b = char_of (unat b)"

lemma unat_byte8_less: "unat (b :: 8 word) < 256"
  using unsigned_less [of b] by simp

lemma char_of_byte_of [simp]: "char_of_byte8 (byte_of c) = c"
  by (simp add: char_of_byte8_def byte_of_def unat_of_nat byte_less)

lemma byte_of_char_of [simp]: "byte_of (char_of_byte8 b) = b"
  by (simp add: char_of_byte8_def byte_of_def unat_byte8_less)

record codec =
  max_message_bytes :: nat

definition LengthPrefixedCodec :: "nat \<Rightarrow> codec" where
  "LengthPrefixedCodec n = \<lparr>max_message_bytes = (if n = 0 then 1 else n)\<rparr>"

definition codec_encode :: "codec \<Rightarrow> string \<Rightarrow> int + bytes" where
  "codec_encode c plain =
     (if length plain > max_message_bytes c \<or> length plain > 2 ^ 32 - 1
      then Inl ASTERNET_ERR_BUFFER_TOO_SMALL
      else
        let size = (word_of_nat (length plain) :: 32 word) in
        Inr ([ucast (drop_bit 24 size AND 0xff),
              ucast (drop_bit 16 size AND 0xff),
              ucast (drop_bit 8 size AND 0xff),
              ucast (size AND 0xff)] @ map byte_of plain))"

definition codec_decode :: "codec \<Rightarrow> bytes option \<Rightarrow> int + string" where
  "codec_decode c wire =
     (case wire of
        Some (b0 # b1 # b2 # b3 # payload) \<Rightarrow>
          let size = push_bit 24 (ucast b0 :: 32 word) OR push_bit 16 (ucast b1)
                       OR push_bit 8 (ucast b2) OR ucast b3;
              wire_size = 4 + length payload
          in if unat size > max_message_bytes c \<or> wire_size \<noteq> 4 + unat size
             then Inl (if unat size > max_message_bytes c
                       then ASTERNET_ERR_BUFFER_TOO_SMALL else ASTERNET_ERR_PROTOCOL)
             else Inr (map char_of_byte8 (take (unat size) payload))
      | _ \<Rightarrow> Inl ASTERNET_ERR_PROTOCOL)"

lemma low_byte: "(x :: 32 word) AND 0xff = take_bit 8 x"
  by (simp add: take_bit_eq_mask mask_eq_exp_minus_1)

definition prefix_word :: "8 word \<Rightarrow> 8 word \<Rightarrow> 8 word \<Rightarrow> 8 word \<Rightarrow> 32 word" where
  "prefix_word b0 b1 b2 b3 =
     push_bit 24 (ucast b0) OR push_bit 16 (ucast b1) OR push_bit 8 (ucast b2) OR ucast b3"

lemma prefix_word_bytes:
  fixes size :: "32 word"
  shows "prefix_word (ucast (drop_bit 24 size AND 0xff)) (ucast (drop_bit 16 size AND 0xff))
           (ucast (drop_bit 8 size AND 0xff)) (ucast (size AND 0xff)) = size"
proof (rule bit_word_eqI)
  fix n
  assume "n < LENGTH(32)"
  then have "n < 8 \<or> 8 \<le> n \<and> n < 16 \<or> 16 \<le> n \<and> n < 24 \<or> 24 \<le> n \<and> n < 32" by auto
  then show "bit (prefix_word (ucast (drop_bit 24 size AND 0xff)) (ucast (drop_bit 16 size AND 0xff))
      (ucast (drop_bit 8 size AND 0xff)) (ucast (size AND 0xff))) n = bit size n"
    by (elim disjE; auto simp: prefix_word_def bit_simps low_byte)
qed

lemma bytes_prefix_word:
  "ucast (drop_bit 24 (prefix_word b0 b1 b2 b3) AND 0xff) = b0"
  "ucast (drop_bit 16 (prefix_word b0 b1 b2 b3) AND 0xff) = b1"
  "ucast (drop_bit 8 (prefix_word b0 b1 b2 b3) AND 0xff) = b2"
  "ucast (prefix_word b0 b1 b2 b3 AND 0xff) = b3"
  by (rule bit_word_eqI, auto simp: prefix_word_def bit_simps low_byte dest: bit_imp_le_length)+

lemma codec_decode_frame:
  "codec_decode c (Some (b0 # b1 # b2 # b3 # payload)) =
     (if unat (prefix_word b0 b1 b2 b3) > max_message_bytes c then Inl ASTERNET_ERR_BUFFER_TOO_SMALL
      else if length payload \<noteq> unat (prefix_word b0 b1 b2 b3) then Inl ASTERNET_ERR_PROTOCOL
      else Inr (map char_of_byte8 payload))"
  by (auto simp: codec_decode_def prefix_word_def Let_def)

lemma codec_encode_ok:
  "codec_encode c plain = Inr wire \<longleftrightarrow>
     length plain \<le> max_message_bytes c \<and> length plain < 2 ^ 32
     \<and> wire = [ucast (drop_bit 24 (word_of_nat (length plain) :: 32 word) AND 0xff),
               ucast (drop_bit 16 (word_of_nat (length plain) :: 32 word) AND 0xff),
               ucast (drop_bit 8 (word_of_nat (length plain) :: 32 word) AND 0xff),
               ucast ((word_of_nat (length plain) :: 32 word) AND 0xff)] @ map byte_of plain"
  by (auto simp: codec_encode_def Let_def)

lemma decode_encode:
  assumes "codec_encode c plain = Inr wire"
  shows "codec_decode c (Some wire) = Inr plain"
proof -
  from assms have len: "length plain \<le> max_message_bytes c" "length plain < 2 ^ 32"
    by (simp_all add: codec_encode_ok)
  then have "unat (word_of_nat (length plain) :: 32 word) = length plain"
    by (simp add: unat_of_nat)
  with assms len show ?thesis
    by (simp add: codec_encode_ok codec_decode_frame prefix_word_bytes comp_def)
qed

lemma encode_decode:
  assumes "codec_decode c (Some wire) = Inr plain"
  shows "codec_encode c plain = Inr wire"
proof -
  from assms obtain b0 b1 b2 b3 payload where wire: "wire = b0 # b1 # b2 # b3 # payload"
    by (auto simp: codec_decode_def split: list.splits)
  let ?n = "prefix_word b0 b1 b2 b3"
  from assms have ok: "unat ?n \<le> max_message_bytes c" "length payload = unat ?n"
      "plain = map char_of_byte8 payload"
    by (auto simp: wire codec_decode_frame split: if_splits)
  then have n: "(word_of_nat (length plain) :: 32 word) = ?n" and len: "length plain = unat ?n"
    by simp_all
  have "length plain < 2 ^ 32"
    unfolding len using unsigned_less [of ?n] by simp
  with ok len show ?thesis
    by (simp add: codec_encode_ok n bytes_prefix_word wire comp_def)
qed

text \<open>
  The frame format is a bijection: for every codec, a byte string decodes to a
  message exactly if it is the encoding of that message. In particular decoding inverts encoding,
  no two messages share a frame, and no frame with trailing or missing bytes is accepted.
\<close>

theorem codec_roundtrip:
  "codec_decode c (Some wire) = Inr plain \<longleftrightarrow> codec_encode c plain = Inr wire"
  using decode_encode encode_decode by blast

lemma encode_error:
  "codec_encode c plain = Inl e \<Longrightarrow>
     e = ASTERNET_ERR_BUFFER_TOO_SMALL \<and> min (max_message_bytes c) (2 ^ 32 - 1) < length plain"
  by (auto simp: codec_encode_def Let_def min_def split: if_splits)

lemma decode_error:
  "codec_decode c wire = Inl e \<Longrightarrow> e = ASTERNET_ERR_BUFFER_TOO_SMALL \<or> e = ASTERNET_ERR_PROTOCOL"
  by (auto simp: codec_decode_def Let_def split: option.splits list.splits if_splits)

section \<open>DefaultGatewayProtocol\<close>

record gateway_request =
  gw_host :: string
  gw_port :: nat
  gw_method :: string
  gw_path :: string
  gw_body :: string
  gw_headers :: "header list"
  gw_policy :: asternet_policy
  gw_timeout_ms :: int
  gw_idempotent :: bool

definition gateway_protected_header :: "string \<Rightarrow> bool" where
  "gateway_protected_header name \<longleftrightarrow>
     name = ''host'' \<or> name = ''content-length'' \<or> name = ''transfer-encoding'' \<or> name = ''connection''"

definition gateway_header_ok :: "header \<Rightarrow> bool" where
  "gateway_header_ok h \<longleftrightarrow>
     \<not> (h_name h = [] \<or> has_crlf (h_name h) \<or> has_crlf (h_value h))
     \<and> \<not> gateway_protected_header (map tolower (h_name h))"

text \<open>
  The guards of \<open>adapt\<close>, in its order; each failing guard returns \<open>INVALID_ARGUMENT\<close>. \<open>adapt\<close>
  fills in an existing engine request and leaves the fields it does not name (for example
  \<open>retry_safe\<close>) as they were.
\<close>

definition gateway_input_ok :: "gateway_request \<Rightarrow> bool" where
  "gateway_input_ok input \<longleftrightarrow>
     \<not> (gw_host input = [] \<or> has_crlf (gw_host input) \<or> gw_port input = 0 \<or> gw_method input = []
         \<or> has_crlf (gw_method input) \<or> CHR '' '' \<in> set (gw_method input))
     \<and> \<not> (gw_path input = [] \<or> hd (gw_path input) \<noteq> CHR ''/'')
     \<and> \<not> (carriage_return \<in> set (gw_path input) \<or> newline \<in> set (gw_path input))
     \<and> list_all gateway_header_ok (gw_headers input)"

definition gateway_adapt :: "gateway_request \<Rightarrow> request \<Rightarrow> int \<times> request" where
  "gateway_adapt input request =
     (if \<not> gateway_input_ok input then (ASTERNET_ERR_INVALID_ARGUMENT, request)
      else (ASTERNET_OK,
        request\<lparr>req_host := gw_host input, req_port := gw_port input, req_method := gw_method input,
          req_path := gw_path input, req_body := gw_body input, req_headers := gw_headers input,
          req_idempotent := gw_idempotent input,
          req_timeout_ms := (if gw_timeout_ms input > 0 then gw_timeout_ms input else 15000)\<rparr>))"

definition request_line_safe :: "request \<Rightarrow> bool" where
  "request_line_safe r \<longleftrightarrow>
     req_host r \<noteq> [] \<and> req_port r \<noteq> 0 \<and> req_method r \<noteq> [] \<and> req_path r \<noteq> []
     \<and> \<not> has_crlf (req_host r) \<and> \<not> has_crlf (req_method r) \<and> \<not> has_crlf (req_path r)
     \<and> CHR '' '' \<notin> set (req_method r)
     \<and> (\<forall>h \<in> set (req_headers r). h_name h \<noteq> [] \<and> \<not> has_crlf (h_name h) \<and> \<not> has_crlf (h_value h)
          \<and> \<not> gateway_protected_header (map tolower (h_name h)))"

text \<open>
  Property C40. An adapted gateway request has a non-empty host, method and path, none of which
  contains a line break (so the request line cannot be split), no header that carries a line
  break or overrides the framing, a positive timeout, and keeps the caller's replay permission:
  the adapter never makes a request replayable.
\<close>

theorem gateway_adapt_safe:
  assumes "gateway_adapt input base = (ASTERNET_OK, r)"
  shows "request_line_safe r \<and> req_timeout_ms r > 0 \<and> req_retry_safe r = req_retry_safe base
    \<and> req_connect_host r = req_connect_host base"
proof -
  from assms have ok: "gateway_input_ok input"
    by (simp add: gateway_adapt_def split: if_splits)
  have path: "\<not> has_crlf (gw_path input)"
    using ok by (auto simp: gateway_input_ok_def has_crlf_def)
  have headers: "\<forall>h \<in> set (gw_headers input). gateway_header_ok h"
    using ok by (simp add: gateway_input_ok_def list_all_iff)
  from assms ok have r: "r = base\<lparr>req_host := gw_host input, req_port := gw_port input,
      req_method := gw_method input, req_path := gw_path input, req_body := gw_body input,
      req_headers := gw_headers input, req_idempotent := gw_idempotent input,
      req_timeout_ms := (if gw_timeout_ms input > 0 then gw_timeout_ms input else 15000)\<rparr>"
    by (simp add: gateway_adapt_def)
  show ?thesis
    using ok path headers unfolding r
    by (simp add: request_line_safe_def gateway_input_ok_def gateway_header_ok_def)
qed

definition sample_gateway_request :: gateway_request where
  "sample_gateway_request =
     \<lparr>gw_host = ''api.example.test'', gw_port = 443, gw_method = ''POST'', gw_path = ''/v1/data'',
      gw_body = ''{}'', gw_headers = [\<lparr>h_name = ''Accept'', h_value = ''text/html''\<rparr>],
      gw_policy = POLICY_AUTO, gw_timeout_ms = 0, gw_idempotent = True\<rparr>"

lemma sample_gateway_adapts:
  "gateway_adapt sample_gateway_request default_request =
     (ASTERNET_OK, snd (gateway_adapt sample_gateway_request default_request))"
proof -
  have "fst (gateway_adapt sample_gateway_request default_request) = ASTERNET_OK"
    by (simp add: sample_gateway_request_def gateway_adapt_def gateway_input_ok_def
        gateway_header_ok_def gateway_protected_header_def char_eval)
  then show ?thesis by (metis prod.collapse)
qed

theorem gateway_adapt_safe_witness:
  "request_line_safe (snd (gateway_adapt sample_gateway_request default_request))"
  using gateway_adapt_safe [OF sample_gateway_adapts] by blast

lemma gateway_adapt_error:
  "gateway_adapt input base = (e, r) \<Longrightarrow> e \<noteq> ASTERNET_OK \<Longrightarrow>
     e = ASTERNET_ERR_INVALID_ARGUMENT \<and> r = base"
  by (simp add: gateway_adapt_def split: if_splits)

end
