(* ===== verification/Quality_Prober.thy ===== *)
theory Quality_Prober
  imports Api_Types
begin

text \<open>
  \<open>sdt/quality_prober.cpp\<close>: scoring of a network sample and the quality state machine
  \<open>UNKNOWN / GOOD / DEGRADED / BAD / OFFLINE\<close> that is driven by request outcomes. Each operation
  holds the prober's mutex for its whole effect, so it is one step on the state. The change
  callback is called after the lock is released: an operation returns the snapshot it would be
  called with, if any. C++ \<open>int\<close>s are HOL integers here; \<open>ema_no_overflow\<close> shows under which bound
  on the samples the smoothing stays within 32 bits.
\<close>

section \<open>Samples and scores\<close>

record quality_sample =
  qs_rtt_ms :: int
  qs_loss_permil :: int
  qs_bandwidth_kbps :: int
  qs_net :: asternet_network

datatype network_quality = kUnknown | kGood | kDegraded | kBad | kOffline

record quality_snapshot =
  q_score :: int
  q_quality :: network_quality
  q_network :: asternet_network
  q_samples :: nat
  q_probe_count :: nat
  q_success_samples :: nat
  q_failure_samples :: nat
  q_consecutive_failures :: nat
  q_total_failures :: nat
  q_smoothed_rtt_ms :: int
  q_loss_permil :: int
  q_bandwidth_kbps :: int
  q_last_probe_ms :: int
  q_last_success_ms :: int
  q_last_failure_ms :: int
  q_last_quality_change_ms :: int
  q_last_sample_ms :: int
  q_network_epoch :: nat

definition default_sample :: quality_sample where
  "default_sample = \<lparr>qs_rtt_ms = -1, qs_loss_permil = -1, qs_bandwidth_kbps = -1, qs_net = NETWORK_UNKNOWN\<rparr>"

definition default_snapshot :: quality_snapshot where
  "default_snapshot =
     \<lparr>q_score = -1, q_quality = kUnknown, q_network = NETWORK_UNKNOWN, q_samples = 0,
      q_probe_count = 0, q_success_samples = 0, q_failure_samples = 0, q_consecutive_failures = 0,
      q_total_failures = 0, q_smoothed_rtt_ms = -1, q_loss_permil = -1, q_bandwidth_kbps = -1,
      q_last_probe_ms = 0, q_last_success_ms = 0, q_last_failure_ms = 0,
      q_last_quality_change_ms = 0, q_last_sample_ms = 0, q_network_epoch = 0\<rparr>"

definition has_metrics :: "quality_sample \<Rightarrow> bool" where
  "has_metrics s \<longleftrightarrow> qs_rtt_ms s \<ge> 0 \<or> qs_loss_permil s \<ge> 0 \<or> qs_bandwidth_kbps s \<ge> 0"

definition rtt_penalty :: "int \<Rightarrow> int" where
  "rtt_penalty rtt =
     (if rtt \<ge> 0 then
        (if rtt \<ge> 2000 then 70 else if rtt \<ge> 1000 then 50 else if rtt \<ge> 500 then 35
         else if rtt \<ge> 300 then 20 else if rtt \<ge> 100 then 10 else 0)
      else 0)"

definition loss_penalty :: "int \<Rightarrow> int" where
  "loss_penalty loss = (if loss \<ge> 0 then min 30 (loss div 2) else 0)"

definition bandwidth_penalty :: "int \<Rightarrow> int" where
  "bandwidth_penalty kbps =
     (if kbps \<ge> 0 then (if kbps < 100 then 20 else if kbps < 500 then 10 else 0) else 0)"

definition compute_score :: "quality_sample \<Rightarrow> int" where
  "compute_score s =
     (if qs_rtt_ms s < 0 \<and> qs_loss_permil s < 0 \<and> qs_bandwidth_kbps s < 0 then -1
      else max 0 (min 100 (100 - rtt_penalty (qs_rtt_ms s) - loss_penalty (qs_loss_permil s)
                             - bandwidth_penalty (qs_bandwidth_kbps s))))"

lemma compute_score_unmeasured: "\<not> has_metrics s \<Longrightarrow> compute_score s = -1"
  by (simp add: compute_score_def has_metrics_def)

lemma compute_score_measured: "has_metrics s \<Longrightarrow> 0 \<le> compute_score s \<and> compute_score s \<le> 100"
  unfolding compute_score_def has_metrics_def by auto

lemma compute_score_range: "-1 \<le> compute_score s \<and> compute_score s \<le> 100"
  using compute_score_unmeasured [of s] compute_score_measured [of s] by (cases "has_metrics s") auto

lemma rtt_penalty_mono: "0 \<le> a \<Longrightarrow> a \<le> b \<Longrightarrow> rtt_penalty a \<le> rtt_penalty b"
  by (simp add: rtt_penalty_def)

lemma loss_penalty_mono: "0 \<le> a \<Longrightarrow> a \<le> b \<Longrightarrow> loss_penalty a \<le> loss_penalty b"
  unfolding loss_penalty_def using zdiv_mono1 [of a b 2] by auto

lemma bandwidth_penalty_mono: "0 \<le> a \<Longrightarrow> a \<le> b \<Longrightarrow> bandwidth_penalty b \<le> bandwidth_penalty a"
  by (simp add: bandwidth_penalty_def)

definition worse_sample :: "quality_sample \<Rightarrow> quality_sample \<Rightarrow> bool" where
  "worse_sample t s \<longleftrightarrow>
     0 \<le> qs_rtt_ms s \<and> qs_rtt_ms s \<le> qs_rtt_ms t
     \<and> 0 \<le> qs_loss_permil s \<and> qs_loss_permil s \<le> qs_loss_permil t
     \<and> 0 \<le> qs_bandwidth_kbps t \<and> qs_bandwidth_kbps t \<le> qs_bandwidth_kbps s"

lemma compute_score_mono:
  assumes "worse_sample t s"
  shows "compute_score t \<le> compute_score s"
proof -
  from assms have "rtt_penalty (qs_rtt_ms s) \<le> rtt_penalty (qs_rtt_ms t)"
      "loss_penalty (qs_loss_permil s) \<le> loss_penalty (qs_loss_permil t)"
      "bandwidth_penalty (qs_bandwidth_kbps s) \<le> bandwidth_penalty (qs_bandwidth_kbps t)"
      "\<not> qs_rtt_ms s < 0" "\<not> qs_rtt_ms t < 0"
    by (simp_all add: worse_sample_def rtt_penalty_mono loss_penalty_mono bandwidth_penalty_mono)
  then show ?thesis
    unfolding compute_score_def by simp
qed

text \<open>
  The score of a sample is -1 exactly when nothing was measured, and lies between 0
  and 100 otherwise; a sample with higher latency, higher loss and lower bandwidth never gets a
  higher score.
\<close>

theorem compute_score_sound:
  "(if has_metrics s then 0 \<le> compute_score s \<and> compute_score s \<le> 100 else compute_score s = -1)
   \<and> (worse_sample t s \<longrightarrow> compute_score t \<le> compute_score s)"
  using compute_score_measured [of s] compute_score_unmeasured [of s] compute_score_mono [of t s]
  by simp

definition slow_sample :: quality_sample where
  "slow_sample = \<lparr>qs_rtt_ms = 700, qs_loss_permil = 40, qs_bandwidth_kbps = 200, qs_net = NETWORK_WIFI\<rparr>"

definition fast_sample :: quality_sample where
  "fast_sample = \<lparr>qs_rtt_ms = 80, qs_loss_permil = 10, qs_bandwidth_kbps = 900, qs_net = NETWORK_WIFI\<rparr>"

theorem compute_score_sound_witness:
  "worse_sample slow_sample fast_sample \<and> compute_score slow_sample \<le> compute_score fast_sample"
proof -
  have w: "worse_sample slow_sample fast_sample"
    by (simp add: worse_sample_def slow_sample_def fast_sample_def)
  with compute_score_sound [of fast_sample slow_sample] show ?thesis by blast
qed

section \<open>The prober\<close>

record prober_config =
  weak_score_threshold :: int
  degraded_score_threshold :: int
  failures_before_bad :: nat
  good_samples_to_recover :: nat

definition default_prober_config :: prober_config where
  "default_prober_config =
     \<lparr>weak_score_threshold = 40, degraded_score_threshold = 65, failures_before_bad = 2,
      good_samples_to_recover = 3\<rparr>"

record prober =
  pr_config :: prober_config
  pr_probe_callback :: bool
  pr_quality_callback :: bool
  pr_snapshot :: quality_snapshot
  pr_consecutive_good :: nat

text \<open>
  \<open>pr_probe_callback\<close> and \<open>pr_quality_callback\<close> say whether the host has installed the callback.
  The suppression guard is the thread-local depth counter, a parameter \<open>depth\<close> of the operations
  that may notify.
\<close>

definition QualityProberImpl :: "prober_config \<Rightarrow> bool \<Rightarrow> prober" where
  "QualityProberImpl cfg cb =
     \<lparr>pr_config = cfg, pr_probe_callback = cb, pr_quality_callback = False,
      pr_snapshot = default_snapshot, pr_consecutive_good = 0\<rparr>"

definition update_loss :: "quality_snapshot \<Rightarrow> quality_snapshot" where
  "update_loss q =
     q\<lparr>q_loss_permil := int (min 1000 (q_total_failures q * 1000 div max 1 (q_samples q)))\<rparr>"

definition ema :: "int \<Rightarrow> int \<Rightarrow> int" where
  "ema old new = (old * 7 + new * 3) div 10"

text \<open>The two branches of \<open>observe_sample\<close>; \<open>c\<close> is the snapshot with the sample counted in.\<close>

definition observe_failure :: "prober_config \<Rightarrow> int \<Rightarrow> quality_snapshot \<Rightarrow> quality_snapshot" where
  "observe_failure cfg now c0 =
     (let c = update_loss (c0\<lparr>q_failure_samples := q_failure_samples c0 + 1,
                              q_total_failures := q_total_failures c0 + 1,
                              q_consecutive_failures := q_consecutive_failures c0 + 1,
                              q_last_failure_ms := now\<rparr>)
      in if q_network c = NETWORK_NONE then c\<lparr>q_quality := kOffline, q_score := 0\<rparr>
         else if q_consecutive_failures c \<ge> failures_before_bad cfg
           then c\<lparr>q_quality := kBad, q_score := 0\<rparr>
         else if q_quality c0 = kGood then c\<lparr>q_quality := kDegraded, q_score := 0\<rparr>
         else c\<lparr>q_score := 0\<rparr>)"

definition success_metrics :: "int \<Rightarrow> quality_sample \<Rightarrow> quality_snapshot \<Rightarrow> quality_snapshot" where
  "success_metrics now sample c0 =
     c0\<lparr>q_success_samples := q_success_samples c0 + 1,
        q_last_success_ms := now,
        q_consecutive_failures := 0,
        q_smoothed_rtt_ms :=
          (if qs_rtt_ms sample \<ge> 0
           then (if q_smoothed_rtt_ms c0 < 0 then qs_rtt_ms sample
                 else ema (q_smoothed_rtt_ms c0) (qs_rtt_ms sample))
           else q_smoothed_rtt_ms c0),
        q_bandwidth_kbps :=
          (if qs_bandwidth_kbps sample \<ge> 0 then qs_bandwidth_kbps sample else q_bandwidth_kbps c0)\<rparr>"

definition aggregated_sample :: "quality_sample \<Rightarrow> quality_snapshot \<Rightarrow> quality_sample" where
  "aggregated_sample sample c =
     sample\<lparr>qs_rtt_ms := (if q_smoothed_rtt_ms c \<ge> 0 then q_smoothed_rtt_ms c else qs_rtt_ms sample),
            qs_loss_permil := (if q_loss_permil c \<ge> 0 then q_loss_permil c else qs_loss_permil sample),
            qs_bandwidth_kbps :=
              (if q_bandwidth_kbps c \<ge> 0 then q_bandwidth_kbps c else qs_bandwidth_kbps sample)\<rparr>"

definition success_score :: "quality_sample \<Rightarrow> quality_snapshot \<Rightarrow> quality_snapshot" where
  "success_score sample c =
     (let score = compute_score (aggregated_sample sample c)
      in if score \<ge> 0 then c\<lparr>q_score := score\<rparr> else c)"

definition classify_success ::
  "prober_config \<Rightarrow> network_quality \<Rightarrow> nat \<Rightarrow> quality_snapshot \<Rightarrow> quality_snapshot \<times> nat" where
  "classify_success cfg before good c =
     (if q_network c = NETWORK_NONE then (c\<lparr>q_quality := kOffline, q_score := 0\<rparr>, 0)
      else if q_score c \<ge> 0 then
        (if q_score c < weak_score_threshold cfg then (c\<lparr>q_quality := kBad\<rparr>, 0)
         else if q_score c < degraded_score_threshold cfg then (c\<lparr>q_quality := kDegraded\<rparr>, 0)
         else
           let good = good + 1 in
           if before = kUnknown \<or> before = kGood \<or> good \<ge> good_samples_to_recover cfg
           then (c\<lparr>q_quality := kGood\<rparr>, good) else (c, good))
      else (c, good))"

definition observe_success ::
  "prober_config \<Rightarrow> int \<Rightarrow> quality_sample \<Rightarrow> nat \<Rightarrow> quality_snapshot \<Rightarrow> quality_snapshot \<times> nat" where
  "observe_success cfg now sample good c0 =
     classify_success cfg (q_quality c0) good (success_score sample (success_metrics now sample c0))"

definition observe_sample ::
  "nat \<Rightarrow> int \<Rightarrow> bool \<Rightarrow> quality_sample \<Rightarrow> prober \<Rightarrow> prober \<times> quality_snapshot option" where
  "observe_sample depth now success sample p =
     (let before = pr_snapshot p;
          c0 = before\<lparr>q_samples := q_samples before + 1, q_last_sample_ms := now,
                      q_network := (if qs_net sample \<noteq> NETWORK_UNKNOWN then qs_net sample
                                    else q_network before)\<rparr>;
          (c1, good) =
            (if \<not> success then (observe_failure (pr_config p) now c0, 0)
             else observe_success (pr_config p) now sample (pr_consecutive_good p) c0);
          c2 = update_loss c1;
          changed = (q_quality c2 \<noteq> q_quality before \<or> q_network c2 \<noteq> q_network before);
          c = (if changed then c2\<lparr>q_last_quality_change_ms := now\<rparr> else c2)
      in (p\<lparr>pr_snapshot := c, pr_consecutive_good := good\<rparr>,
          if changed \<and> pr_quality_callback p \<and> depth = 0 then Some c else None))"

definition prober_observe :: "nat \<Rightarrow> int \<Rightarrow> bool \<Rightarrow> int \<Rightarrow> prober \<Rightarrow> prober \<times> quality_snapshot option" where
  "prober_observe depth now success rtt p =
     observe_sample depth now success (default_sample\<lparr>qs_rtt_ms := rtt\<rparr>) p"

definition prober_current_score :: "prober \<Rightarrow> int" where
  "prober_current_score p = q_score (pr_snapshot p)"

text \<open>
  \<open>probe()\<close>: \<open>now1\<close> is the clock when the probe is counted, \<open>now2\<close> when its sample is observed,
  \<open>sample\<close> what the host's probe callback returns.
\<close>

definition prober_probe ::
  "nat \<Rightarrow> int \<Rightarrow> int \<Rightarrow> quality_sample \<Rightarrow> prober \<Rightarrow> int \<times> prober \<times> quality_snapshot option" where
  "prober_probe depth now1 now2 sample p =
     (if \<not> pr_probe_callback p then (prober_current_score p, p, None)
      else
        let s = pr_snapshot p;
            p1 = p\<lparr>pr_snapshot := s\<lparr>q_probe_count := q_probe_count s + 1, q_last_probe_ms := now1\<rparr>\<rparr>;
            (p2, note) = observe_sample depth now2 (has_metrics sample) sample p1
        in (prober_current_score p2, p2, note))"

definition prober_is_weak_net :: "prober \<Rightarrow> bool" where
  "prober_is_weak_net p \<longleftrightarrow>
     q_quality (pr_snapshot p) = kDegraded \<or> q_quality (pr_snapshot p) = kBad
     \<or> q_quality (pr_snapshot p) = kOffline"

definition prober_on_network_change ::
  "nat \<Rightarrow> int \<Rightarrow> nat \<Rightarrow> asternet_network \<Rightarrow> prober \<Rightarrow> prober \<times> quality_snapshot option" where
  "prober_on_network_change depth now epoch net p =
     (let before = pr_snapshot p;
          s = default_snapshot\<lparr>q_network_epoch := epoch, q_network := net\<rparr>;
          s = (if net = NETWORK_NONE then s\<lparr>q_quality := kOffline, q_score := 0\<rparr>
               else s\<lparr>q_quality := kUnknown\<rparr>);
          s = s\<lparr>q_last_quality_change_ms := now\<rparr>;
          same = (q_quality before = q_quality s \<and> q_network before = q_network s
                  \<and> q_network_epoch before = q_network_epoch s)
      in (p\<lparr>pr_snapshot := s, pr_consecutive_good := 0\<rparr>,
          if pr_quality_callback p \<and> \<not> same \<and> depth = 0 then Some s else None))"

definition set_quality_change_callback :: "bool \<Rightarrow> prober \<Rightarrow> prober" where
  "set_quality_change_callback cb p = p\<lparr>pr_quality_callback := cb\<rparr>"

definition set_probe_callback :: "bool \<Rightarrow> prober \<Rightarrow> prober" where
  "set_probe_callback cb p = p\<lparr>pr_probe_callback := cb\<rparr>"

section \<open>The state invariant\<close>

definition snapshot_bounds :: "quality_snapshot \<Rightarrow> bool" where
  "snapshot_bounds q \<longleftrightarrow>
     -1 \<le> q_score q \<and> q_score q \<le> 100 \<and> -1 \<le> q_loss_permil q \<and> q_loss_permil q \<le> 1000
     \<and> -1 \<le> q_smoothed_rtt_ms q \<and> q_consecutive_failures q \<le> q_failure_samples q
     \<and> q_total_failures q = q_failure_samples q"

definition snapshot_counts :: "quality_snapshot \<Rightarrow> bool" where
  "snapshot_counts q \<longleftrightarrow> q_samples q = q_success_samples q + q_failure_samples q"

definition snapshot_state :: "quality_snapshot \<Rightarrow> bool" where
  "snapshot_state q \<longleftrightarrow>
     (q_network q = NETWORK_NONE \<longrightarrow> q_quality q = kOffline)
     \<and> (q_quality q = kGood \<longrightarrow> q_consecutive_failures q = 0)"

definition prober_inv :: "prober \<Rightarrow> bool" where
  "prober_inv p \<longleftrightarrow>
     snapshot_bounds (pr_snapshot p) \<and> snapshot_counts (pr_snapshot p) \<and> snapshot_state (pr_snapshot p)"

lemma update_loss_simps [simp]:
  "q_score (update_loss q) = q_score q" "q_quality (update_loss q) = q_quality q"
  "q_network (update_loss q) = q_network q" "q_samples (update_loss q) = q_samples q"
  "q_success_samples (update_loss q) = q_success_samples q"
  "q_failure_samples (update_loss q) = q_failure_samples q"
  "q_consecutive_failures (update_loss q) = q_consecutive_failures q"
  "q_total_failures (update_loss q) = q_total_failures q"
  "q_smoothed_rtt_ms (update_loss q) = q_smoothed_rtt_ms q"
  "q_network_epoch (update_loss q) = q_network_epoch q"
  "q_loss_permil (update_loss q) = int (min 1000 (q_total_failures q * 1000 div max 1 (q_samples q)))"
  by (simp_all add: update_loss_def)

lemma update_loss_bounds: "snapshot_bounds q \<Longrightarrow> snapshot_bounds (update_loss q)"
  by (simp add: snapshot_bounds_def)

lemma ema_nonneg: "0 \<le> a \<Longrightarrow> 0 \<le> b \<Longrightarrow> 0 \<le> ema a b"
  by (simp add: ema_def)

lemma ema_le: "a \<le> m \<Longrightarrow> b \<le> m \<Longrightarrow> ema a b \<le> m"
  unfolding ema_def by linarith

lemma ema_ge: "m \<le> a \<Longrightarrow> m \<le> b \<Longrightarrow> m \<le> ema a b"
  unfolding ema_def by linarith

text \<open>
  The smoothed value lies between its operands, and the sum that the code forms in an \<open>int\<close>
  stays below \<open>2^31\<close> as long as the samples stay below \<open>2^31 / 10\<close> (about 59 hours).
\<close>

lemma ema_no_overflow:
  assumes "0 \<le> a" "a \<le> 214748364" "0 \<le> b" "b \<le> 214748364"
  shows "a * 7 + b * 3 < 2 ^ 31 \<and> min a b \<le> ema a b \<and> ema a b \<le> max a b"
  using assms ema_le [of a "max a b" b] ema_ge [of "min a b" a b] by simp

lemma observe_failure_bounds: "snapshot_bounds c \<Longrightarrow> snapshot_bounds (observe_failure cfg now c)"
  by (simp add: observe_failure_def snapshot_bounds_def Let_def)

lemma observe_failure_counts:
  "q_samples (observe_failure cfg now c) = q_samples c"
  "q_success_samples (observe_failure cfg now c) = q_success_samples c"
  "q_failure_samples (observe_failure cfg now c) = Suc (q_failure_samples c)"
  "q_consecutive_failures (observe_failure cfg now c) = Suc (q_consecutive_failures c)"
  "q_network (observe_failure cfg now c) = q_network c"
  "q_network_epoch (observe_failure cfg now c) = q_network_epoch c"
  by (simp_all add: observe_failure_def Let_def)

lemma observe_failure_quality:
  "q_quality (observe_failure cfg now c) =
     (if q_network c = NETWORK_NONE then kOffline
      else if failures_before_bad cfg \<le> Suc (q_consecutive_failures c) then kBad
      else if q_quality c = kGood then kDegraded else q_quality c)"
  "q_score (observe_failure cfg now c) = 0"
  by (simp_all add: observe_failure_def Let_def)

lemma success_metrics_bounds: "snapshot_bounds c \<Longrightarrow> snapshot_bounds (success_metrics now sample c)"
  using ema_nonneg [of "q_smoothed_rtt_ms c" "qs_rtt_ms sample"]
  by (auto simp: snapshot_bounds_def success_metrics_def)

lemma success_metrics_simps [simp]:
  "q_samples (success_metrics now sample c) = q_samples c"
  "q_success_samples (success_metrics now sample c) = Suc (q_success_samples c)"
  "q_failure_samples (success_metrics now sample c) = q_failure_samples c"
  "q_consecutive_failures (success_metrics now sample c) = 0"
  "q_network (success_metrics now sample c) = q_network c"
  "q_network_epoch (success_metrics now sample c) = q_network_epoch c"
  "q_quality (success_metrics now sample c) = q_quality c"
  "q_score (success_metrics now sample c) = q_score c"
  by (simp_all add: success_metrics_def)

lemma success_score_bounds: "snapshot_bounds c \<Longrightarrow> snapshot_bounds (success_score sample c)"
  using compute_score_range [of "aggregated_sample sample c"]
  by (simp add: success_score_def Let_def snapshot_bounds_def)

lemma success_score_simps [simp]:
  "q_samples (success_score sample c) = q_samples c"
  "q_success_samples (success_score sample c) = q_success_samples c"
  "q_failure_samples (success_score sample c) = q_failure_samples c"
  "q_consecutive_failures (success_score sample c) = q_consecutive_failures c"
  "q_network (success_score sample c) = q_network c"
  "q_network_epoch (success_score sample c) = q_network_epoch c"
  "q_quality (success_score sample c) = q_quality c"
  by (simp_all add: success_score_def Let_def)

lemma classify_success_bounds:
  "snapshot_bounds c \<Longrightarrow> snapshot_bounds (fst (classify_success cfg before good c))"
  by (simp add: classify_success_def Let_def snapshot_bounds_def)

lemma classify_success_frame [simp]:
  "q_samples (fst (classify_success cfg before good c)) = q_samples c"
  "q_success_samples (fst (classify_success cfg before good c)) = q_success_samples c"
  "q_failure_samples (fst (classify_success cfg before good c)) = q_failure_samples c"
  "q_consecutive_failures (fst (classify_success cfg before good c)) = q_consecutive_failures c"
  "q_network (fst (classify_success cfg before good c)) = q_network c"
  "q_network_epoch (fst (classify_success cfg before good c)) = q_network_epoch c"
  by (simp_all add: classify_success_def Let_def)

lemma classify_success_offline:
  "q_network c = NETWORK_NONE \<Longrightarrow> q_quality (fst (classify_success cfg before good c)) = kOffline"
  by (simp add: classify_success_def)

text \<open>What a success can do to the quality: the hysteresis is in the last two cases.\<close>

lemma classify_success_quality:
  "classify_success cfg before good c = (c', good') \<Longrightarrow>
     q_quality c' \<in> {kOffline, kBad, kDegraded} \<and> good' = 0
     \<or> q_quality c' = kGood \<and> good' = Suc good
        \<and> (before \<in> {kUnknown, kGood} \<or> good_samples_to_recover cfg \<le> Suc good)
     \<or> q_quality c' = q_quality c \<and> good' \<le> Suc good"
  by (auto simp: classify_success_def Let_def split: if_splits)

lemma observe_success_bounds:
  "snapshot_bounds c \<Longrightarrow> snapshot_bounds (fst (observe_success cfg now sample good c))"
  by (simp add: observe_success_def classify_success_bounds success_score_bounds success_metrics_bounds)

lemma observe_success_counts:
  "q_samples (fst (observe_success cfg now sample good c)) = q_samples c"
  "q_success_samples (fst (observe_success cfg now sample good c)) = Suc (q_success_samples c)"
  "q_failure_samples (fst (observe_success cfg now sample good c)) = q_failure_samples c"
  "q_consecutive_failures (fst (observe_success cfg now sample good c)) = 0"
  "q_network (fst (observe_success cfg now sample good c)) = q_network c"
  "q_network_epoch (fst (observe_success cfg now sample good c)) = q_network_epoch c"
  by (simp_all add: observe_success_def)

lemma observe_success_offline:
  "q_network c = NETWORK_NONE \<Longrightarrow> q_quality (fst (observe_success cfg now sample good c)) = kOffline"
  by (simp add: observe_success_def classify_success_offline)

lemma observe_success_quality:
  "observe_success cfg now sample good c = (c', good') \<Longrightarrow>
     q_quality c' \<in> {kOffline, kBad, kDegraded} \<and> good' = 0
     \<or> q_quality c' = kGood \<and> good' = Suc good
        \<and> (q_quality c \<in> {kUnknown, kGood} \<or> good_samples_to_recover cfg \<le> Suc good)
     \<or> q_quality c' = q_quality c \<and> good' \<le> Suc good"
  unfolding observe_success_def by (drule classify_success_quality) simp

definition counted :: "int \<Rightarrow> quality_sample \<Rightarrow> quality_snapshot \<Rightarrow> quality_snapshot" where
  "counted now sample q =
     q\<lparr>q_samples := q_samples q + 1, q_last_sample_ms := now,
       q_network := (if qs_net sample \<noteq> NETWORK_UNKNOWN then qs_net sample else q_network q)\<rparr>"

lemma counted_simps [simp]:
  "q_samples (counted now sample q) = Suc (q_samples q)"
  "q_success_samples (counted now sample q) = q_success_samples q"
  "q_failure_samples (counted now sample q) = q_failure_samples q"
  "q_consecutive_failures (counted now sample q) = q_consecutive_failures q"
  "q_quality (counted now sample q) = q_quality q"
  "q_network_epoch (counted now sample q) = q_network_epoch q"
  "snapshot_bounds (counted now sample q) = snapshot_bounds q"
  by (simp_all add: counted_def snapshot_bounds_def)

lemma observe_sample_failure:
  "pr_snapshot (fst (observe_sample depth now False sample p)) =
     (let c = update_loss (observe_failure (pr_config p) now (counted now sample (pr_snapshot p)))
      in if q_quality c \<noteq> q_quality (pr_snapshot p) \<or> q_network c \<noteq> q_network (pr_snapshot p)
         then c\<lparr>q_last_quality_change_ms := now\<rparr> else c)"
  "pr_consecutive_good (fst (observe_sample depth now False sample p)) = 0"
  by (simp_all add: observe_sample_def counted_def Let_def)

lemma observe_sample_success:
  "pr_snapshot (fst (observe_sample depth now True sample p)) =
     (let c = update_loss (fst (observe_success (pr_config p) now sample (pr_consecutive_good p)
                (counted now sample (pr_snapshot p))))
      in if q_quality c \<noteq> q_quality (pr_snapshot p) \<or> q_network c \<noteq> q_network (pr_snapshot p)
         then c\<lparr>q_last_quality_change_ms := now\<rparr> else c)"
  "pr_consecutive_good (fst (observe_sample depth now True sample p)) =
     snd (observe_success (pr_config p) now sample (pr_consecutive_good p)
       (counted now sample (pr_snapshot p)))"
  by (simp_all add: observe_sample_def counted_def Let_def split: prod.splits)

lemma observe_sample_config [simp]:
  "pr_config (fst (observe_sample depth now success sample p)) = pr_config p"
  "pr_quality_callback (fst (observe_sample depth now success sample p)) = pr_quality_callback p"
  by (simp_all add: observe_sample_def Let_def split: prod.splits)

lemma observe_sample_epoch [simp]:
  "q_network_epoch (pr_snapshot (fst (observe_sample depth now success sample p))) =
     q_network_epoch (pr_snapshot p)"
  by (cases success)
    (simp_all add: observe_sample_failure observe_sample_success observe_failure_counts
      observe_success_counts Let_def)

lemma observe_sample_bounds:
  assumes "snapshot_bounds (pr_snapshot p)"
  shows "snapshot_bounds (pr_snapshot (fst (observe_sample depth now success sample p)))"
proof -
  have stamp: "snapshot_bounds (c\<lparr>q_last_quality_change_ms := t\<rparr>) = snapshot_bounds c" for c t
    by (simp add: snapshot_bounds_def)
  show ?thesis
    using assms
    by (cases success)
      (simp_all add: observe_sample_failure observe_sample_success stamp Let_def
        update_loss_bounds observe_failure_bounds observe_success_bounds)
qed

lemma observe_sample_counts:
  "snapshot_counts (pr_snapshot p) \<Longrightarrow>
     snapshot_counts (pr_snapshot (fst (observe_sample depth now success sample p)))"
  by (cases success)
    (simp_all add: snapshot_counts_def observe_sample_failure observe_sample_success
      observe_failure_counts observe_success_counts Let_def)

lemma observe_sample_state:
  assumes "snapshot_state (pr_snapshot p)"
  shows "snapshot_state (pr_snapshot (fst (observe_sample depth now success sample p)))"
proof (cases success)
  case True
  then show ?thesis
    by (auto simp: snapshot_state_def observe_sample_success observe_success_counts
        observe_success_offline Let_def)
next
  case False
  with assms show ?thesis
    by (auto simp: snapshot_state_def observe_sample_failure observe_failure_counts
        observe_failure_quality Let_def)
qed

lemma observe_sample_inv: "prober_inv p \<Longrightarrow> prober_inv (fst (observe_sample depth now success sample p))"
  by (simp add: prober_inv_def observe_sample_bounds observe_sample_counts observe_sample_state)

lemma prober_observe_inv: "prober_inv p \<Longrightarrow> prober_inv (fst (prober_observe depth now success rtt p))"
  by (simp add: prober_observe_def observe_sample_inv)

lemma prober_init_inv: "prober_inv (QualityProberImpl cfg cb)"
  by (simp add: prober_inv_def QualityProberImpl_def default_snapshot_def snapshot_bounds_def
      snapshot_counts_def snapshot_state_def)

lemma prober_network_change_inv: "prober_inv (fst (prober_on_network_change depth now epoch net p))"
  by (simp add: prober_inv_def prober_on_network_change_def default_snapshot_def snapshot_bounds_def
      snapshot_counts_def snapshot_state_def Let_def)

lemma prober_probe_inv:
  assumes "prober_inv p"
  shows "prober_inv (fst (snd (prober_probe depth now1 now2 sample p)))"
proof -
  let ?p1 = "p\<lparr>pr_snapshot := (pr_snapshot p)\<lparr>q_probe_count := q_probe_count (pr_snapshot p) + 1,
      q_last_probe_ms := now1\<rparr>\<rparr>"
  from assms have "prober_inv ?p1"
    by (simp add: prober_inv_def snapshot_bounds_def snapshot_counts_def snapshot_state_def)
  then have "prober_inv (fst (observe_sample depth now2 (has_metrics sample) sample ?p1))"
    by (rule observe_sample_inv)
  with assms show ?thesis
    by (auto simp: prober_probe_def Let_def split: prod.splits)
qed

section \<open>Runs of the state machine\<close>

text \<open>The events that drive a prober: an observed sample, a host probe, a network change.\<close>

datatype prober_event =
    Observe nat int bool quality_sample
  | Probe nat int int quality_sample
  | NetworkChange nat int nat asternet_network

fun prober_step :: "prober \<Rightarrow> prober_event \<Rightarrow> prober" where
  "prober_step p (Observe depth now success sample) = fst (observe_sample depth now success sample p)"
| "prober_step p (Probe depth now1 now2 sample) = fst (snd (prober_probe depth now1 now2 sample p))"
| "prober_step p (NetworkChange depth now epoch net) = fst (prober_on_network_change depth now epoch net p)"

definition prober_run :: "prober \<Rightarrow> prober_event list \<Rightarrow> prober" where
  "prober_run p es = foldl prober_step p es"

lemma prober_run_simps [simp]:
  "prober_run p [] = p"
  "prober_run p (e # es) = prober_run (prober_step p e) es"
  by (simp_all add: prober_run_def)

lemma prober_step_inv: "prober_inv p \<Longrightarrow> prober_inv (prober_step p e)"
  by (cases e) (simp_all add: observe_sample_inv prober_probe_inv prober_network_change_inv)

lemma prober_run_inv: "prober_inv p \<Longrightarrow> prober_inv (prober_run p es)"
  by (induction es arbitrary: p) (simp_all add: prober_step_inv)

text \<open>
  Property C39. In every state the prober can reach, by any sequence of observations, probes and
  network changes: the score is -1 or a percentage, the loss rate at most 1000 permil, every
  sample is counted exactly once as a success or a failure, a prober on network \<open>NONE\<close> is
  \<open>OFFLINE\<close>, and \<open>GOOD\<close> means that the last observation was not a failure.
\<close>

theorem prober_reachable_sound:
  "let q = pr_snapshot (prober_run (QualityProberImpl cfg cb) es) in
     -1 \<le> q_score q \<and> q_score q \<le> 100 \<and> -1 \<le> q_loss_permil q \<and> q_loss_permil q \<le> 1000
     \<and> q_samples q = q_success_samples q + q_failure_samples q
     \<and> q_total_failures q = q_failure_samples q
     \<and> (if q_network q = NETWORK_NONE then q_quality q = kOffline else True)
     \<and> (if q_quality q = kGood then q_consecutive_failures q = 0 else True)"
  using prober_run_inv [OF prober_init_inv, of cfg cb es]
  by (auto simp: prober_inv_def snapshot_bounds_def snapshot_counts_def snapshot_state_def Let_def)

text \<open>
  Hysteresis. From a weak state (neither \<open>UNKNOWN\<close> nor \<open>GOOD\<close>) the prober becomes good only when
  its counter of consecutive good samples reaches the configured number, and each observation
  adds at most one to the counter.
\<close>

definition weak_state :: "prober \<Rightarrow> bool" where
  "weak_state p \<longleftrightarrow> q_quality (pr_snapshot p) \<notin> {kUnknown, kGood}"

lemma observe_sample_hysteresis:
  assumes "weak_state p" and "Suc (pr_consecutive_good p) < good_samples_to_recover (pr_config p)"
  shows "weak_state (fst (observe_sample depth now success sample p))
    \<and> pr_consecutive_good (fst (observe_sample depth now success sample p)) \<le> Suc (pr_consecutive_good p)"
proof (cases success)
  case True
  obtain c' good' where c': "observe_success (pr_config p) now sample (pr_consecutive_good p)
      (counted now sample (pr_snapshot p)) = (c', good')" by (meson surj_pair)
  from observe_success_quality [OF c'] assms have "q_quality c' \<notin> {kUnknown, kGood} \<and> good' \<le> Suc (pr_consecutive_good p)"
    by (auto simp: weak_state_def)
  with True c' show ?thesis
    by (auto simp: weak_state_def observe_sample_success Let_def)
next
  case False
  with assms show ?thesis
    by (simp add: weak_state_def observe_sample_failure observe_failure_quality Let_def)
qed

definition observations :: "(nat \<times> int \<times> bool \<times> quality_sample) list \<Rightarrow> prober_event list" where
  "observations obs = map (\<lambda>(depth, now, success, sample). Observe depth now success sample) obs"

lemma observations_simps [simp]:
  "observations [] = []"
  "observations ((d, t, ok, s) # obs) = Observe d t ok s # observations obs"
  by (simp_all add: observations_def)

lemma observations_hysteresis:
  "weak_state p \<Longrightarrow> pr_consecutive_good p + length obs < good_samples_to_recover (pr_config p) \<Longrightarrow>
     weak_state (prober_run p (observations obs))"
proof (induction obs arbitrary: p)
  case Nil
  then show ?case by simp
next
  case (Cons ob obs)
  obtain d t ok s where ob: "ob = (d, t, ok, s)" by (cases ob)
  let ?p = "fst (observe_sample d t ok s p)"
  from Cons.prems observe_sample_hysteresis [of p d t ok s]
  have "weak_state ?p" "pr_consecutive_good ?p \<le> Suc (pr_consecutive_good p)" by auto
  with Cons.prems have "weak_state (prober_run ?p (observations obs))"
    by (intro Cons.IH) auto
  with ob show ?case by simp
qed

text \<open>
  Recovery has hysteresis: from a degraded, bad or offline state with no good sample
  counted yet, no sequence of fewer observations than \<open>good_samples_to_recover\<close>, however good
  they are, brings the prober back to \<open>GOOD\<close>.
\<close>

theorem recovery_needs_good_samples:
  assumes "q_quality (pr_snapshot p) \<in> {kDegraded, kBad, kOffline}"
    and "pr_consecutive_good p = 0"
    and "length obs < good_samples_to_recover (pr_config p)"
  shows "q_quality (pr_snapshot (prober_run p (observations obs))) \<noteq> kGood"
  using observations_hysteresis [of p obs] assms by (auto simp: weak_state_def)

definition bad_prober :: prober where
  "bad_prober = (QualityProberImpl default_prober_config False)
     \<lparr>pr_snapshot := default_snapshot\<lparr>q_quality := kBad, q_score := 0, q_samples := 2, q_failure_samples := 2,
        q_total_failures := 2, q_consecutive_failures := 2\<rparr>\<rparr>"

theorem recovery_needs_good_samples_witness:
  "q_quality (pr_snapshot (prober_run bad_prober (observations
     [(0, 10, True, default_sample\<lparr>qs_rtt_ms := 20\<rparr>), (0, 20, True, default_sample\<lparr>qs_rtt_ms := 20\<rparr>)])))
   \<noteq> kGood"
  by (rule recovery_needs_good_samples)
    (simp_all add: bad_prober_def QualityProberImpl_def default_snapshot_def default_prober_config_def)

text \<open>
  Failure detection. Consecutive failures are counted across observations, so enough of them in
  a row always end in \<open>BAD\<close> with score 0, whatever the state before (except off line, which stays
  off line).
\<close>

definition failures :: "(nat \<times> int \<times> int) list \<Rightarrow> prober_event list" where
  "failures fs = map (\<lambda>(depth, now, rtt). Observe depth now False (default_sample\<lparr>qs_rtt_ms := rtt\<rparr>)) fs"

lemma failures_simps [simp]:
  "failures [] = []"
  "failures ((d, t, r) # fs) = Observe d t False (default_sample\<lparr>qs_rtt_ms := r\<rparr>) # failures fs"
  by (simp_all add: failures_def)

lemma default_sample_net [simp]: "qs_net (default_sample\<lparr>qs_rtt_ms := r\<rparr>) = NETWORK_UNKNOWN"
  by (simp add: default_sample_def)

lemma observe_failure_step:
  fixes p d t r
  defines "p' \<equiv> fst (observe_sample d t False (default_sample\<lparr>qs_rtt_ms := r\<rparr>) p)"
  assumes "q_network (pr_snapshot p) \<noteq> NETWORK_NONE"
  shows "q_network (pr_snapshot p') = q_network (pr_snapshot p)"
    and "pr_config p' = pr_config p"
    and "q_consecutive_failures (pr_snapshot p') = Suc (q_consecutive_failures (pr_snapshot p))"
    and "failures_before_bad (pr_config p) \<le> Suc (q_consecutive_failures (pr_snapshot p)) \<Longrightarrow>
          q_quality (pr_snapshot p') = kBad"
    and "q_score (pr_snapshot p') = 0"
  using assms
  by (simp_all add: p'_def observe_sample_failure observe_failure_counts observe_failure_quality
      counted_def Let_def)

lemma failures_reach_bad:
  "q_network (pr_snapshot p) \<noteq> NETWORK_NONE \<Longrightarrow> fs \<noteq> [] \<Longrightarrow>
     failures_before_bad (pr_config p) \<le> q_consecutive_failures (pr_snapshot p) + length fs \<Longrightarrow>
     q_quality (pr_snapshot (prober_run p (failures fs))) = kBad
     \<and> q_score (pr_snapshot (prober_run p (failures fs))) = 0"
proof (induction fs arbitrary: p)
  case Nil
  then show ?case by simp
next
  case (Cons f fs)
  obtain d t r where f: "f = (d, t, r)" by (cases f)
  let ?p = "fst (observe_sample d t False (default_sample\<lparr>qs_rtt_ms := r\<rparr>) p)"
  note step = observe_failure_step [OF Cons.prems(1), of d t r]
  show ?case
  proof (cases "fs = []")
    case True
    with Cons.prems f step show ?thesis by simp
  next
    case False
    with Cons.prems step have "q_quality (pr_snapshot (prober_run ?p (failures fs))) = kBad
        \<and> q_score (pr_snapshot (prober_run ?p (failures fs))) = 0"
      by (intro Cons.IH) simp_all
    with f show ?thesis by simp
  qed
qed

text \<open>
  Failures are detected: from any state on a usable network, a run of at least
  \<open>failures_before_bad\<close> failed requests (and at least one) puts the prober in state \<open>BAD\<close> with
  score 0, so that the link counts as weak.
\<close>

theorem failures_detected:
  assumes "q_network (pr_snapshot p) \<noteq> NETWORK_NONE" and "fs \<noteq> []"
    and "failures_before_bad (pr_config p) \<le> length fs"
  shows "q_quality (pr_snapshot (prober_run p (failures fs))) = kBad
    \<and> q_score (pr_snapshot (prober_run p (failures fs))) = 0
    \<and> prober_is_weak_net (prober_run p (failures fs))"
  using failures_reach_bad [OF assms(1,2)] assms(3) by (simp add: prober_is_weak_net_def)

theorem failures_detected_witness:
  "prober_is_weak_net (prober_run (QualityProberImpl default_prober_config False)
     (failures [(0, 5, -1), (0, 9, -1)]))"
  using failures_detected [of "QualityProberImpl default_prober_config False" "[(0, 5, -1), (0, 9, -1)]"]
  by (simp add: QualityProberImpl_def default_snapshot_def default_prober_config_def)

section \<open>The interface to the orchestrator\<close>

text \<open>
  What the orchestrator relies on when it asks a prober about the link: the two queries agree.
  The weak-network interceptor works against this interface.
\<close>

locale quality_source =
  fixes is_weak_net :: "'p \<Rightarrow> bool" and snapshot :: "'p \<Rightarrow> quality_snapshot"
  assumes weak_iff: "is_weak_net p \<longleftrightarrow> q_quality (snapshot p) \<in> {kDegraded, kBad, kOffline}"
begin

definition retry_cap :: "'p \<Rightarrow> int \<Rightarrow> int" where
  "retry_cap p retries =
     (if is_weak_net p then (if q_quality (snapshot p) = kOffline then 0 else min retries 1)
      else retries)"

lemma retry_cap_le: "0 \<le> retries \<Longrightarrow> retry_cap p retries \<le> retries"
  by (simp add: retry_cap_def)

lemma retry_cap_weak: "is_weak_net p \<Longrightarrow> retry_cap p retries \<le> 1"
  by (simp add: retry_cap_def)

lemma retry_cap_offline: "q_quality (snapshot p) = kOffline \<Longrightarrow> retry_cap p retries = 0"
  by (simp add: retry_cap_def weak_iff)

lemma retry_cap_good: "q_quality (snapshot p) \<in> {kUnknown, kGood} \<Longrightarrow> retry_cap p retries = retries"
  by (auto simp: retry_cap_def weak_iff)

end

interpretation prober: quality_source prober_is_weak_net pr_snapshot
  by unfold_locales (auto simp: prober_is_weak_net_def)

section \<open>Diagnostics\<close>

fun quality_code :: "network_quality \<Rightarrow> int" where
  "quality_code kUnknown = 0"
| "quality_code kGood = 1"
| "quality_code kDegraded = 2"
| "quality_code kBad = 3"
| "quality_code kOffline = 4"

definition prober_dump :: "prober \<Rightarrow> string" where
  "prober_dump p =
     (let current = pr_snapshot p
      in ''{\"score\":'' @ to_string (q_score current) @ '',\"quality\":'' @ to_string (quality_code (q_quality current))
         @ '',\"samples\":'' @ dec_digits (q_samples current) @ '',\"probe_count\":'' @ dec_digits (q_probe_count current)
         @ '',\"success_samples\":'' @ dec_digits (q_success_samples current)
         @ '',\"failure_samples\":'' @ dec_digits (q_failure_samples current)
         @ '',\"failures\":'' @ dec_digits (q_consecutive_failures current)
         @ '',\"total_failures\":'' @ dec_digits (q_total_failures current)
         @ '',\"loss_permil\":'' @ to_string (q_loss_permil current)
         @ '',\"smoothed_rtt_ms\":'' @ to_string (q_smoothed_rtt_ms current)
         @ '',\"last_probe_ms\":'' @ to_string (q_last_probe_ms current)
         @ '',\"last_success_ms\":'' @ to_string (q_last_success_ms current)
         @ '',\"last_failure_ms\":'' @ to_string (q_last_failure_ms current)
         @ '',\"last_quality_change_ms\":'' @ to_string (q_last_quality_change_ms current)
         @ '',\"last_sample_ms\":'' @ to_string (q_last_sample_ms current)
         @ '',\"network\":'' @ to_string (network_code (q_network current))
         @ '',\"network_epoch\":'' @ dec_digits (q_network_epoch current) @ ''}'')"

end
