(* ===== verification/Orchestrator.thy ===== *)
theory Orchestrator
  imports Quality_Prober
begin

text \<open>
  \<open>orchestrator/interceptor.cpp\<close>: the interceptor chain around a request. Normalising the retry
  safety, the weak-network and the retry interceptor are functions of the context, the response and
  the world; the coalescer, in which threads meet, is a state of flights with its critical sections
  as functions and the threads as a step relation. The terminal operation (the client's transport),
  the clock, \<open>sleep_for\<close> and the prober's place in the world are parameters.
\<close>

section \<open>The request context\<close>

record request_context =
  rc_request :: request
  rc_policy :: asternet_policy
  rc_request_id :: nat
  rc_network_epoch :: nat
  rc_attempts :: int
  rc_max_retries :: int
  rc_deadline_ms :: int
  rc_weak_network :: bool
  rc_deduplicated :: bool
  rc_dns_cache_hit :: bool

definition default_context :: request_context where
  "default_context =
     \<lparr>rc_request = default_request, rc_policy = POLICY_AUTO, rc_request_id = 0, rc_network_epoch = 0,
      rc_attempts = 0, rc_max_retries = 1, rc_deadline_ms = 0, rc_weak_network = False,
      rc_deduplicated = False, rc_dns_cache_hit = False\<rparr>"

text \<open>A terminal gets the context and the response by reference: it returns both.\<close>

type_synonym 'w terminal = "request_context \<Rightarrow> response \<Rightarrow> 'w \<Rightarrow> int \<times> request_context \<times> response \<times> 'w"

section \<open>Which requests may be retried or shared\<close>

definition kMaxDedupPathBytes :: nat where "kMaxDedupPathBytes = 4096"
definition kMaxDedupHeaderValueBytes :: nat where "kMaxDedupHeaderValueBytes = 1024"

definition lower_header_name :: "string \<Rightarrow> string" where
  "lower_header_name name = map tolower name"

definition has_visible_char :: "string \<Rightarrow> bool" where
  "has_visible_char v \<longleftrightarrow> list_ex (\<lambda>c. \<not> isspace c) v"

definition is_dedup_header :: "string \<Rightarrow> bool" where
  "is_dedup_header n \<longleftrightarrow> n = ''accept'' \<or> n = ''accept-encoding'' \<or> n = ''accept-language''
     \<or> n = ''content-type'' \<or> n = ''range''"

definition shareable_header :: "header \<Rightarrow> bool" where
  "shareable_header h =
     (let name = lower_header_name (h_name h) in
      if name = ''authorization'' \<or> name = ''cookie'' \<or> name = ''proxy-authorization'' then False
      else if \<not> is_dedup_header name then False
      else if is_dedup_header name \<and> length (h_value h) > kMaxDedupHeaderValueBytes then False
      else True)"

definition is_shareable :: "request_context \<Rightarrow> bool" where
  "is_shareable c =
     (let r = rc_request c in
      if \<not> req_retry_safe r then False
      else if req_method r \<noteq> ''GET'' \<and> req_method r \<noteq> ''HEAD'' then False
      else if req_body r \<noteq> [] then False
      else if req_connect_host r \<noteq> [] \<or> req_ca_cert_pem r \<noteq> [] then False
      else if length (req_path r) > kMaxDedupPathBytes then False
      else list_all shareable_header (req_headers r))"

definition is_safe_method :: "string \<Rightarrow> bool" where
  "is_safe_method m \<longleftrightarrow> m = ''GET'' \<or> m = ''HEAD'' \<or> m = ''OPTIONS''"

definition has_idempotency_key :: "header list \<Rightarrow> bool" where
  "has_idempotency_key hs \<longleftrightarrow>
     list_ex (\<lambda>h. lower_header_name (h_name h) = ''idempotency-key'' \<and> has_visible_char (h_value h)) hs"

definition normalize_retry_safety :: "request_context \<Rightarrow> request_context" where
  "normalize_retry_safety c =
     (let r = rc_request c;
          replayable = (req_body r = [] \<and> is_safe_method (req_method r));
          retry_safe = (req_retry_safe r \<or> replayable \<or> (req_idempotent r \<and> has_idempotency_key (req_headers r)))
      in c\<lparr>rc_request := r\<lparr>req_retry_safe := retry_safe\<rparr>,
           rc_max_retries := (if retry_safe then max (rc_max_retries c) 1 else 0)\<rparr>)"

definition dedup_line :: "header \<Rightarrow> string" where
  "dedup_line h = lower_header_name (h_name h) @ CHR '':'' # h_value h @ [newline]"

definition dedup_key :: "request_context \<Rightarrow> string" where
  "dedup_key c =
     (let r = rc_request c in
      req_host r @ newline # dec_digits (req_port r) @ newline # req_method r @ newline # req_path r
      @ newline # to_string (policy_code (rc_policy c)) @ newline # dec_digits (rc_network_epoch c)
      @ newline # dec_digits (req_max_body r) @ newline # to_string (req_timeout_ms r)
      @ newline # to_string (rc_max_retries c)
      @ newline # concat (map dedup_line
          (filter (\<lambda>h. is_dedup_header (lower_header_name (h_name h))) (req_headers r))))"

section \<open>The chain\<close>

type_synonym 'w interceptor = "'w terminal \<Rightarrow> 'w terminal"

text \<open>\<open>Chain::proceed\<close> at an index is the recursion on the interceptors that are left.\<close>

fun proceed :: "'w interceptor list \<Rightarrow> 'w terminal \<Rightarrow> 'w terminal" where
  "proceed [] terminal = terminal"
| "proceed (i # rest) terminal = i (proceed rest terminal)"

definition chain_execute :: "'w interceptor list \<Rightarrow> 'w terminal \<Rightarrow> 'w terminal" where
  "chain_execute interceptors terminal = proceed interceptors terminal"

definition retry_is_retryable :: "int \<Rightarrow> bool" where
  "retry_is_retryable e \<longleftrightarrow>
     e = ASTERNET_ERR_DNS \<or> e = ASTERNET_ERR_CONNECT \<or> e = ASTERNET_ERR_TIMEOUT
     \<or> e = ASTERNET_ERR_PROTOCOL \<or> e = ASTERNET_ERR_UNSUPPORTED \<or> e = ASTERNET_ERR_DEGRADED"

definition retry_delay_ms :: "nat \<Rightarrow> nat \<Rightarrow> int" where
  "retry_delay_ms attempt request_id =
     min 400 (50 * 2 ^ min attempt 3) + int (request_id mod 31)"

text \<open>
  The loop of \<open>RetryInterceptor::intercept\<close>; \<open>left\<close> is \<open>retry_limit - attempt\<close>. The outcome \<open>True\<close>
  is the early return at the deadline, after which the timeout of the context is not restored.
\<close>

fun retry_loop ::
  "'w clock \<Rightarrow> (int \<Rightarrow> 'w \<Rightarrow> 'w) \<Rightarrow> 'w terminal \<Rightarrow> int \<Rightarrow> nat \<Rightarrow> nat \<Rightarrow> request_context \<Rightarrow> response \<Rightarrow> 'w
     \<Rightarrow> bool \<times> int \<times> request_context \<times> response \<times> 'w" where
  "retry_loop clk sleep next deadline attempt left c resp w =
     (let (now, w) = clk w;
          remaining = deadline - now
      in if remaining \<le> 0
         then (True, ASTERNET_ERR_TIMEOUT, c,
               resp\<lparr>resp_err_code := ASTERNET_ERR_TIMEOUT, resp_failure_stage := ''deadline''\<rparr>, w)
         else
           let c = c\<lparr>rc_request := (rc_request c)\<lparr>req_timeout_ms := remaining\<rparr>, rc_attempts := rc_attempts c + 1\<rparr>;
               (result, c, resp, w) = next c default_response w;
               resp = resp\<lparr>resp_attempts := rc_attempts c\<rparr>
           in case left of
                0 \<Rightarrow> (False, result, c, resp, w)
              | Suc left \<Rightarrow>
                  if result = ASTERNET_OK \<or> \<not> retry_is_retryable result then (False, result, c, resp, w)
                  else
                    let delay = retry_delay_ms attempt (rc_request_id c);
                        (now, w) = clk w
                    in if now + delay \<ge> deadline then (False, result, c, resp, w)
                       else retry_loop clk sleep next deadline (Suc attempt) left c resp (sleep delay w))"

declare retry_loop.simps [simp del]

definition retry_limit :: "request_context \<Rightarrow> nat" where
  "retry_limit c = (if req_retry_safe (rc_request c) then nat (rc_max_retries c) else 0)"

definition RetryInterceptor :: "'w clock \<Rightarrow> (int \<Rightarrow> 'w \<Rightarrow> 'w) \<Rightarrow> 'w interceptor" where
  "RetryInterceptor clk sleep next c resp w =
     (let initial = req_timeout_ms (rc_request c);
          (now, w) = clk w;
          deadline = (if rc_deadline_ms c > 0 then rc_deadline_ms c else now + initial);
          (early, result, c, resp, w) = retry_loop clk sleep next deadline 0 (retry_limit c) c resp w
      in if early then (result, c, resp, w)
         else (result, c\<lparr>rc_request := (rc_request c)\<lparr>req_timeout_ms := initial\<rparr>\<rparr>, resp, w))"

definition WeakNetInterceptor :: "('w \<Rightarrow> prober option) \<Rightarrow> 'w interceptor" where
  "WeakNetInterceptor get_prober next c resp w =
     (case get_prober w of
        None \<Rightarrow> next c resp w
      | Some p \<Rightarrow>
          let weak = prober_is_weak_net p;
              c = c\<lparr>rc_weak_network := weak\<rparr>;
              c = (if weak
                   then c\<lparr>rc_max_retries := (if q_quality (pr_snapshot p) = kOffline then 0
                                              else min (rc_max_retries c) 1)\<rparr>
                   else c)
          in next c resp w)"

definition orchestrator_chain ::
  "'w clock \<Rightarrow> (int \<Rightarrow> 'w \<Rightarrow> 'w) \<Rightarrow> ('w \<Rightarrow> prober option) \<Rightarrow> 'w interceptor list" where
  "orchestrator_chain clk sleep get_prober = [WeakNetInterceptor get_prober, RetryInterceptor clk sleep]"

section \<open>The coalescer\<close>

text \<open>
  A flight is shared by pointer: the table maps a key to the flight's index in a store. Entering,
  waiting and completing are the three critical sections.
\<close>

record flight =
  fl_complete :: bool
  fl_result :: int
  fl_response :: response
  fl_dns_cache_hit :: bool

definition new_flight :: flight where
  "new_flight = \<lparr>fl_complete = False, fl_result = ASTERNET_ERR_INTERNAL, fl_response = default_response,
     fl_dns_cache_hit = False\<rparr>"

record coalescer =
  co_max_flights :: nat
  co_flights :: "(string, nat) table"
  co_store :: "flight list"

definition RequestCoalescer :: "nat \<Rightarrow> coalescer" where
  "RequestCoalescer max_flights =
     \<lparr>co_max_flights = (if max_flights = 0 then 1 else max_flights), co_flights = [], co_store = []\<rparr>"

datatype entry = Solo | Lead nat | Follow nat

definition coalescer_enter :: "string \<Rightarrow> coalescer \<Rightarrow> entry \<times> coalescer" where
  "coalescer_enter key co =
     (case map_of (co_flights co) key of
        Some f \<Rightarrow> (Follow f, co)
      | None \<Rightarrow>
          if length (co_flights co) \<ge> co_max_flights co then (Solo, co)
          else (Lead (length (co_store co)),
                co\<lparr>co_store := co_store co @ [new_flight],
                   co_flights := AList.update key (length (co_store co)) (co_flights co)\<rparr>))"

definition coalescer_complete :: "string \<Rightarrow> nat \<Rightarrow> int \<Rightarrow> response \<Rightarrow> bool \<Rightarrow> coalescer \<Rightarrow> coalescer" where
  "coalescer_complete key f result resp hit co =
     co\<lparr>co_store := (co_store co)[f := \<lparr>fl_complete = True, fl_result = result, fl_response = resp, fl_dns_cache_hit = hit\<rparr>],
        co_flights := AList.delete key (co_flights co)\<rparr>"

text \<open>What a follower returns: the flight's result, or a timeout of its own.\<close>

definition follower_result :: "flight \<Rightarrow> request_context \<Rightarrow> int \<times> request_context \<times> response" where
  "follower_result fl c = (fl_result fl, c\<lparr>rc_dns_cache_hit := fl_dns_cache_hit fl\<rparr>, fl_response fl)"

definition follower_timeout :: "request_context \<Rightarrow> response \<Rightarrow> int \<times> request_context \<times> response" where
  "follower_timeout c resp =
     (ASTERNET_ERR_TIMEOUT, c, resp\<lparr>resp_err_code := ASTERNET_ERR_TIMEOUT, resp_failure_stage := ''dedup_wait''\<rparr>)"

text \<open>The leader's \<open>catch\<close> clause: an exception becomes an internal error.\<close>

definition leader_exception :: "request_context \<Rightarrow> int \<times> request_context \<times> response" where
  "leader_exception c =
     (ASTERNET_ERR_INTERNAL, c,
      default_response\<lparr>resp_err_code := ASTERNET_ERR_INTERNAL, resp_failure_stage := ''orchestrator''\<rparr>)"

text \<open>
  \<open>RequestCoalescer::execute\<close> for a thread that meets no other: it never waits, because every
  flight in the table belongs to a thread that is still running.
\<close>

definition coalescer_execute ::
  "'w terminal \<Rightarrow> coalescer \<Rightarrow> request_context \<Rightarrow> response \<Rightarrow> 'w
     \<Rightarrow> (int \<times> request_context \<times> response \<times> 'w \<times> coalescer)" where
  "coalescer_execute operation co c resp w =
     (if \<not> is_shareable c
      then let (r, c, resp, w) = operation c resp w in (r, c, resp, w, co)
      else
        let key = dedup_key c;
            (e, co) = coalescer_enter key co
        in case e of
             Solo \<Rightarrow> let (r, c, resp, w) = operation c resp w in (r, c, resp, w, co)
           | Lead f \<Rightarrow>
               let (r, c, resp, w) = operation c resp w
               in (r, c, resp, w, coalescer_complete key f r resp (rc_dns_cache_hit c) co)
           | Follow f \<Rightarrow>
               let c = c\<lparr>rc_deduplicated := True\<rparr>;
                   fl = co_store co ! f;
                   (r, c, resp) = (if fl_complete fl then follower_result fl c else follower_timeout c resp)
               in (r, c, resp, w, co))"

definition orchestrator_execute ::
  "'w clock \<Rightarrow> (int \<Rightarrow> 'w \<Rightarrow> 'w) \<Rightarrow> ('w \<Rightarrow> prober option) \<Rightarrow> 'w terminal \<Rightarrow> coalescer \<Rightarrow> request_context \<Rightarrow> response \<Rightarrow> 'w
     \<Rightarrow> (int \<times> request_context \<times> response \<times> 'w \<times> coalescer)" where
  "orchestrator_execute clk sleep get_prober terminal co c resp w =
     coalescer_execute (chain_execute (orchestrator_chain clk sleep get_prober) terminal) co
       (normalize_retry_safety c) resp w"

section \<open>The deduplication key identifies the request\<close>

definition plain :: "string \<Rightarrow> bool" where
  "plain s \<longleftrightarrow> newline \<notin> set s"

text \<open>What the ABI guarantees of the strings of a request: no line breaks.\<close>

definition plain_context :: "request_context \<Rightarrow> bool" where
  "plain_context c \<longleftrightarrow> plain (req_host (rc_request c)) \<and> plain (req_method (rc_request c))
     \<and> plain (req_path (rc_request c)) \<and> list_all (\<lambda>h. plain (h_value h)) (req_headers (rc_request c))
     \<and> policy_wf (rc_policy c)"

lemma lines_inject:
  assumes "list_all plain xs" and "list_all plain ys"
    and "concat (map (\<lambda>s. s @ [newline]) xs) = concat (map (\<lambda>s. s @ [newline]) ys)"
  shows "xs = ys"
  using assms
proof (induction xs arbitrary: ys)
  case Nil
  then show ?case by (cases ys) auto
next
  case (Cons x xs)
  then obtain y ys' where ys: "ys = y # ys'" by (cases ys) auto
  with Cons.prems have "x @ newline # concat (map (\<lambda>s. s @ [newline]) xs) = y @ newline # concat (map (\<lambda>s. s @ [newline]) ys')"
    by simp
  moreover have "newline \<notin> set x" "newline \<notin> set y" using Cons.prems ys by (auto simp: plain_def)
  ultimately have "x = y \<and> concat (map (\<lambda>s. s @ [newline]) xs) = concat (map (\<lambda>s. s @ [newline]) ys')"
    by (simp add: append_sep_first)
  with Cons ys show ?case by auto
qed

definition dedup_text :: "header \<Rightarrow> string" where
  "dedup_text h = lower_header_name (h_name h) @ CHR '':'' # h_value h"

lemma dedup_name_plain: "is_dedup_header n \<Longrightarrow> plain n \<and> CHR '':'' \<notin> set n"
  by (auto simp: is_dedup_header_def plain_def)

lemma dedup_text_inject:
  assumes "is_dedup_header (lower_header_name (h_name h))" "is_dedup_header (lower_header_name (h_name g))"
  shows "dedup_text h = dedup_text g \<longleftrightarrow> lower_header_name (h_name h) = lower_header_name (h_name g) \<and> h_value h = h_value g"
  using dedup_name_plain [OF assms(1)] dedup_name_plain [OF assms(2)]
  by (simp add: dedup_text_def append_sep_first)

lemma dedup_lines: "concat (map dedup_line hs) = concat (map (\<lambda>s. s @ [newline]) (map dedup_text hs))"
  by (induction hs) (simp_all add: dedup_line_def dedup_text_def)

definition header_pair :: "header \<Rightarrow> string \<times> string" where
  "header_pair h = (lower_header_name (h_name h), h_value h)"

lemma dedup_headers_inject:
  assumes "list_all (\<lambda>h. is_dedup_header (lower_header_name (h_name h)) \<and> plain (h_value h)) hs"
    and "list_all (\<lambda>h. is_dedup_header (lower_header_name (h_name h)) \<and> plain (h_value h)) gs"
    and "concat (map dedup_line hs) = concat (map dedup_line gs)"
  shows "map header_pair hs = map header_pair gs"
proof -
  have "list_all plain (map dedup_text xs)"
    if "list_all (\<lambda>h. is_dedup_header (lower_header_name (h_name h)) \<and> plain (h_value h)) xs" for xs
    using that dedup_name_plain by (fastforce simp: list_all_iff dedup_text_def plain_def)
  with assms have eq: "map dedup_text hs = map dedup_text gs"
    by (intro lines_inject) (simp_all add: dedup_lines)
  show ?thesis
    using assms(1,2) eq
  proof (induction hs arbitrary: gs)
    case Nil
    then show ?case by simp
  next
    case (Cons h hs)
    then obtain g gs' where gs: "gs = g # gs'" by (cases gs) auto
    with Cons.prems have "dedup_text h = dedup_text g" "map dedup_text hs = map dedup_text gs'" by simp_all
    moreover from this(1) have "header_pair h = header_pair g"
      using dedup_text_inject [of h g] Cons.prems gs by (simp add: header_pair_def)
    ultimately show ?case using Cons.IH [of gs'] Cons.prems(1,2) gs by simp
  qed
qed

lemma shareable_headers: "is_shareable c \<Longrightarrow> list_all (\<lambda>h. is_dedup_header (lower_header_name (h_name h))) (req_headers (rc_request c))"
  by (auto simp: is_shareable_def shareable_header_def Let_def list_all_iff split: if_splits)

definition sharing_fields :: "request_context \<Rightarrow> string \<times> nat \<times> string \<times> string \<times> asternet_policy \<times> nat \<times> nat \<times> int \<times> int" where
  "sharing_fields c =
     (let r = rc_request c in
      (req_host r, req_port r, req_method r, req_path r, rc_policy c, rc_network_epoch c, req_max_body r,
       req_timeout_ms r, rc_max_retries c))"

text \<open>
  Property C32. Requests are coalesced only when they are the same request: if two shareable
  requests without line breaks in their strings have the same deduplication key, they agree on
  host, port, method, path, policy, network epoch, body limit, timeout and retries, on every
  header (names up to case), and both have an empty body and carry no credentials.
\<close>

theorem dedup_key_identifies:
  assumes "is_shareable c" and "is_shareable d" and "plain_context c" and "plain_context d"
    and "dedup_key c = dedup_key d"
  shows "sharing_fields c = sharing_fields d
    \<and> map header_pair (req_headers (rc_request c)) = map header_pair (req_headers (rc_request d))
    \<and> req_body (rc_request c) = [] \<and> req_body (rc_request d) = []"
proof -
  have all: "filter (\<lambda>h. is_dedup_header (lower_header_name (h_name h))) (req_headers (rc_request x)) = req_headers (rc_request x)"
    if "is_shareable x" for x
    using shareable_headers [OF that] by (simp add: filter_id_conv list_all_iff)
  have sep: "newline \<notin> set (req_host (rc_request x))" "newline \<notin> set (req_method (rc_request x))"
    "newline \<notin> set (req_path (rc_request x))" if "plain_context x" for x
    using that by (simp_all add: plain_context_def plain_def)
  note s = sep [OF assms(3)] sep [OF assms(4)]
  have eqs: "sharing_fields c = sharing_fields d \<and>
      concat (map dedup_line (req_headers (rc_request c))) = concat (map dedup_line (req_headers (rc_request d)))"
    using assms(5) policy_code_inject [of "rc_policy c" "rc_policy d"] assms(3,4)
    unfolding dedup_key_def Let_def all [OF assms(1)] all [OF assms(2)]
    by (simp add: append_sep_first s sharing_fields_def Let_def dec_digits_inject to_string_inject plain_context_def)
  moreover have "list_all (\<lambda>h. is_dedup_header (lower_header_name (h_name h)) \<and> plain (h_value h)) (req_headers (rc_request x))"
    if "is_shareable x" "plain_context x" for x
    using shareable_headers [OF that(1)] that(2) by (auto simp: plain_context_def list_all_iff)
  then have "map header_pair (req_headers (rc_request c)) = map header_pair (req_headers (rc_request d))"
    using eqs assms by (intro dedup_headers_inject) auto
  moreover have "req_body (rc_request x) = []" if "is_shareable x" for x
    using that by (simp add: is_shareable_def Let_def split: if_splits)
  ultimately show ?thesis using assms by simp
qed

definition demo_context :: request_context where
  "demo_context = default_context\<lparr>rc_request := default_request
     \<lparr>req_host := ''a'', req_retry_safe := True, req_headers := [\<lparr>h_name = ''Accept'', h_value = ''x''\<rparr>]\<rparr>\<rparr>"

lemma dedup_key_identifies_witness:
  "sharing_fields demo_context = sharing_fields (demo_context\<lparr>rc_request_id := 7\<rparr>)
   \<and> dedup_key demo_context = dedup_key (demo_context\<lparr>rc_request_id := 7\<rparr>)"
proof -
  have sh: "is_shareable demo_context" "is_shareable (demo_context\<lparr>rc_request_id := 7\<rparr>)"
    by (simp_all add: is_shareable_def demo_context_def default_context_def default_request_def shareable_header_def
        lower_header_name_def char_eval is_dedup_header_def kMaxDedupPathBytes_def kMaxDedupHeaderValueBytes_def bit_0)
  have pl: "plain_context demo_context" "plain_context (demo_context\<lparr>rc_request_id := 7\<rparr>)"
    by (simp_all add: plain_context_def demo_context_def default_context_def default_request_def plain_def
        policy_wf_def policy_of_int_def)
  have key: "dedup_key demo_context = dedup_key (demo_context\<lparr>rc_request_id := 7\<rparr>)"
    by (simp add: dedup_key_def)
  from dedup_key_identifies [OF sh pl key] key show ?thesis by simp
qed

section \<open>The retry interceptor\<close>

text \<open>An observer of the world that counts the calls of the rest of the chain.\<close>

definition counts_next :: "('w \<Rightarrow> nat) \<Rightarrow> 'w clock \<Rightarrow> (int \<Rightarrow> 'w \<Rightarrow> 'w) \<Rightarrow> 'w terminal \<Rightarrow> bool" where
  "counts_next calls clk sleep next \<longleftrightarrow>
     (\<forall>w. calls (snd (clk w)) = calls w) \<and> (\<forall>d w. calls (sleep d w) = calls w)
     \<and> (\<forall>c resp w. calls (snd (snd (snd (next c resp w)))) = Suc (calls w))"

lemma counts_nextD:
  assumes "counts_next calls clk sleep next"
  shows "clk w = (now, w') \<Longrightarrow> calls w' = calls w" "calls (sleep d w) = calls w"
    "next c resp w = (r, c', resp', w') \<Longrightarrow> calls w' = Suc (calls w)"
  using assms unfolding counts_next_def by (metis snd_conv)+

lemma retry_loop_calls:
  assumes "counts_next calls clk sleep next"
  shows "retry_loop clk sleep next deadline attempt left c resp w = (early, result, c', resp', w') \<Longrightarrow>
    calls w \<le> calls w' \<and> calls w' \<le> calls w + Suc left
    \<and> (\<not> early \<longrightarrow> calls w < calls w')"
proof (induction left arbitrary: attempt c resp w)
  case 0
  from 0 show ?case
    by (subst (asm) retry_loop.simps)
      (auto simp: Let_def counts_nextD [OF assms] split: prod.splits if_splits)
next
  case (Suc left)
  obtain now w1 where n: "clk w = (now, w1)" by (rule prod.exhaust)
  note clk1 = counts_nextD(1) [OF assms n]
  show ?case
  proof (cases "deadline - now \<le> 0")
    case True
    from Suc.prems have "w' = w1 \<and> early" by (subst (asm) retry_loop.simps) (use True in \<open>simp add: n\<close>)
    with clk1 show ?thesis by simp
  next
    case False
    let ?c = "c\<lparr>rc_request := (rc_request c)\<lparr>req_timeout_ms := deadline - now\<rparr>, rc_attempts := rc_attempts c + 1\<rparr>"
    obtain r c2 resp2 w2 where nx: "next ?c default_response w1 = (r, c2, resp2, w2)" by (rule prod_cases4)
    obtain now3 w3 where n3: "clk w2 = (now3, w3)" by (rule prod.exhaust)
    note nums = clk1 counts_nextD(3) [OF assms nx] counts_nextD(1) [OF assms n3] counts_nextD(2) [OF assms]
    have run: "(if r = ASTERNET_OK \<or> \<not> retry_is_retryable r then (False, r, c2, resp2\<lparr>resp_attempts := rc_attempts c2\<rparr>, w2)
       else if now3 + retry_delay_ms attempt (rc_request_id c2) \<ge> deadline
       then (False, r, c2, resp2\<lparr>resp_attempts := rc_attempts c2\<rparr>, w3)
       else retry_loop clk sleep next deadline (Suc attempt) left c2 (resp2\<lparr>resp_attempts := rc_attempts c2\<rparr>)
              (sleep (retry_delay_ms attempt (rc_request_id c2)) w3)) = (early, result, c', resp', w')"
      using Suc.prems
      unfolding retry_loop.simps [of clk sleep "next" deadline attempt "Suc left" c resp w] n prod.case Let_def
        if_not_P [OF False] nx n3 nat.case .
    show ?thesis
    proof (cases "r = ASTERNET_OK \<or> \<not> retry_is_retryable r \<or> now3 + retry_delay_ms attempt (rc_request_id c2) \<ge> deadline")
      case True
      with run nums show ?thesis by (auto split: if_splits)
    next
      case False
      with run have "retry_loop clk sleep next deadline (Suc attempt) left c2 (resp2\<lparr>resp_attempts := rc_attempts c2\<rparr>)
              (sleep (retry_delay_ms attempt (rc_request_id c2)) w3) = (early, result, c', resp', w')" by auto
      from Suc.IH [OF this] nums show ?thesis by simp
    qed
  qed
qed

text \<open>
  How often a request is tried: the retry interceptor calls the rest of the chain at
  most once for a request that is not retry-safe, and at most \<open>max_retries + 1\<close> times otherwise,
  for any clock and any outcome of the calls.
\<close>

theorem retry_bounded:
  assumes "counts_next calls clk sleep next"
    and "RetryInterceptor clk sleep next c resp w = (result, c', resp', w')"
  shows "calls w' \<le> calls w + 1 + (if req_retry_safe (rc_request c) then nat (rc_max_retries c) else 0)"
proof -
  obtain now w1 where n: "clk w = (now, w1)" by (rule prod.exhaust)
  define d where "d = (if rc_deadline_ms c > 0 then rc_deadline_ms c else now + req_timeout_ms (rc_request c))"
  obtain early r c2 resp2 w2 where l: "retry_loop clk sleep next d 0 (retry_limit c) c resp w1 = (early, r, c2, resp2, w2)"
    by (rule prod_cases5)
  have "w' = w2"
    using assms(2) unfolding RetryInterceptor_def Let_def n prod.case d_def [symmetric] l by (simp split: if_splits)
  with retry_loop_calls [OF assms(1) l] counts_nextD(1) [OF assms(1) n] show ?thesis
    by (simp add: retry_limit_def split: if_splits)
qed

definition failing_terminal :: "nat terminal" where
  "failing_terminal c resp n = (ASTERNET_ERR_CONNECT, c, resp\<lparr>resp_err_code := ASTERNET_ERR_CONNECT\<rparr>, Suc n)"

lemma retry_bounded_witness:
  "\<exists>result c' resp' w'. RetryInterceptor (\<lambda>w. (0, w)) (\<lambda>_ w. w) failing_terminal
      (default_context\<lparr>rc_request := default_request\<lparr>req_method := ''POST''\<rparr>\<rparr>) default_response 5 = (result, c', resp', w')
    \<and> w' \<le> 6"
proof -
  have "counts_next id (\<lambda>w. (0, w)) (\<lambda>_ w. w) failing_terminal"
    by (simp add: counts_next_def failing_terminal_def)
  moreover obtain result c' resp' w' where run: "RetryInterceptor (\<lambda>w. (0, w)) (\<lambda>_ w. w) failing_terminal
      (default_context\<lparr>rc_request := default_request\<lparr>req_method := ''POST''\<rparr>\<rparr>) default_response 5 = (result, c', resp', w')"
    by (rule prod_cases4)
  ultimately have "w' \<le> 6"
    using retry_bounded [OF _ run, of id] by (simp add: default_context_def default_request_def)
  with run show ?thesis by blast
qed

definition guarded :: "'w terminal \<Rightarrow> 'w terminal \<Rightarrow> 'w terminal" where
  "guarded other terminal c resp w =
     (if req_timeout_ms (rc_request c) \<le> 0 then other c resp w else terminal c resp w)"

lemma retry_loop_guarded:
  "retry_loop clk sleep (guarded other terminal) deadline attempt left c resp w
    = retry_loop clk sleep terminal deadline attempt left c resp w"
proof (induction left arbitrary: attempt c resp w)
  case 0
  obtain now w1 where n: "clk w = (now, w1)" by (rule prod.exhaust)
  show ?case
  proof (cases "deadline - now \<le> 0")
    case True
    then show ?thesis
      unfolding retry_loop.simps [of clk sleep _ deadline attempt 0 c resp w] n prod.case Let_def by simp
  next
    case False
    then have g: "guarded other terminal (c\<lparr>rc_request := (rc_request c)\<lparr>req_timeout_ms := deadline - now\<rparr>,
        rc_attempts := rc_attempts c + 1\<rparr>) r v = terminal (c\<lparr>rc_request := (rc_request c)\<lparr>req_timeout_ms := deadline - now\<rparr>,
        rc_attempts := rc_attempts c + 1\<rparr>) r v" for r v by (simp add: guarded_def)
    show ?thesis
      unfolding retry_loop.simps [of clk sleep _ deadline attempt 0 c resp w] n prod.case Let_def if_not_P [OF False] g nat.case ..
  qed
next
  case (Suc left)
  obtain now w1 where n: "clk w = (now, w1)" by (rule prod.exhaust)
  show ?case
  proof (cases "deadline - now \<le> 0")
    case True
    then show ?thesis
      unfolding retry_loop.simps [of clk sleep _ deadline attempt "Suc left" c resp w] n prod.case Let_def by simp
  next
    case False
    then have g: "guarded other terminal (c\<lparr>rc_request := (rc_request c)\<lparr>req_timeout_ms := deadline - now\<rparr>,
        rc_attempts := rc_attempts c + 1\<rparr>) r v = terminal (c\<lparr>rc_request := (rc_request c)\<lparr>req_timeout_ms := deadline - now\<rparr>,
        rc_attempts := rc_attempts c + 1\<rparr>) r v" for r v by (simp add: guarded_def)
    show ?thesis
      unfolding retry_loop.simps [of clk sleep _ deadline attempt "Suc left" c resp w] n prod.case Let_def if_not_P [OF False] g
        nat.case Suc.IH ..
  qed
qed

text \<open>
  The logical deadline reaches every attempt: the rest of the chain is only ever
  called with a positive timeout. Replacing what it does on any other context changes nothing.
\<close>

theorem attempts_have_time:
  "RetryInterceptor clk sleep (guarded other terminal) c resp w = RetryInterceptor clk sleep terminal c resp w"
  by (simp add: RetryInterceptor_def retry_loop_guarded)

section \<open>The orchestrator\<close>

lemma retry_interceptor_calls:
  assumes "counts_next calls clk sleep terminal"
    and "RetryInterceptor clk sleep terminal c resp w = (result, c', resp', w')"
  shows "calls w' \<le> calls w + 1 + retry_limit c"
proof -
  obtain now w1 where n: "clk w = (now, w1)" by (rule prod.exhaust)
  define d where "d = (if rc_deadline_ms c > 0 then rc_deadline_ms c else now + req_timeout_ms (rc_request c))"
  obtain early r c2 resp2 w2 where l: "retry_loop clk sleep terminal d 0 (retry_limit c) c resp w1 = (early, r, c2, resp2, w2)"
    by (rule prod_cases5)
  have "w' = w2"
    using assms(2) unfolding RetryInterceptor_def Let_def n prod.case d_def [symmetric] l by (simp split: if_splits)
  with retry_loop_calls [OF assms(1) l] counts_nextD(1) [OF assms(1) n] show ?thesis by simp
qed

text \<open>The cap the weak-network interceptor puts on the retries, by the interface of the prober.\<close>

definition capped_limit :: "prober option \<Rightarrow> request_context \<Rightarrow> nat" where
  "capped_limit p c =
     (if req_retry_safe (rc_request c)
      then nat (case p of None \<Rightarrow> rc_max_retries c | Some p \<Rightarrow> prober.retry_cap p (rc_max_retries c)) else 0)"

lemma chain_calls:
  assumes "counts_next calls clk sleep terminal"
    and "chain_execute (orchestrator_chain clk sleep get_prober) terminal c resp w = (result, c', resp', w')"
  shows "calls w' \<le> calls w + 1 + capped_limit (get_prober w) c"
proof (cases "get_prober w")
  case None
  with assms(2) retry_interceptor_calls [OF assms(1)] show ?thesis
    by (fastforce simp: chain_execute_def orchestrator_chain_def WeakNetInterceptor_def capped_limit_def retry_limit_def)
next
  case (Some p)
  let ?c = "if prober_is_weak_net p
     then c\<lparr>rc_weak_network := True, rc_max_retries := (if q_quality (pr_snapshot p) = kOffline then 0 else min (rc_max_retries c) 1)\<rparr>
     else c\<lparr>rc_weak_network := False\<rparr>"
  have "RetryInterceptor clk sleep terminal ?c resp w = (result, c', resp', w')"
    using assms(2) Some
    by (simp add: chain_execute_def orchestrator_chain_def WeakNetInterceptor_def Let_def split: if_splits)
  from retry_interceptor_calls [OF assms(1) this] Some show ?thesis
    by (simp add: capped_limit_def retry_limit_def prober.retry_cap_def split: if_splits)
qed

lemma coalescer_calls:
  fixes calls :: "'w \<Rightarrow> nat"
  assumes "\<And>c resp w r c' resp' w'. operation c resp w = (r, c', resp', w') \<Longrightarrow> calls w' \<le> calls w + limit w c"
    and "coalescer_execute operation co c resp w = (r, c', resp', w', co')"
  shows "calls w' \<le> calls w + limit w c"
proof -
  obtain r1 c1 resp1 w1 where o: "operation c resp w = (r1, c1, resp1, w1)" by (rule prod_cases4)
  from assms(1) [OF o] assms(2) show ?thesis
    by (auto simp: coalescer_execute_def o Let_def split: if_splits prod.splits entry.splits)
qed

text \<open>
  Property C10. No request is sent twice behind the caller's back: through the whole orchestrator, a
  request that was not declared retry-safe, is not an empty-bodied GET, HEAD or OPTIONS and is not
  both idempotent and keyed reaches the transport at most once. Any other request reaches it at
  most \<open>max_retries + 1\<close> times, at most twice on a weak link, and once while the link is offline.
\<close>

theorem orchestrator_sends_bounded:
  assumes "counts_next calls clk sleep terminal"
    and "orchestrator_execute clk sleep get_prober terminal co c resp w = (result, c', resp', w', co')"
  shows "(\<not> req_retry_safe (rc_request c)
      \<and> \<not> (req_body (rc_request c) = [] \<and> is_safe_method (req_method (rc_request c)))
      \<and> \<not> (req_idempotent (rc_request c) \<and> has_idempotency_key (req_headers (rc_request c)))
      \<longrightarrow> calls w' \<le> calls w + 1)
    \<and> calls w' \<le> calls w + 1 + nat (max (rc_max_retries c) 1)
    \<and> (\<forall>p. get_prober w = Some p \<longrightarrow>
        (prober_is_weak_net p \<longrightarrow> calls w' \<le> calls w + 2)
        \<and> (q_quality (pr_snapshot p) = kOffline \<longrightarrow> calls w' \<le> calls w + 1))"
proof -
  let ?n = "normalize_retry_safety c"
  have "calls w' \<le> calls w + (1 + capped_limit (get_prober w) ?n)"
    using assms(2) unfolding orchestrator_execute_def
    by (rule coalescer_calls [where limit = "\<lambda>w c. 1 + capped_limit (get_prober w) c", rotated])
      (use chain_calls [OF assms(1)] in fastforce)
  moreover have "capped_limit (get_prober w) ?n \<le> nat (max (rc_max_retries c) 1)"
    using prober.retry_cap_le
    by (auto simp: capped_limit_def normalize_retry_safety_def Let_def nat_mono split: option.split)
  moreover have "capped_limit (get_prober w) ?n = 0" if "\<not> req_retry_safe (rc_request ?n)"
    using that by (simp add: capped_limit_def)
  moreover have "capped_limit (Some p) ?n \<le> 1" if "prober_is_weak_net p" for p
    using prober.retry_cap_weak [OF that, of "rc_max_retries ?n"] by (auto simp: capped_limit_def)
  moreover have "capped_limit (Some p) ?n = 0" if "q_quality (pr_snapshot p) = kOffline" for p
    using prober.retry_cap_offline [OF that] by (simp add: capped_limit_def)
  ultimately show ?thesis
    by (fastforce simp: normalize_retry_safety_def Let_def)
qed

lemma orchestrator_sends_bounded_witness:
  "\<exists>result c' resp' w' co'. orchestrator_execute (\<lambda>w. (0, w)) (\<lambda>_ w. w) (\<lambda>_. None) failing_terminal (RequestCoalescer 128)
      (default_context\<lparr>rc_request := default_request\<lparr>req_method := ''POST''\<rparr>\<rparr>) default_response 5 = (result, c', resp', w', co')
    \<and> w' \<le> 6"
proof -
  have c: "counts_next id (\<lambda>w. (0, w)) (\<lambda>_ w. w) failing_terminal"
    by (simp add: counts_next_def failing_terminal_def)
  obtain result c' resp' w' co' where run: "orchestrator_execute (\<lambda>w. (0, w)) (\<lambda>_ w. w) (\<lambda>_. None) failing_terminal (RequestCoalescer 128)
      (default_context\<lparr>rc_request := default_request\<lparr>req_method := ''POST''\<rparr>\<rparr>) default_response 5 = (result, c', resp', w', co')"
    by (rule prod_cases5)
  from orchestrator_sends_bounded [OF c run] have "w' \<le> 6"
    by (simp add: default_context_def default_request_def is_safe_method_def has_idempotency_key_def)
  with run show ?thesis by blast
qed

section \<open>Coalescing threads\<close>

text \<open>
  The threads that call \<open>RequestCoalescer::execute\<close>. A step is one critical section, together with
  the code a thread runs alone before or after it; the operation may return anything.
\<close>

type_synonym outcome = "int \<times> request_context \<times> response"

datatype role = Ran_Alone | Led nat | Followed nat | Timed_Out

datatype phase =
    Entering request_context response
  | Leading nat request_context
  | Waiting nat request_context response
  | Finished role request_context outcome

record system =
  sy_co :: coalescer
  sy_thread :: "nat \<Rightarrow> phase option"

inductive co_step :: "system \<Rightarrow> system \<Rightarrow> bool" where
  alone: "sy_thread s t = Some (Entering c resp) \<Longrightarrow> \<not> is_shareable c \<Longrightarrow>
    co_step s (s\<lparr>sy_thread := (sy_thread s)(t \<mapsto> Finished Ran_Alone c oc)\<rparr>)"
| full: "sy_thread s t = Some (Entering c resp) \<Longrightarrow> is_shareable c \<Longrightarrow>
    coalescer_enter (dedup_key c) (sy_co s) = (Solo, co) \<Longrightarrow>
    co_step s (s\<lparr>sy_co := co, sy_thread := (sy_thread s)(t \<mapsto> Finished Ran_Alone c oc)\<rparr>)"
| lead: "sy_thread s t = Some (Entering c resp) \<Longrightarrow> is_shareable c \<Longrightarrow>
    coalescer_enter (dedup_key c) (sy_co s) = (Lead f, co) \<Longrightarrow>
    co_step s (s\<lparr>sy_co := co, sy_thread := (sy_thread s)(t \<mapsto> Leading f c)\<rparr>)"
| follow: "sy_thread s t = Some (Entering c resp) \<Longrightarrow> is_shareable c \<Longrightarrow>
    coalescer_enter (dedup_key c) (sy_co s) = (Follow f, co) \<Longrightarrow>
    co_step s (s\<lparr>sy_co := co, sy_thread := (sy_thread s)(t \<mapsto> Waiting f c resp)\<rparr>)"
| lead_done: "sy_thread s t = Some (Leading f c) \<Longrightarrow>
    co_step s (s\<lparr>sy_co := coalescer_complete (dedup_key c) f r resp (rc_dns_cache_hit c') (sy_co s),
                sy_thread := (sy_thread s)(t \<mapsto> Finished (Led f) c (r, c', resp))\<rparr>)"
| lead_exception: "sy_thread s t = Some (Leading f c) \<Longrightarrow> leader_exception c = (r, c', resp) \<Longrightarrow>
    co_step s (s\<lparr>sy_co := coalescer_complete (dedup_key c) f r resp (rc_dns_cache_hit c') (sy_co s),
                sy_thread := (sy_thread s)(t \<mapsto> Finished (Led f) c (r, c', resp))\<rparr>)"
| follow_done: "sy_thread s t = Some (Waiting f c resp) \<Longrightarrow> fl_complete (co_store (sy_co s) ! f) \<Longrightarrow>
    co_step s (s\<lparr>sy_thread := (sy_thread s)(t \<mapsto> Finished (Followed f) c
                  (follower_result (co_store (sy_co s) ! f) (c\<lparr>rc_deduplicated := True\<rparr>)))\<rparr>)"
| follow_timeout: "sy_thread s t = Some (Waiting f c resp) \<Longrightarrow>
    co_step s (s\<lparr>sy_thread := (sy_thread s)(t \<mapsto> Finished Timed_Out c
                  (follower_timeout (c\<lparr>rc_deduplicated := True\<rparr>) resp))\<rparr>)"

inductive_simps co_step_simps: "co_step s s'"

text \<open>The start: a new coalescer and any threads that are about to enter.\<close>

inductive co_reach :: "nat \<Rightarrow> system \<Rightarrow> bool" for n where
  start: "(\<And>t p. threads t = Some p \<Longrightarrow> \<exists>c resp. p = Entering c resp) \<Longrightarrow>
    co_reach n \<lparr>sy_co = RequestCoalescer n, sy_thread = threads\<rparr>"
| step: "co_reach n s \<Longrightarrow> co_step s s' \<Longrightarrow> co_reach n s'"

definition led_by :: "system \<Rightarrow> nat \<Rightarrow> nat \<Rightarrow> request_context \<Rightarrow> bool" where
  "led_by s f t c \<longleftrightarrow> sy_thread s t = Some (Leading f c) \<or> (\<exists>oc. sy_thread s t = Some (Finished (Led f) c oc))"

definition table_inv :: "system \<Rightarrow> bool" where
  "table_inv s \<longleftrightarrow> keys_distinct (co_flights (sy_co s))
     \<and> length (co_flights (sy_co s)) \<le> co_max_flights (sy_co s)
     \<and> (\<forall>k f. map_of (co_flights (sy_co s)) k = Some f \<longrightarrow>
          (\<exists>t c. sy_thread s t = Some (Leading f c) \<and> dedup_key c = k))"

definition leader_inv :: "system \<Rightarrow> bool" where
  "leader_inv s \<longleftrightarrow>
     (\<forall>t f c. sy_thread s t = Some (Leading f c) \<longrightarrow>
        map_of (co_flights (sy_co s)) (dedup_key c) = Some f \<and> \<not> fl_complete (co_store (sy_co s) ! f))
     \<and> (\<forall>t f c. led_by s f t c \<longrightarrow> f < length (co_store (sy_co s)))
     \<and> (\<forall>t t' f c c'. led_by s f t c \<longrightarrow> led_by s f t' c' \<longrightarrow> t = t')"

definition result_inv :: "system \<Rightarrow> bool" where
  "result_inv s \<longleftrightarrow>
     (\<forall>t f c oc. sy_thread s t = Some (Finished (Led f) c oc) \<longrightarrow>
        fl_complete (co_store (sy_co s) ! f) \<and> fl_result (co_store (sy_co s) ! f) = fst oc
        \<and> fl_response (co_store (sy_co s) ! f) = snd (snd oc))
     \<and> (\<forall>t f c resp. sy_thread s t = Some (Waiting f c resp) \<longrightarrow>
        (\<exists>t' c'. led_by s f t' c' \<and> dedup_key c' = dedup_key c))
     \<and> (\<forall>t f c oc. sy_thread s t = Some (Finished (Followed f) c oc) \<longrightarrow>
        (\<exists>t' c' oc'. sy_thread s t' = Some (Finished (Led f) c' oc') \<and> dedup_key c' = dedup_key c
           \<and> fst oc' = fst oc \<and> snd (snd oc') = snd (snd oc)))"

definition co_inv :: "system \<Rightarrow> bool" where
  "co_inv s \<longleftrightarrow> table_inv s \<and> leader_inv s \<and> result_inv s"

subsection \<open>Each transition keeps the invariant\<close>

lemma led_by_simps [simp]:
  "led_by s f t c \<Longrightarrow> sy_thread s' t = sy_thread s t \<Longrightarrow> led_by s' f t c"
  by (simp add: led_by_def)

lemma enter_cases:
  assumes "coalescer_enter k co = (e, co')"
  shows "(\<forall>f. e = Follow f \<longrightarrow> map_of (co_flights co) k = Some f \<and> co' = co)
    \<and> (e = Solo \<longrightarrow> co' = co)
    \<and> (\<forall>f. e = Lead f \<longrightarrow> map_of (co_flights co) k = None \<and> length (co_flights co) < co_max_flights co
        \<and> f = length (co_store co)
        \<and> co' = co\<lparr>co_store := co_store co @ [new_flight], co_flights := AList.update k f (co_flights co)\<rparr>)"
  using assms by (auto simp: coalescer_enter_def split: option.splits if_splits)

text \<open>A thread that neither leads nor has led moves on: the coalescer is untouched.\<close>

lemma bystander_inv:
  assumes "co_inv s" and "sy_thread s t = Some p" and "\<And>f c. p \<noteq> Leading f c" and "\<And>f c oc. p \<noteq> Finished (Led f) c oc"
    and "\<And>f c. p' \<noteq> Leading f c" and "\<And>f c oc. p' \<noteq> Finished (Led f) c oc"
    and "\<And>f c resp. p' = Waiting f c resp \<Longrightarrow> \<exists>t' c'. led_by s f t' c' \<and> dedup_key c' = dedup_key c"
    and "\<And>f c oc. p' = Finished (Followed f) c oc \<Longrightarrow> \<exists>t' c' oc'. sy_thread s t' = Some (Finished (Led f) c' oc')
           \<and> dedup_key c' = dedup_key c \<and> fst oc' = fst oc \<and> snd (snd oc') = snd (snd oc)"
  shows "co_inv (s\<lparr>sy_thread := (sy_thread s)(t \<mapsto> p')\<rparr>)"
proof -
  let ?s = "s\<lparr>sy_thread := (sy_thread s)(t \<mapsto> p')\<rparr>"
  have led: "led_by ?s f t' c \<longleftrightarrow> led_by s f t' c" for f t' c
    using assms(2-6) by (auto simp: led_by_def)
  have lead: "sy_thread ?s t' = Some (Leading f c) \<longleftrightarrow> sy_thread s t' = Some (Leading f c)" for t' f c
    using assms(2-6) by auto
  have fin: "sy_thread ?s t' = Some (Finished (Led f) c oc) \<longleftrightarrow> sy_thread s t' = Some (Finished (Led f) c oc)" for t' f c oc
    using assms(2-6) by auto
  have "table_inv ?s" using assms(1) unfolding co_inv_def table_inv_def lead by simp
  moreover have "leader_inv ?s" using assms(1) unfolding co_inv_def leader_inv_def lead led by simp
  moreover have "result_inv ?s"
  proof -
    have R: "result_inv s" using assms(1) by (simp add: co_inv_def)
    have "\<exists>t'' c''. led_by s f t'' c'' \<and> dedup_key c'' = dedup_key c"
      if "sy_thread ?s t' = Some (Waiting f c r)" for t' f c r
    proof (cases "t' = t")
      case True
      with that have "p' = Waiting f c r" by simp
      then show ?thesis by (rule assms(7))
    next
      case False
      with that have "sy_thread s t' = Some (Waiting f c r)" by simp
      with R show ?thesis unfolding result_inv_def by blast
    qed
    moreover have "\<exists>t'' c'' oc'. sy_thread s t'' = Some (Finished (Led f) c'' oc') \<and> dedup_key c'' = dedup_key c
        \<and> fst oc' = fst oc \<and> snd (snd oc') = snd (snd oc)"
      if th: "sy_thread ?s t' = Some (Finished (Followed f) c oc)" for t' f c oc
    proof (cases "t' = t")
      case True
      with th have "p' = Finished (Followed f) c oc" by simp
      then show ?thesis by (rule assms(8))
    next
      case False
      with th have "sy_thread s t' = Some (Finished (Followed f) c oc)" by simp
      with R show ?thesis unfolding result_inv_def by blast
    qed
    moreover have "sy_co ?s = sy_co s" by simp
    ultimately show ?thesis using R by (simp only: result_inv_def led fin) blast
  qed
  ultimately show ?thesis by (simp add: co_inv_def)
qed

lemma lead_inv:
  assumes "co_inv s" and "sy_thread s t = Some (Entering c resp)"
    and "coalescer_enter (dedup_key c) (sy_co s) = (Lead f, co)"
  shows "co_inv (s\<lparr>sy_co := co, sy_thread := (sy_thread s)(t \<mapsto> Leading f c)\<rparr>)"
proof -
  let ?s = "s\<lparr>sy_co := co, sy_thread := (sy_thread s)(t \<mapsto> Leading f c)\<rparr>"
  from enter_cases [OF assms(3)] have none: "map_of (co_flights (sy_co s)) (dedup_key c) = None"
    and room: "length (co_flights (sy_co s)) < co_max_flights (sy_co s)" and f: "f = length (co_store (sy_co s))"
    and co: "co = (sy_co s)\<lparr>co_store := co_store (sy_co s) @ [new_flight],
      co_flights := AList.update (dedup_key c) f (co_flights (sy_co s))\<rparr>" by auto
  have T: "table_inv s" and L: "leader_inv s" and R: "result_inv s" using assms(1) by (simp_all add: co_inv_def)
  have old: "led_by s f' t' c' \<Longrightarrow> f' < f" for f' t' c' using L f unfolding leader_inv_def by blast
  have led: "led_by ?s f' t' c' \<longleftrightarrow> (t' = t \<and> f' = f \<and> c' = c) \<or> (t' \<noteq> t \<and> led_by s f' t' c')" for f' t' c'
    by (auto simp: led_by_def)
  have keep: "t' \<noteq> t" if "led_by s f' t' c'" for f' t' c'
    using that assms(2) by (auto simp: led_by_def)
  have store: "co_store co ! f' = co_store (sy_co s) ! f'" if "led_by s f' t' c'" for f' t' c'
    using old [OF that] by (simp add: co f nth_append)
  have lead_led: "sy_thread s t' = Some (Leading f' c') \<Longrightarrow> led_by s f' t' c'"
    and fin_led: "sy_thread s t' = Some (Finished (Led f') c' oc) \<Longrightarrow> led_by s f' t' c'" for t' f' c' oc
    unfolding led_by_def by blast+
  have "table_inv ?s"
  proof -
    have "\<exists>t' d. sy_thread ?s t' = Some (Leading f' d) \<and> dedup_key d = k" if "map_of (co_flights co) k = Some f'" for k f'
    proof (cases "k = dedup_key c")
      case True
      with that have "f' = f" by (simp add: co update_conv)
      with True show ?thesis by auto
    next
      case False
      with that have "map_of (co_flights (sy_co s)) k = Some f'" by (simp add: co update_conv)
      with T obtain t' d where td: "sy_thread s t' = Some (Leading f' d)" "dedup_key d = k" unfolding table_inv_def by blast
      with keep [OF lead_led] have "t' \<noteq> t" by blast
      with td show ?thesis by auto
    qed
    moreover have "keys_distinct (co_flights co)" "length (co_flights co) \<le> co_max_flights co"
      using T none room by (simp_all add: table_inv_def co length_update)
    ultimately show ?thesis unfolding table_inv_def by simp
  qed
  moreover have "leader_inv ?s"
  proof -
    have "map_of (co_flights co) (dedup_key c') = Some f' \<and> \<not> fl_complete (co_store co ! f')"
      if th: "sy_thread ?s t' = Some (Leading f' c')" for t' f' c'
    proof (cases "t' = t")
      case True
      with th show ?thesis by (simp add: co f update_conv nth_append new_flight_def)
    next
      case False
      with th have old': "sy_thread s t' = Some (Leading f' c')" by simp
      with L have "map_of (co_flights (sy_co s)) (dedup_key c') = Some f' \<and> \<not> fl_complete (co_store (sy_co s) ! f')"
        unfolding leader_inv_def by blast
      with none store [OF lead_led [OF old']] show ?thesis by (auto simp: co update_conv)
    qed
    moreover have "f' < length (co_store co)" if "led_by ?s f' t' c'" for f' t' c'
    proof -
      from that have "f' \<le> f" unfolding led using old [of f' t' c'] by auto
      then show ?thesis by (simp add: co f)
    qed
    moreover have "t1 = t2" if "led_by ?s f' t1 c1" "led_by ?s f' t2 c2" for f' t1 t2 c1 c2
    proof -
      have A: "(t1 = t \<and> f' = f) \<or> led_by s f' t1 c1" using that(1) unfolding led by blast
      have B: "(t2 = t \<and> f' = f) \<or> led_by s f' t2 c2" using that(2) unfolding led by blast
      have no: "\<not> led_by s f u d" for u d using old [of f u d] by blast
      show ?thesis
      proof (cases "f' = f")
        case True
        with A no have "t1 = t" by metis
        moreover from True B no have "t2 = t" by metis
        ultimately show ?thesis by simp
      next
        case False
        with A B have "led_by s f' t1 c1" "led_by s f' t2 c2" by simp_all
        with L show ?thesis unfolding leader_inv_def by blast
      qed
    qed
    moreover have "sy_co ?s = co" by simp
    ultimately show ?thesis unfolding leader_inv_def by (simp only:) blast
  qed
  moreover have "result_inv ?s"
  proof -
    have "fl_complete (co_store co ! f') \<and> fl_result (co_store co ! f') = fst oc \<and> fl_response (co_store co ! f') = snd (snd oc)"
      if "sy_thread ?s t' = Some (Finished (Led f') c' oc)" for t' f' c' oc
    proof -
      from that have th: "sy_thread s t' = Some (Finished (Led f') c' oc)" by (auto split: if_splits)
      with R have "fl_complete (co_store (sy_co s) ! f') \<and> fl_result (co_store (sy_co s) ! f') = fst oc
          \<and> fl_response (co_store (sy_co s) ! f') = snd (snd oc)" unfolding result_inv_def by blast
      then show ?thesis unfolding store [OF fin_led [OF th]] .
    qed
    moreover have "\<exists>t'' c''. led_by ?s f' t'' c'' \<and> dedup_key c'' = dedup_key c'"
      if "sy_thread ?s t' = Some (Waiting f' c' r)" for t' f' c' r
    proof -
      from that have "sy_thread s t' = Some (Waiting f' c' r)" by (auto split: if_splits)
      with R obtain t'' c'' where "led_by s f' t'' c''" "dedup_key c'' = dedup_key c'"
        unfolding result_inv_def by blast
      with keep show ?thesis unfolding led by blast
    qed
    moreover have "\<exists>t'' c'' oc'. sy_thread ?s t'' = Some (Finished (Led f') c'' oc') \<and> dedup_key c'' = dedup_key c'
        \<and> fst oc' = fst oc \<and> snd (snd oc') = snd (snd oc)"
      if "sy_thread ?s t' = Some (Finished (Followed f') c' oc)" for t' f' c' oc
    proof -
      from that have "sy_thread s t' = Some (Finished (Followed f') c' oc)" by (auto split: if_splits)
      with R obtain t'' c'' oc' where *: "sy_thread s t'' = Some (Finished (Led f') c'' oc')"
        "dedup_key c'' = dedup_key c'" "fst oc' = fst oc" "snd (snd oc') = snd (snd oc)"
        unfolding result_inv_def by blast
      then have "sy_thread ?s t'' = Some (Finished (Led f') c'' oc')" using keep [OF fin_led [OF *(1)]] by simp
      with * show ?thesis by blast
    qed
    moreover have "sy_co ?s = co" by simp
    ultimately show ?thesis unfolding result_inv_def by (simp only:) blast
  qed
  ultimately show ?thesis by (simp add: co_inv_def)
qed

lemma complete_inv:
  assumes "co_inv s" and "sy_thread s t = Some (Leading f c)"
  shows "co_inv (s\<lparr>sy_co := coalescer_complete (dedup_key c) f r resp hit (sy_co s),
                sy_thread := (sy_thread s)(t \<mapsto> Finished (Led f) c (r, c', resp))\<rparr>)"
proof -
  let ?co = "coalescer_complete (dedup_key c) f r resp hit (sy_co s)"
  let ?s = "s\<lparr>sy_co := ?co, sy_thread := (sy_thread s)(t \<mapsto> Finished (Led f) c (r, c', resp))\<rparr>"
  have T: "table_inv s" and L: "leader_inv s" and R: "result_inv s" using assms(1) by (simp_all add: co_inv_def)
  have me: "led_by s f t c" using assms(2) by (simp add: led_by_def)
  have len: "f < length (co_store (sy_co s))" using L me unfolding leader_inv_def by blast
  have only: "led_by s f t' d \<Longrightarrow> t' = t" for t' d using L me unfolding leader_inv_def by blast
  have mine: "led_by s f' t d \<Longrightarrow> f' = f \<and> d = c" for f' d using assms(2) by (auto simp: led_by_def)
  have led: "led_by ?s f' t' d \<longleftrightarrow> led_by s f' t' d" for f' t' d
    using assms(2) by (auto simp: led_by_def)
  have lead_led: "sy_thread s t' = Some (Leading f' d) \<Longrightarrow> led_by s f' t' d"
    and fin_led: "sy_thread s t' = Some (Finished (Led f') d oc) \<Longrightarrow> led_by s f' t' d" for t' f' d oc
    unfolding led_by_def by blast+
  have other: "co_store ?co ! f' = co_store (sy_co s) ! f'" if "f' \<noteq> f" for f'
    using that by (simp add: coalescer_complete_def)
  have self: "co_store ?co ! f = \<lparr>fl_complete = True, fl_result = r, fl_response = resp, fl_dns_cache_hit = hit\<rparr>"
    using len by (simp add: coalescer_complete_def)
  have key: "map_of (co_flights (sy_co s)) (dedup_key c) = Some f"
    using L assms(2) unfolding leader_inv_def by blast
  have tab: "map_of (co_flights ?co) k = (if k = dedup_key c then None else map_of (co_flights (sy_co s)) k)" for k
    by (simp add: coalescer_complete_def delete_conv)
  have "table_inv ?s"
  proof -
    have "\<exists>t' d. sy_thread ?s t' = Some (Leading f' d) \<and> dedup_key d = k" if "map_of (co_flights ?co) k = Some f'" for k f'
    proof -
      from that have k: "k \<noteq> dedup_key c" "map_of (co_flights (sy_co s)) k = Some f'" by (auto simp: tab split: if_splits)
      with T obtain t' d where td: "sy_thread s t' = Some (Leading f' d)" "dedup_key d = k" unfolding table_inv_def by blast
      with k assms(2) have "t' \<noteq> t" by auto
      with td show ?thesis by auto
    qed
    moreover have "length (co_flights ?co) \<le> co_max_flights ?co" "keys_distinct (co_flights ?co)"
      using T order_trans [OF length_delete_le] by (auto simp: table_inv_def coalescer_complete_def)
    ultimately show ?thesis unfolding table_inv_def by simp
  qed
  moreover have "leader_inv ?s"
  proof -
    have "map_of (co_flights ?co) (dedup_key d) = Some f' \<and> \<not> fl_complete (co_store ?co ! f')"
      if "sy_thread ?s t' = Some (Leading f' d)" for t' f' d
    proof -
      from that have th: "t' \<noteq> t" "sy_thread s t' = Some (Leading f' d)" by (auto split: if_splits)
      have ne: "f' \<noteq> f" using only lead_led [OF th(2)] th(1) by blast
      have old: "map_of (co_flights (sy_co s)) (dedup_key d) = Some f'" "\<not> fl_complete (co_store (sy_co s) ! f')"
        using L th(2) unfolding leader_inv_def by blast+
      with ne key show ?thesis by (auto simp: tab other)
    qed
    moreover have "length (co_store ?co) = length (co_store (sy_co s))" by (simp add: coalescer_complete_def)
    ultimately show ?thesis using L unfolding leader_inv_def led by simp
  qed
  moreover have "result_inv ?s"
  proof -
    have done_iff: "sy_thread ?s t' = Some (Finished (Led f') d oc) \<longleftrightarrow>
        (if t' = t then f' = f \<and> d = c \<and> oc = (r, c', resp) else sy_thread s t' = Some (Finished (Led f') d oc))"
      for t' f' d oc by auto
    have "fl_complete (co_store ?co ! f') \<and> fl_result (co_store ?co ! f') = fst oc \<and> fl_response (co_store ?co ! f') = snd (snd oc)"
      if "sy_thread ?s t' = Some (Finished (Led f') d oc)" for t' f' d oc
    proof (cases "t' = t")
      case True
      with that have "f' = f" "oc = (r, c', resp)" by auto
      then show ?thesis by (simp only: self flight.select_convs fst_conv snd_conv simp_thms)
    next
      case False
      with that have th: "sy_thread s t' = Some (Finished (Led f') d oc)" by simp
      with only fin_led [OF th] False have "f' \<noteq> f" by blast
      moreover have "fl_complete (co_store (sy_co s) ! f') \<and> fl_result (co_store (sy_co s) ! f') = fst oc
          \<and> fl_response (co_store (sy_co s) ! f') = snd (snd oc)"
        using R th unfolding result_inv_def by blast
      ultimately show ?thesis by (simp add: other)
    qed
    moreover have "\<exists>t'' c''. led_by s f' t'' c'' \<and> dedup_key c'' = dedup_key d"
      if "sy_thread ?s t' = Some (Waiting f' d x)" for t' f' d x
    proof -
      from that have "sy_thread s t' = Some (Waiting f' d x)" by (auto split: if_splits)
      with R show ?thesis unfolding result_inv_def by blast
    qed
    moreover have "\<exists>t'' c'' oc'. sy_thread ?s t'' = Some (Finished (Led f') c'' oc') \<and> dedup_key c'' = dedup_key d
        \<and> fst oc' = fst oc \<and> snd (snd oc') = snd (snd oc)"
      if "sy_thread ?s t' = Some (Finished (Followed f') d oc)" for t' f' d oc
    proof -
      from that have "sy_thread s t' = Some (Finished (Followed f') d oc)" by (auto split: if_splits)
      with R obtain t'' c'' oc' where *: "sy_thread s t'' = Some (Finished (Led f') c'' oc')"
        "dedup_key c'' = dedup_key d" "fst oc' = fst oc" "snd (snd oc') = snd (snd oc)"
        unfolding result_inv_def by blast
      then have "t'' \<noteq> t" using assms(2) by auto
      with *(1) have "sy_thread ?s t'' = Some (Finished (Led f') c'' oc')" by simp
      with *(2-4) show ?thesis by blast
    qed
    moreover have "sy_co ?s = ?co" by simp
    ultimately show ?thesis by (simp only: result_inv_def led) blast
  qed
  ultimately show ?thesis by (simp add: co_inv_def)
qed

lemma follow_inv:
  assumes "co_inv s" and "sy_thread s t = Some (Waiting f c resp)" and "fl_complete (co_store (sy_co s) ! f)"
  shows "\<exists>t' c' oc'. sy_thread s t' = Some (Finished (Led f) c' oc') \<and> dedup_key c' = dedup_key c
    \<and> fst oc' = fl_result (co_store (sy_co s) ! f) \<and> snd (snd oc') = fl_response (co_store (sy_co s) ! f)"
proof -
  have L: "leader_inv s" and R: "result_inv s" using assms(1) by (simp_all add: co_inv_def)
  from R assms(2) obtain t' c' where l: "led_by s f t' c'" "dedup_key c' = dedup_key c"
    unfolding result_inv_def by blast
  have "sy_thread s t' \<noteq> Some (Leading f c')" using L assms(3) unfolding leader_inv_def by blast
  with l obtain oc where oc: "sy_thread s t' = Some (Finished (Led f) c' oc)" by (auto simp: led_by_def)
  have "fl_result (co_store (sy_co s) ! f) = fst oc \<and> fl_response (co_store (sy_co s) ! f) = snd (snd oc)"
    using R oc unfolding result_inv_def by blast
  with oc l(2) show ?thesis by metis
qed

lemma co_step_inv: "co_step s s' \<Longrightarrow> co_inv s \<Longrightarrow> co_inv s'"
proof (induction rule: co_step.induct)
  case (alone s t c resp oc)
  then show ?case by (intro bystander_inv [of s t "Entering c resp"]) auto
next
  case (full s t c resp co oc)
  then have "sy_co s = co" using enter_cases [OF full(3)] by simp
  then have "s\<lparr>sy_co := co, sy_thread := (sy_thread s)(t \<mapsto> Finished Ran_Alone c oc)\<rparr> =
      s\<lparr>sy_thread := (sy_thread s)(t \<mapsto> Finished Ran_Alone c oc)\<rparr>" by simp
  with full show ?case using bystander_inv [of s t "Entering c resp" "Finished Ran_Alone c oc"] by auto
next
  case (lead s t c resp f co)
  then show ?case using lead_inv by blast
next
  case (follow s t c resp f co)
  from enter_cases [OF follow(3)] have co: "co = sy_co s" and k: "map_of (co_flights (sy_co s)) (dedup_key c) = Some f" by auto
  have "table_inv s" using follow(4) by (simp add: co_inv_def)
  with k obtain t' c' where "sy_thread s t' = Some (Leading f c')" "dedup_key c' = dedup_key c"
    unfolding table_inv_def by blast
  then have "led_by s f t' c' \<and> dedup_key c' = dedup_key c" by (simp add: led_by_def)
  moreover have "s\<lparr>sy_co := co, sy_thread := (sy_thread s)(t \<mapsto> Waiting f c resp)\<rparr> =
      s\<lparr>sy_thread := (sy_thread s)(t \<mapsto> Waiting f c resp)\<rparr>" by (simp add: co)
  ultimately show ?case
    using bystander_inv [OF follow(4,1), of "Waiting f c resp"] by auto
next
  case (lead_done s t f c r resp c')
  then show ?case using complete_inv by blast
next
  case (lead_exception s t f c r c' resp)
  then show ?case using complete_inv by blast
next
  case (follow_done s t f c resp)
  show ?case
    using follow_done(1,2,3) follow_inv [OF follow_done(3,1,2)]
    by (intro bystander_inv [of s t "Waiting f c resp"]) (auto simp: follower_result_def)
next
  case (follow_timeout s t f c resp)
  then show ?case by (intro bystander_inv [of s t "Waiting f c resp"]) auto
qed

lemma co_reach_inv: "co_reach n s \<Longrightarrow> co_inv s \<and> co_max_flights (sy_co s) = (if n = 0 then 1 else n)"
proof (induction rule: co_reach.induct)
  case (start threads)
  have "co_inv \<lparr>sy_co = RequestCoalescer n, sy_thread = threads\<rparr>"
    using start by (fastforce simp: co_inv_def table_inv_def leader_inv_def result_inv_def led_by_def RequestCoalescer_def)
  then show ?case by (simp add: RequestCoalescer_def)
next
  case (step s s')
  then have "co_inv s'" using co_step_inv by blast
  moreover have "co_max_flights (sy_co s') = co_max_flights (sy_co s)"
    using step(2) by (induction rule: co_step.induct)
      (auto simp: coalescer_enter_def coalescer_complete_def split: option.splits if_splits)
  ultimately show ?case using step by simp
qed

text \<open>
  Property C8. Coalescing is safe under every interleaving of threads: at most \<open>max_flights\<close> keys
  are in flight; at most one thread at a time runs the operation for a key in flight; and a thread
  that was answered by another's flight got exactly the code and the response of one finished
  operation, whose request has the same deduplication key.
\<close>

theorem coalescing_safe:
  assumes "co_reach n s"
  shows "length (co_flights (sy_co s)) \<le> max 1 n
    \<and> (\<forall>t t' f f' c c'. sy_thread s t = Some (Leading f c) \<longrightarrow> sy_thread s t' = Some (Leading f' c') \<longrightarrow>
          dedup_key c = dedup_key c' \<longrightarrow> t = t')
    \<and> (\<forall>t f c oc. sy_thread s t = Some (Finished (Followed f) c oc) \<longrightarrow>
        (\<exists>t' c' oc'. sy_thread s t' = Some (Finished (Led f) c' oc') \<and> dedup_key c' = dedup_key c
           \<and> fst oc' = fst oc \<and> snd (snd oc') = snd (snd oc)))"
proof -
  from co_reach_inv [OF assms] have T: "table_inv s" and L: "leader_inv s" and R: "result_inv s"
    and m: "co_max_flights (sy_co s) \<le> max 1 n" by (auto simp: co_inv_def)
  have "t = t'" if "sy_thread s t = Some (Leading f c)" "sy_thread s t' = Some (Leading f' c')"
    "dedup_key c = dedup_key c'" for t t' f f' c c'
  proof -
    have "f = f'" using L that unfolding leader_inv_def by (metis option.inject)
    with that have "led_by s f t c" "led_by s f t' c'" by (simp_all add: led_by_def)
    with L show ?thesis unfolding leader_inv_def by blast
  qed
  then show ?thesis using T R m unfolding table_inv_def result_inv_def by simp
qed

lemma coalescing_safe_witness:
  "\<exists>s. co_reach 1 s \<and> length (co_flights (sy_co s)) \<le> 1 \<and> sy_thread s 0 \<noteq> None"
proof -
  have r: "co_reach 1 \<lparr>sy_co = RequestCoalescer 1, sy_thread = [0 \<mapsto> Entering demo_context default_response]\<rparr>"
    by (rule co_reach.start) (auto split: if_splits)
  from coalescing_safe [OF r] r show ?thesis
    by (intro exI [of _ "\<lparr>sy_co = RequestCoalescer 1, sy_thread = [0 \<mapsto> Entering demo_context default_response]\<rparr>"]) simp
qed

end
