(* ===== verification/Protocol_Selector.thy ===== *)
theory Protocol_Selector
  imports Api_Types
begin

text \<open>
  \<open>engine/protocol_selector.cpp\<close>: the fallback chain H3, H2, H1.1 and the circuit breaker per
  host, port, network epoch and protocol. The three engines, the clock and the order of the hash
  table are parameters. The selector's own methods hold \<open>states_mutex_\<close> only around the table
  operations; the model is one request running to its end.
\<close>

section \<open>The breaker table\<close>

record ban_state =
  ban_failures :: int
  ban_until_ms :: int

definition default_ban :: ban_state where
  "default_ban = \<lparr>ban_failures = 0, ban_until_ms = 0\<rparr>"

type_synonym selector_key = "string \<times> engine_type"

record 'w selector =
  sel_states :: "(selector_key, ban_state) table"
  sel_h3 :: "'w engine option"
  sel_h2 :: "'w engine option"
  sel_h1 :: "'w engine option"
  sel_max_failures :: int
  sel_cooldown_ms :: int
  sel_max_states :: nat

definition ProtocolSelector :: "'w engine option \<Rightarrow> 'w engine option \<Rightarrow> 'w engine option \<Rightarrow> 'w selector" where
  "ProtocolSelector h3 h2 h1 =
     \<lparr>sel_states = [], sel_h3 = h3, sel_h2 = h2, sel_h1 = h1, sel_max_failures = 3,
      sel_cooldown_ms = 60000, sel_max_states = 512\<rparr>"

definition is_retryable_error :: "int \<Rightarrow> bool" where
  "is_retryable_error e \<longleftrightarrow>
     e = ASTERNET_ERR_DNS \<or> e = ASTERNET_ERR_CONNECT \<or> e = ASTERNET_ERR_TIMEOUT
     \<or> e = ASTERNET_ERR_PROTOCOL \<or> e = ASTERNET_ERR_UNSUPPORTED \<or> e = ASTERNET_ERR_DEGRADED"

definition state_host_key :: "request \<Rightarrow> string" where
  "state_host_key r =
     req_host r @ newline # dec_digits (req_port r) @ newline # dec_digits (req_network_epoch r)"

definition selector_is_available ::
  "'w clock \<Rightarrow> engine_type \<Rightarrow> request \<Rightarrow> 'w selector \<Rightarrow> 'w \<Rightarrow> bool \<times> 'w selector \<times> 'w" where
  "selector_is_available clk t req sel w =
     (let key = (state_host_key req, t) in
      case map_of (sel_states sel) key of
        None \<Rightarrow> (True, sel, w)
      | Some s \<Rightarrow>
          if ban_until_ms s = 0 then (True, sel, w)
          else
            let (now, w) = clk w in
            if now \<ge> ban_until_ms s
            then (True, sel\<lparr>sel_states := AList.update key default_ban (sel_states sel)\<rparr>, w)
            else (False, sel, w))"

definition selector_record_failure ::
  "(selector_key, ban_state) hash_order \<Rightarrow> 'w clock \<Rightarrow> engine_type \<Rightarrow> request \<Rightarrow> 'w selector \<Rightarrow> 'w
     \<Rightarrow> 'w selector \<times> 'w" where
  "selector_record_failure ho clk t req sel w =
     (let key = (state_host_key req, t);
          m = make_room (begin_key ho) (sel_max_states sel) key (sel_states sel);
          s = (case map_of m key of None \<Rightarrow> default_ban | Some s \<Rightarrow> s);
          s = s\<lparr>ban_failures := ban_failures s + 1\<rparr>
      in if ban_failures s \<ge> sel_max_failures sel
         then let (now, w) = clk w in
              (sel\<lparr>sel_states := AList.update key (s\<lparr>ban_until_ms := now + sel_cooldown_ms sel\<rparr>) m\<rparr>, w)
         else (sel\<lparr>sel_states := AList.update key s m\<rparr>, w))"

definition selector_record_success :: "engine_type \<Rightarrow> request \<Rightarrow> 'w selector \<Rightarrow> 'w selector" where
  "selector_record_success t req sel =
     (let key = (state_host_key req, t) in
      case map_of (sel_states sel) key of
        None \<Rightarrow> sel
      | Some s \<Rightarrow> sel\<lparr>sel_states := AList.update key default_ban (sel_states sel)\<rparr>)"

section \<open>The fallback chain\<close>

datatype chain_step = Step (step_type: engine_type) (step_proto: asternet_protocol)

definition h3_step :: chain_step where "h3_step = Step kHttp3 PROTOCOL_HTTP_3"
definition h2_step :: chain_step where "h2_step = Step kHttp2 PROTOCOL_HTTP_2"
definition h1_step :: chain_step where "h1_step = Step kHttp1 PROTOCOL_HTTP_1_1"

definition step_engine :: "'w selector \<Rightarrow> chain_step \<Rightarrow> 'w engine option" where
  "step_engine sel s =
     (case step_type s of kHttp3 \<Rightarrow> sel_h3 sel | kHttp2 \<Rightarrow> sel_h2 sel | kHttp1 \<Rightarrow> sel_h1 sel
        | kCronet \<Rightarrow> None)"

text \<open>
  The \<open>switch\<close> on the policy: the chain, and whether it may fall back (the same policies respect
  the circuit breaker). \<open>None\<close> is the \<open>default:\<close> branch.
\<close>

fun policy_chain :: "asternet_policy \<Rightarrow> (chain_step list \<times> bool) option" where
  "policy_chain POLICY_AUTO = Some ([h3_step, h2_step, h1_step], True)"
| "policy_chain POLICY_PREFER_HTTP_3 = Some ([h3_step, h2_step, h1_step], True)"
| "policy_chain POLICY_PREFER_HTTP_2 = Some ([h2_step, h1_step], True)"
| "policy_chain POLICY_HTTP_3_ONLY = Some ([h3_step], False)"
| "policy_chain POLICY_HTTP_2_ONLY = Some ([h2_step], False)"
| "policy_chain POLICY_HTTP_1_1_ONLY = Some ([h1_step], False)"
| "policy_chain (POLICY_OTHER n) = None"

text \<open>The local variables of the loop, together with the selector and the world it changes.\<close>

record 'w attempt_state =
  at_sel :: "'w selector"
  at_world :: 'w
  at_resp :: response
  at_last_error :: int
  at_degraded :: bool
  at_attempts :: int

definition remaining_ms :: "request \<Rightarrow> int \<Rightarrow> int \<Rightarrow> int" where
  "remaining_ms req start now =
     (if req_timeout_ms req > 0 then req_timeout_ms req else 15000) - (now - start)"

definition selector_gate ::
  "bool \<Rightarrow> 'w clock \<Rightarrow> engine_type \<Rightarrow> request \<Rightarrow> 'w attempt_state \<Rightarrow> bool \<times> 'w attempt_state" where
  "selector_gate respect_circuit clk t req st =
     (if respect_circuit
      then let (ok, sel, w) = selector_is_available clk t req (at_sel st) (at_world st)
           in (ok, st\<lparr>at_sel := sel, at_world := w\<rparr>)
      else (True, st))"

text \<open>
  One call of an engine: the response of the attempt replaces the response of the caller, and the
  breaker is told. The flag says whether the request succeeded.
\<close>

definition selector_attempt ::
  "(selector_key, ban_state) hash_order \<Rightarrow> 'w clock \<Rightarrow> chain_step \<Rightarrow> 'w engine \<Rightarrow> request \<Rightarrow> int
     \<Rightarrow> 'w attempt_state \<Rightarrow> bool \<times> 'w attempt_state" where
  "selector_attempt ho clk s e req remaining st =
     (let (ret, tmp, w) = e (req\<lparr>req_timeout_ms := remaining\<rparr>) (at_world st);
          attempts = at_attempts st + 1
      in if ret = ASTERNET_OK
         then (True, st\<lparr>at_world := w, at_attempts := attempts,
                 at_sel := selector_record_success (step_type s) req (at_sel st),
                 at_resp := tmp\<lparr>resp_protocol := step_proto s, resp_degraded := at_degraded st,
                                resp_attempts := attempts\<rparr>\<rparr>)
         else if \<not> is_retryable_error ret
         then (False, st\<lparr>at_world := w, at_attempts := attempts, at_resp := tmp, at_last_error := ret\<rparr>)
         else
           let (sel, w) = selector_record_failure ho clk (step_type s) req (at_sel st) w
           in (False, st\<lparr>at_world := w, at_attempts := attempts, at_resp := tmp, at_last_error := ret,
                         at_sel := sel\<rparr>))"

fun selector_loop ::
  "(selector_key, ban_state) hash_order \<Rightarrow> 'w clock \<Rightarrow> request \<Rightarrow> int \<Rightarrow> bool \<Rightarrow> chain_step list
     \<Rightarrow> 'w attempt_state \<Rightarrow> bool \<times> 'w attempt_state" where
  "selector_loop ho clk req start fallback [] st = (False, st)"
| "selector_loop ho clk req start fallback (s # rest) st =
     (case step_engine (at_sel st) s of
        None \<Rightarrow>
          let st = st\<lparr>at_last_error := ASTERNET_ERR_UNSUPPORTED\<rparr> in
          if \<not> fallback then (False, st) else selector_loop ho clk req start fallback rest st
      | Some e \<Rightarrow>
          let (open_gate, st) = selector_gate fallback clk (step_type s) req st in
          if \<not> open_gate then
            let st = st\<lparr>at_last_error := ASTERNET_ERR_DEGRADED\<rparr> in
            if \<not> fallback then (False, st)
            else selector_loop ho clk req start fallback rest (st\<lparr>at_degraded := True\<rparr>)
          else
            let (now, w) = clk (at_world st);
                st = st\<lparr>at_world := w\<rparr>;
                remaining = remaining_ms req start now
            in if remaining \<le> 0 then (False, st\<lparr>at_last_error := ASTERNET_ERR_TIMEOUT\<rparr>)
               else
                 let (ok, st) = selector_attempt ho clk s e req remaining st in
                 if ok then (True, st)
                 else if \<not> is_retryable_error (at_last_error st) then (False, st)
                 else if \<not> fallback \<or> \<not> req_retry_safe req then (False, st)
                 else selector_loop ho clk req start fallback rest (st\<lparr>at_degraded := True\<rparr>))"

record 'w select_result =
  sr_ret :: int
  sr_resp :: response
  sr_proto :: asternet_protocol
  sr_degraded :: bool
  sr_sel :: "'w selector"
  sr_world :: 'w

text \<open>The end of the function: the successful return inside the loop, or the code after it.\<close>

definition selector_finish :: "bool \<Rightarrow> 'w attempt_state \<Rightarrow> 'w select_result" where
  "selector_finish ok st =
     (if ok
      then \<lparr>sr_ret = ASTERNET_OK, sr_resp = at_resp st, sr_proto = resp_protocol (at_resp st),
            sr_degraded = at_degraded st, sr_sel = at_sel st, sr_world = at_world st\<rparr>
      else
        let resp = at_resp st;
            resp = (if resp_err_code resp = ASTERNET_OK
                    then resp\<lparr>resp_err_code := at_last_error st\<rparr> else resp);
            resp = resp\<lparr>resp_attempts := at_attempts st\<rparr>
        in \<lparr>sr_ret = resp_err_code resp, sr_resp = resp, sr_proto = PROTOCOL_UNKNOWN,
            sr_degraded = at_degraded st, sr_sel = at_sel st, sr_world = at_world st\<rparr>)"

definition selector_request_with_policy ::
  "(selector_key, ban_state) hash_order \<Rightarrow> 'w clock \<Rightarrow> 'w selector \<Rightarrow> request \<Rightarrow> asternet_policy
     \<Rightarrow> response \<Rightarrow> 'w \<Rightarrow> 'w select_result" where
  "selector_request_with_policy ho clk sel req policy resp w =
     (case policy_chain policy of
        None \<Rightarrow> \<lparr>sr_ret = ASTERNET_ERR_INVALID_ARGUMENT,
                 sr_resp = resp\<lparr>resp_err_code := ASTERNET_ERR_INVALID_ARGUMENT\<rparr>,
                 sr_proto = PROTOCOL_UNKNOWN, sr_degraded = False, sr_sel = sel, sr_world = w\<rparr>
      | Some (chain, fallback) \<Rightarrow>
          let (start, w) = clk w;
              (ok, st) = selector_loop ho clk req start fallback chain
                \<lparr>at_sel = sel, at_world = w, at_resp = resp, at_last_error = ASTERNET_ERR_UNSUPPORTED,
                 at_degraded = False, at_attempts = 0\<rparr>
          in selector_finish ok st)"

definition selector_request ::
  "(selector_key, ban_state) hash_order \<Rightarrow> 'w clock \<Rightarrow> 'w selector \<Rightarrow> request \<Rightarrow> response \<Rightarrow> 'w
     \<Rightarrow> 'w select_result" where
  "selector_request ho clk sel req resp w =
     selector_request_with_policy ho clk sel req POLICY_AUTO resp w"

section \<open>The key of the breaker\<close>

definition host_key_fields :: "request \<Rightarrow> string \<times> nat \<times> nat" where
  "host_key_fields r = (req_host r, req_port r, req_network_epoch r)"

lemma state_host_key_inject: "state_host_key r = state_host_key s \<longleftrightarrow> host_key_fields r = host_key_fields s"
  by (simp add: state_host_key_def host_key_fields_def append_sep_last2 dec_digits_inject)

definition endpoint_key :: "string \<times> nat \<times> nat \<Rightarrow> string" where
  "endpoint_key e = state_host_key
     (default_request\<lparr>req_host := fst e, req_port := fst (snd e), req_network_epoch := snd (snd e)\<rparr>)"

lemma state_host_key_endpoint: "state_host_key r = endpoint_key (host_key_fields r)"
  by (simp add: endpoint_key_def host_key_fields_def state_host_key_def)

interpretation selector_key: table_key endpoint_key "\<lambda>_. True"
  by unfold_locales (simp add: endpoint_key_def state_host_key_inject host_key_fields_def prod_eq_iff)


section \<open>Operations keep the configuration and the bound of the table\<close>

text \<open>The breaker operations only touch \<open>states_\<close>; the engines and limits are fixed at construction.\<close>

definition same_setup :: "'w selector \<Rightarrow> 'w selector \<Rightarrow> bool" where
  "same_setup sel sel' \<longleftrightarrow> sel' = sel\<lparr>sel_states := sel_states sel'\<rparr>"

lemma same_setup_refl [simp]: "same_setup sel sel"
  by (simp add: same_setup_def)

lemma same_setup_trans: "same_setup a b \<Longrightarrow> same_setup b c \<Longrightarrow> same_setup a c"
  unfolding same_setup_def by (metis selector.update_convs(1) selector.surjective)

lemma same_setup_states [simp]: "same_setup sel (sel\<lparr>sel_states := m\<rparr>)"
  by (simp add: same_setup_def)

lemma same_setup_fields:
  assumes "same_setup sel sel'"
  shows "sel_h3 sel' = sel_h3 sel" "sel_h2 sel' = sel_h2 sel" "sel_h1 sel' = sel_h1 sel"
    "sel_max_failures sel' = sel_max_failures sel" "sel_cooldown_ms sel' = sel_cooldown_ms sel"
    "sel_max_states sel' = sel_max_states sel"
  using assms unfolding same_setup_def by (metis selector.select_convs selector.surjective selector.update_convs(1))+

lemma same_setup_engine: "same_setup sel sel' \<Longrightarrow> step_engine sel' s = step_engine sel s"
  by (simp add: step_engine_def same_setup_fields split: engine_type.split)

definition table_ok :: "'w selector \<Rightarrow> bool" where
  "table_ok sel \<longleftrightarrow> keys_distinct (sel_states sel) \<and> length (sel_states sel) \<le> sel_max_states sel
     \<and> 0 < sel_max_states sel"

lemma update_present_length: "map_of m k \<noteq> None \<Longrightarrow> length (AList.update k v m) = length m"
  by (simp add: length_update)

lemma available_setup: "selector_is_available clk t req sel w = (ok, sel', w') \<Longrightarrow> same_setup sel sel'"
  by (auto simp: selector_is_available_def Let_def split: option.splits if_splits prod.splits)

lemma available_table:
  "selector_is_available clk t req sel w = (ok, sel', w') \<Longrightarrow> table_ok sel \<Longrightarrow> table_ok sel'"
  by (auto simp: selector_is_available_def Let_def table_ok_def update_present_length
      split: option.splits if_splits prod.splits)

lemma failure_setup: "selector_record_failure ho clk t req sel w = (sel', w') \<Longrightarrow> same_setup sel sel'"
  by (auto simp: selector_record_failure_def Let_def split: if_splits prod.splits)

lemma failure_table:
  assumes "selector_record_failure ho clk t req sel w = (sel', w')" and "table_ok sel"
  shows "table_ok sel'"
proof -
  have "length (AList.update k v (make_room (begin_key ho) (sel_max_states sel) k (sel_states sel)))
      \<le> sel_max_states sel" for k v
    using assms(2) by (intro begin_evict.make_room_length) (simp_all add: table_ok_def)
  with assms show ?thesis
    by (auto simp: selector_record_failure_def Let_def table_ok_def split: if_splits prod.splits)
qed

lemma success_setup [simp]: "same_setup sel (selector_record_success t req sel)"
  by (simp add: selector_record_success_def Let_def split: option.split)

lemma success_table: "table_ok sel \<Longrightarrow> table_ok (selector_record_success t req sel)"
  by (simp add: selector_record_success_def Let_def table_ok_def update_present_length split: option.split)

section \<open>One round of the loop\<close>

lemma gate_frame:
  assumes "selector_gate rc clk t req st = (ok, st')"
  shows "same_setup (at_sel st) (at_sel st') \<and> at_resp st' = at_resp st
    \<and> at_attempts st' = at_attempts st \<and> at_degraded st' = at_degraded st
    \<and> at_last_error st' = at_last_error st \<and> (table_ok (at_sel st) \<longrightarrow> table_ok (at_sel st'))"
  using assms
  by (auto simp: selector_gate_def split: if_splits prod.splits dest: available_setup available_table)

lemma attempt_frame:
  assumes "selector_attempt ho clk s e req rem st = (ok, st')"
  shows "same_setup (at_sel st) (at_sel st') \<and> at_attempts st' = at_attempts st + 1
    \<and> at_degraded st' = at_degraded st \<and> (table_ok (at_sel st) \<longrightarrow> table_ok (at_sel st'))"
  using assms
  by (auto simp: selector_attempt_def Let_def split: if_splits prod.splits
      intro: success_table dest: failure_setup failure_table)

text \<open>
  What the loop leaves behind, for engines that keep their contract: a success carries the code 0,
  a protocol of the chain and a body within the limit; a failure carries a code other than 0 as
  soon as an engine was called.
\<close>

definition engines_ok :: "'w selector \<Rightarrow> bool" where
  "engines_ok sel \<longleftrightarrow> (\<forall>s \<in> {h3_step, h2_step, h1_step}. \<forall>e.
     step_engine sel s = Some e \<longrightarrow> engine_contract (step_proto s) e)"

lemma engines_ok_setup: "same_setup sel sel' \<Longrightarrow> engines_ok sel \<Longrightarrow> engines_ok sel'"
  by (simp add: engines_ok_def same_setup_engine)

definition loop_success :: "request \<Rightarrow> chain_step list \<Rightarrow> 'w attempt_state \<Rightarrow> bool" where
  "loop_success req chain st \<longleftrightarrow>
     resp_err_code (at_resp st) = ASTERNET_OK
     \<and> resp_protocol (at_resp st) \<in> step_proto ` set chain
     \<and> length (resp_body (at_resp st)) \<le> req_max_body req
     \<and> resp_attempts (at_resp st) = at_attempts st
     \<and> resp_degraded (at_resp st) = at_degraded st"

lemma attempt_result:
  assumes "selector_attempt ho clk s e req rem st = (ok, st')"
    and "engine_contract (step_proto s) e"
  shows "(ok \<longrightarrow> loop_success req [s] st')
    \<and> (\<not> ok \<longrightarrow> resp_err_code (at_resp st') = at_last_error st' \<and> at_last_error st' \<noteq> ASTERNET_OK)"
proof -
  obtain ret tmp w where e: "e (req\<lparr>req_timeout_ms := rem\<rparr>) (at_world st) = (ret, tmp, w)"
    by (metis prod_cases3)
  from engine_contractD [OF assms(2) e] assms(1) e show ?thesis
    by (auto simp: selector_attempt_def Let_def loop_success_def split: if_splits prod.splits)
qed

lemma loop_success_mono: "loop_success req [s] st \<Longrightarrow> loop_success req (s # rest) st"
  "loop_success req rest st \<Longrightarrow> loop_success req (s # rest) st"
  by (auto simp: loop_success_def)



text \<open>
  The proof rule of the loop: an invariant \<open>I\<close> of its local variables that every round keeps, and
  a predicate \<open>Q\<close> that the successful attempt establishes.
\<close>

lemma selector_loop_rule:
  assumes err: "\<And>st e. I st \<Longrightarrow> e \<noteq> ASTERNET_OK \<Longrightarrow> I (st\<lparr>at_last_error := e\<rparr>)"
    and degraded: "\<And>st b. I st \<Longrightarrow> I (st\<lparr>at_degraded := b\<rparr>)"
    and gate: "\<And>st s ok st'. s \<in> set steps \<Longrightarrow> selector_gate fallback clk (step_type s) req st = (ok, st')
      \<Longrightarrow> I st \<Longrightarrow> I st'"
    and clock: "\<And>st. I st \<Longrightarrow> I (st\<lparr>at_world := snd (clk (at_world st))\<rparr>)"
    and attempt: "\<And>st s e rem st'. s \<in> set steps \<Longrightarrow> step_engine (at_sel st) s = Some e \<Longrightarrow>
      selector_attempt ho clk s e req rem st = (False, st') \<Longrightarrow> I st \<Longrightarrow> I st'"
    and success: "\<And>st s e rem st'. s \<in> set steps \<Longrightarrow> step_engine (at_sel st) s = Some e \<Longrightarrow>
      selector_attempt ho clk s e req rem st = (True, st') \<Longrightarrow> I st \<Longrightarrow> Q s st'"
  shows "selector_loop ho clk req start fallback chain st = (ok, st') \<Longrightarrow> I st \<Longrightarrow>
    set chain \<subseteq> set steps \<Longrightarrow> if ok then \<exists>s \<in> set steps. Q s st' else I st'"
proof (induction chain arbitrary: st)
  case Nil
  then show ?case by simp
next
  case (Cons s rest)
  have s: "s \<in> set steps" using Cons.prems(3) by simp
  have tail: "I u \<Longrightarrow> selector_loop ho clk req start fallback rest u = (ok, st') \<Longrightarrow> ?case" for u
    using Cons.IH [of u] Cons.prems(3) by simp
  note run = Cons.prems(1)
  show ?case
  proof (cases "step_engine (at_sel st) s")
    case None
    have "I (st\<lparr>at_last_error := ASTERNET_ERR_UNSUPPORTED\<rparr>)"
      using Cons.prems(2) by (intro err) simp_all
    with None run tail show ?thesis by (auto simp: Let_def split: if_splits)
  next
    case (Some e)
    obtain g st1 where g: "selector_gate fallback clk (step_type s) req st = (g, st1)"
      by (metis prod.exhaust)
    then have I1: "I st1" and eng1: "step_engine (at_sel st1) s = Some e"
      using gate [OF s g Cons.prems(2)] Some gate_frame [OF g] by (auto simp: same_setup_engine)
    show ?thesis
    proof (cases g)
      case False
      have "I (st1\<lparr>at_last_error := ASTERNET_ERR_DEGRADED\<rparr>)"
        using I1 by (intro err) simp_all
      moreover from this have "I (st1\<lparr>at_last_error := ASTERNET_ERR_DEGRADED, at_degraded := True\<rparr>)"
        by (rule degraded)
      ultimately show ?thesis
        using False Some g run tail by (auto simp: Let_def split: if_splits)
    next
      case True
      obtain now w where now: "clk (at_world st1) = (now, w)" by (metis prod.exhaust)
      define st2 where "st2 = st1\<lparr>at_world := w\<rparr>"
      have I2: "I st2" using clock [OF I1] now by (simp add: st2_def)
      have eng2: "step_engine (at_sel st2) s = Some e" using eng1 by (simp add: st2_def)
      show ?thesis
      proof (cases "remaining_ms req start now \<le> 0")
        case late: True
        have "I (st2\<lparr>at_last_error := ASTERNET_ERR_TIMEOUT\<rparr>)"
          using I2 by (intro err) simp_all
        with late True Some g now run show ?thesis by (auto simp: st2_def)
      next
        case False
        obtain a st3 where a: "selector_attempt ho clk s e req (remaining_ms req start now) st2 = (a, st3)"
          by (metis prod.exhaust)
        have rest: "selector_loop ho clk req start fallback (s # rest) st =
          (if a then (True, st3)
           else if \<not> is_retryable_error (at_last_error st3) then (False, st3)
           else if \<not> fallback \<or> \<not> req_retry_safe req then (False, st3)
           else selector_loop ho clk req start fallback rest (st3\<lparr>at_degraded := True\<rparr>))"
          using Some g True now False a by (simp add: st2_def [symmetric])
        show ?thesis
        proof (cases a)
          case True
          with a success [OF s eng2 _ I2] rest run s show ?thesis by auto
        next
          case no: False
          with a attempt [OF s eng2 _ I2] have "I st3" by auto
          moreover from this have "I (st3\<lparr>at_degraded := True\<rparr>)" by (rule degraded)
          ultimately show ?thesis
            using no rest run tail by (auto split: if_splits)
        qed
      qed
    qed
  qed
qed

definition attempt_inv :: "'w selector \<Rightarrow> 'w attempt_state \<Rightarrow> bool" where
  "attempt_inv sel st \<longleftrightarrow> same_setup sel (at_sel st)
     \<and> (at_last_error st \<noteq> ASTERNET_OK) \<and> (table_ok sel \<longrightarrow> table_ok (at_sel st))"

lemma attempt_inv_gate:
  assumes "selector_gate rc clk t req st = (g, st')" and "attempt_inv sel st"
  shows "attempt_inv sel st'"
  using assms(2) gate_frame [OF assms(1)] same_setup_trans [of sel "at_sel st" "at_sel st'"]
  by (simp add: attempt_inv_def)

lemma attempt_inv_step:
  assumes "attempt_inv sel st" and "selector_attempt ho clk s e req rem st = (ok, st')"
  shows "same_setup sel (at_sel st') \<and> (table_ok sel \<longrightarrow> table_ok (at_sel st'))
    \<and> (\<not> ok \<longrightarrow> at_last_error st' \<noteq> ASTERNET_OK)"
proof -
  have "\<not> ok \<longrightarrow> at_last_error st' \<noteq> ASTERNET_OK"
    using assms(2) by (auto simp: selector_attempt_def Let_def split: if_splits prod.splits)
  with attempt_frame [OF assms(2)] assms(1) show ?thesis
    by (auto simp: attempt_inv_def intro: same_setup_trans)
qed

lemma loop_frame:
  assumes "selector_loop ho clk req start fallback chain st = (ok, st')" and "attempt_inv sel st"
  shows "same_setup sel (at_sel st') \<and> (table_ok sel \<longrightarrow> table_ok (at_sel st'))
    \<and> (\<not> ok \<longrightarrow> at_last_error st' \<noteq> ASTERNET_OK)"
proof -
  let ?Q = "\<lambda>_ u. same_setup sel (at_sel u) \<and> (table_ok sel \<longrightarrow> table_ok (at_sel u))"
  have "if ok then \<exists>s \<in> set chain. ?Q s st' else attempt_inv sel st'"
  proof (rule selector_loop_rule [where I = "attempt_inv sel" and Q = ?Q, OF _ _ _ _ _ _ assms order.refl])
    fix st s g st'
    assume "selector_gate fallback clk (step_type s) req st = (g, st')" and "attempt_inv sel st"
    then show "attempt_inv sel st'" by (rule attempt_inv_gate)
  next
    fix st s e rem st'
    assume "selector_attempt ho clk s e req rem st = (False, st')" and "attempt_inv sel st"
    from attempt_inv_step [OF this(2,1)] show "attempt_inv sel st'" by (simp add: attempt_inv_def)
  next
    fix st s e rem st'
    assume "selector_attempt ho clk s e req rem st = (True, st')" and "attempt_inv sel st"
    from attempt_inv_step [OF this(2,1)] show "?Q s st'" by simp
  qed (auto simp: attempt_inv_def)
  then show ?thesis by (auto simp: attempt_inv_def split: if_splits)
qed


lemma attempt_fields:
  assumes "e (req\<lparr>req_timeout_ms := rem\<rparr>) (at_world st) = (ret, tmp, w)"
  shows "fst (selector_attempt ho clk s e req rem st) \<longleftrightarrow> ret = ASTERNET_OK"
    "at_resp (snd (selector_attempt ho clk s e req rem st)) =
      (if ret = ASTERNET_OK
       then tmp\<lparr>resp_protocol := step_proto s, resp_degraded := at_degraded st, resp_attempts := at_attempts st + 1\<rparr>
       else tmp)"
    "at_last_error (snd (selector_attempt ho clk s e req rem st)) = (if ret = ASTERNET_OK then at_last_error st else ret)"
    "at_degraded (snd (selector_attempt ho clk s e req rem st)) = at_degraded st"
    "at_attempts (snd (selector_attempt ho clk s e req rem st)) = at_attempts st + 1"
  using assms by (auto simp: selector_attempt_def Let_def split: prod.splits)

text \<open>
  With engines that keep their contract, the response of the loop agrees with its code.
\<close>

lemma chain_steps:
  "policy_chain p = Some (chain, fb) \<Longrightarrow> set chain \<subseteq> {h3_step, h2_step, h1_step} \<and> 0 < length chain
    \<and> length chain \<le> 3 \<and> distinct chain \<and> (\<not> fb \<longrightarrow> length chain = 1)"
  by (cases p) (auto simp: h3_step_def h2_step_def h1_step_def)

lemma loop_success_result:
  assumes "selector_loop ho clk req start fallback chain st = (True, st')" and "attempt_inv sel st"
    and "engines_ok sel" and "set chain \<subseteq> {h3_step, h2_step, h1_step}"
  shows "loop_success req chain st'"
proof -
  let ?Q = "\<lambda>s u. loop_success req [s] u"
  have "if True then \<exists>s \<in> set chain. ?Q s st' else attempt_inv sel st'"
  proof (rule selector_loop_rule [where I = "attempt_inv sel" and Q = ?Q, OF _ _ _ _ _ _ assms(1,2) order.refl])
    fix st s g st'
    assume "selector_gate fallback clk (step_type s) req st = (g, st')" and "attempt_inv sel st"
    then show "attempt_inv sel st'" by (rule attempt_inv_gate)
  next
    fix st s e rem st'
    assume "selector_attempt ho clk s e req rem st = (False, st')" and "attempt_inv sel st"
    from attempt_inv_step [OF this(2,1)] show "attempt_inv sel st'" by (simp add: attempt_inv_def)
  next
    fix st s e rem st'
    assume *: "s \<in> set chain" "step_engine (at_sel st) s = Some e"
      "selector_attempt ho clk s e req rem st = (True, st')" "attempt_inv sel st"
    then have "step_engine sel s = Some e"
      using same_setup_engine [of sel "at_sel st"] by (simp add: attempt_inv_def)
    with *(1) assms(3,4) have "engine_contract (step_proto s) e"
      by (auto simp: engines_ok_def)
    with attempt_result [OF *(3)] show "?Q s st'" by simp
  qed (auto simp: attempt_inv_def)
  then show ?thesis by (auto simp: loop_success_def)
qed

section \<open>Counting the calls of engines\<close>

text \<open>
  An observer of the world counts engine calls when every engine adds one to it and the clock adds
  none. It exists for any engines: the world can always carry a counter.
\<close>

definition counts_calls :: "('w \<Rightarrow> nat) \<Rightarrow> 'w clock \<Rightarrow> 'w selector \<Rightarrow> bool" where
  "counts_calls calls clk sel \<longleftrightarrow>
     (\<forall>w. calls (snd (clk w)) = calls w)
     \<and> (\<forall>s e req w. step_engine sel s = Some e \<longrightarrow> calls (snd (snd (e req w))) = Suc (calls w))"

lemma counts_calls_setup: "same_setup sel sel' \<Longrightarrow> counts_calls calls clk sel \<Longrightarrow> counts_calls calls clk sel'"
  by (simp add: counts_calls_def same_setup_engine)

lemma clock_calls: "counts_calls calls clk sel \<Longrightarrow> clk w = (now, w') \<Longrightarrow> calls w' = calls w"
  unfolding counts_calls_def by (metis snd_conv)

lemma available_calls:
  "selector_is_available clk t req sel w = (ok, sel', w') \<Longrightarrow> counts_calls calls clk sel0 \<Longrightarrow> calls w' = calls w"
  by (auto simp: selector_is_available_def Let_def clock_calls split: option.splits if_splits prod.splits)

lemma failure_calls:
  "selector_record_failure ho clk t req sel w = (sel', w') \<Longrightarrow> counts_calls calls clk sel0 \<Longrightarrow> calls w' = calls w"
  by (auto simp: selector_record_failure_def Let_def clock_calls split: if_splits prod.splits)

lemma gate_calls:
  "selector_gate rc clk t req st = (ok, st') \<Longrightarrow> counts_calls calls clk sel0
     \<Longrightarrow> calls (at_world st') = calls (at_world st)"
  by (auto simp: selector_gate_def available_calls split: if_splits prod.splits)

lemma attempt_calls:
  assumes "selector_attempt ho clk s e req rem st = (ok, st')" and "counts_calls calls clk sel0"
    and "step_engine sel0 s = Some e"
  shows "calls (at_world st') = Suc (calls (at_world st))"
proof -
  obtain ret tmp w where e: "e (req\<lparr>req_timeout_ms := rem\<rparr>) (at_world st) = (ret, tmp, w)"
    by (metis prod_cases3)
  then have "calls w = Suc (calls (at_world st))"
    using assms(2,3) unfolding counts_calls_def by (metis snd_conv)
  with assms(1) e failure_calls [OF _ assms(2)] show ?thesis
    by (auto simp: selector_attempt_def Let_def split: if_splits prod.splits)
qed

definition call_inv :: "('w \<Rightarrow> nat) \<Rightarrow> 'w selector \<Rightarrow> nat \<Rightarrow> 'w attempt_state \<Rightarrow> bool" where
  "call_inv calls sel c0 st \<longleftrightarrow> same_setup sel (at_sel st)
     \<and> int (calls (at_world st)) = int c0 + at_attempts st"

lemma attempt_call_inv:
  assumes "selector_attempt ho clk s e req rem st = (ok, st')" and "call_inv calls sel c0 st"
    and "counts_calls calls clk sel" and "step_engine (at_sel st) s = Some e"
  shows "call_inv calls sel c0 st'"
proof -
  have "step_engine sel s = Some e"
    using assms(2,4) same_setup_engine [of sel "at_sel st"] by (simp add: call_inv_def)
  from attempt_calls [OF assms(1,3) this] attempt_frame [OF assms(1)] assms(2) show ?thesis
    by (auto simp: call_inv_def intro: same_setup_trans)
qed

lemma loop_calls:
  assumes "selector_loop ho clk req start fallback chain st = (ok, st')" and "call_inv calls sel c0 st"
    and "counts_calls calls clk sel"
  shows "call_inv calls sel c0 st'"
proof -
  have "if ok then \<exists>s \<in> set chain. call_inv calls sel c0 st' else call_inv calls sel c0 st'"
  proof (rule selector_loop_rule [where I = "call_inv calls sel c0" and Q = "\<lambda>_. call_inv calls sel c0",
        OF _ _ _ _ _ _ assms(1,2) order.refl])
    fix st s g st'
    assume g: "selector_gate fallback clk (step_type s) req st = (g, st')" and "call_inv calls sel c0 st"
    with gate_frame [OF g] gate_calls [OF g assms(3)] same_setup_trans [of sel "at_sel st" "at_sel st'"]
    show "call_inv calls sel c0 st'" by (simp add: call_inv_def)
  next
    fix st :: "'a attempt_state"
    assume "call_inv calls sel c0 st"
    then show "call_inv calls sel c0 (st\<lparr>at_world := snd (clk (at_world st))\<rparr>)"
      using assms(3) by (simp add: call_inv_def counts_calls_def)
  next
    show "\<And>st s e rem st'. step_engine (at_sel st) s = Some e \<Longrightarrow>
      selector_attempt ho clk s e req rem st = (False, st') \<Longrightarrow> call_inv calls sel c0 st
      \<Longrightarrow> call_inv calls sel c0 st'"
      using attempt_call_inv assms(3) by blast
  next
    show "\<And>st s e rem st'. step_engine (at_sel st) s = Some e \<Longrightarrow>
      selector_attempt ho clk s e req rem st = (True, st') \<Longrightarrow> call_inv calls sel c0 st
      \<Longrightarrow> call_inv calls sel c0 st'"
      using attempt_call_inv assms(3) by blast
  qed (auto simp: call_inv_def)
  then show ?thesis by (auto split: if_splits)
qed

text \<open>How many attempts a chain makes: at most one per step, at most one without retry safety.\<close>

lemma loop_attempts:
  "selector_loop ho clk req start fallback chain st = (ok, st') \<Longrightarrow>
     at_attempts st \<le> at_attempts st' \<and> at_attempts st' \<le> at_attempts st + int (length chain)
     \<and> (\<not> req_retry_safe req \<longrightarrow> at_attempts st' \<le> at_attempts st + 1)
     \<and> (ok \<longrightarrow> at_attempts st < at_attempts st' \<and> resp_attempts (at_resp st') = at_attempts st')"
proof (induction chain arbitrary: st)
  case Nil
  then show ?case by auto
next
  case (Cons s rest)
  have "at_attempts st1 = at_attempts st" if "selector_gate fallback clk (step_type s) req st = (g, st1)" for g st1
    using gate_frame [OF that] by simp
  moreover have "at_attempts st1 = at_attempts u + 1 \<and> (a \<longrightarrow> resp_attempts (at_resp st1) = at_attempts st1)"
    if "selector_attempt ho clk s e req rem u = (a, st1)" for e rem u a st1
    using that by (auto simp: selector_attempt_def Let_def split: if_splits prod.splits)
  ultimately show ?case
    using Cons.prems Cons.IH
    by (simp add: Let_def split: option.splits prod.splits if_splits) fastforce+
qed

section \<open>What a request through the selector guarantees\<close>

definition start_state :: "'w selector \<Rightarrow> 'w \<Rightarrow> response \<Rightarrow> 'w attempt_state" where
  "start_state sel w resp =
     \<lparr>at_sel = sel, at_world = w, at_resp = resp, at_last_error = ASTERNET_ERR_UNSUPPORTED,
      at_degraded = False, at_attempts = 0\<rparr>"

lemma start_state_inv [simp]: "attempt_inv sel (start_state sel w resp)"
  by (simp add: attempt_inv_def start_state_def)

text \<open>Unfolds a request to the run of its loop, once for all the theorems below.\<close>

lemma selector_run:
  assumes "policy_chain policy = Some (chain, fb)"
  obtains start w1 ok st where "clk w = (start, w1)"
    and "selector_loop ho clk req start fb chain (start_state sel w1 resp) = (ok, st)"
    and "selector_request_with_policy ho clk sel req policy resp w = selector_finish ok st"
proof -
  obtain start w1 where c: "clk w = (start, w1)" by (metis prod.exhaust)
  obtain ok st where l: "selector_loop ho clk req start fb chain (start_state sel w1 resp) = (ok, st)"
    by (metis prod.exhaust)
  show ?thesis
    using that [OF c l] assms c l
    by (simp add: selector_request_with_policy_def start_state_def)
qed

lemma finish_fields [simp]:
  "sr_sel (selector_finish ok st) = at_sel st"
  "sr_world (selector_finish ok st) = at_world st"
  "sr_degraded (selector_finish ok st) = at_degraded st"
  "sr_ret (selector_finish True st) = ASTERNET_OK"
  "sr_resp (selector_finish True st) = at_resp st"
  "sr_proto (selector_finish True st) = resp_protocol (at_resp st)"
  "sr_proto (selector_finish False st) = PROTOCOL_UNKNOWN"
  "resp_attempts (sr_resp (selector_finish False st)) = at_attempts st"
  "resp_err_code (sr_resp (selector_finish False st)) = sr_ret (selector_finish False st)"
  by (simp_all add: selector_finish_def Let_def)

lemma finish_ret: "sr_ret (selector_finish False st) =
    (if resp_err_code (at_resp st) = ASTERNET_OK then at_last_error st else resp_err_code (at_resp st))"
  by (simp add: selector_finish_def Let_def)

text \<open>
  Property C24. A request through the protocol selector, over engines that keep their contract and
  a default-constructed response, reports one consistent outcome: the code it returns is the code
  in the response; a success names a protocol from the chain of the policy, its body is within
  the limit of the request, and it counts at least one attempt; a failure names no protocol.
\<close>

theorem selector_outcome_consistent:
  assumes "engines_ok sel"
    and "selector_request_with_policy ho clk sel req policy default_response w = r"
  shows "sr_ret r = resp_err_code (sr_resp r)
    \<and> (sr_ret r = ASTERNET_OK \<longrightarrow>
        (\<exists>chain fb. policy_chain policy = Some (chain, fb) \<and> sr_proto r \<in> step_proto ` set chain)
        \<and> sr_proto r = resp_protocol (sr_resp r)
        \<and> length (resp_body (sr_resp r)) \<le> req_max_body req
        \<and> sr_degraded r = resp_degraded (sr_resp r)
        \<and> 1 \<le> resp_attempts (sr_resp r))
    \<and> (sr_ret r \<noteq> ASTERNET_OK \<longrightarrow> sr_proto r = PROTOCOL_UNKNOWN)"
proof (cases "policy_chain policy")
  case None
  with assms(2) show ?thesis by (auto simp: selector_request_with_policy_def)
next
  case (Some a)
  then obtain chain fb where pc: "policy_chain policy = Some (chain, fb)" by (cases a) simp
  from pc obtain start w1 ok st
    where l: "selector_loop ho clk req start fb chain (start_state sel w1 default_response) = (ok, st)"
      and r: "selector_request_with_policy ho clk sel req policy default_response w = selector_finish ok st"
    by (rule selector_run)
  have "loop_success req chain st" if ok
    using loop_success_result [OF _ start_state_inv assms(1)] l that chain_steps [OF pc] by metis
  moreover have "at_last_error st \<noteq> ASTERNET_OK" if "\<not> ok"
    using loop_frame [OF l start_state_inv] that by simp
  moreover have "0 < at_attempts st" if ok
    using loop_attempts [OF l] that by (simp add: start_state_def)
  ultimately show ?thesis
    using r assms(2) pc by (cases ok) (auto simp: loop_success_def finish_ret)
qed

definition echo_engine :: "asternet_protocol \<Rightarrow> unit engine" where
  "echo_engine p req w = (0, default_response\<lparr>resp_protocol := p, resp_body := take (req_max_body req) ''hi''\<rparr>, w)"

definition dead_engine :: "asternet_protocol \<Rightarrow> int \<Rightarrow> unit engine" where
  "dead_engine p code req w = (code, default_response\<lparr>resp_protocol := p, resp_err_code := code\<rparr>, w)"

lemma toy_contracts [simp]:
  "engine_contract p (echo_engine p)" "code \<noteq> 0 \<Longrightarrow> engine_contract p (dead_engine p code)"
  by (auto simp: engine_contract_def echo_engine_def dead_engine_def)

lemma selector_outcome_consistent_witness:
  "\<exists>r. selector_request_with_policy (\<lambda>_. 0) (\<lambda>w. (5, w))
      (ProtocolSelector None (Some (dead_engine PROTOCOL_HTTP_2 (-7))) (Some (echo_engine PROTOCOL_HTTP_1_1)))
      (default_request\<lparr>req_retry_safe := True\<rparr>) POLICY_AUTO default_response () = r
    \<and> sr_ret r = 0 \<and> sr_proto r = PROTOCOL_HTTP_1_1 \<and> 1 \<le> resp_attempts (sr_resp r)"
proof -
  let ?sel = "ProtocolSelector None (Some (dead_engine PROTOCOL_HTTP_2 (-7)))
    (Some (echo_engine PROTOCOL_HTTP_1_1)) :: unit selector"
  let ?r = "selector_request_with_policy (\<lambda>_. 0) (\<lambda>w. (5, w)) ?sel
    (default_request\<lparr>req_retry_safe := True\<rparr>) POLICY_AUTO default_response ()"
  have "engines_ok ?sel"
    by (auto simp: engines_ok_def ProtocolSelector_def step_engine_def h3_step_def h2_step_def h1_step_def)
  moreover have "sr_ret ?r = 0 \<and> sr_proto ?r = PROTOCOL_HTTP_1_1"
    by (simp add: selector_request_with_policy_def ProtocolSelector_def step_engine_def h3_step_def
        h2_step_def h1_step_def selector_gate_def selector_is_available_def selector_attempt_def
        dead_engine_def echo_engine_def is_retryable_error_def remaining_ms_def default_request_def
        selector_record_failure_def selector_record_success_def make_room_def default_ban_def
        selector_finish_def Let_def)
  ultimately show ?thesis
    using selector_outcome_consistent [of ?sel, OF _ refl, of "\<lambda>_. 0" "\<lambda>w. (5, w)"
        "default_request\<lparr>req_retry_safe := True\<rparr>" POLICY_AUTO "()"] by simp
qed

text \<open>
  How often a request reaches an engine. For any observer that counts engine calls,
  the attempts the response reports are exactly the calls made; a request that is not retry-safe
  reaches at most one engine, and no request reaches more engines than its policy's chain has
  steps (three at most).
\<close>

theorem selector_attempts_bounded:
  assumes "counts_calls calls clk sel" and "policy_chain policy = Some (chain, fb)"
    and "selector_request_with_policy ho clk sel req policy default_response w = r"
  shows "calls w \<le> calls (sr_world r)
    \<and> calls (sr_world r) \<le> calls w + (if req_retry_safe req then length chain else 1)
    \<and> calls (sr_world r) \<le> calls w + 3
    \<and> resp_attempts (sr_resp r) = int (calls (sr_world r)) - int (calls w)"
proof -
  from assms(2) obtain start w1 ok st where c: "clk w = (start, w1)"
    and l: "selector_loop ho clk req start fb chain (start_state sel w1 default_response) = (ok, st)"
    and r: "selector_request_with_policy ho clk sel req policy default_response w = selector_finish ok st"
    by (rule selector_run)
  have "call_inv calls sel (calls w) (start_state sel w1 default_response)"
    using clock_calls [OF assms(1) c] by (simp add: call_inv_def start_state_def)
  from loop_calls [OF l this assms(1)] have "int (calls (at_world st)) = int (calls w) + at_attempts st"
    by (simp add: call_inv_def)
  moreover have "0 \<le> at_attempts st" "at_attempts st \<le> int (length chain)"
      "\<not> req_retry_safe req \<longrightarrow> at_attempts st \<le> 1" "ok \<longrightarrow> resp_attempts (at_resp st) = at_attempts st"
    using loop_attempts [OF l] by (simp_all add: start_state_def)
  ultimately show ?thesis
    using r assms(3) chain_steps [OF assms(2)] by (cases ok) auto
qed

definition counting_engine :: "asternet_protocol \<Rightarrow> int \<Rightarrow> nat engine" where
  "counting_engine p code req n = (code, default_response\<lparr>resp_protocol := p, resp_err_code := code\<rparr>, Suc n)"

lemma selector_attempts_bounded_witness:
  "\<exists>r. selector_request_with_policy (\<lambda>_. 0) (\<lambda>w. (5, w))
      (ProtocolSelector None (Some (counting_engine PROTOCOL_HTTP_2 (-7)))
        (Some (counting_engine PROTOCOL_HTTP_1_1 0)))
      default_request POLICY_AUTO default_response (10 :: nat) = r
    \<and> sr_world r \<le> 11 \<and> resp_attempts (sr_resp r) = int (sr_world r) - 10"
proof -
  let ?sel = "ProtocolSelector None (Some (counting_engine PROTOCOL_HTTP_2 (-7)))
        (Some (counting_engine PROTOCOL_HTTP_1_1 0)) :: nat selector"
  have "counts_calls id (\<lambda>w. (5, w)) ?sel"
    by (auto simp: counts_calls_def ProtocolSelector_def step_engine_def counting_engine_def
        split: engine_type.splits)
  moreover have "\<not> req_retry_safe default_request" by (simp add: default_request_def)
  ultimately show ?thesis
    using selector_attempts_bounded [OF _ _ refl, where calls = id and clk = "\<lambda>w. (5, w)" and sel = ?sel
        and policy = POLICY_AUTO and ho = "\<lambda>_. 0" and req = default_request and w = 10] by simp
qed

text \<open>
  The forced policies neither fall back nor consult the breaker: with
  \<open>HTTP_1_1_ONLY\<close> the answer depends on the HTTP/1.1 engine alone. Whatever the other two engines
  are, and whatever the breaker table holds, the code, the response and the protocol are the same.
\<close>

theorem forced_policy_ignores_the_rest:
  "let r = selector_request_with_policy ho clk sel req POLICY_HTTP_1_1_ONLY resp w;
       r' = selector_request_with_policy ho' clk
         (sel\<lparr>sel_h3 := h3, sel_h2 := h2, sel_states := m\<rparr>) req POLICY_HTTP_1_1_ONLY resp w
   in sr_ret r = sr_ret r' \<and> sr_resp r = sr_resp r' \<and> sr_proto r = sr_proto r'
      \<and> \<not> sr_degraded r \<and> \<not> sr_degraded r'"
proof -
  obtain start w1 where c: "clk w = (start, w1)" by (metis prod.exhaust)
  obtain now w2 where n: "clk w1 = (now, w2)" by (metis prod.exhaust)
  show ?thesis
  proof (cases "sel_h1 sel")
    case None
    then show ?thesis
      by (simp add: selector_request_with_policy_def c step_engine_def h1_step_def
          selector_finish_def Let_def)
  next
    case (Some e)
    obtain ret tmp w3 where e: "e (req\<lparr>req_timeout_ms := remaining_ms req start now\<rparr>) w2 = (ret, tmp, w3)"
      by (metis prod_cases3)
    show ?thesis
      using Some
      by (simp add: selector_request_with_policy_def c n e step_engine_def h1_step_def
          selector_gate_def attempt_fields selector_finish_def Let_def case_prod_beta)
  qed
qed

text \<open>
  The breaker table stays within its bound: a whole request, with any policy, any
  engines and any hash order, keeps the keys distinct and at most \<open>max_states_\<close> (512) entries,
  and changes neither the engines nor the limits.
\<close>

theorem breaker_table_bounded:
  assumes "keys_distinct (sel_states sel)" and "length (sel_states sel) \<le> sel_max_states sel"
    and "0 < sel_max_states sel"
    and "sr_sel (selector_request_with_policy ho clk sel req policy resp w) = sel'"
  shows "keys_distinct (sel_states sel') \<and> length (sel_states sel') \<le> sel_max_states sel
    \<and> sel' = sel\<lparr>sel_states := sel_states sel'\<rparr>"
proof (cases "policy_chain policy")
  case None
  with assms show ?thesis by (auto simp: selector_request_with_policy_def)
next
  case (Some a)
  then obtain chain fb where "policy_chain policy = Some (chain, fb)" by (cases a) simp
  then obtain start w1 ok st
    where l: "selector_loop ho clk req start fb chain (start_state sel w1 resp) = (ok, st)"
      and r: "selector_request_with_policy ho clk sel req policy resp w = selector_finish ok st"
    by (rule selector_run)
  have ss: "same_setup sel sel'" and "table_ok sel'"
    using loop_frame [OF l start_state_inv] r assms by (simp_all add: table_ok_def)
  with same_setup_fields(6) [OF ss] show ?thesis
    by (simp add: table_ok_def) (simp add: same_setup_def)
qed

lemma breaker_table_bounded_witness:
  "\<exists>sel'. sr_sel (selector_request_with_policy (\<lambda>_. 0) (\<lambda>w. (5, w))
      (ProtocolSelector None None (Some (dead_engine PROTOCOL_HTTP_1_1 (-7))))
      default_request POLICY_AUTO default_response ()) = sel' \<and> length (sel_states sel') \<le> 512"
  using breaker_table_bounded [of "ProtocolSelector None None (Some (dead_engine PROTOCOL_HTTP_1_1 (-7)))",
      OF _ _ _ refl]
  by (simp add: ProtocolSelector_def)

section \<open>The circuit breaker\<close>

definition breaker_entry :: "'w selector \<Rightarrow> engine_type \<Rightarrow> request \<Rightarrow> ban_state" where
  "breaker_entry sel t req =
     (case map_of (sel_states sel) (state_host_key req, t) of None \<Rightarrow> default_ban | Some s \<Rightarrow> s)"

lemma record_failure_entry:
  assumes "selector_record_failure ho clk t req sel w = (sel', w')" and "keys_distinct (sel_states sel)"
  shows "ban_failures (breaker_entry sel' t req) = ban_failures (breaker_entry sel t req) + 1
    \<and> (if sel_max_failures sel \<le> ban_failures (breaker_entry sel t req) + 1
       then ban_until_ms (breaker_entry sel' t req) = fst (clk w) + sel_cooldown_ms sel
       else ban_until_ms (breaker_entry sel' t req) = ban_until_ms (breaker_entry sel t req))"
proof -
  let ?k = "(state_host_key req, t)"
  have keep: "map_of (make_room (begin_key ho) cap ?k m) ?k = map_of m ?k" for cap m
  proof (cases "map_of m ?k")
    case None
    then show ?thesis using begin_evict.make_room_lookup [of ho cap ?k m ?k] by auto
  next
    case (Some s)
    then show ?thesis by (simp add: begin_evict.make_room_keeps)
  qed
  show ?thesis
    using assms(1)
    by (auto simp: selector_record_failure_def Let_def breaker_entry_def keep update_conv default_ban_def
        split: if_splits prod.splits option.splits)
qed

text \<open>A run of failures of one protocol towards one host, as the loop records them.\<close>

fun record_failures ::
  "nat \<Rightarrow> (selector_key, ban_state) hash_order \<Rightarrow> 'w clock \<Rightarrow> engine_type \<Rightarrow> request \<Rightarrow> 'w selector \<Rightarrow> 'w
     \<Rightarrow> 'w selector \<times> 'w" where
  "record_failures 0 ho clk t req sel w = (sel, w)"
| "record_failures (Suc n) ho clk t req sel w =
     (let (sel, w) = record_failures n ho clk t req sel w in selector_record_failure ho clk t req sel w)"

lemma record_failure_distinct:
  "selector_record_failure ho clk t req sel w = (sel', w') \<Longrightarrow> keys_distinct (sel_states sel)
     \<Longrightarrow> keys_distinct (sel_states sel')"
  by (auto simp: selector_record_failure_def Let_def split: if_splits prod.splits)

lemma record_failures_world:
  "(\<And>v. snd (clk v) = v) \<Longrightarrow> snd (record_failures n ho clk t req sel w) = w"
  by (induction n) (simp_all add: selector_record_failure_def Let_def case_prod_beta)

lemma record_failures_count:
  assumes "record_failures n ho clk t req sel w = (sel', w')"
    and "breaker_entry sel t req = default_ban" and "keys_distinct (sel_states sel)"
  shows "ban_failures (breaker_entry sel' t req) = int n \<and> keys_distinct (sel_states sel')
    \<and> same_setup sel sel'
    \<and> (int n < sel_max_failures sel \<longrightarrow> ban_until_ms (breaker_entry sel' t req) = 0)"
  using assms(1)
proof (induction n arbitrary: sel' w')
  case 0
  with assms(2,3) show ?case by (simp add: default_ban_def)
next
  case (Suc n)
  obtain sel1 w1 where n: "record_failures n ho clk t req sel w = (sel1, w1)" by (metis prod.exhaust)
  with Suc.prems have f: "selector_record_failure ho clk t req sel1 w1 = (sel', w')" by simp
  from Suc.IH [OF n] have d: "keys_distinct (sel_states sel1)" and s: "same_setup sel sel1" by auto
  have "same_setup sel sel'" using same_setup_trans [OF s failure_setup [OF f]] .
  with record_failure_entry [OF f d] record_failure_distinct [OF f d] Suc.IH [OF n]
    same_setup_fields(4) [OF s] show ?case
    by (simp split: if_splits)
qed

lemma available_by_entry:
  "selector_is_available clk t req sel v =
     (if ban_until_ms (breaker_entry sel t req) = 0 then (True, sel, v)
      else if ban_until_ms (breaker_entry sel t req) \<le> fst (clk v)
      then (True, sel\<lparr>sel_states := AList.update (state_host_key req, t) default_ban (sel_states sel)\<rparr>, snd (clk v))
      else (False, sel, snd (clk v)))"
  by (auto simp: selector_is_available_def breaker_entry_def default_ban_def Let_def
      split: option.splits prod.splits)

text \<open>
  The breaker trips on the last of \<open>max_failures_\<close> failures in a row and not before:
  after \<open>n + 1\<close> recorded failures from a clean entry, the protocol is available for that endpoint
  exactly if the threshold was not reached or the clock has passed the cooldown that started with
  the last failure.
\<close>

theorem breaker_trips_exactly:
  assumes "breaker_entry sel t req = default_ban" and "keys_distinct (sel_states sel)"
    and "record_failures n ho clk t req sel w = (sel1, w1)"
    and "selector_record_failure ho clk t req sel1 w1 = (sel2, w2)"
    and "0 < fst (clk w1) + sel_cooldown_ms sel"
  shows "fst (selector_is_available clk t req sel2 v) \<longleftrightarrow>
    int (Suc n) < sel_max_failures sel \<or> fst (clk w1) + sel_cooldown_ms sel \<le> fst (clk v)"
proof -
  from record_failures_count [OF assms(3,1,2)] have
    count: "ban_failures (breaker_entry sel1 t req) = int n" and d: "keys_distinct (sel_states sel1)"
    and s: "same_setup sel sel1"
    and zero: "int n < sel_max_failures sel \<longrightarrow> ban_until_ms (breaker_entry sel1 t req) = 0"
    by auto
  from record_failure_entry [OF assms(4) d] count zero same_setup_fields [OF s] assms(5) show ?thesis
    by (simp add: available_by_entry split: if_splits)
qed

lemma breaker_trips_exactly_witness:
  "\<exists>sel2 w2 :: int. selector_record_failure (\<lambda>_. 0) (\<lambda>w. (w, w)) kHttp3 default_request
      (fst (record_failures 2 (\<lambda>_. 0) (\<lambda>w. (w, w)) kHttp3 default_request (ProtocolSelector None None None) 1000)) 1000
      = (sel2, w2)
    \<and> \<not> fst (selector_is_available (\<lambda>w. (w, w)) kHttp3 default_request sel2 60999)
    \<and> fst (selector_is_available (\<lambda>w. (w, w)) kHttp3 default_request sel2 61000)"
proof -
  let ?clk = "\<lambda>w :: int. (w, w)"
  let ?sel = "ProtocolSelector None None None"
  obtain sel1 w1 where r: "record_failures 2 (\<lambda>_. 0) ?clk kHttp3 default_request ?sel 1000 = (sel1, w1)"
    by (rule prod.exhaust)
  have w1: "w1 = 1000"
    using record_failures_world [of ?clk 2 "\<lambda>_. 0" kHttp3 default_request ?sel 1000] by (simp add: r)
  obtain sel2 w2 where f: "selector_record_failure (\<lambda>_. 0) ?clk kHttp3 default_request sel1 w1 = (sel2, w2)"
    by (metis prod.exhaust)
  have "fst (selector_is_available ?clk kHttp3 default_request sel2 v) \<longleftrightarrow> 61000 \<le> v" for v
    using breaker_trips_exactly [OF _ _ r f, of v]
    by (simp add: breaker_entry_def ProtocolSelector_def w1)
  with r f w1 show ?thesis by auto
qed

definition banned_until :: "int \<Rightarrow> 'w selector \<Rightarrow> request \<Rightarrow> bool" where
  "banned_until t sel req \<longleftrightarrow>
     (\<forall>s \<in> {h3_step, h2_step, h1_step}. step_engine sel s \<noteq> None \<and>
        ban_until_ms (breaker_entry sel (step_type s) req) \<noteq> 0 \<and> t \<le> ban_until_ms (breaker_entry sel (step_type s) req))"

text \<open>
  The breaker also bans HTTP/1.1, the protocol the fallback ends with: while all three
  entries of an endpoint are banned, an \<open>AUTO\<close> request fails with \<open>DEGRADED\<close> and no engine is
  called.
\<close>

theorem all_banned_is_degraded:
  assumes "banned_until t sel req" and "\<And>u. fst (clk u) < t"
  shows "\<exists>w'. selector_request_with_policy ho clk sel req POLICY_AUTO default_response w =
    \<lparr>sr_ret = ASTERNET_ERR_DEGRADED,
     sr_resp = default_response\<lparr>resp_err_code := ASTERNET_ERR_DEGRADED, resp_attempts := 0\<rparr>,
     sr_proto = PROTOCOL_UNKNOWN, sr_degraded = True, sr_sel = sel, sr_world = w'\<rparr>"
proof -
  have gate: "selector_gate True clk (step_type s) req st = (False, st\<lparr>at_world := snd (clk (at_world st))\<rparr>)"
    if "s \<in> {h3_step, h2_step, h1_step}" "at_sel st = sel" for s st
  proof -
    have "\<not> ban_until_ms (breaker_entry sel (step_type s) req) \<le> fst (clk (at_world st))"
      using assms that unfolding banned_until_def by (meson le_less_trans not_le order_less_le_trans)
    with assms(1) that show ?thesis
      by (auto simp: selector_gate_def available_by_entry banned_until_def)
  qed
  from assms(1) obtain e3 e2 e1 where "step_engine sel h3_step = Some e3"
    "step_engine sel h2_step = Some e2" "step_engine sel h1_step = Some e1"
    by (auto simp: banned_until_def)
  then show ?thesis
    by (simp add: selector_request_with_policy_def gate selector_finish_def Let_def split: prod.splits)
qed

lemma all_banned_is_degraded_witness:
  "\<exists>sel :: unit selector. \<exists>w'. sel_h1 sel = Some (echo_engine PROTOCOL_HTTP_1_1)
    \<and> sr_ret (selector_request_with_policy (\<lambda>_. 0) (\<lambda>w. (5, w)) sel default_request POLICY_AUTO
        default_response ()) = -11"
proof -
  let ?sel = "(ProtocolSelector (Some (echo_engine PROTOCOL_HTTP_3)) (Some (echo_engine PROTOCOL_HTTP_2))
          (Some (echo_engine PROTOCOL_HTTP_1_1)))
        \<lparr>sel_states := map (\<lambda>t. ((state_host_key default_request, t), \<lparr>ban_failures = 3, ban_until_ms = 60000\<rparr>))
          [kHttp1, kHttp2, kHttp3]\<rparr>"
  have "banned_until 60000 ?sel default_request"
    by (simp add: banned_until_def ProtocolSelector_def step_engine_def h3_step_def h2_step_def h1_step_def
      breaker_entry_def)
  from all_banned_is_degraded [OF this, of "\<lambda>w. (5, w)" "\<lambda>_. 0" "()"]
  have "sr_ret (selector_request_with_policy (\<lambda>_. 0) (\<lambda>w. (5, w)) ?sel default_request POLICY_AUTO
        default_response ()) = -11" by auto
  then show ?thesis by (intro exI [of _ ?sel] conjI) (simp_all add: ProtocolSelector_def)
qed

end
