(* ===== verification/Connection_Pool.thy ===== *)
theory Connection_Pool
  imports Api_Types
begin

text \<open>
  \<open>connection/connection_pool.cpp\<close>: the lease accounting per origin. The pool holds no physical
  connection; it bounds the number of origins, counts the leases of each and evicts the least
  recently used idle origin. Every method holds the pool's mutex for its whole body (the two
  handlers run outside it and do not touch the pool), so a method is one step. Lease ids and
  counters are naturals: a 64-bit counter that is incremented once per request does not wrap.
\<close>

section \<open>Origins, leases and the state of the pool\<close>

record origin =
  or_host :: string
  or_port :: nat
  or_protocol :: asternet_protocol
  or_network_epoch :: nat

definition default_origin :: origin where
  "default_origin = \<lparr>or_host = [], or_port = 443, or_protocol = PROTOCOL_UNKNOWN, or_network_epoch = 0\<rparr>"

record connection_lease =
  ls_origin :: origin
  ls_id :: nat
  ls_reused :: bool
  ls_valid :: bool

definition no_lease :: connection_lease where
  "no_lease = \<lparr>ls_origin = default_origin, ls_id = 0, ls_reused = False, ls_valid = False\<rparr>"

record pool_entry =
  pe_active :: nat
  pe_succeeded :: nat
  pe_failed :: nat
  pe_last_used_ms :: int

definition default_entry :: pool_entry where
  "default_entry = \<lparr>pe_active = 0, pe_succeeded = 0, pe_failed = 0, pe_last_used_ms = 0\<rparr>"

record 'w pool =
  pl_max_origins :: nat
  pl_next_id :: nat
  pl_network_epoch :: nat
  pl_prefetches :: nat
  pl_migrations :: nat
  pl_evictions :: nat
  pl_last_prefetch :: int
  pl_last_migration :: int
  pl_entries :: "(string, pool_entry) table"
  pl_leases :: "(nat, string) table"
  pl_prefetch_handler :: "(string \<Rightarrow> 'w \<Rightarrow> int \<times> 'w) option"
  pl_migration_handler :: "('w \<Rightarrow> int \<times> 'w) option"

definition ConnectionPoolImpl :: "nat \<Rightarrow> 'w pool" where
  "ConnectionPoolImpl max_origins =
     \<lparr>pl_max_origins = (if max_origins = 0 then 1 else max_origins), pl_next_id = 1,
      pl_network_epoch = 0, pl_prefetches = 0, pl_migrations = 0, pl_evictions = 0,
      pl_last_prefetch = ASTERNET_ERR_UNSUPPORTED, pl_last_migration = ASTERNET_ERR_UNSUPPORTED,
      pl_entries = [], pl_leases = [], pl_prefetch_handler = None, pl_migration_handler = None\<rparr>"

definition key_for :: "origin \<Rightarrow> string" where
  "key_for og = or_host og @ newline # dec_digits (or_port og) @ newline
     # to_string (protocol_code (or_protocol og)) @ newline # dec_digits (or_network_epoch og)"

lemma key_for_inject: "key_for a = key_for b \<longleftrightarrow> a = b"
  by (cases a; cases b) (auto simp: key_for_def append_sep_last3 dec_digits_inject to_string_inject)

interpretation pool_key: table_key key_for "\<lambda>_. True"
  by unfold_locales (simp add: key_for_inject)

section \<open>Operations\<close>

definition pool_prefetch :: "string \<Rightarrow> 'w pool \<Rightarrow> 'w \<Rightarrow> int \<times> 'w pool \<times> 'w" where
  "pool_prefetch host p w =
     (if host = [] then (ASTERNET_ERR_INVALID_ARGUMENT, p, w)
      else
        let p = p\<lparr>pl_prefetches := pl_prefetches p + 1\<rparr>;
            (result, w) = (case pl_prefetch_handler p of None \<Rightarrow> (ASTERNET_ERR_UNSUPPORTED, w)
                           | Some handler \<Rightarrow> handler host w)
        in (result, p\<lparr>pl_last_prefetch := result\<rparr>, w))"

definition pool_migrate :: "asternet_network \<Rightarrow> 'w pool \<Rightarrow> 'w \<Rightarrow> int \<times> 'w pool \<times> 'w" where
  "pool_migrate new_net p w =
     (let p = p\<lparr>pl_migrations := pl_migrations p + 1\<rparr>;
          (result, w) = (case pl_migration_handler p of None \<Rightarrow> (ASTERNET_ERR_UNSUPPORTED, w)
                         | Some handler \<Rightarrow> handler w)
      in (result, p\<lparr>pl_last_migration := result\<rparr>, w))"

definition pool_evict_all :: "'w pool \<Rightarrow> 'w pool" where
  "pool_evict_all p =
     p\<lparr>pl_evictions := pl_evictions p + length (pl_entries p), pl_entries := [], pl_leases := []\<rparr>"

text \<open>The scan for the oldest idle entry when the pool is full and the origin is new.\<close>

definition evict_idle :: "(string, pool_entry) hash_order \<Rightarrow> 'w pool \<Rightarrow> 'w pool" where
  "evict_idle ho p =
     (case oldest_key ho pe_last_used_ms (\<lambda>e. pe_active e = 0) (pl_entries p) of
        None \<Rightarrow> p
      | Some k \<Rightarrow> p\<lparr>pl_entries := AList.delete k (pl_entries p), pl_evictions := pl_evictions p + 1\<rparr>)"

definition pool_acquire ::
  "(string, pool_entry) hash_order \<Rightarrow> 'w clock \<Rightarrow> origin \<Rightarrow> 'w pool \<Rightarrow> 'w \<Rightarrow> connection_lease \<times> 'w pool \<times> 'w"
where
  "pool_acquire ho clk og p w =
     (if or_host og = [] then (no_lease, p, w)
      else
        let key = key_for og;
            full = (pl_max_origins p \<le> length (pl_entries p) \<and> map_of (pl_entries p) key = None);
            p = (if full then evict_idle ho p else p)
        in if full \<and> pl_max_origins p \<le> length (pl_entries p) then (no_lease, p, w)
           else
             let entry = (case map_of (pl_entries p) key of None \<Rightarrow> default_entry | Some e \<Rightarrow> e);
                 (now, w) = clk w;
                 entry = entry\<lparr>pe_active := pe_active entry + 1, pe_last_used_ms := now\<rparr>;
                 lease = \<lparr>ls_origin = og, ls_id = pl_next_id p, ls_reused = False, ls_valid = True\<rparr>
             in (lease,
                 p\<lparr>pl_entries := AList.update key entry (pl_entries p),
                   pl_next_id := pl_next_id p + 1,
                   pl_leases := AList.update (pl_next_id p) key (pl_leases p)\<rparr>, w))"

definition released_entry :: "bool \<Rightarrow> int \<Rightarrow> pool_entry \<Rightarrow> pool_entry" where
  "released_entry success now e =
     (let e = e\<lparr>pe_active := pe_active e - 1, pe_last_used_ms := now\<rparr>
      in if success then e\<lparr>pe_succeeded := pe_succeeded e + 1\<rparr> else e\<lparr>pe_failed := pe_failed e + 1\<rparr>)"

definition pool_release :: "'w clock \<Rightarrow> connection_lease \<Rightarrow> bool \<Rightarrow> 'w pool \<Rightarrow> 'w \<Rightarrow> 'w pool \<times> 'w" where
  "pool_release clk lease success p w =
     (if \<not> ls_valid lease \<or> ls_id lease = 0 then (p, w)
      else case map_of (pl_leases p) (ls_id lease) of
        None \<Rightarrow> (p, w)
      | Some key \<Rightarrow>
          let leases = AList.delete (ls_id lease) (pl_leases p) in
          (case map_of (pl_entries p) key of
             None \<Rightarrow> (p\<lparr>pl_leases := leases\<rparr>, w)
           | Some e \<Rightarrow>
               let (now, w) = clk w in
               (p\<lparr>pl_entries := AList.update key (released_entry success now e) (pl_entries p),
                  pl_leases := leases\<rparr>, w)))"

definition pool_on_network_change :: "nat \<Rightarrow> asternet_network \<Rightarrow> 'w pool \<Rightarrow> 'w pool" where
  "pool_on_network_change epoch new_net p =
     p\<lparr>pl_network_epoch := epoch, pl_evictions := pl_evictions p + length (pl_entries p),
       pl_entries := [], pl_leases := []\<rparr>"

record pool_snapshot_record =
  ps_origins :: nat
  ps_active_leases :: nat
  ps_prefetches :: nat
  ps_migrations :: nat
  ps_evictions :: nat
  ps_last_prefetch :: int
  ps_last_migration :: int
  ps_network_epoch :: nat

definition pool_snapshot :: "'w pool \<Rightarrow> pool_snapshot_record" where
  "pool_snapshot p =
     \<lparr>ps_origins = length (pl_entries p), ps_active_leases = length (pl_leases p),
      ps_prefetches = pl_prefetches p, ps_migrations = pl_migrations p, ps_evictions = pl_evictions p,
      ps_last_prefetch = pl_last_prefetch p, ps_last_migration = pl_last_migration p,
      ps_network_epoch = pl_network_epoch p\<rparr>"

definition pool_dump :: "'w pool \<Rightarrow> string" where
  "pool_dump p =
     (let c = pool_snapshot p in
      ''{\"origins\":'' @ dec_digits (ps_origins c) @ '',\"active_leases\":'' @ dec_digits (ps_active_leases c)
      @ '',\"prefetches\":'' @ dec_digits (ps_prefetches c) @ '',\"migrations\":'' @ dec_digits (ps_migrations c)
      @ '',\"evictions\":'' @ dec_digits (ps_evictions c)
      @ '',\"last_prefetch_result\":'' @ to_string (ps_last_prefetch c)
      @ '',\"last_migration_result\":'' @ to_string (ps_last_migration c)
      @ '',\"network_epoch\":'' @ dec_digits (ps_network_epoch c) @ ''}'')"

definition set_prefetch_handler :: "(string \<Rightarrow> 'w \<Rightarrow> int \<times> 'w) option \<Rightarrow> 'w pool \<Rightarrow> 'w pool" where
  "set_prefetch_handler h p = p\<lparr>pl_prefetch_handler := h\<rparr>"

definition set_migration_handler :: "('w \<Rightarrow> int \<times> 'w) option \<Rightarrow> 'w pool \<Rightarrow> 'w pool" where
  "set_migration_handler h p = p\<lparr>pl_migration_handler := h\<rparr>"

section \<open>The invariant\<close>

definition leases_on :: "'w pool \<Rightarrow> string \<Rightarrow> nat" where
  "leases_on p k = length (filter (\<lambda>l. snd l = k) (pl_leases p))"

text \<open>The tables are functions, the origins are bounded, and lease ids are the ones handed out.\<close>

definition pool_shape :: "'w pool \<Rightarrow> bool" where
  "pool_shape p \<longleftrightarrow> keys_distinct (pl_entries p) \<and> keys_distinct (pl_leases p)
     \<and> length (pl_entries p) \<le> pl_max_origins p \<and> 0 < pl_max_origins p \<and> 0 < pl_next_id p
     \<and> (\<forall>(i, _) \<in> set (pl_leases p). 0 < i \<and> i < pl_next_id p)"

text \<open>Every entry counts its leases, and no lease lacks its entry.\<close>

definition pool_counts :: "'w pool \<Rightarrow> bool" where
  "pool_counts p \<longleftrightarrow>
     (\<forall>k. case map_of (pl_entries p) k of None \<Rightarrow> leases_on p k = 0 | Some e \<Rightarrow> pe_active e = leases_on p k)"

definition pool_inv :: "'w pool \<Rightarrow> bool" where
  "pool_inv p \<longleftrightarrow> pool_shape p \<and> pool_counts p"

lemma pool_inv_init: "pool_inv (ConnectionPoolImpl n)"
  by (simp add: pool_inv_def pool_shape_def pool_counts_def leases_on_def ConnectionPoolImpl_def)

lemma leases_on_cong: "pl_leases p' = pl_leases p \<Longrightarrow> leases_on p' = leases_on p"
  by (simp add: leases_on_def fun_eq_iff)

lemma pool_inv_cong:
  assumes "pl_entries p' = pl_entries p" "pl_leases p' = pl_leases p"
    "pl_max_origins p' = pl_max_origins p" "pl_next_id p' = pl_next_id p"
  shows "pool_inv p' = pool_inv p"
  unfolding pool_inv_def pool_shape_def pool_counts_def assms leases_on_cong [OF assms(2)] ..

lemma pool_inv_cleared:
  "pool_inv p \<Longrightarrow> pl_entries p' = [] \<Longrightarrow> pl_leases p' = [] \<Longrightarrow> pl_max_origins p' = pl_max_origins p
     \<Longrightarrow> pl_next_id p' = pl_next_id p \<Longrightarrow> pool_inv p'"
  by (simp add: pool_inv_def pool_shape_def pool_counts_def leases_on_def)

lemma evict_all_inv: "pool_inv p \<Longrightarrow> pool_inv (pool_evict_all p)"
  by (erule pool_inv_cleared) (simp_all add: pool_evict_all_def)

lemma network_change_inv: "pool_inv p \<Longrightarrow> pool_inv (pool_on_network_change e n p)"
  by (erule pool_inv_cleared) (simp_all add: pool_on_network_change_def)

lemma prefetch_inv: "pool_prefetch h p w = (r, p', w') \<Longrightarrow> pool_inv p \<Longrightarrow> pool_inv p'"
  by (auto simp: pool_prefetch_def Let_def split: if_splits prod.splits intro: pool_inv_cong [THEN iffD2])

lemma migrate_inv: "pool_migrate n p w = (r, p', w') \<Longrightarrow> pool_inv p \<Longrightarrow> pool_inv p'"
  by (auto simp: pool_migrate_def Let_def split: prod.splits intro: pool_inv_cong [THEN iffD2])

subsection \<open>Acquire\<close>

lemma update_fresh: "map_of m k = None \<Longrightarrow> AList.update k v m = m @ [(k, v)]"
  by (induction m) auto

lemma evict_idle_frame [simp]:
  "pl_leases (evict_idle ho p) = pl_leases p" "pl_next_id (evict_idle ho p) = pl_next_id p"
  "pl_max_origins (evict_idle ho p) = pl_max_origins p" "leases_on (evict_idle ho p) = leases_on p"
  by (simp_all add: evict_idle_def leases_on_def fun_eq_iff split: option.split)

text \<open>The victim is idle and no idle entry is older.\<close>

lemma oldest_idle:
  assumes "oldest_key ho age idle m = Some k" and "keys_distinct m"
  shows "\<exists>v. map_of m k = Some v \<and> idle v \<and> (\<forall>k' v'. map_of m k' = Some v' \<and> idle v' \<longrightarrow> age v \<le> age v')"
proof -
  from assms(1) obtain v where s: "scan_oldest age idle (iterate ho m) None = Some (k, v)"
    by (auto simp: oldest_key_def)
  from scan_oldest_mem [OF s] assms(2) have "map_of m k = Some v \<and> idle v"
    by (simp add: keys_distinct_def map_of_eq_Some_iff)
  moreover from scan_oldest_min [OF s] have "\<forall>k' v'. map_of m k' = Some v' \<and> idle v' \<longrightarrow> age v \<le> age v'"
    using map_of_SomeD by fastforce
  ultimately show ?thesis by blast
qed

lemma no_idle: "oldest_key ho age idle m = None \<Longrightarrow> map_of m k = Some v \<Longrightarrow> \<not> idle v"
  by (auto simp: oldest_key_def scan_oldest_None dest!: map_of_SomeD)

lemma evict_idle_inv: "pool_inv p \<Longrightarrow> pool_inv (evict_idle ho p)"
proof -
  assume inv: "pool_inv p"
  then have d: "keys_distinct (pl_entries p)" by (simp add: pool_inv_def pool_shape_def)
  show ?thesis
  proof (cases "oldest_key ho pe_last_used_ms (\<lambda>e. pe_active e = 0) (pl_entries p)")
    case None
    with inv show ?thesis by (simp add: evict_idle_def)
  next
    case (Some k)
    from oldest_idle [OF this d] obtain v where "map_of (pl_entries p) k = Some v" "pe_active v = 0" by auto
    with inv have "leases_on p k = 0" by (auto simp: pool_inv_def pool_counts_def split: option.splits dest: spec [of _ k])
    moreover have "length (AList.delete k (pl_entries p)) \<le> pl_max_origins p"
      using inv length_delete_le [of k "pl_entries p"] unfolding pool_inv_def pool_shape_def by linarith
    ultimately show ?thesis
      using inv Some
      by (auto simp: evict_idle_def pool_inv_def pool_shape_def pool_counts_def delete_conv leases_on_def
          cong: option.case_cong)
  qed
qed

lemma grant_inv:
  assumes "pool_inv p" and "map_of (pl_entries p) key = None \<longrightarrow> length (pl_entries p) < pl_max_origins p"
    and "pe_active entry = (case map_of (pl_entries p) key of None \<Rightarrow> 0 | Some e \<Rightarrow> pe_active e) + 1"
  shows "pool_inv (p\<lparr>pl_entries := AList.update key entry (pl_entries p), pl_next_id := pl_next_id p + 1,
    pl_leases := AList.update (pl_next_id p) key (pl_leases p)\<rparr>)"
proof -
  have "map_of (pl_leases p) (pl_next_id p) = None"
    using assms(1) unfolding pool_inv_def pool_shape_def map_of_eq_None_iff by fastforce
  note fresh = update_fresh [OF this]
  have "leases_on p key = (case map_of (pl_entries p) key of None \<Rightarrow> 0 | Some e \<Rightarrow> pe_active e)"
    using assms(1) by (auto simp: pool_inv_def pool_counts_def split: option.splits dest: spec [of _ key])
  with assms have "pool_counts (p\<lparr>pl_entries := AList.update key entry (pl_entries p), pl_next_id := pl_next_id p + 1,
    pl_leases := AList.update (pl_next_id p) key (pl_leases p)\<rparr>)"
    by (auto simp: pool_inv_def pool_counts_def leases_on_def fresh update_conv cong: option.case_cong)
  moreover have "keys_distinct (AList.update (pl_next_id p) key (pl_leases p))"
    "length (AList.update key entry (pl_entries p)) \<le> pl_max_origins p"
    using assms(1,2) by (auto simp: pool_inv_def pool_shape_def length_update)
  then have "pool_shape (p\<lparr>pl_entries := AList.update key entry (pl_entries p), pl_next_id := pl_next_id p + 1,
    pl_leases := AList.update (pl_next_id p) key (pl_leases p)\<rparr>)"
    using assms(1) by (auto simp: pool_inv_def pool_shape_def fresh)
  ultimately show ?thesis by (simp add: pool_inv_def)
qed

text \<open>
  An acquire in one piece: refused for an empty host or when every origin is busy; otherwise the
  pool after a possible eviction grants the lease.
\<close>

definition room_for :: "(string, pool_entry) hash_order \<Rightarrow> string \<Rightarrow> 'w pool \<Rightarrow> 'w pool" where
  "room_for ho key p =
     (if pl_max_origins p \<le> length (pl_entries p) \<and> map_of (pl_entries p) key = None
      then evict_idle ho p else p)"

lemma room_for_frame [simp]:
  "pl_leases (room_for ho k p) = pl_leases p" "pl_next_id (room_for ho k p) = pl_next_id p"
  "pl_max_origins (room_for ho k p) = pl_max_origins p"
  by (simp_all add: room_for_def)

lemma room_for_inv: "pool_inv p \<Longrightarrow> pool_inv (room_for ho k p)"
  by (simp add: room_for_def evict_idle_inv)

lemma acquire_cases:
  assumes "pool_acquire ho clk og p w = (l, p', w')" and "pool_inv p"
  obtains (refused) "l = no_lease" "w' = w" "p' = p \<or> p' = room_for ho (key_for og) p"
      "or_host og = [] \<or> (map_of (pl_entries p) (key_for og) = None \<and> (\<forall>e \<in> snd ` set (pl_entries p). pe_active e \<noteq> 0))"
    | (granted) now entry where "or_host og \<noteq> []" "clk w = (now, w')"
      "l = \<lparr>ls_origin = og, ls_id = pl_next_id p, ls_reused = False, ls_valid = True\<rparr>"
      "pe_active entry = (case map_of (pl_entries (room_for ho (key_for og) p)) (key_for og) of
          None \<Rightarrow> 0 | Some e \<Rightarrow> pe_active e) + 1"
      "pe_last_used_ms entry = now"
      "map_of (pl_entries (room_for ho (key_for og) p)) (key_for og) = None
        \<longrightarrow> length (pl_entries (room_for ho (key_for og) p)) < pl_max_origins p"
      "p' = (room_for ho (key_for og) p)
        \<lparr>pl_entries := AList.update (key_for og) entry (pl_entries (room_for ho (key_for og) p)),
         pl_next_id := pl_next_id p + 1, pl_leases := AList.update (pl_next_id p) (key_for og) (pl_leases p)\<rparr>"
proof (cases "or_host og = []")
  case True
  with assms(1) refused show ?thesis by (simp add: pool_acquire_def)
next
  case host: False
  let ?k = "key_for og" and ?q = "room_for ho (key_for og) p"
  let ?full = "pl_max_origins p \<le> length (pl_entries p) \<and> map_of (pl_entries p) ?k = None"
  obtain now w1 where c: "clk w = (now, w1)" by (rule prod.exhaust)
  show ?thesis
  proof (cases "?full \<and> pl_max_origins p \<le> length (pl_entries ?q)")
    case True
    have d: "keys_distinct (pl_entries p)" and le: "length (pl_entries p) \<le> pl_max_origins p"
      using assms(2) by (simp_all add: pool_inv_def pool_shape_def)
    have "oldest_key ho pe_last_used_ms (\<lambda>e. pe_active e = 0) (pl_entries p) = None"
    proof (rule ccontr)
      assume "oldest_key ho pe_last_used_ms (\<lambda>e. pe_active e = 0) (pl_entries p) \<noteq> None"
      then obtain d' where o: "oldest_key ho pe_last_used_ms (\<lambda>e. pe_active e = 0) (pl_entries p) = Some d'" by auto
      from oldest_idle [OF o d] have "map_of (pl_entries p) d' \<noteq> None" by auto
      from length_delete [OF d this] le
      have "length (pl_entries (evict_idle ho p)) < pl_max_origins p" by (simp add: evict_idle_def o)
      with True show False by (auto simp: room_for_def)
    qed
    then have "\<forall>e \<in> snd ` set (pl_entries p). pe_active e \<noteq> 0"
      by (auto simp: oldest_key_def scan_oldest_None)
    moreover have "l = no_lease" "p' = ?q" "w' = w"
      using assms(1) host True by (auto simp: pool_acquire_def room_for_def Let_def)
    ultimately show ?thesis using refused True by blast
  next
    case False
    define entry where "entry = (case map_of (pl_entries ?q) ?k of None \<Rightarrow> default_entry | Some e \<Rightarrow> e)"
    have run: "l = \<lparr>ls_origin = og, ls_id = pl_next_id p, ls_reused = False, ls_valid = True\<rparr>" "w' = w1"
      "p' = ?q\<lparr>pl_entries := AList.update ?k (entry\<lparr>pe_active := pe_active entry + 1, pe_last_used_ms := now\<rparr>) (pl_entries ?q),
         pl_next_id := pl_next_id p + 1, pl_leases := AList.update (pl_next_id p) ?k (pl_leases p)\<rparr>"
      using assms(1) host False c
      by (auto simp: pool_acquire_def room_for_def Let_def entry_def split: if_splits)
    have "map_of (pl_entries ?q) ?k = None \<longrightarrow> length (pl_entries ?q) < pl_max_origins p"
      using False by (auto simp: room_for_def split: if_splits)
    with run granted [of now "entry\<lparr>pe_active := pe_active entry + 1, pe_last_used_ms := now\<rparr>"] host c
    show ?thesis by (simp add: entry_def default_entry_def split: option.split)
  qed
qed

lemma acquire_inv:
  assumes "pool_acquire ho clk og p w = (l, p', w')" and "pool_inv p"
  shows "pool_inv p'"
  using assms
proof (cases rule: acquire_cases)
  case refused
  with assms(2) room_for_inv show ?thesis by blast
next
  case (granted now entry)
  from room_for_inv [OF assms(2)] granted show ?thesis
    using grant_inv [of "room_for ho (key_for og) p" "key_for og" entry] by simp
qed

subsection \<open>Release\<close>

lemma count_delete:
  "keys_distinct m \<Longrightarrow> map_of m i = Some k \<Longrightarrow>
     length (filter (\<lambda>l. snd l = k') (AList.delete i m)) = length (filter (\<lambda>l. snd l = k') m) - (if k = k' then 1 else 0)"
proof (induction m)
  case Nil
  then show ?case by simp
next
  case (Cons a m)
  obtain j v where a: "a = (j, v)" by (cases a)
  show ?case
  proof (cases "j = i")
    case True
    with Cons.prems a have "AList.delete i m = m" by (simp add: keys_distinct_def delete_idem)
    with True Cons.prems a show ?thesis by auto
  next
    case False
    with Cons a have ih: "length (filter (\<lambda>l. snd l = k') (AList.delete i m)) =
      length (filter (\<lambda>l. snd l = k') m) - (if k = k' then 1 else 0)" by (simp add: keys_distinct_def)
    have "k = k' \<Longrightarrow> 0 < length (filter (\<lambda>l. snd l = k') m)"
      using Cons.prems(2) False a map_of_SomeD [of m i k] by (fastforce simp: filter_empty_conv)
    with ih False a show ?thesis by (auto simp: Suc_diff_le)
  qed
qed

lemma released_entry_active [simp]: "pe_active (released_entry success now e) = pe_active e - 1"
  by (simp add: released_entry_def Let_def)

lemma lease_key_present:
  "pool_inv p \<Longrightarrow> map_of (pl_leases p) i = Some k \<Longrightarrow> \<exists>e. map_of (pl_entries p) k = Some e \<and> 0 < pe_active e"
proof -
  assume inv: "pool_inv p" and "map_of (pl_leases p) i = Some k"
  then have "0 < leases_on p k"
    using map_of_SomeD [of "pl_leases p" i k] by (force simp: leases_on_def filter_empty_conv)
  with inv show ?thesis
    by (cases "map_of (pl_entries p) k") (auto simp: pool_inv_def pool_counts_def dest: spec [of _ k])
qed

lemma release_known:
  assumes "pool_inv p" and "map_of (pl_leases p) (ls_id l) = Some k" and "ls_valid l" and "ls_id l \<noteq> 0"
  obtains e where "map_of (pl_entries p) k = Some e" and "0 < pe_active e"
    and "pool_release clk l success p w =
      (p\<lparr>pl_entries := AList.update k (released_entry success (fst (clk w)) e) (pl_entries p),
         pl_leases := AList.delete (ls_id l) (pl_leases p)\<rparr>, snd (clk w))"
proof -
  from lease_key_present [OF assms(1,2)] obtain e where e: "map_of (pl_entries p) k = Some e" "0 < pe_active e" by auto
  with that assms(2-) show ?thesis by (simp add: pool_release_def Let_def case_prod_beta)
qed

lemma release_unknown:
  "map_of (pl_leases p) (ls_id l) = None \<or> \<not> ls_valid l \<or> ls_id l = 0 \<Longrightarrow> pool_release clk l success p w = (p, w)"
  by (auto simp: pool_release_def)

lemma release_inv:
  assumes "pool_release clk l success p w = (p', w')" and "pool_inv p"
  shows "pool_inv p'"
proof (cases "map_of (pl_leases p) (ls_id l) = None \<or> \<not> ls_valid l \<or> ls_id l = 0")
  case True
  with assms show ?thesis using release_unknown by fastforce
next
  case False
  then obtain k where k: "map_of (pl_leases p) (ls_id l) = Some k" "ls_valid l" "ls_id l \<noteq> 0" by auto
  from assms(2) k obtain e where e: "map_of (pl_entries p) k = Some e" "0 < pe_active e"
    and r: "pool_release clk l success p w =
      (p\<lparr>pl_entries := AList.update k (released_entry success (fst (clk w)) e) (pl_entries p),
         pl_leases := AList.delete (ls_id l) (pl_leases p)\<rparr>, snd (clk w))"
    by (rule release_known)
  let ?p = "p\<lparr>pl_entries := AList.update k (released_entry success (fst (clk w)) e) (pl_entries p),
         pl_leases := AList.delete (ls_id l) (pl_leases p)\<rparr>"
  have d: "keys_distinct (pl_leases p)" using assms(2) by (simp add: pool_inv_def pool_shape_def)
  have count: "leases_on ?p k' = leases_on p k' - (if k = k' then 1 else 0)" for k'
    using count_delete [OF d k(1)] by (simp add: leases_on_def)
  have "pool_counts ?p"
    using assms(2) e unfolding pool_counts_def count
    by (auto simp: pool_inv_def pool_counts_def update_conv split: option.split dest: spec [of _ k]
        cong: option.case_cong)
  moreover have "pool_shape ?p"
    using assms(2) e by (auto simp: pool_inv_def pool_shape_def length_update AList.delete_eq)
  ultimately have "pool_inv ?p" by (simp add: pool_inv_def)
  moreover have "p' = ?p" using r assms(1) by simp
  ultimately show ?thesis by simp
qed

section \<open>The pool as a state machine\<close>

datatype 'w pool_event =
    Acquire origin
  | Release connection_lease bool
  | Evict_All
  | Network_Change nat asternet_network
  | Prefetch string
  | Migrate asternet_network
  | Set_Prefetch_Handler "(string \<Rightarrow> 'w \<Rightarrow> int \<times> 'w) option"
  | Set_Migration_Handler "('w \<Rightarrow> int \<times> 'w) option"

fun pool_step ::
  "(string, pool_entry) hash_order \<Rightarrow> 'w clock \<Rightarrow> 'w pool_event \<Rightarrow> 'w pool \<times> 'w \<Rightarrow> 'w pool \<times> 'w" where
  "pool_step ho clk (Acquire og) (p, w) = snd (pool_acquire ho clk og p w)"
| "pool_step ho clk (Release l ok) (p, w) = pool_release clk l ok p w"
| "pool_step ho clk Evict_All (p, w) = (pool_evict_all p, w)"
| "pool_step ho clk (Network_Change e n) (p, w) = (pool_on_network_change e n p, w)"
| "pool_step ho clk (Prefetch h) (p, w) = snd (pool_prefetch h p w)"
| "pool_step ho clk (Migrate n) (p, w) = snd (pool_migrate n p w)"
| "pool_step ho clk (Set_Prefetch_Handler h) (p, w) = (set_prefetch_handler h p, w)"
| "pool_step ho clk (Set_Migration_Handler h) (p, w) = (set_migration_handler h p, w)"

inductive pool_reach :: "(string, pool_entry) hash_order \<Rightarrow> 'w clock \<Rightarrow> nat \<Rightarrow> 'w pool \<Rightarrow> bool"
  for ho clk n where
  init: "pool_reach ho clk n (ConnectionPoolImpl n)"
| step: "pool_reach ho clk n p \<Longrightarrow> pool_step ho clk e (p, w) = (p', w') \<Longrightarrow> pool_reach ho clk n p'"

lemma snd_pair: "snd x = (b, c) \<Longrightarrow> \<exists>a. x = (a, b, c)"
  by (cases x) simp

lemma pool_step_inv:
  assumes "pool_step ho clk e (p, w) = (p', w')" and "pool_inv p"
  shows "pool_inv p'"
proof (cases e)
  case (Acquire og)
  with assms acquire_inv show ?thesis by (auto dest!: snd_pair)
next
  case (Release l ok)
  with assms release_inv show ?thesis by auto
next
  case (Prefetch h)
  with assms prefetch_inv show ?thesis by (auto dest!: snd_pair)
next
  case (Migrate n)
  with assms migrate_inv show ?thesis by (auto dest!: snd_pair)
qed (use assms in \<open>auto simp: set_prefetch_handler_def set_migration_handler_def
      intro: evict_all_inv network_change_inv pool_inv_cong [THEN iffD2]\<close>)

lemma pool_step_max: "pl_max_origins (fst (pool_step ho clk e (p, w))) = pl_max_origins p"
proof (cases e)
  case (Acquire og)
  have "pl_max_origins (fst (snd (pool_acquire ho clk og p w))) = pl_max_origins p"
    by (simp add: pool_acquire_def Let_def case_prod_beta)
  with Acquire show ?thesis by simp
qed (auto simp: pool_release_def pool_evict_all_def pool_on_network_change_def pool_prefetch_def
    pool_migrate_def set_prefetch_handler_def set_migration_handler_def Let_def
    split: option.split prod.splits)

lemma pool_reach_inv:
  "pool_reach ho clk n p \<Longrightarrow> pool_inv p \<and> pl_max_origins p = (if n = 0 then 1 else n)"
proof (induction rule: pool_reach.induct)
  case init
  then show ?case by (simp add: pool_inv_init) (simp add: ConnectionPoolImpl_def)
next
  case (step p e w p' w')
  then show ?case using pool_step_inv pool_step_max [of ho clk e p w] by fastforce
qed

section \<open>The lease interface\<close>

text \<open>
  What the client relies on when it brackets a transport call between \<open>acquire\<close> and \<open>release\<close>: the
  ids that are outstanding, a new one per granted lease, and the release of exactly that one.
\<close>

locale lease_registry =
  fixes inv :: "'s \<Rightarrow> bool" and held :: "'s \<Rightarrow> nat set"
    and acquire :: "origin \<Rightarrow> 's \<Rightarrow> connection_lease \<times> 's"
    and release :: "connection_lease \<Rightarrow> bool \<Rightarrow> 's \<Rightarrow> 's"
  assumes acquire_keeps: "inv s \<Longrightarrow> acquire og s = (l, s') \<Longrightarrow> inv s'"
    and acquire_granted: "inv s \<Longrightarrow> acquire og s = (l, s') \<Longrightarrow> ls_valid l \<Longrightarrow>
      ls_id l \<notin> held s \<and> held s' = insert (ls_id l) (held s)"
    and acquire_refused: "inv s \<Longrightarrow> acquire og s = (l, s') \<Longrightarrow> \<not> ls_valid l \<Longrightarrow> held s' = held s"
    and release_keeps: "inv s \<Longrightarrow> inv (release l ok s)"
    and release_held: "inv s \<Longrightarrow> held (release l ok s) = (if ls_valid l then held s - {ls_id l} else held s)"
begin

text \<open>A bracket leaves no lease behind, if what runs inside it neither acquires nor releases.\<close>

lemma bracket_balanced:
  assumes "inv s" and "acquire og s = (l, s1)" and "inv s2" and "held s2 = held s1"
  shows "held (release l ok s2) = held s" and "inv (release l ok s2)"
proof -
  show "inv (release l ok s2)" using assms(3) by (rule release_keeps)
  show "held (release l ok s2) = held s"
  proof (cases "ls_valid l")
    case True
    with acquire_granted [OF assms(1,2)] release_held [OF assms(3)] assms(4) show ?thesis by auto
  next
    case False
    with acquire_refused [OF assms(1,2)] release_held [OF assms(3)] assms(4) show ?thesis by simp
  qed
qed

lemma release_twice: "inv s \<Longrightarrow> held (release l ok2 (release l ok s)) = held (release l ok s)"
  using release_keeps [of s l ok] by (auto simp: release_held)

end

definition pool_acquire_op ::
  "(string, pool_entry) hash_order \<Rightarrow> 'w clock \<Rightarrow> origin \<Rightarrow> 'w pool \<times> 'w \<Rightarrow> connection_lease \<times> 'w pool \<times> 'w"
where
  "pool_acquire_op ho clk og s = pool_acquire ho clk og (fst s) (snd s)"

definition pool_release_op :: "'w clock \<Rightarrow> connection_lease \<Rightarrow> bool \<Rightarrow> 'w pool \<times> 'w \<Rightarrow> 'w pool \<times> 'w" where
  "pool_release_op clk l ok s = pool_release clk l ok (fst s) (snd s)"

definition pool_held :: "'w pool \<Rightarrow> nat set" where
  "pool_held p = fst ` set (pl_leases p)"

lemma pool_held_iff: "pool_inv p \<Longrightarrow> i \<in> pool_held p \<longleftrightarrow> map_of (pl_leases p) i \<noteq> None"
  by (simp add: pool_held_def map_of_eq_None_iff)

lemma pool_held_positive: "pool_inv p \<Longrightarrow> i \<in> pool_held p \<Longrightarrow> 0 < i \<and> i < pl_next_id p"
  by (auto simp: pool_held_def pool_inv_def pool_shape_def)

lemma pool_held_release:
  assumes "pool_inv p"
  shows "pool_held (fst (pool_release clk l ok p w)) = (if ls_valid l then pool_held p - {ls_id l} else pool_held p)"
proof (cases "map_of (pl_leases p) (ls_id l) = None \<or> \<not> ls_valid l \<or> ls_id l = 0")
  case True
  then have "ls_valid l \<longrightarrow> ls_id l \<notin> pool_held p"
    using pool_held_iff [OF assms, of "ls_id l"] pool_held_positive [OF assms, of "ls_id l"] by auto
  with True show ?thesis by (simp add: release_unknown)
next
  case False
  then obtain k where k: "map_of (pl_leases p) (ls_id l) = Some k" "ls_valid l" "ls_id l \<noteq> 0" by auto
  from assms k obtain e where "pool_release clk l ok p w =
      (p\<lparr>pl_entries := AList.update k (released_entry ok (fst (clk w)) e) (pl_entries p),
         pl_leases := AList.delete (ls_id l) (pl_leases p)\<rparr>, snd (clk w))"
    by (rule release_known)
  moreover have "fst ` set (AList.delete (ls_id l) (pl_leases p)) = fst ` set (pl_leases p) - {ls_id l}"
    by (simp only: dom_map_of_conv_image_fst [symmetric]) (auto simp: delete_conv split: if_splits)
  ultimately show ?thesis using k by (simp add: pool_held_def)
qed

interpretation pool_leases: lease_registry "\<lambda>s. pool_inv (fst s)" "\<lambda>s. pool_held (fst s)"
  "pool_acquire_op ho clk" "pool_release_op clk"
  for ho :: "(string, pool_entry) hash_order" and clk :: "'w clock"
proof (unfold_locales, goal_cases)
  case (1 s og l s')
  then show ?case using acquire_inv by (cases s') (auto simp: pool_acquire_op_def)
next
  case (2 s og l s')
  then have acq: "pool_acquire ho clk og (fst s) (snd s) = (l, fst s', snd s')"
    by (simp add: pool_acquire_op_def)
  from acq 2(1) show ?case
  proof (cases rule: acquire_cases)
    case refused
    with 2(3) show ?thesis by (simp add: no_lease_def)
  next
    case (granted now entry)
    have "pl_next_id (fst s) \<notin> pool_held (fst s)" using pool_held_positive [OF 2(1)] by blast
    moreover from this have "map_of (pl_leases (fst s)) (pl_next_id (fst s)) = None"
      using pool_held_iff [OF 2(1)] by blast
    ultimately show ?thesis using granted by (simp add: pool_held_def update_fresh)
  qed
next
  case (3 s og l s')
  then have acq: "pool_acquire ho clk og (fst s) (snd s) = (l, fst s', snd s')"
    by (simp add: pool_acquire_op_def)
  from acq 3(1) show ?case
  proof (cases rule: acquire_cases)
    case refused
    then show ?thesis by (auto simp: pool_held_def)
  next
    case (granted now entry)
    with 3(3) show ?thesis by simp
  qed
next
  case (4 s l ok)
  then show ?case using release_inv by (metis pool_release_op_def prod.collapse)
next
  case (5 s l ok)
  then show ?case by (simp add: pool_release_op_def pool_held_release)
qed

text \<open>
  Property C30. In every reachable state of the pool, after any interleaving of its methods: at most
  \<open>max_origins\<close> origins are kept (at least one), the active count of every origin is the number
  of outstanding leases on it, no lease refers to an origin that was dropped, and every
  outstanding lease id was handed out and is outstanding once.
\<close>

theorem pool_accounting:
  assumes "pool_reach ho clk n p"
  shows "length (pl_entries p) \<le> max 1 n
    \<and> distinct (map fst (pl_entries p)) \<and> distinct (map fst (pl_leases p))
    \<and> (\<forall>k e. map_of (pl_entries p) k = Some e \<longrightarrow> pe_active e = length (filter (\<lambda>l. snd l = k) (pl_leases p)))
    \<and> (\<forall>i k. map_of (pl_leases p) i = Some k \<longrightarrow> 0 < i \<and> i < pl_next_id p \<and> map_of (pl_entries p) k \<noteq> None)"
proof -
  from pool_reach_inv [OF assms] have inv: "pool_inv p" and m: "pl_max_origins p \<le> max 1 n" by auto
  have "0 < i \<and> i < pl_next_id p \<and> map_of (pl_entries p) k \<noteq> None" if l: "map_of (pl_leases p) i = Some k" for i k
    using inv lease_key_present [OF inv l] map_of_SomeD [OF l] unfolding pool_inv_def pool_shape_def by fastforce
  moreover have "pe_active e = leases_on p k" if "map_of (pl_entries p) k = Some e" for k e
    using inv that by (auto simp: pool_inv_def pool_counts_def dest: spec [of _ k])
  ultimately show ?thesis
    using inv m by (auto simp: pool_inv_def pool_shape_def keys_distinct_def leases_on_def)
qed

lemma pool_accounting_witness:
  "\<exists>p :: unit pool. pool_reach (\<lambda>_. 0) (\<lambda>w. (7, w)) 2 p \<and> length (pl_entries p) \<le> 2 \<and> length (pl_leases p) = 1"
proof -
  let ?o = "default_origin\<lparr>or_host := ''a''\<rparr>"
  let ?s = "pool_step (\<lambda>_. 0) (\<lambda>w. (7, w)) (Acquire ?o) (ConnectionPoolImpl 2, ())"
  have r: "pool_reach (\<lambda>_. 0) (\<lambda>w. (7, w)) 2 (fst ?s)"
    by (rule pool_reach.step [OF pool_reach.init, where e = "Acquire ?o" and w = "()" and w' = "snd ?s"])
      (simp only: prod.collapse)
  moreover have "length (pl_leases (fst ?s)) = 1"
    by (simp add: pool_acquire_def ConnectionPoolImpl_def default_origin_def Let_def)
  ultimately show ?thesis using pool_accounting [OF r] by auto
qed

text \<open>An entry of \<open>p\<close> seen in a later table \<open>m\<close>: unchanged, or gone as the oldest idle one.\<close>

definition kept_or_oldest :: "'w pool \<Rightarrow> (string, pool_entry) table \<Rightarrow> string \<Rightarrow> bool" where
  "kept_or_oldest p m k \<longleftrightarrow> map_of m k = map_of (pl_entries p) k \<or>
      (map_of m k = None \<and> (\<exists>e. map_of (pl_entries p) k = Some e \<and> pe_active e = 0 \<and>
        (\<forall>k' e'. map_of (pl_entries p) k' = Some e' \<and> pe_active e' = 0 \<longrightarrow> pe_last_used_ms e \<le> pe_last_used_ms e')))"

lemma kept_or_oldestD:
  assumes "kept_or_oldest p m k" and "map_of (pl_entries p) k = Some e"
  shows "pe_active e \<noteq> 0 \<longrightarrow> map_of m k = Some e"
    and "map_of m k = None \<longrightarrow> pe_active e = 0 \<and> (\<forall>k' e'. map_of (pl_entries p) k' = Some e' \<and> pe_active e' = 0
              \<longrightarrow> pe_last_used_ms e \<le> pe_last_used_ms e')"
  using assms by (auto simp: kept_or_oldest_def)

text \<open>
  What acquire may do to other origins: from a reachable state, every origin with an
  outstanding lease keeps its entry and its count; at most one entry disappears, it was idle, and
  no idle entry was used longer ago; the lease granted is new; a refusal means an empty host, or
  that the table is full of busy origins.
\<close>

theorem acquire_evicts_oldest_idle:
  assumes "pool_reach ho clk n p" and "pool_acquire ho clk og p w = (l, p', w')"
  shows "(ls_valid l \<longrightarrow> map_of (pl_leases p) (ls_id l) = None \<and> map_of (pl_leases p') (ls_id l) = Some (key_for og))
    \<and> (\<not> ls_valid l \<longrightarrow> or_host og = [] \<or> (\<forall>e \<in> snd ` set (pl_entries p). pe_active e \<noteq> 0))
    \<and> (\<forall>k e. k \<noteq> key_for og \<and> map_of (pl_entries p) k = Some e \<and> pe_active e \<noteq> 0
        \<longrightarrow> map_of (pl_entries p') k = Some e)
    \<and> (\<forall>k e. k \<noteq> key_for og \<and> map_of (pl_entries p) k = Some e \<and> map_of (pl_entries p') k = None
        \<longrightarrow> pe_active e = 0 \<and> (\<forall>k' e'. map_of (pl_entries p) k' = Some e' \<and> pe_active e' = 0
              \<longrightarrow> pe_last_used_ms e \<le> pe_last_used_ms e'))"
proof -
  from pool_reach_inv [OF assms(1)] have inv: "pool_inv p" by simp
  then have d: "keys_distinct (pl_entries p)" by (simp add: pool_inv_def pool_shape_def)
  let ?q = "room_for ho (key_for og) p"
  have room: "kept_or_oldest p (pl_entries ?q) k" for k
  proof (cases "oldest_key ho pe_last_used_ms (\<lambda>e. pe_active e = 0) (pl_entries p)")
    case None
    then show ?thesis by (simp add: room_for_def evict_idle_def kept_or_oldest_def)
  next
    case (Some v)
    from oldest_idle [OF this d] Some show ?thesis
      by (cases "k = v") (auto simp: room_for_def evict_idle_def delete_conv kept_or_oldest_def)
  qed
  have fresh: "map_of (pl_leases p) (pl_next_id p) = None"
    using inv unfolding pool_inv_def pool_shape_def map_of_eq_None_iff by fastforce
  from assms(2) inv show ?thesis
  proof (cases rule: acquire_cases)
    case refused
    then have v: "\<not> ls_valid l" by (simp add: no_lease_def)
    have old: "kept_or_oldest p (pl_entries p') k" for k
      using refused(3) room by (auto simp: kept_or_oldest_def)
    show ?thesis
      using v refused(4) kept_or_oldestD [OF old] by metis
  next
    case (granted now entry)
    then have same: "map_of (pl_entries p') k = map_of (pl_entries ?q) k" if "k \<noteq> key_for og" for k
      using that by (simp add: update_conv)
    have old: "kept_or_oldest p (pl_entries p') k" if "k \<noteq> key_for og" for k
      using room [of k] same [OF that] by (simp add: kept_or_oldest_def)
    have "ls_valid l \<and> ls_id l = pl_next_id p" "map_of (pl_leases p') (pl_next_id p) = Some (key_for og)"
      using granted by (simp_all add: update_conv)
    then show ?thesis using fresh kept_or_oldestD [OF old] by metis
  qed
qed

lemma acquire_evicts_oldest_idle_witness:
  "\<exists>l p' w'. pool_acquire (\<lambda>_. 0) (\<lambda>w. (7, w)) (default_origin\<lparr>or_host := ''a''\<rparr>)
      (ConnectionPoolImpl 2 :: unit pool) () = (l, p', w') \<and> ls_valid l
    \<and> map_of (pl_leases p') (ls_id l) = Some (key_for (default_origin\<lparr>or_host := ''a''\<rparr>))"
proof -
  let ?o = "default_origin\<lparr>or_host := ''a''\<rparr>"
  obtain l p' w' where eq: "pool_acquire (\<lambda>_. 0) (\<lambda>w. (7, w)) ?o (ConnectionPoolImpl 2 :: unit pool) () = (l, p', w')"
    by (rule prod_cases3)
  then have "ls_valid l"
    by (auto simp: pool_acquire_def ConnectionPoolImpl_def default_origin_def Let_def)
  with acquire_evicts_oldest_idle [OF pool_reach.init eq] eq show ?thesis by simp
qed

text \<open>
  A lease is released once: releasing it removes exactly this lease and takes one
  from the count of its origin; releasing it again, or after the pool was emptied by a network
  change or by \<open>evict_all\<close>, changes nothing, whatever happened to the origin in between.
\<close>

theorem release_once:
  assumes "pool_reach ho clk n p" and "map_of (pl_leases p) (ls_id l) = Some k" and "ls_valid l"
    and "pool_release clk l success p w = (p', w')"
  shows "map_of (pl_leases p') = (map_of (pl_leases p))(ls_id l := None)
    \<and> (\<exists>e e'. map_of (pl_entries p) k = Some e \<and> map_of (pl_entries p') k = Some e'
        \<and> pe_active e = pe_active e' + 1 \<and> pe_succeeded e' + pe_failed e' = pe_succeeded e + pe_failed e + 1)
    \<and> (\<forall>k'. k' \<noteq> k \<longrightarrow> map_of (pl_entries p') k' = map_of (pl_entries p) k')
    \<and> pool_release clk l s2 p' v = (p', v)
    \<and> pool_release clk l s2 (pool_on_network_change ep net p) v = (pool_on_network_change ep net p, v)
    \<and> pool_release clk l s2 (pool_evict_all p) v = (pool_evict_all p, v)"
proof -
  from pool_reach_inv [OF assms(1)] have inv: "pool_inv p" by simp
  have "ls_id l \<noteq> 0"
    using inv map_of_SomeD [OF assms(2)] unfolding pool_inv_def pool_shape_def by fastforce
  with inv assms(2,3) obtain e where e: "map_of (pl_entries p) k = Some e" "0 < pe_active e"
    and r: "pool_release clk l success p w =
      (p\<lparr>pl_entries := AList.update k (released_entry success (fst (clk w)) e) (pl_entries p),
         pl_leases := AList.delete (ls_id l) (pl_leases p)\<rparr>, snd (clk w))"
    using release_known by metis
  have "pe_succeeded (released_entry success t e) + pe_failed (released_entry success t e) =
      pe_succeeded e + pe_failed e + 1" for t
    by (simp add: released_entry_def Let_def)
  with r e assms(4) show ?thesis
    by (auto simp: release_unknown pool_on_network_change_def pool_evict_all_def delete_conv update_conv)
qed

lemma release_once_witness:
  "\<exists>p :: unit pool. \<exists>l p' w'. ls_valid l \<and> pool_release (\<lambda>w. (7, w)) l True p () = (p', w') \<and> pl_leases p \<noteq> []
    \<and> map_of (pl_leases p') (ls_id l) = None"
proof -
  let ?o = "default_origin\<lparr>or_host := ''a''\<rparr>"
  obtain l p w where eq: "pool_acquire (\<lambda>_. 0) (\<lambda>w. (7, w)) ?o (ConnectionPoolImpl 2 :: unit pool) () = (l, p, w)"
    by (rule prod_cases3)
  have r: "pool_reach (\<lambda>_. 0) (\<lambda>w. (7, w)) 2 p"
    by (rule pool_reach.step [OF pool_reach.init, where e = "Acquire ?o" and w = "()" and w' = w]) (simp add: eq)
  from eq have l: "ls_valid l" "map_of (pl_leases p) (ls_id l) = Some (key_for ?o)"
    by (auto simp: pool_acquire_def ConnectionPoolImpl_def default_origin_def Let_def)
  obtain p' w' where rel: "pool_release (\<lambda>w. (7, w)) l True p () = (p', w')" by (rule prod.exhaust)
  have "pl_leases p \<noteq> []" using l(2) by auto
  then show ?thesis using release_once [OF r l(2,1) rel] l(1) rel by (metis fun_upd_same)
qed

end
