(* ===== verification/Ip_Filter.thy ===== *)
theory Ip_Filter
  imports Api_Types
begin

unbundle bit_operations_syntax

text \<open>
  The address filter of \<open>dns/dns_resolver.cpp\<close>: \<open>is_numeric_ip\<close>, \<open>is_safe_ipv4\<close>,
  \<open>check_embedded_ipv4\<close> and \<open>is_safe_ip\<close>, which keep the client from being steered to private
  networks. An IPv4 address is its 32-bit value in host order (after \<open>ntohl\<close>), an IPv6 address the
  list of the 16 bytes of \<open>s6_addr\<close>. The parser \<open>inet_pton\<close> is a parameter, one function per
  family.
\<close>

type_synonym in_addr = "32 word"
type_synonym in6_addr = "8 word list"

record address_parser =
  pton4 :: "string \<Rightarrow> in_addr option"
  pton6 :: "string \<Rightarrow> in6_addr option"

section \<open>IPv4\<close>

definition is_safe_ipv4 :: "in_addr \<Rightarrow> bool \<Rightarrow> bool" where
  "is_safe_ipv4 address allow_private =
     (if allow_private then True
      else
        let a = ucast (drop_bit 24 address) :: 8 word;
            b = ucast (drop_bit 16 address) :: 8 word
        in a \<noteq> 0 \<and> a \<noteq> 10 \<and> a \<noteq> 127 \<and> a < 224
           \<and> \<not> (a = 100 \<and> b \<ge> 64 \<and> b \<le> 127)
           \<and> \<not> (a = 169 \<and> b = 254)
           \<and> \<not> (a = 172 \<and> b \<ge> 16 \<and> b \<le> 31)
           \<and> \<not> (a = 192 \<and> b = 168)
           \<and> \<not> (a = 198 \<and> (b = 18 \<or> b = 19)))"

text \<open>The specification: membership in a block in CIDR notation, given by its base and its prefix length.\<close>

definition ipv4 :: "nat \<Rightarrow> nat \<Rightarrow> nat \<Rightarrow> nat \<Rightarrow> in_addr" where
  "ipv4 a b c d = word_of_nat (a * 16777216 + b * 65536 + c * 256 + d)"

definition in_cidr :: "in_addr \<Rightarrow> in_addr \<Rightarrow> nat \<Rightarrow> bool" where
  "in_cidr x base len \<longleftrightarrow> drop_bit (32 - len) x = drop_bit (32 - len) base"

definition private_blocks :: "(in_addr \<times> nat) list" where
  "private_blocks =
     [(ipv4 0 0 0 0, 8), (ipv4 10 0 0 0, 8), (ipv4 100 64 0 0, 10), (ipv4 127 0 0 0, 8),
      (ipv4 169 254 0 0, 16), (ipv4 172 16 0 0, 12), (ipv4 192 168 0 0, 16), (ipv4 198 18 0 0, 15),
      (ipv4 224 0 0 0, 4), (ipv4 240 0 0 0, 4)]"

definition private_ipv4 :: "in_addr \<Rightarrow> bool" where
  "private_ipv4 x \<longleftrightarrow> (\<exists>(base, len) \<in> set private_blocks. in_cidr x base len)"

lemma unat_drop_bit: "unat (drop_bit n x) = unat x div 2 ^ n" for x :: "32 word"
  by (metis unat_drop_bit_eq drop_bit_eq_div)

lemma unat_word32: "unat x < 4294967296" for x :: "32 word"
proof -
  have "unat x < 2 ^ LENGTH(32)" by (rule unsigned_less)
  then show ?thesis by simp
qed

lemma in_cidr_nat: "in_cidr x base len \<longleftrightarrow> unat x div 2 ^ (32 - len) = unat base div 2 ^ (32 - len)"
  by (simp only: in_cidr_def word_unat_eq_iff unat_drop_bit)

lemma first_octet: "unat (ucast (drop_bit 24 x) :: 8 word) = unat x div 16777216" for x :: "32 word"
proof -
  have "unat x div 16777216 < 256" using unat_word32 [of x] by linarith
  then show ?thesis by (simp only: unsigned_ucast_eq unat_drop_bit) (simp add: take_bit_eq_mod)
qed

lemma second_octet: "unat (ucast (drop_bit 16 x) :: 8 word) = unat x div 65536 mod 256" for x :: "32 word"
  by (simp only: unsigned_ucast_eq unat_drop_bit) (simp add: take_bit_eq_mod)

lemma unat_ipv4: "a < 256 \<Longrightarrow> b < 256 \<Longrightarrow> unat (ipv4 a b 0 0) = a * 16777216 + b * 65536"
  unfolding ipv4_def unat_of_nat by (simp del: of_nat_add of_nat_mult)

lemma octet_eq: "(x :: 8 word) = y \<longleftrightarrow> unat x = unat y"
  by (rule word_unat_eq_iff)

lemma div_range: "0 < k \<Longrightarrow> m div k = c \<longleftrightarrow> c * k \<le> m \<and> m < (c + 1) * k" for m k c :: nat
  by (metis add.commute div_nat_eqI dividend_less_times_div mult.commute mult_Suc_right plus_1_eq_Suc
      times_div_less_eq_dividend)

lemma octet_blocks:
  fixes m q r :: nat
  assumes "m = 256 * q + r" and "r < 256" and "m < 65536"
  shows "m div 64 = 401 \<longleftrightarrow> q = 100 \<and> 64 \<le> r \<and> r \<le> 127"
    "m = 43518 \<longleftrightarrow> q = 169 \<and> r = 254"
    "m div 16 = 2753 \<longleftrightarrow> q = 172 \<and> 16 \<le> r \<and> r \<le> 31"
    "m = 49320 \<longleftrightarrow> q = 192 \<and> r = 168"
    "m div 2 = 25353 \<longleftrightarrow> q = 198 \<and> (r = 18 \<or> r = 19)"
    "q < 224 \<longleftrightarrow> m div 4096 \<noteq> 14 \<and> m div 4096 \<noteq> 15"
proof -
  note ranges = div_range [of 64, simplified] div_range [of 16, simplified] div_range [of 2, simplified]
    div_range [of 4096, simplified]
  show "m div 64 = 401 \<longleftrightarrow> q = 100 \<and> 64 \<le> r \<and> r \<le> 127"
    unfolding ranges using assms by (cases "q = 100") auto
  show "m = 43518 \<longleftrightarrow> q = 169 \<and> r = 254"
    using assms by (cases "q = 169") auto
  show "m div 16 = 2753 \<longleftrightarrow> q = 172 \<and> 16 \<le> r \<and> r \<le> 31"
    unfolding ranges using assms by (cases "q = 172") auto
  show "m = 49320 \<longleftrightarrow> q = 192 \<and> r = 168"
    using assms by (cases "q = 192") auto
  show "m div 2 = 25353 \<longleftrightarrow> q = 198 \<and> (r = 18 \<or> r = 19)"
    unfolding ranges using assms by (cases "q = 198") auto
  show "q < 224 \<longleftrightarrow> m div 4096 \<noteq> 14 \<and> m div 4096 \<noteq> 15"
    unfolding ranges using assms by auto
qed

lemma is_safe_ipv4_private: "is_safe_ipv4 x False \<longleftrightarrow> \<not> private_ipv4 x"
proof -
  define m where "m = unat x div 65536"
  have div24: "unat x div 16777216 = m div 256" by (simp add: m_def div_mult2_eq [symmetric])
  have m: "m < 65536" using unat_word32 [of x] by (simp add: m_def less_mult_imp_div_less)
  have d: "unat x div 4194304 = m div 64" "unat x div 1048576 = m div 16" "unat x div 131072 = m div 2"
    "unat x div 268435456 = m div 4096"
    by (simp_all add: m_def div_mult2_eq [symmetric])
  have "private_ipv4 x \<longleftrightarrow> m div 256 = 0 \<or> m div 256 = 10 \<or> m div 64 = 401 \<or> m div 256 = 127
    \<or> m = 43518 \<or> m div 16 = 2753 \<or> m = 49320 \<or> m div 2 = 25353 \<or> m div 4096 = 14 \<or> m div 4096 = 15"
    by (simp add: private_ipv4_def private_blocks_def in_cidr_nat unat_ipv4 div24 d m_def [symmetric])
  moreover have "is_safe_ipv4 x False \<longleftrightarrow> m div 256 \<noteq> 0 \<and> m div 256 \<noteq> 10 \<and> m div 256 \<noteq> 127 \<and> m div 256 < 224
    \<and> \<not> (m div 256 = 100 \<and> m mod 256 \<ge> 64 \<and> m mod 256 \<le> 127) \<and> \<not> (m div 256 = 169 \<and> m mod 256 = 254)
    \<and> \<not> (m div 256 = 172 \<and> m mod 256 \<ge> 16 \<and> m mod 256 \<le> 31) \<and> \<not> (m div 256 = 192 \<and> m mod 256 = 168)
    \<and> \<not> (m div 256 = 198 \<and> (m mod 256 = 18 \<or> m mod 256 = 19))"
    unfolding is_safe_ipv4_def Let_def octet_eq word_le_nat_alt word_less_nat_alt first_octet second_octet
      div24 m_def [symmetric] by simp
  ultimately show ?thesis
    unfolding octet_blocks [of m "m div 256" "m mod 256", simplified, OF m] by blast
qed

text \<open>
  The IPv4 filter is exactly the complement of a list of special-purpose blocks:
  \<open>0/8\<close>, \<open>10/8\<close>, \<open>100.64/10\<close>, \<open>127/8\<close>, \<open>169.254/16\<close>, \<open>172.16/12\<close>, \<open>192.168/16\<close>,
  \<open>198.18/15\<close>, \<open>224/4\<close> and \<open>240/4\<close>. Every 32-bit address is decided as its CIDR membership says.
\<close>

theorem is_safe_ipv4_spec: "is_safe_ipv4 x False \<longleftrightarrow> \<not> private_ipv4 x"
  by (rule is_safe_ipv4_private)


section \<open>IPv6\<close>

text \<open>The four bytes at \<open>offset\<close>, copied as an \<open>in_addr\<close>: network order is most significant first.\<close>

definition embedded4 :: "in6_addr \<Rightarrow> nat \<Rightarrow> in_addr" where
  "embedded4 v6 offset =
     push_bit 24 (ucast (v6 ! offset)) OR push_bit 16 (ucast (v6 ! (offset + 1)))
     OR push_bit 8 (ucast (v6 ! (offset + 2))) OR ucast (v6 ! (offset + 3))"

definition check_embedded_ipv4 :: "in6_addr \<Rightarrow> nat \<Rightarrow> bool \<Rightarrow> bool" where
  "check_embedded_ipv4 v6 offset allow_private = is_safe_ipv4 (embedded4 v6 offset) allow_private"

definition is_v4mapped :: "in6_addr \<Rightarrow> bool" where
  "is_v4mapped v6 \<longleftrightarrow> take 12 v6 = replicate 10 0 @ [255, 255]"

definition ipv4_compatible :: "in6_addr \<Rightarrow> bool" where
  "ipv4_compatible v6 \<longleftrightarrow>
     (\<forall>i \<in> set [0..<12]. v6 ! i = 0)
     \<and> \<not> (v6 ! 12 = 0 \<and> v6 ! 13 = 0 \<and> v6 ! 14 = 0 \<and> (v6 ! 15 = 0 \<or> v6 ! 15 = 1))"

definition is_nat64 :: "in6_addr \<Rightarrow> bool" where
  "is_nat64 v6 \<longleftrightarrow> v6 ! 0 = 0 \<and> v6 ! 1 = 0x64 \<and> v6 ! 2 = 0xff \<and> v6 ! 3 = 0x9b \<and> v6 ! 4 = 0 \<and> v6 ! 5 = 0
     \<and> v6 ! 6 = 0 \<and> v6 ! 7 = 0 \<and> v6 ! 8 = 0 \<and> v6 ! 9 = 0 \<and> v6 ! 10 = 0 \<and> v6 ! 11 = 0"

definition is_local_nat64 :: "in6_addr \<Rightarrow> bool" where
  "is_local_nat64 v6 \<longleftrightarrow> v6 ! 0 = 0 \<and> v6 ! 1 = 0x64 \<and> v6 ! 2 = 0xff \<and> v6 ! 3 = 0x9b \<and> v6 ! 4 = 0 \<and> v6 ! 5 = 1"

definition is_siit :: "in6_addr \<Rightarrow> bool" where
  "is_siit v6 \<longleftrightarrow> v6 ! 0 = 0 \<and> v6 ! 1 = 0 \<and> v6 ! 2 = 0 \<and> v6 ! 3 = 0 \<and> v6 ! 4 = 0 \<and> v6 ! 5 = 0
     \<and> v6 ! 6 = 0 \<and> v6 ! 7 = 0 \<and> v6 ! 8 = 0xff \<and> v6 ! 9 = 0xff \<and> v6 ! 10 = 0 \<and> v6 ! 11 = 0"

definition is_6to4 :: "in6_addr \<Rightarrow> bool" where
  "is_6to4 v6 \<longleftrightarrow> v6 ! 0 = 0x20 \<and> v6 ! 1 = 0x02"

definition kLoopback :: in6_addr where
  "kLoopback = replicate 15 0 @ [1]"

definition is_safe_ipv6 :: "in6_addr \<Rightarrow> bool \<Rightarrow> bool" where
  "is_safe_ipv6 v6 allow_private =
     (if is_v4mapped v6 then check_embedded_ipv4 v6 12 allow_private
      else if ipv4_compatible v6 then check_embedded_ipv4 v6 12 allow_private
      else if is_nat64 v6 then check_embedded_ipv4 v6 12 allow_private
      else if \<not> allow_private \<and> is_local_nat64 v6 then False
      else if is_siit v6 then check_embedded_ipv4 v6 12 allow_private
      else if is_6to4 v6 then check_embedded_ipv4 v6 2 allow_private
      else if allow_private then True
      else if (\<forall>b \<in> set v6. b = 0) \<or> v6 = kLoopback then False
      else if (v6 ! 0 AND 0xfe) = 0xfc \<or> (v6 ! 0 = 0xfe \<and> (v6 ! 1 AND 0xc0) = 0x80) \<or> v6 ! 0 = 0xff
      then False
      else True)"

section \<open>Text addresses\<close>

text \<open>\<open>Some v6\<close> for a numeric address, with the value stored through the \<open>ipv6\<close> pointer.\<close>

definition is_numeric_ip :: "address_parser \<Rightarrow> string \<Rightarrow> bool option" where
  "is_numeric_ip ps v =
     (case pton4 ps (c_str v) of
        Some _ \<Rightarrow> Some False
      | None \<Rightarrow> (case pton6 ps (c_str v) of Some _ \<Rightarrow> Some True | None \<Rightarrow> None))"

definition is_safe_ip :: "address_parser \<Rightarrow> string \<Rightarrow> bool \<Rightarrow> bool" where
  "is_safe_ip ps v allow_private =
     (case pton4 ps (c_str v) of
        Some v4 \<Rightarrow> is_safe_ipv4 v4 allow_private
      | None \<Rightarrow>
          (case pton6 ps (c_str v) of
             None \<Rightarrow> False
           | Some v6 \<Rightarrow> is_safe_ipv6 v6 allow_private))"

text \<open>
  The specification for IPv6. A prefix is given by its leading bytes; the address embedded by a
  transition mechanism follows the prefix of the mechanism.
\<close>

definition has_prefix :: "8 word list \<Rightarrow> in6_addr \<Rightarrow> bool" where
  "has_prefix pre v6 \<longleftrightarrow> take (length pre) v6 = pre"

definition transition_prefixes :: "8 word list list" where
  "transition_prefixes =
     [replicate 10 0 @ [0xff, 0xff],
      [0, 0x64, 0xff, 0x9b] @ replicate 8 0,
      replicate 8 0 @ [0xff, 0xff, 0, 0],
      [0x20, 0x02]]"

definition forbidden_ipv6 :: "in6_addr \<Rightarrow> bool" where
  "forbidden_ipv6 v6 \<longleftrightarrow>
     v6 = replicate 16 0 \<or> v6 = kLoopback
     \<or> has_prefix [0, 0x64, 0xff, 0x9b, 0, 1] v6
     \<or> drop_bit 1 (v6 ! 0) = drop_bit 1 0xfc
     \<or> (v6 ! 0 = 0xfe \<and> drop_bit 6 (v6 ! 1) = drop_bit 6 0x80)
     \<or> v6 ! 0 = 0xff
     \<or> (\<exists>pre \<in> set transition_prefixes. has_prefix pre v6 \<and> private_ipv4 (embedded4 v6 (length pre)))
     \<or> (has_prefix (replicate 12 0) v6 \<and> v6 \<noteq> replicate 16 0 \<and> v6 \<noteq> kLoopback \<and> private_ipv4 (embedded4 v6 12))"

lemma sixteen_bytes:
  assumes "length v6 = 16"
  obtains b0 b1 b2 b3 b4 b5 b6 b7 b8 b9 b10 b11 b12 b13 b14 b15
  where "v6 = [b0, b1, b2, b3, b4, b5, b6, b7, b8, b9, b10, b11, b12, b13, b14, b15]"
  using assms by (auto simp: eval_nat_numeral length_Suc_conv)

lemma masked_eq_iff: "x AND NOT (mask n) = y AND NOT (mask n) \<longleftrightarrow> drop_bit n x = drop_bit n y"
  for x y :: "'a :: len word"
proof
  assume eq: "x AND NOT (mask n) = y AND NOT (mask n)"
  show "drop_bit n x = drop_bit n y"
  proof (rule bit_eqI)
    fix i
    from eq have "bit (x AND NOT (mask n)) (n + i) = bit (y AND NOT (mask n)) (n + i)" by simp
    then show "bit (drop_bit n x) i = bit (drop_bit n y) i"
      by (auto simp: bit_simps dest: bit_imp_le_length)
  qed
next
  assume eq: "drop_bit n x = drop_bit n y"
  show "x AND NOT (mask n) = y AND NOT (mask n)"
  proof (rule bit_eqI)
    fix i
    from eq have "bit (drop_bit n x) (i - n) = bit (drop_bit n y) (i - n)" by simp
    then show "bit (x AND NOT (mask n)) i = bit (y AND NOT (mask n)) i"
      by (auto simp: bit_simps)
  qed
qed

lemma unique_local: "b AND 0xfe = 0xfc \<longleftrightarrow> drop_bit 1 b = drop_bit 1 (0xfc :: 8 word)"
proof -
  have "NOT (mask 1) = (0xfe :: 8 word)" by (simp add: mask_eq_exp_minus_1)
  moreover have "0xfc AND 0xfe = (0xfc :: 8 word)" by simp
  ultimately show ?thesis using masked_eq_iff [of b 1 "0xfc"] by metis
qed

lemma link_local: "b AND 0xc0 = 0x80 \<longleftrightarrow> drop_bit 6 b = drop_bit 6 (0x80 :: 8 word)"
proof -
  have "NOT (mask 6) = (0xc0 :: 8 word)" by (simp add: mask_eq_exp_minus_1)
  moreover have "0x80 AND 0xc0 = (0x80 :: 8 word)" by simp
  ultimately show ?thesis using masked_eq_iff [of b 6 "0x80"] by metis
qed

lemma is_safe_ipv6_spec:
  assumes "length v6 = 16"
  shows "is_safe_ipv6 v6 False \<longleftrightarrow> \<not> forbidden_ipv6 v6"
proof -
  from assms obtain b0 b1 b2 b3 b4 b5 b6 b7 b8 b9 b10 b11 b12 b13 b14 b15
    where v6: "v6 = [b0, b1, b2, b3, b4, b5, b6, b7, b8, b9, b10, b11, b12, b13, b14, b15]"
    by (rule sixteen_bytes)
  have nth: "v6 ! 0 = b0" "v6 ! 1 = b1" "v6 ! Suc 0 = b1" by (simp_all add: v6)
  define e12 where "e12 = private_ipv4 (embedded4 v6 12)"
  define e2 where "e2 = private_ipv4 (embedded4 v6 2)"
  define ula where "ula \<longleftrightarrow> drop_bit 1 b0 = drop_bit 1 0xfc"
  define ll where "ll \<longleftrightarrow> b0 = 0xfe \<and> drop_bit 6 b1 = drop_bit 6 0x80"
  have safe: "is_safe_ipv6 v6 False =
     (if is_v4mapped v6 then \<not> e12 else if ipv4_compatible v6 then \<not> e12 else if is_nat64 v6 then \<not> e12
      else if is_local_nat64 v6 then False else if is_siit v6 then \<not> e12 else if is_6to4 v6 then \<not> e2
      else \<not> ((\<forall>b \<in> set v6. b = 0) \<or> v6 = kLoopback) \<and> \<not> (ula \<or> ll \<or> b0 = 0xff))"
    unfolding is_safe_ipv6_def check_embedded_ipv4_def is_safe_ipv4_private unique_local link_local
      e12_def [symmetric] e2_def [symmetric] by (simp add: ula_def ll_def nth)
  have forb: "forbidden_ipv6 v6 \<longleftrightarrow>
      v6 = replicate 16 0 \<or> v6 = kLoopback \<or> has_prefix [0, 0x64, 0xff, 0x9b, 0, 1] v6 \<or> ula \<or> ll \<or> b0 = 0xff
     \<or> (has_prefix (replicate 10 0 @ [0xff, 0xff]) v6 \<and> e12)
     \<or> (has_prefix ([0, 0x64, 0xff, 0x9b] @ replicate 8 0) v6 \<and> e12)
     \<or> (has_prefix (replicate 8 0 @ [0xff, 0xff, 0, 0]) v6 \<and> e12) \<or> (has_prefix [0x20, 0x02] v6 \<and> e2)
     \<or> (has_prefix (replicate 12 0) v6 \<and> v6 \<noteq> replicate 16 0 \<and> v6 \<noteq> kLoopback \<and> e12)"
    unfolding forbidden_ipv6_def transition_prefixes_def
    by (simp add: e12_def e2_def ula_def ll_def nth eval_nat_numeral)
  note bytes = is_v4mapped_def ipv4_compatible_def is_nat64_def is_local_nat64_def is_siit_def
    is_6to4_def kLoopback_def has_prefix_def eval_nat_numeral
  have prefixes: "has_prefix (replicate 10 0 @ [0xff, 0xff]) v6 = is_v4mapped v6"
    "has_prefix ([0, 0x64, 0xff, 0x9b] @ replicate 8 0) v6 = is_nat64 v6"
    "has_prefix (replicate 8 0 @ [0xff, 0xff, 0, 0]) v6 = is_siit v6"
    "has_prefix [0x20, 0x02] v6 = is_6to4 v6"
    "has_prefix [0, 0x64, 0xff, 0x9b, 0, 1] v6 = is_local_nat64 v6"
    "(has_prefix (replicate 12 0) v6 \<and> v6 \<noteq> replicate 16 0 \<and> v6 \<noteq> kLoopback \<and> e12) = (ipv4_compatible v6 \<and> e12)"
    "(\<forall>b \<in> set v6. b = 0) = (v6 = replicate 16 0)"
    by (simp add: v6 bytes, simp add: v6 bytes, simp add: v6 bytes, simp add: v6 bytes, simp add: v6 bytes,
        auto simp: v6 bytes)
  have kinds: "is_v4mapped v6 \<Longrightarrow> b0 = 0 \<and> b1 = 0 \<and> b8 = 0 \<and> b10 = 255"
    "ipv4_compatible v6 \<Longrightarrow> b0 = 0 \<and> b1 = 0 \<and> b8 = 0 \<and> b10 = 0 \<and> v6 \<noteq> replicate 16 0 \<and> v6 \<noteq> kLoopback"
    "is_siit v6 \<Longrightarrow> b0 = 0 \<and> b1 = 0 \<and> b8 = 255" "is_nat64 v6 \<Longrightarrow> b0 = 0 \<and> b1 = 100 \<and> b5 = 0"
    "is_local_nat64 v6 \<Longrightarrow> b0 = 0 \<and> b1 = 100 \<and> b5 = 1" "is_6to4 v6 \<Longrightarrow> b0 = 32"
    "v6 = replicate 16 0 \<Longrightarrow> b0 = 0 \<and> b1 = 0 \<and> b8 = 0 \<and> b10 = 0"
    "v6 = kLoopback \<Longrightarrow> b0 = 0 \<and> b1 = 0 \<and> b8 = 0 \<and> b10 = 0"
    by (simp add: v6 bytes, auto simp: v6 bytes)
  have "ula \<Longrightarrow> b0 \<noteq> 0 \<and> b0 \<noteq> 32" "ll \<Longrightarrow> b0 = 254" by (auto simp: ula_def ll_def)
  with kinds show ?thesis
    unfolding safe forb prefixes
    by (cases "is_v4mapped v6"; cases "ipv4_compatible v6"; cases "is_siit v6"; cases "is_nat64 v6";
        cases "is_local_nat64 v6"; cases "is_6to4 v6") auto
qed

text \<open>
  Property C25. The text filter against server-side request forgery: with private addresses not
  allowed, and for a parser whose IPv6 results have 16 bytes, a host string passes exactly if it
  is an IPv4 address outside the special-purpose blocks, or is no IPv4 address and is an IPv6
  address that is not unspecified, loopback, unique-local, link-local, multicast or local-use
  NAT64, and in which every IPv4 address embedded by a transition mechanism (mapped, compatible,
  NAT64, SIIT, 6to4) is outside these blocks too. Text that is no address never passes.
\<close>

theorem is_safe_ip_spec:
  assumes "\<And>s v. pton6 ps s = Some v \<Longrightarrow> length v = 16"
  shows "is_safe_ip ps host False \<longleftrightarrow>
    (\<exists>v4. pton4 ps (c_str host) = Some v4 \<and> \<not> private_ipv4 v4)
    \<or> (pton4 ps (c_str host) = None \<and> (\<exists>v6. pton6 ps (c_str host) = Some v6 \<and> \<not> forbidden_ipv6 v6))"
  using is_safe_ipv6_spec assms
  by (auto simp: is_safe_ip_def is_safe_ipv4_private split: option.split)

definition demo_parser :: address_parser where
  "demo_parser =
     \<lparr>pton4 = (\<lambda>s. if s = ''8.8.8.8'' then Some (ipv4 8 8 8 8) else if s = ''10.0.0.1'' then Some (ipv4 10 0 0 1) else None),
      pton6 = (\<lambda>s. if s = ''::ffff:10.0.0.1'' then Some (replicate 10 0 @ [0xff, 0xff, 10, 0, 0, 1])
                    else if s = ''2001:db8::1'' then Some ([0x20, 0x01, 0x0d, 0xb8] @ replicate 11 0 @ [1]) else None)\<rparr>"

lemma is_safe_ip_spec_witness:
  "is_safe_ip demo_parser ''2001:db8::1'' False \<and> \<not> is_safe_ip demo_parser ''::ffff:10.0.0.1'' False"
proof -
  have len: "length v = 16" if "pton6 demo_parser s = Some v" for s v
    using that by (auto simp: demo_parser_def split: if_splits)
  have c: "c_str ''2001:db8::1'' = ''2001:db8::1''" "c_str ''::ffff:10.0.0.1'' = ''::ffff:10.0.0.1''"
    by (simp_all add: c_str_def)
  have "\<not> forbidden_ipv6 ([0x20, 0x01, 0x0d, 0xb8] @ replicate 11 0 @ [1])"
    by code_simp
  moreover have "forbidden_ipv6 (replicate 10 0 @ [0xff, 0xff, 10, 0, 0, 1])"
  proof -
    have "embedded4 ([0, 0, 0, 0, 0, 0, 0, 0, 0, 0, 0xff, 0xff, 10, 0, 0, 1]) (Suc (Suc (Suc (Suc (Suc (Suc (Suc
        (Suc (Suc (Suc (Suc (Suc 0)))))))))))) = 0x0a000001"
      by (simp add: embedded4_def)
    moreover have "private_ipv4 0x0a000001"
      by (simp add: private_ipv4_def private_blocks_def in_cidr_def ipv4_def)
    moreover have "replicate 10 0 @ [0xff, 0xff, 10, 0, 0, 1] = [0, 0, 0, 0, 0, 0, 0, 0, 0, 0, 0xff, 0xff, 10, 0, 0, 1 :: 8 word]"
      by (simp add: eval_nat_numeral)
    ultimately show ?thesis
      by (simp add: forbidden_ipv6_def transition_prefixes_def has_prefix_def)
  qed
  moreover have "pton4 demo_parser ''2001:db8::1'' = None" "pton4 demo_parser ''::ffff:10.0.0.1'' = None"
    "pton6 demo_parser ''2001:db8::1'' = Some ([0x20, 0x01, 0x0d, 0xb8] @ replicate 11 0 @ [1])"
    "pton6 demo_parser ''::ffff:10.0.0.1'' = Some (replicate 10 0 @ [0xff, 0xff, 10, 0, 0, 1])"
    by (simp_all add: demo_parser_def)
  moreover have "is_safe_ip demo_parser host False \<longleftrightarrow>
    (\<exists>v4. pton4 demo_parser (c_str host) = Some v4 \<and> \<not> private_ipv4 v4)
    \<or> (pton4 demo_parser (c_str host) = None \<and> (\<exists>v6. pton6 demo_parser (c_str host) = Some v6 \<and> \<not> forbidden_ipv6 v6))"
    for host
    by (rule is_safe_ip_spec) (rule len)
  ultimately show ?thesis
    by (simp add: c)
qed

end
