(* ===== verification/Dns_Resolver.thy ===== *)
theory Dns_Resolver
  imports Ip_Filter Quality_Prober
begin

text \<open>
  \<open>dns/dns_resolver.cpp\<close>: the resolver with its cache, health table and backup addresses. The
  operating system is a parameter: the address parser and printer, \<open>getaddrinfo\<close>, the clock, the
  hash orders, and what becomes of a lookup thread until the caller's deadline. A lookup runs in a
  detached thread that decrements \<open>active_lookups\<close> when it ends; whether that has happened when
  the caller goes on is part of the thread's fate, and a thread that ends later is the separate
  step \<open>lookup_thread_exit\<close>. C++ \<open>int\<close>s are HOL integers.
\<close>

section \<open>State\<close>

datatype resolution_source = kHttpDns | kLocalDns | kBackup | kLiteral

record ip_result =
  ip_text :: string
  ip_rtt_ms :: int
  ip_loss_rate :: int
  ip_score :: int
  ip_ipv6 :: bool
  ip_source :: resolution_source

definition default_ip_result :: ip_result where
  "default_ip_result = \<lparr>ip_text = [], ip_rtt_ms = -1, ip_loss_rate = -1, ip_score = 0, ip_ipv6 = False,
     ip_source = kLocalDns\<rparr>"

record resolve_result =
  rr_addresses :: "ip_result list"
  rr_error :: int
  rr_elapsed_ms :: int
  rr_cache_hit :: bool

definition default_resolve_result :: resolve_result where
  "default_resolve_result = \<lparr>rr_addresses = [], rr_error = ASTERNET_OK, rr_elapsed_ms = 0, rr_cache_hit = False\<rparr>"

record cache_entry =
  ce_addresses :: "ip_result list"
  ce_expires_at_ms :: int
  ce_stale_until_ms :: int

record dns_health =
  dh_rtt_ms :: int
  dh_failures :: int
  dh_successes :: int
  dh_updated_at_ms :: int

definition default_health :: dns_health where
  "default_health = \<lparr>dh_rtt_ms = -1, dh_failures = 0, dh_successes = 0, dh_updated_at_ms = 0\<rparr>"

record dns_config =
  dc_ttl_ms :: int
  dc_stale_ttl_ms :: int
  dc_max_cache_entries :: nat
  dc_max_health_entries :: nat
  dc_max_active_lookups :: nat
  dc_default_lookup_timeout_ms :: int
  dc_allow_private :: bool

definition default_dns_config :: dns_config where
  "default_dns_config =
     \<lparr>dc_ttl_ms = 300000, dc_stale_ttl_ms = 60000, dc_max_cache_entries = 128, dc_max_health_entries = 512,
      dc_max_active_lookups = 4, dc_default_lookup_timeout_ms = 3000, dc_allow_private = False\<rparr>"

text \<open>An HttpDNS provider returns addresses, or throws (\<open>None\<close>).\<close>

type_synonym 'w http_dns = "string \<Rightarrow> 'w \<Rightarrow> ip_result list option \<times> 'w"

record 'w resolver =
  rs_config :: dns_config
  rs_httpdns :: "'w http_dns option"
  rs_cache :: "(string, cache_entry) table"
  rs_health :: "(string, dns_health) table"
  rs_backup :: "(string, ip_result list) table"
  rs_quality :: quality_snapshot
  rs_epoch :: nat
  rs_active :: nat

definition SmartDnsResolverImpl :: "dns_config \<Rightarrow> 'w http_dns option \<Rightarrow> 'w resolver" where
  "SmartDnsResolverImpl cfg httpdns =
     \<lparr>rs_config = cfg, rs_httpdns = httpdns, rs_cache = [], rs_health = [], rs_backup = [],
      rs_quality = default_snapshot, rs_epoch = 0, rs_active = 0\<rparr>"

section \<open>The operating system\<close>

datatype addrinfo = AF_INET in_addr | AF_INET6 in6_addr | AF_OTHER int

text \<open>
  A lookup thread: it cannot be created, or it misses the deadline, or it is done in time; then the
  flag says whether it has already left the count of active lookups.
\<close>

datatype thread_fate = Spawn_Failed | Missed_Deadline | Done_In_Time bool

record 'w dns_env =
  de_parser :: address_parser
  de_ntop4 :: "in_addr \<Rightarrow> string option"
  de_ntop6 :: "in6_addr \<Rightarrow> string option"
  de_getaddrinfo :: "string \<Rightarrow> 'w \<Rightarrow> addrinfo list option \<times> 'w"
  de_clock :: "'w clock"
  de_thread :: "int \<Rightarrow> 'w \<Rightarrow> thread_fate \<times> 'w"
  de_cache_order :: "(string, cache_entry) hash_order"
  de_health_order :: "(string, dns_health) hash_order"

section \<open>Local resolution\<close>

definition item_text :: "'w dns_env \<Rightarrow> addrinfo \<Rightarrow> string option" where
  "item_text env item =
     (case item of AF_INET a \<Rightarrow> de_ntop4 env a | AF_INET6 a \<Rightarrow> de_ntop6 env a | AF_OTHER _ \<Rightarrow> None)"

definition local_result :: "string \<Rightarrow> bool \<Rightarrow> ip_result" where
  "local_result text ipv6 = default_ip_result\<lparr>ip_text := text, ip_ipv6 := ipv6, ip_source := kLocalDns\<rparr>"

text \<open>The value \<open>is_safe_ip\<close> stores through its \<open>ipv6\<close> pointer is the family it parsed.\<close>

definition ip_family_v6 :: "'w dns_env \<Rightarrow> string \<Rightarrow> bool" where
  "ip_family_v6 env text = (is_numeric_ip (de_parser env) text = Some True)"

fun collect_local :: "'w dns_env \<Rightarrow> bool \<Rightarrow> addrinfo list \<Rightarrow> string list \<Rightarrow> ip_result list" where
  "collect_local env allow [] seen = []"
| "collect_local env allow (item # rest) seen =
     (case item_text env item of
        None \<Rightarrow> collect_local env allow rest seen
      | Some text \<Rightarrow>
          if \<not> is_safe_ip (de_parser env) text allow \<or> text \<in> set seen
          then collect_local env allow rest seen
          else local_result text (ip_family_v6 env text) # collect_local env allow rest (text # seen))"

definition resolve_local :: "'w dns_env \<Rightarrow> string \<Rightarrow> bool \<Rightarrow> 'w \<Rightarrow> ip_result list \<times> 'w" where
  "resolve_local env host allow w =
     (let (raw, w) = de_getaddrinfo env (c_str host) w in
      case raw of None \<Rightarrow> ([], w) | Some items \<Rightarrow> (collect_local env allow items [], w))"

section \<open>Keys\<close>

definition cache_key :: "string \<Rightarrow> nat \<Rightarrow> string" where
  "cache_key host epoch = host @ newline # dec_digits epoch"

definition health_key :: "string \<Rightarrow> string \<Rightarrow> nat \<Rightarrow> string" where
  "health_key host ip epoch = cache_key host epoch @ newline # ip"

lemma cache_key_inject: "cache_key h e = cache_key h' e' \<longleftrightarrow> h = h' \<and> e = e'"
  by (simp add: cache_key_def append_sep_last dec_digits_inject)

lemma health_key_inject:
  "newline \<notin> set ip \<Longrightarrow> newline \<notin> set ip' \<Longrightarrow>
     health_key h ip e = health_key h' ip' e' \<longleftrightarrow> h = h' \<and> ip = ip' \<and> e = e'"
  by (auto simp: health_key_def cache_key_def append_sep_last2 dec_digits_inject)

interpretation dns_cache_key: table_key "\<lambda>(h, e). cache_key h e" "\<lambda>_. True"
  by unfold_locales (auto simp: cache_key_inject)

interpretation dns_health_key: table_key "\<lambda>(h, ip, e). health_key h ip e" "\<lambda>(h, ip, e). newline \<notin> set ip"
  by unfold_locales (auto simp: health_key_inject)

section \<open>A bounded lookup\<close>

text \<open>
  \<open>run_bounded_lookup\<close>: the result is the addresses the job delivered, or \<open>None\<close>; the flag is the
  new value of \<open>lookup_timed_out\<close>.
\<close>

definition run_bounded_lookup ::
  "'w dns_env \<Rightarrow> int \<Rightarrow> ('w \<Rightarrow> ip_result list option \<times> 'w) \<Rightarrow> bool \<Rightarrow> 'w resolver \<Rightarrow> 'w
     \<Rightarrow> ip_result list option \<times> bool \<times> 'w resolver \<times> 'w" where
  "run_bounded_lookup env deadline lookup timed_out rs w =
     (if rs_active rs \<ge> dc_max_active_lookups (rs_config rs) then (None, True, rs, w)
      else
        let (fate, w) = de_thread env deadline w in
        case fate of
          Spawn_Failed \<Rightarrow> (None, timed_out, rs, w)
        | Missed_Deadline \<Rightarrow> (None, True, rs\<lparr>rs_active := rs_active rs + 1\<rparr>, w)
        | Done_In_Time exited \<Rightarrow>
            let (resolved, w) = lookup w;
                addresses = (case resolved of None \<Rightarrow> [] | Some a \<Rightarrow> a)
            in (Some addresses, timed_out,
                (if exited then rs else rs\<lparr>rs_active := rs_active rs + 1\<rparr>), w))"

definition lookup_thread_exit :: "'w resolver \<Rightarrow> 'w resolver" where
  "lookup_thread_exit rs = rs\<lparr>rs_active := rs_active rs - 1\<rparr>"

section \<open>Filtering and scoring\<close>

definition keep_safe :: "'w dns_env \<Rightarrow> bool \<Rightarrow> (ip_result \<Rightarrow> ip_result) \<Rightarrow> ip_result list \<Rightarrow> ip_result list" where
  "keep_safe env allow mark xs =
     map (\<lambda>item. mark (item\<lparr>ip_ipv6 := ip_family_v6 env (ip_text item)\<rparr>))
       (filter (\<lambda>item. is_safe_ip (de_parser env) (ip_text item) allow) xs)"

definition mark_httpdns :: "ip_result \<Rightarrow> ip_result" where
  "mark_httpdns item = item\<lparr>ip_source := kHttpDns\<rparr>"

definition mark_other_backup :: "ip_result \<Rightarrow> ip_result" where
  "mark_other_backup item =
     (if ip_source item \<noteq> kHttpDns \<and> ip_source item \<noteq> kLocalDns then item\<lparr>ip_source := kBackup\<rparr> else item)"

fun quality_penalty :: "network_quality \<Rightarrow> int \<Rightarrow> int" where
  "quality_penalty kGood rtt = 0"
| "quality_penalty kDegraded rtt = (if rtt < 0 then 300 else 100)"
| "quality_penalty kBad rtt = (if rtt < 0 then 700 else 250)"
| "quality_penalty kOffline rtt = (if rtt < 0 then 1000 else 500)"
| "quality_penalty kUnknown rtt = 50"

definition health_rtt :: "dns_health option \<Rightarrow> ip_result \<Rightarrow> int" where
  "health_rtt h item = (case h of Some e \<Rightarrow> if dh_rtt_ms e \<ge> 0 then dh_rtt_ms e else ip_rtt_ms item | None \<Rightarrow> ip_rtt_ms item)"

definition health_failures :: "dns_health option \<Rightarrow> int" where
  "health_failures h = (case h of Some e \<Rightarrow> dh_failures e | None \<Rightarrow> 0)"

definition health_successes :: "dns_health option \<Rightarrow> int" where
  "health_successes h = (case h of Some e \<Rightarrow> dh_successes e | None \<Rightarrow> 0)"

definition address_score :: "network_quality \<Rightarrow> int \<Rightarrow> int \<Rightarrow> int \<Rightarrow> int \<Rightarrow> int" where
  "address_score quality rtt loss fails successes =
     (let loss = (if loss < 0 then 0 else loss);
          success_bonus = (if quality = kGood then 0 else min 500 (successes * 100));
          rtt_penalty = (if rtt < 0 then 500 else min 8000 (rtt * 2))
      in 10000 - rtt_penalty - min 2000 (loss * 2) - min 4000 (fails * 500)
         - quality_penalty quality rtt + success_bonus)"

definition score_item :: "string \<Rightarrow> nat \<Rightarrow> 'w resolver \<Rightarrow> ip_result \<Rightarrow> ip_result" where
  "score_item host epoch rs item =
     (let h = map_of (rs_health rs) (health_key host (ip_text item) epoch);
          rtt = health_rtt h item
      in item\<lparr>ip_rtt_ms := rtt,
              ip_score := address_score (q_quality (rs_quality rs)) rtt (ip_loss_rate item)
                (health_failures h) (health_successes h)\<rparr>)"

text \<open>The comparison of the stable sort: higher scores first, then the text of the address.\<close>

definition better :: "ip_result \<Rightarrow> ip_result \<Rightarrow> bool" where
  "better left right =
     (if ip_score left \<noteq> ip_score right then ip_score left > ip_score right else ip_text left < ip_text right)"

fun insert_sorted :: "ip_result \<Rightarrow> ip_result list \<Rightarrow> ip_result list" where
  "insert_sorted x [] = [x]"
| "insert_sorted x (y # ys) = (if better y x then y # insert_sorted x ys else x # y # ys)"

definition stable_sort_results :: "ip_result list \<Rightarrow> ip_result list" where
  "stable_sort_results xs = foldr insert_sorted xs []"

section \<open>resolve_with_metadata\<close>

definition resolve_literal :: "'w dns_env \<Rightarrow> 'w resolver \<Rightarrow> string \<Rightarrow> bool \<Rightarrow> int \<Rightarrow> 'w \<Rightarrow> resolve_result \<times> 'w" where
  "resolve_literal env rs host v6 started w =
     (let (now, w) = de_clock env w in
      if \<not> is_safe_ip (de_parser env) host (dc_allow_private (rs_config rs))
      then (default_resolve_result\<lparr>rr_error := ASTERNET_ERR_DNS, rr_elapsed_ms := now - started\<rparr>, w)
      else (default_resolve_result
              \<lparr>rr_addresses := [default_ip_result\<lparr>ip_text := host, ip_ipv6 := v6, ip_score := 10000, ip_source := kLiteral\<rparr>],
               rr_elapsed_ms := now - started\<rparr>, w))"

text \<open>What the first critical section reads from the cache: fresh addresses, and a stale fallback.\<close>

definition probe_cache ::
  "'w dns_env \<Rightarrow> string \<Rightarrow> 'w resolver \<Rightarrow> 'w \<Rightarrow> ip_result list \<times> bool \<times> ip_result list option \<times> 'w" where
  "probe_cache env key rs w =
     (case map_of (rs_cache rs) key of
        None \<Rightarrow> ([], False, None, w)
      | Some c \<Rightarrow>
          let (now, w) = de_clock env w;
              stale = (if now \<le> ce_stale_until_ms c then Some (ce_addresses c) else None)
          in if now \<le> ce_expires_at_ms c then (ce_addresses c, True, stale, w) else ([], False, stale, w))"

definition httpdns_stage ::
  "'w dns_env \<Rightarrow> string \<Rightarrow> int \<Rightarrow> ip_result list \<Rightarrow> bool \<Rightarrow> 'w resolver \<Rightarrow> 'w
     \<Rightarrow> ip_result list \<times> bool \<times> 'w resolver \<times> 'w" where
  "httpdns_stage env host deadline addresses timed_out rs w =
     (case rs_httpdns rs of
        None \<Rightarrow> (addresses, timed_out, rs, w)
      | Some provider \<Rightarrow>
          if addresses \<noteq> [] then (addresses, timed_out, rs, w)
          else
            let (now, w) = de_clock env w in
            if \<not> now < deadline \<or> q_quality (rs_quality rs) = kOffline then (addresses, timed_out, rs, w)
            else
              let (found, timed_out, rs, w) = run_bounded_lookup env deadline (provider host) timed_out rs w;
                  addresses = (case found of None \<Rightarrow> addresses | Some a \<Rightarrow> a)
              in (keep_safe env (dc_allow_private (rs_config rs)) mark_httpdns addresses, timed_out, rs, w))"

definition local_stage ::
  "'w dns_env \<Rightarrow> string \<Rightarrow> int \<Rightarrow> ip_result list \<Rightarrow> bool \<Rightarrow> 'w resolver \<Rightarrow> 'w
     \<Rightarrow> ip_result list \<times> bool \<times> 'w resolver \<times> 'w" where
  "local_stage env host deadline addresses timed_out rs w =
     (if addresses \<noteq> [] then (addresses, timed_out, rs, w)
      else
        let (now, w) = de_clock env w in
        if \<not> now < deadline \<or> q_quality (rs_quality rs) = kOffline then (addresses, timed_out, rs, w)
        else
          let (found, timed_out, rs, w) = run_bounded_lookup env deadline
                (\<lambda>w. let (a, w) = resolve_local env host (dc_allow_private (rs_config rs)) w in (Some a, w))
                timed_out rs w
          in (case found of None \<Rightarrow> addresses | Some a \<Rightarrow> a, timed_out, rs, w))"

text \<open>The last critical section: score, sort and store under a fresh time to live.\<close>

definition store_cache :: "'w dns_env \<Rightarrow> string \<Rightarrow> ip_result list \<Rightarrow> int \<Rightarrow> 'w resolver \<Rightarrow> 'w resolver" where
  "store_cache env key addresses now rs =
     (if addresses = [] then rs
      else
        let cfg = rs_config rs;
            cache = make_room (begin_key (de_cache_order env)) (dc_max_cache_entries cfg) key (rs_cache rs);
            entry = \<lparr>ce_addresses = addresses, ce_expires_at_ms = now + dc_ttl_ms cfg,
                     ce_stale_until_ms = now + dc_ttl_ms cfg + dc_stale_ttl_ms cfg\<rparr>
        in rs\<lparr>rs_cache := AList.update key entry cache\<rparr>)"

definition resolve_name ::
  "'w dns_env \<Rightarrow> 'w resolver \<Rightarrow> string \<Rightarrow> nat \<Rightarrow> int \<Rightarrow> int \<Rightarrow> 'w \<Rightarrow> resolve_result \<times> 'w resolver \<times> 'w" where
  "resolve_name env rs host epoch timeout started w =
     (let key = cache_key host epoch;
          (addresses, hit, stale, w) = probe_cache env key rs w;
          backup = (case map_of (rs_backup rs) host of None \<Rightarrow> [] | Some b \<Rightarrow> b);
          effective = (if timeout > 0 then timeout else dc_default_lookup_timeout_ms (rs_config rs));
          deadline = started + max 1 effective;
          (addresses, timed_out, rs, w) = httpdns_stage env host deadline addresses False rs w;
          (addresses, timed_out, rs, w) = local_stage env host deadline addresses timed_out rs w;
          addresses = (if addresses = [] then backup else addresses);
          (addresses, hit) = (if addresses = [] then (case stale of None \<Rightarrow> (addresses, hit) | Some a \<Rightarrow> (a, True))
                              else (addresses, hit));
          addresses = keep_safe env (dc_allow_private (rs_config rs)) mark_other_backup addresses;
          (now, w) = de_clock env w;
          addresses = stable_sort_results (map (score_item host epoch rs) addresses);
          rs = store_cache env key addresses now rs;
          (finished, w) = de_clock env w
      in (\<lparr>rr_addresses = addresses,
           rr_error = (if addresses = [] then (if timed_out then ASTERNET_ERR_TIMEOUT else ASTERNET_ERR_DNS) else ASTERNET_OK),
           rr_elapsed_ms = finished - started, rr_cache_hit = hit\<rparr>, rs, w))"

definition resolve_with_metadata ::
  "'w dns_env \<Rightarrow> 'w resolver \<Rightarrow> string \<Rightarrow> nat \<Rightarrow> int \<Rightarrow> 'w \<Rightarrow> resolve_result \<times> 'w resolver \<times> 'w" where
  "resolve_with_metadata env rs host epoch timeout w =
     (let (started, w) = de_clock env w in
      if host = [] then (default_resolve_result\<lparr>rr_error := ASTERNET_ERR_INVALID_ARGUMENT\<rparr>, rs, w)
      else case is_numeric_ip (de_parser env) host of
        Some v6 \<Rightarrow> let (result, w) = resolve_literal env rs host v6 started w in (result, rs, w)
      | None \<Rightarrow> resolve_name env rs host epoch timeout started w)"

definition dns_resolve :: "'w dns_env \<Rightarrow> 'w resolver \<Rightarrow> string \<Rightarrow> 'w \<Rightarrow> ip_result list \<times> 'w resolver \<times> 'w" where
  "dns_resolve env rs host w =
     (let (result, rs, w) = resolve_with_metadata env rs host 0 0 w in (rr_addresses result, rs, w))"

definition dns_prefetch :: "'w dns_env \<Rightarrow> 'w resolver \<Rightarrow> string \<Rightarrow> nat \<Rightarrow> 'w \<Rightarrow> int \<times> 'w resolver \<times> 'w" where
  "dns_prefetch env rs host epoch w =
     (let (result, rs, w) = resolve_with_metadata env rs host epoch 0 w in (rr_error result, rs, w))"

section \<open>The other operations\<close>

definition has_key_prefix :: "string \<Rightarrow> string \<times> 'v \<Rightarrow> bool" where
  "has_key_prefix pre e \<longleftrightarrow> take (length pre) (fst e) = pre"

definition dns_invalidate :: "string \<Rightarrow> 'w resolver \<Rightarrow> 'w resolver" where
  "dns_invalidate host rs =
     (if host = [] then rs\<lparr>rs_cache := []\<rparr>
      else rs\<lparr>rs_cache := filter (\<lambda>e. \<not> has_key_prefix (host @ [newline]) e) (rs_cache rs)\<rparr>)"

definition update_health :: "bool \<Rightarrow> int \<Rightarrow> int \<Rightarrow> dns_health \<Rightarrow> dns_health" where
  "update_health success rtt now h =
     (let h = h\<lparr>dh_updated_at_ms := now\<rparr> in
      if success then
        let h = h\<lparr>dh_successes := dh_successes h + 1, dh_failures := 0\<rparr> in
        if rtt \<ge> 0
        then h\<lparr>dh_rtt_ms := (if dh_rtt_ms h < 0 then rtt else (dh_rtt_ms h * 7 + rtt * 3) div 10)\<rparr>
        else h
      else h\<lparr>dh_failures := dh_failures h + 1\<rparr>)"

definition report_connection_result ::
  "'w dns_env \<Rightarrow> string \<Rightarrow> string \<Rightarrow> nat \<Rightarrow> bool \<Rightarrow> int \<Rightarrow> 'w resolver \<Rightarrow> 'w \<Rightarrow> 'w resolver \<times> 'w" where
  "report_connection_result env host ip epoch success rtt rs w =
     (if host = [] \<or> ip = [] then (rs, w)
      else
        let key = health_key host ip epoch;
            table = make_room (oldest_key (de_health_order env) dh_updated_at_ms (\<lambda>_. True))
              (dc_max_health_entries (rs_config rs)) key (rs_health rs);
            h = (case map_of table key of None \<Rightarrow> default_health | Some h \<Rightarrow> h);
            (now, w) = de_clock env w
        in (rs\<lparr>rs_health := AList.update key (update_health success rtt now h) table\<rparr>, w))"

definition dns_on_quality_change :: "quality_snapshot \<Rightarrow> 'w resolver \<Rightarrow> 'w resolver" where
  "dns_on_quality_change q rs = rs\<lparr>rs_quality := q\<rparr>"

definition dns_on_network_change :: "nat \<Rightarrow> 'w resolver \<Rightarrow> 'w resolver" where
  "dns_on_network_change epoch rs = rs\<lparr>rs_epoch := epoch, rs_health := []\<rparr>"

definition dns_dump :: "'w resolver \<Rightarrow> string" where
  "dns_dump rs =
     ''{\"entries\":'' @ dec_digits (length (rs_cache rs)) @ '',\"health\":'' @ dec_digits (length (rs_health rs))
     @ '',\"network_epoch\":'' @ dec_digits (rs_epoch rs) @ ''}''"

definition set_httpdns_lookup :: "'w http_dns option \<Rightarrow> 'w resolver \<Rightarrow> 'w resolver" where
  "set_httpdns_lookup p rs = rs\<lparr>rs_httpdns := p, rs_cache := []\<rparr>"

definition set_backup_ips :: "'w dns_env \<Rightarrow> string \<Rightarrow> ip_result list \<Rightarrow> 'w resolver \<Rightarrow> 'w resolver" where
  "set_backup_ips env host addresses rs =
     (let safe = map (\<lambda>item. item\<lparr>ip_ipv6 := ip_family_v6 env (ip_text item), ip_source := kBackup\<rparr>)
            (filter (\<lambda>item. is_numeric_ip (de_parser env) (ip_text item) \<noteq> None
                       \<and> is_safe_ip (de_parser env) (ip_text item) (dc_allow_private (rs_config rs))) addresses)
      in rs\<lparr>rs_backup := (if safe = [] then AList.delete host (rs_backup rs)
                          else AList.update host safe (rs_backup rs)),
            rs_cache := filter (\<lambda>e. \<not> has_key_prefix (host @ [newline]) e) (rs_cache rs)\<rparr>)"

section \<open>Sorting\<close>

lemma better_asym: "better a b \<Longrightarrow> \<not> better b a"
  by (auto simp: better_def split: if_splits)

lemma better_trans: "\<not> better a b \<Longrightarrow> \<not> better b c \<Longrightarrow> \<not> better a c"
  by (auto simp: better_def split: if_splits)

lemma set_insert_sorted [simp]: "set (insert_sorted x xs) = insert x (set xs)"
  by (induction xs) auto

lemma mset_insert_sorted [simp]: "mset (insert_sorted x xs) = add_mset x (mset xs)"
  by (induction xs) auto

lemma sorted_insert_sorted:
  "sorted_wrt (\<lambda>a b. \<not> better b a) xs \<Longrightarrow> sorted_wrt (\<lambda>a b. \<not> better b a) (insert_sorted x xs)"
  by (induction xs) (auto dest: better_asym better_trans)

lemma set_stable_sort [simp]: "set (stable_sort_results xs) = set xs"
  by (induction xs) (simp_all add: stable_sort_results_def)

lemma mset_stable_sort [simp]: "mset (stable_sort_results xs) = mset xs"
  by (induction xs) (simp_all add: stable_sort_results_def)

lemma sorted_stable_sort: "sorted_wrt (\<lambda>a b. \<not> better b a) (stable_sort_results xs)"
  by (induction xs) (simp_all add: stable_sort_results_def sorted_insert_sorted)

lemma stable_sort_Nil [simp]: "stable_sort_results xs = [] \<longleftrightarrow> xs = []"
  by (metis set_empty set_stable_sort)

text \<open>Equal elements keep their order: the sort is stable.\<close>

lemma insert_sorted_stable:
  "\<not> better a x \<Longrightarrow> \<not> better x a \<Longrightarrow> sorted_wrt (\<lambda>a b. \<not> better b a) xs \<Longrightarrow>
     filter (\<lambda>y. \<not> better a y \<and> \<not> better y a) (insert_sorted x xs) = x # filter (\<lambda>y. \<not> better a y \<and> \<not> better y a) xs"
  by (induction xs) (auto dest: better_trans better_asym)

section \<open>Safety of the addresses\<close>

abbreviation safe_results :: "'w dns_env \<Rightarrow> bool \<Rightarrow> ip_result list \<Rightarrow> bool" where
  "safe_results env allow xs \<equiv> list_all (\<lambda>a. is_safe_ip (de_parser env) (ip_text a) allow) xs"

lemma keep_safe_safe [simp]:
  "(\<And>x. ip_text (mark x) = ip_text x) \<Longrightarrow> safe_results env allow (keep_safe env allow mark xs)"
  by (auto simp: keep_safe_def list_all_iff)

lemma mark_text [simp]: "ip_text (mark_httpdns x) = ip_text x" "ip_text (mark_other_backup x) = ip_text x"
  by (simp_all add: mark_httpdns_def mark_other_backup_def)

lemma score_item_text [simp]: "ip_text (score_item host epoch rs x) = ip_text x"
  by (simp add: score_item_def Let_def)

lemma safe_sorted: "safe_results env allow (stable_sort_results (map (score_item host epoch rs) xs)) = safe_results env allow xs"
  by (simp add: list_all_iff)

text \<open>A lookup stage changes nothing but the number of active lookups, which stays in its bound.\<close>

definition lookups_only :: "'w resolver \<Rightarrow> 'w resolver \<Rightarrow> bool" where
  "lookups_only rs rs' \<longleftrightarrow> rs' = rs\<lparr>rs_active := rs_active rs'\<rparr> \<and> rs_active rs \<le> rs_active rs'
     \<and> rs_active rs' \<le> max (rs_active rs) (dc_max_active_lookups (rs_config rs))"

lemma lookups_only_refl [simp]: "lookups_only rs rs"
  by (simp add: lookups_only_def)

lemma lookups_only_fields:
  assumes "lookups_only rs rs'"
  shows "rs_config rs' = rs_config rs" "rs_httpdns rs' = rs_httpdns rs" "rs_cache rs' = rs_cache rs"
    "rs_health rs' = rs_health rs" "rs_backup rs' = rs_backup rs" "rs_quality rs' = rs_quality rs"
proof -
  from assms obtain n where "rs' = rs\<lparr>rs_active := n\<rparr>" unfolding lookups_only_def by blast
  then show "rs_config rs' = rs_config rs" "rs_httpdns rs' = rs_httpdns rs" "rs_cache rs' = rs_cache rs"
    "rs_health rs' = rs_health rs" "rs_backup rs' = rs_backup rs" "rs_quality rs' = rs_quality rs" by simp_all
qed

lemma lookups_only_trans:
  assumes "lookups_only a b" and "lookups_only b c"
  shows "lookups_only a c"
proof -
  from assms obtain n where "b = a\<lparr>rs_active := n\<rparr>" unfolding lookups_only_def by blast
  with assms show ?thesis unfolding lookups_only_def by auto
qed

lemma bounded_lookup_frame:
  "run_bounded_lookup env d l t rs w = (a, t', rs', w') \<Longrightarrow> lookups_only rs rs'"
  by (auto simp: run_bounded_lookup_def Let_def lookups_only_def split: if_splits thread_fate.splits prod.splits)

lemma httpdns_stage_frame: "httpdns_stage env host d addrs t rs w = (a, t', rs', w') \<Longrightarrow> lookups_only rs rs'"
  by (auto simp: httpdns_stage_def Let_def split: option.splits if_splits prod.splits dest: bounded_lookup_frame)

lemma local_stage_frame: "local_stage env host d addrs t rs w = (a, t', rs', w') \<Longrightarrow> lookups_only rs rs'"
  by (auto simp: local_stage_def Let_def split: option.splits if_splits prod.splits dest: bounded_lookup_frame)

text \<open>
  A resolution by name in one piece: some candidates pass the filter, are scored, sorted and
  stored; the state changes in the cache and in the count of lookups only.
\<close>

lemma resolve_name_result:
  assumes "resolve_name env rs host epoch timeout started w = (r, rs', w')"
  obtains candidates n now where
    "rr_addresses r = stable_sort_results (map (score_item host epoch rs)
       (keep_safe env (dc_allow_private (rs_config rs)) mark_other_backup candidates))"
    and "rr_error r = ASTERNET_OK \<longleftrightarrow> rr_addresses r \<noteq> []"
    and "rr_error r \<in> {ASTERNET_OK, ASTERNET_ERR_TIMEOUT, ASTERNET_ERR_DNS}"
    and "rs' = store_cache env (cache_key host epoch) (rr_addresses r) now (rs\<lparr>rs_active := n\<rparr>)"
    and "rs_active rs \<le> n" and "n \<le> max (rs_active rs) (dc_max_active_lookups (rs_config rs))"
proof -
  obtain a1 hit stale w1 where p: "probe_cache env (cache_key host epoch) rs w = (a1, hit, stale, w1)"
    by (rule prod_cases4)
  let ?d = "started + max 1 (if timeout > 0 then timeout else dc_default_lookup_timeout_ms (rs_config rs))"
  obtain a2 t2 rs2 w2 where h: "httpdns_stage env host ?d a1 False rs w1 = (a2, t2, rs2, w2)"
    by (rule prod_cases4)
  obtain a3 t3 rs3 w3 where l: "local_stage env host ?d a2 t2 rs2 w2 = (a3, t3, rs3, w3)"
    by (rule prod_cases4)
  define n where "n = rs_active rs3"
  have n: "rs3 = rs\<lparr>rs_active := n\<rparr>" "rs_active rs \<le> n"
    "n \<le> max (rs_active rs) (dc_max_active_lookups (rs_config rs))"
    using lookups_only_trans [OF httpdns_stage_frame [OF h] local_stage_frame [OF l]]
    by (simp_all only: lookups_only_def n_def)
  define a4 where "a4 = (if a3 = [] then (case map_of (rs_backup rs) host of None \<Rightarrow> [] | Some b \<Rightarrow> b) else a3)"
  define a5 where "a5 = (if a4 = [] then (case stale of None \<Rightarrow> a4 | Some a \<Rightarrow> a) else a4)"
  define hit' where "hit' = (if a4 = [] then (case stale of None \<Rightarrow> hit | Some a \<Rightarrow> True) else hit)"
  have pair: "(if a4 = [] then (case stale of None \<Rightarrow> (a4, hit) | Some a \<Rightarrow> (a, True)) else (a4, hit)) = (a5, hit')"
    by (simp add: a5_def hit'_def split: option.split)
  have score: "score_item host epoch (rs\<lparr>rs_active := n\<rparr>) = score_item host epoch rs"
    by (simp add: score_item_def fun_eq_iff)
  obtain now w4 where c: "de_clock env w3 = (now, w4)" by (rule prod.exhaust)
  obtain fin w5 where f: "de_clock env w4 = (fin, w5)" by (rule prod.exhaust)
  define out where "out = stable_sort_results (map (score_item host epoch rs)
       (keep_safe env (dc_allow_private (rs_config rs)) mark_other_backup a5))"
  have "r = \<lparr>rr_addresses = out,
           rr_error = (if out = [] then (if t3 then ASTERNET_ERR_TIMEOUT else ASTERNET_ERR_DNS) else ASTERNET_OK),
           rr_elapsed_ms = fin - started, rr_cache_hit = hit'\<rparr>"
    and "rs' = store_cache env (cache_key host epoch) out now (rs\<lparr>rs_active := n\<rparr>)"
    using assms
    unfolding resolve_name_def Let_def p h l prod.case a4_def [symmetric] pair n(1) c f
    by (simp_all add: score out_def f c)
  with that n out_def show ?thesis by simp
qed

lemma resolve_cases:
  assumes "resolve_with_metadata env rs host epoch timeout w = (r, rs', w')"
  obtains (empty) "host = []" "rr_addresses r = []" "rr_error r = ASTERNET_ERR_INVALID_ARGUMENT" "rs' = rs"
  | (unsafe) v6 where "host \<noteq> []" "is_numeric_ip (de_parser env) host = Some v6"
      "\<not> is_safe_ip (de_parser env) host (dc_allow_private (rs_config rs))"
      "rr_addresses r = []" "rr_error r = ASTERNET_ERR_DNS" "rs' = rs"
  | (literal) v6 where "host \<noteq> []" "is_numeric_ip (de_parser env) host = Some v6"
      "is_safe_ip (de_parser env) host (dc_allow_private (rs_config rs))"
      "rr_addresses r = [default_ip_result\<lparr>ip_text := host, ip_ipv6 := v6, ip_score := 10000, ip_source := kLiteral\<rparr>]"
      "rr_error r = ASTERNET_OK" "rs' = rs"
  | (name) started w1 where "host \<noteq> []" "is_numeric_ip (de_parser env) host = None"
      "resolve_name env rs host epoch timeout started w1 = (r, rs', w')"
proof -
  obtain started w1 where c: "de_clock env w = (started, w1)" by (rule prod.exhaust)
  obtain now w2 where n: "de_clock env w1 = (now, w2)" by (rule prod.exhaust)
  show ?thesis
  proof (cases "host = []")
    case True
    with assms show ?thesis by (intro empty) (auto simp: resolve_with_metadata_def c default_resolve_result_def)
  next
    case host: False
    show ?thesis
    proof (cases "is_numeric_ip (de_parser env) host")
      case None
      with assms host show ?thesis by (intro name [of started w1]) (simp_all add: resolve_with_metadata_def c)
    next
      case (Some v6)
      with assms host have l: "resolve_literal env rs host v6 started w1 = (r, w')" and rs: "rs' = rs"
        by (simp_all add: resolve_with_metadata_def c split: prod.splits)
      show ?thesis
      proof (cases "is_safe_ip (de_parser env) host (dc_allow_private (rs_config rs))")
        case True
        with l have "r = default_resolve_result
              \<lparr>rr_addresses := [default_ip_result\<lparr>ip_text := host, ip_ipv6 := v6, ip_score := 10000, ip_source := kLiteral\<rparr>],
               rr_elapsed_ms := now - started\<rparr>" by (simp add: resolve_literal_def n)
        with True host Some rs show ?thesis by (intro literal [of v6]) (simp_all add: default_resolve_result_def)
      next
        case False
        with l have "r = default_resolve_result\<lparr>rr_error := ASTERNET_ERR_DNS, rr_elapsed_ms := now - started\<rparr>"
          by (simp add: resolve_literal_def n)
        with False host Some rs show ?thesis by (intro unsafe [of v6]) (simp_all add: default_resolve_result_def)
      qed
    qed
  qed
qed

lemma resolve_safe:
  assumes "resolve_with_metadata env rs host epoch timeout w = (r, rs', w')"
  shows "safe_results env (dc_allow_private (rs_config rs)) (rr_addresses r)
    \<and> (rr_error r = ASTERNET_OK \<longleftrightarrow> rr_addresses r \<noteq> [])
    \<and> sorted_wrt (\<lambda>a b. \<not> better b a) (rr_addresses r)"
  using assms
proof (cases rule: resolve_cases)
  case (name started w1)
  from name(3) show ?thesis
  proof (rule resolve_name_result)
    fix candidates n now
    assume r: "rr_addresses r = stable_sort_results (map (score_item host epoch rs)
       (keep_safe env (dc_allow_private (rs_config rs)) mark_other_backup candidates))"
      and e: "rr_error r = ASTERNET_OK \<longleftrightarrow> rr_addresses r \<noteq> []"
    show ?thesis unfolding r safe_sorted using e r by (simp add: sorted_stable_sort)
  qed
qed (simp_all add: default_ip_result_def)

text \<open>
  Property C9. Whatever HttpDNS, the local resolver, the backup list or the cache deliver, and
  however the lookups are interleaved with the deadline, every address that a resolution returns
  passes the address filter; the error is OK exactly if there is an address; and the addresses
  are ordered by score, best first, ties by their text.
\<close>

theorem resolve_returns_safe_sorted:
  "let r = fst (resolve_with_metadata env rs host epoch timeout w) in
     list_all (\<lambda>a. is_safe_ip (de_parser env) (ip_text a) (dc_allow_private (rs_config rs))) (rr_addresses r)
     \<and> (rr_error r = ASTERNET_OK \<longleftrightarrow> rr_addresses r \<noteq> [])
     \<and> sorted_wrt (\<lambda>a b. \<not> better b a) (rr_addresses r)"
  using resolve_safe [of env rs host epoch timeout w] by (simp add: Let_def) (metis prod.collapse)

section \<open>The resolver as a state machine\<close>

datatype 'w dns_event =
    Resolve string nat int
  | Invalidate string
  | Report string string nat bool int
  | Quality quality_snapshot
  | Network nat
  | Set_HttpDns "'w http_dns option"
  | Set_Backup string "ip_result list"
  | Thread_Exit

fun dns_step :: "'w dns_env \<Rightarrow> 'w dns_event \<Rightarrow> 'w resolver \<times> 'w \<Rightarrow> 'w resolver \<times> 'w" where
  "dns_step env (Resolve h e t) (rs, w) = snd (resolve_with_metadata env rs h e t w)"
| "dns_step env (Invalidate h) (rs, w) = (dns_invalidate h rs, w)"
| "dns_step env (Report h ip e ok rtt) (rs, w) = report_connection_result env h ip e ok rtt rs w"
| "dns_step env (Quality q) (rs, w) = (dns_on_quality_change q rs, w)"
| "dns_step env (Network e) (rs, w) = (dns_on_network_change e rs, w)"
| "dns_step env (Set_HttpDns p) (rs, w) = (set_httpdns_lookup p rs, w)"
| "dns_step env (Set_Backup h xs) (rs, w) = (set_backup_ips env h xs rs, w)"
| "dns_step env Thread_Exit (rs, w) = (lookup_thread_exit rs, w)"

definition dns_run :: "'w dns_env \<Rightarrow> 'w dns_event list \<Rightarrow> 'w resolver \<times> 'w \<Rightarrow> 'w resolver \<times> 'w" where
  "dns_run env es s = foldl (\<lambda>s e. dns_step env e s) s es"

definition dns_inv :: "dns_config \<Rightarrow> 'w dns_env \<Rightarrow> 'w resolver \<Rightarrow> bool" where
  "dns_inv cfg env rs \<longleftrightarrow> rs_config rs = cfg
     \<and> keys_distinct (rs_cache rs) \<and> length (rs_cache rs) \<le> dc_max_cache_entries cfg
     \<and> keys_distinct (rs_health rs) \<and> length (rs_health rs) \<le> dc_max_health_entries cfg
     \<and> rs_active rs \<le> dc_max_active_lookups cfg
     \<and> list_all (\<lambda>b. safe_results env (dc_allow_private cfg) (snd b)) (rs_backup rs)
     \<and> list_all (\<lambda>c. safe_results env (dc_allow_private cfg) (ce_addresses (snd c))) (rs_cache rs)"

lemma set_update_subset: "set (AList.update k v m) \<subseteq> insert (k, v) (set m)"
  by (induction m) auto

lemma list_all_update: "list_all P m \<Longrightarrow> P (k, v) \<Longrightarrow> list_all P (AList.update k v m)"
  using set_update_subset [of k v m] by (auto simp: list_all_iff)

lemma list_all_delete: "list_all P m \<Longrightarrow> list_all P (AList.delete k m)"
  by (auto simp: list_all_iff AList.delete_eq)

lemma list_all_make_room: "list_all P m \<Longrightarrow> list_all P (make_room v cap k m)"
  by (auto simp: make_room_def list_all_delete split: option.split)

lemma length_filter_le': "length xs \<le> n \<Longrightarrow> length (filter P xs) \<le> n"
  using length_filter_le [of P xs] by (rule order_trans)

lemma store_cache_inv:
  assumes "dns_inv cfg env rs" and "safe_results env (dc_allow_private cfg) addrs" and "0 < dc_max_cache_entries cfg"
  shows "dns_inv cfg env (store_cache env key addrs now rs)"
  using assms begin_evict.make_room_length [of "rs_cache rs" "dc_max_cache_entries cfg"]
  by (auto simp: dns_inv_def store_cache_def Let_def intro!: list_all_update list_all_make_room)

lemma resolve_inv:
  assumes "resolve_with_metadata env rs host epoch timeout w = (r, rs', w')" and "dns_inv cfg env rs"
    and "0 < dc_max_cache_entries cfg"
  shows "dns_inv cfg env rs'"
proof -
  have cfg: "rs_config rs = cfg" using assms(2) by (simp add: dns_inv_def)
  have safe: "safe_results env (dc_allow_private cfg) (rr_addresses r)"
    using resolve_safe [OF assms(1)] by (simp add: cfg)
  from assms(1) show ?thesis
  proof (cases rule: resolve_cases)
    case (name started w1)
    from name(3) show ?thesis
    proof (rule resolve_name_result)
      fix candidates n now
      assume rs': "rs' = store_cache env (cache_key host epoch) (rr_addresses r) now (rs\<lparr>rs_active := n\<rparr>)"
        and "n \<le> max (rs_active rs) (dc_max_active_lookups (rs_config rs))"
      then have "dns_inv cfg env (rs\<lparr>rs_active := n\<rparr>)"
        using assms(2) by (auto simp: dns_inv_def)
      with safe assms(3) show ?thesis unfolding rs' by (intro store_cache_inv)
    qed
  qed (use assms(2) in auto)
qed

lemma report_inv:
  assumes "dns_inv cfg env rs" and "0 < dc_max_health_entries cfg"
  shows "dns_inv cfg env (fst (report_connection_result env h ip e ok rtt rs w))"
  using assms oldest_evict.make_room_length [of "rs_health rs" "dc_max_health_entries cfg"]
  by (simp add: dns_inv_def report_connection_result_def Let_def case_prod_beta)

lemma set_backup_inv:
  assumes "dns_inv cfg env rs"
  shows "dns_inv cfg env (set_backup_ips env h xs rs)"
  using assms
  by (auto simp: dns_inv_def set_backup_ips_def Let_def list_all_iff AList.delete_eq
      intro!: length_filter_le' dest!: subsetD [OF set_update_subset])

lemma dns_step_inv:
  assumes "dns_inv cfg env (fst s)" and "0 < dc_max_cache_entries cfg" and "0 < dc_max_health_entries cfg"
  shows "dns_inv cfg env (fst (dns_step env e s))"
proof -
  obtain rs w where s: "s = (rs, w)" by (rule prod.exhaust)
  show ?thesis
  proof (cases e)
    case (Resolve h ep t)
    obtain r rs' w' where "resolve_with_metadata env rs h ep t w = (r, rs', w')" by (rule prod_cases3)
    with resolve_inv [OF this] assms Resolve s show ?thesis by simp
  next
    case (Report h ip ep ok rtt)
    with report_inv assms s show ?thesis by simp
  next
    case (Set_Backup h xs)
    with set_backup_inv assms s show ?thesis by simp
  qed (use assms s in \<open>auto simp: dns_inv_def dns_invalidate_def dns_on_quality_change_def
      dns_on_network_change_def set_httpdns_lookup_def lookup_thread_exit_def list_all_iff
      intro!: length_filter_le'\<close>)
qed

lemma dns_run_inv:
  assumes "dns_inv cfg env (fst s)" and "0 < dc_max_cache_entries cfg" and "0 < dc_max_health_entries cfg"
  shows "dns_inv cfg env (fst (dns_run env es s))"
  using assms(1)
proof (induction es arbitrary: s)
  case Nil
  then show ?case by (simp add: dns_run_def)
next
  case (Cons e es)
  from Cons.IH [OF dns_step_inv [OF Cons.prems assms(2,3)]] show ?case by (simp add: dns_run_def)
qed

text \<open>
  Property C31. After any sequence of operations on a new resolver, with any environment: the cache
  and the health table stay within their configured sizes, no more lookups are active than
  allowed, and the cache and the backup list hold only addresses that pass the filter.
\<close>

theorem resolver_resources_bounded:
  assumes "0 < dc_max_cache_entries cfg" and "0 < dc_max_health_entries cfg"
    and "fst (dns_run env es (SmartDnsResolverImpl cfg httpdns, w)) = rs"
  shows "length (rs_cache rs) \<le> dc_max_cache_entries cfg \<and> length (rs_health rs) \<le> dc_max_health_entries cfg
    \<and> rs_active rs \<le> dc_max_active_lookups cfg
    \<and> list_all (\<lambda>b. list_all (\<lambda>a. is_safe_ip (de_parser env) (ip_text a) (dc_allow_private cfg)) (snd b)) (rs_backup rs)
    \<and> list_all (\<lambda>c. list_all (\<lambda>a. is_safe_ip (de_parser env) (ip_text a) (dc_allow_private cfg))
        (ce_addresses (snd c))) (rs_cache rs)"
proof -
  have "dns_inv cfg env (fst (SmartDnsResolverImpl cfg httpdns, w))"
    by (simp add: dns_inv_def SmartDnsResolverImpl_def)
  from dns_run_inv [OF this assms(1,2), of es] assms(3) show ?thesis by (simp add: dns_inv_def)
qed

definition demo_env :: "unit dns_env" where
  "demo_env =
     \<lparr>de_parser = demo_parser, de_ntop4 = (\<lambda>_. Some ''8.8.8.8''), de_ntop6 = (\<lambda>_. None),
      de_getaddrinfo = (\<lambda>_ w. (Some [AF_INET (ipv4 8 8 8 8)], w)), de_clock = (\<lambda>w. (1000, w)),
      de_thread = (\<lambda>_ w. (Done_In_Time True, w)), de_cache_order = (\<lambda>_. 0), de_health_order = (\<lambda>_. 0)\<rparr>"

lemma resolver_resources_bounded_witness:
  "\<exists>rs. fst (dns_run demo_env [Resolve ''a'' 0 0, Resolve ''b'' 0 0] (SmartDnsResolverImpl default_dns_config None, ())) = rs
    \<and> length (rs_cache rs) \<le> 128 \<and> rs_active rs \<le> 4"
  using resolver_resources_bounded [of default_dns_config demo_env, OF _ _ refl]
  by (simp add: default_dns_config_def)

section \<open>Scores\<close>

text \<open>
  The score of an address stays between -5000 and 10500, and feedback from real
  connections moves it the right way: with the other inputs fixed, more failures, more loss or a
  longer measured round trip never raise it, and more successes never lower it.
\<close>

theorem address_score_sound:
  "(0 \<le> f \<and> 0 \<le> s \<longrightarrow> -5000 \<le> address_score q rtt loss f s \<and> address_score q rtt loss f s \<le> 10500)
   \<and> (f \<le> f' \<longrightarrow> address_score q rtt loss f' s \<le> address_score q rtt loss f s)
   \<and> (s \<le> s' \<longrightarrow> address_score q rtt loss f s \<le> address_score q rtt loss f s')
   \<and> (0 \<le> loss \<and> loss \<le> loss' \<longrightarrow> address_score q rtt loss' f s \<le> address_score q rtt loss f s)
   \<and> (0 \<le> rtt \<and> rtt \<le> rtt' \<longrightarrow> address_score q rtt' loss f s \<le> address_score q rtt loss f s)"
proof -
  have pen: "0 \<le> quality_penalty q r" "r < 0 \<Longrightarrow> quality_penalty q r \<le> 1000" "0 \<le> r \<Longrightarrow> quality_penalty q r \<le> 500" for r
    by (cases q; simp)+
  have same: "0 \<le> r \<Longrightarrow> 0 \<le> r' \<Longrightarrow> quality_penalty q r = quality_penalty q r'" for r r'
    by (cases q) simp_all
  have mono: "min c (x * k) \<le> min c (y * k)" if "x \<le> y" "0 \<le> k" for c x y k :: int
    using mult_right_mono [OF that] by (auto simp: min_def)
  have low: "0 \<le> min c (x * k)" "min c (x * k) \<le> c" if "0 \<le> x" "0 \<le> k" "0 \<le> c" for c x k :: int
    using that by simp_all
  show ?thesis
  proof (intro conjI impI)
    assume "0 \<le> f \<and> 0 \<le> s"
    then show "-5000 \<le> address_score q rtt loss f s" "address_score q rtt loss f s \<le> 10500"
      using pen [of rtt] low [of f 500 4000] low [of s 100 500] low [of rtt 2 8000] low [of loss 2 2000]
      by (simp_all add: address_score_def Let_def split: if_splits) linarith+
  next
    assume "f \<le> f'"
    from mono [OF this, of 500 4000] show "address_score q rtt loss f' s \<le> address_score q rtt loss f s"
      by (simp add: address_score_def)
  next
    assume "s \<le> s'"
    from mono [OF this, of 100 500] show "address_score q rtt loss f s \<le> address_score q rtt loss f s'"
      by (simp add: address_score_def)
  next
    assume "0 \<le> loss \<and> loss \<le> loss'"
    then show "address_score q rtt loss' f s \<le> address_score q rtt loss f s"
      using mono [of loss loss' 2 2000] by (simp add: address_score_def)
  next
    assume "0 \<le> rtt \<and> rtt \<le> rtt'"
    then show "address_score q rtt' loss f s \<le> address_score q rtt loss f s"
      using mono [of rtt rtt' 2 8000] same [of rtt rtt'] by (simp add: address_score_def)
  qed
qed

lemma address_score_sound_witness:
  "address_score kBad 30 0 3 0 \<le> address_score kBad 30 0 1 0 \<and> -5000 \<le> address_score kBad 30 0 3 0"
  using address_score_sound [of 3 0 kBad 30 0 3 0 0 30] address_score_sound [of 1 0 kBad 30 0 3 0 0 30] by simp

section \<open>The cache\<close>

lemma dec_digits_prefix_key:
  assumes "newline \<notin> set host" and "newline \<notin> set h"
  shows "has_key_prefix (host @ [newline]) (cache_key h e, c) \<longleftrightarrow> h = host"
proof
  assume "has_key_prefix (host @ [newline]) (cache_key h e, c)"
  then obtain rest where "cache_key h e = (host @ [newline]) @ rest"
    unfolding has_key_prefix_def by (metis append_take_drop_id fst_conv)
  then have "h @ newline # dec_digits e = host @ newline # rest" by (simp add: cache_key_def)
  with assms show "h = host" by (simp add: append_sep_first)
next
  assume "h = host"
  then show "has_key_prefix (host @ [newline]) (cache_key h e, c)" by (simp add: has_key_prefix_def cache_key_def)
qed

lemma map_of_filter_key:
  "map_of (filter (\<lambda>e. \<not> P (fst e)) m) k = (if P k then None else map_of m k)"
  by (induction m) auto

text \<open>
  Cached answers are separated by host and network epoch, and invalidating a host
  removes its entries for every epoch and nothing else; hosts are free of newlines, which the ABI
  checks. \<open>set_backup_ips\<close> invalidates the host it sets in the same way.
\<close>

theorem invalidate_exact:
  assumes "newline \<notin> set host" and "host \<noteq> []" and "newline \<notin> set h"
  shows "map_of (rs_cache (dns_invalidate host rs)) (cache_key h e) =
      (if h = host then None else map_of (rs_cache rs) (cache_key h e))
    \<and> map_of (rs_cache (set_backup_ips env host xs rs)) (cache_key h e) =
      (if h = host then None else map_of (rs_cache rs) (cache_key h e))
    \<and> (cache_key h e = cache_key host e' \<longleftrightarrow> h = host \<and> e = e')"
proof -
  let ?P = "\<lambda>k. take (length (host @ [newline])) k = host @ [newline]"
  have "?P (cache_key h e) \<longleftrightarrow> h = host"
    using dec_digits_prefix_key [OF assms(1,3)] by (simp add: has_key_prefix_def)
  then show ?thesis
    using assms(2) map_of_filter_key [of ?P "rs_cache rs" "cache_key h e"]
    by (simp add: dns_invalidate_def set_backup_ips_def Let_def has_key_prefix_def cache_key_inject)
qed

lemma invalidate_exact_witness:
  "\<exists>rs :: unit resolver. map_of (rs_cache (dns_invalidate ''a'' rs)) (cache_key ''b'' 1) \<noteq> None
   \<and> map_of (rs_cache rs) (cache_key ''a'' 1) \<noteq> None \<and> map_of (rs_cache (dns_invalidate ''a'' rs)) (cache_key ''a'' 1) = None"
proof -
  let ?c = "\<lparr>ce_addresses = [], ce_expires_at_ms = 0, ce_stale_until_ms = 0\<rparr>"
  let ?rs = "(SmartDnsResolverImpl default_dns_config None :: unit resolver)
    \<lparr>rs_cache := [(cache_key ''a'' 1, ?c), (cache_key ''b'' 1, ?c)]\<rparr>"
  show ?thesis
    using invalidate_exact [of "''a''" "''b''" ?rs 1] invalidate_exact [of "''a''" "''a''" ?rs 1]
    by (intro exI [of _ ?rs]) (simp add: cache_key_inject)
qed

text \<open>
  A cache hit renews the entry: when a fresh entry answers, its addresses are stored
  again with a full time to live from now. An entry that is asked for at least once per TTL never
  expires, and the name is not looked up again on that network.
\<close>

theorem cache_hit_renews_ttl:
  assumes "host \<noteq> []" and "is_numeric_ip (de_parser env) host = None"
    and "map_of (rs_cache rs) (cache_key host epoch) = Some c" and "t \<le> ce_expires_at_ms c"
    and "\<And>v. de_clock env v = (t, v)"
    and "ce_addresses c \<noteq> []"
    and "list_all (\<lambda>a. is_safe_ip (de_parser env) (ip_text a) (dc_allow_private (rs_config rs))) (ce_addresses c)"
    and "resolve_with_metadata env rs host epoch timeout w = (r, rs', w')"
  shows "rr_cache_hit r \<and> rr_error r = ASTERNET_OK \<and> w' = w
    \<and> image_mset ip_text (mset (rr_addresses r)) = image_mset ip_text (mset (ce_addresses c))
    \<and> (\<exists>c'. map_of (rs_cache rs') (cache_key host epoch) = Some c'
        \<and> ce_expires_at_ms c' = t + dc_ttl_ms (rs_config rs) \<and> ce_addresses c' = rr_addresses r)"
proof -
  define stale where "stale = (if t \<le> ce_stale_until_ms c then Some (ce_addresses c) else None)"
  have probe: "probe_cache env (cache_key host epoch) rs v = (ce_addresses c, True, stale, v)" for v
    using assms(3-5) by (simp add: probe_cache_def stale_def)
  have h: "httpdns_stage env host d (ce_addresses c) x rs v = (ce_addresses c, x, rs, v)"
    and l: "local_stage env host d (ce_addresses c) x rs v = (ce_addresses c, x, rs, v)" for d x v
    using assms(6) by (simp_all add: httpdns_stage_def local_stage_def split: option.split)
  define out where "out = stable_sort_results (map (score_item host epoch rs)
      (keep_safe env (dc_allow_private (rs_config rs)) mark_other_backup (ce_addresses c)))"
  have clk: "de_clock env = (\<lambda>v. (t, v))" using assms(5) by (simp add: fun_eq_iff)
  have filt: "filter (\<lambda>a. is_safe_ip (de_parser env) (ip_text a) (dc_allow_private (rs_config rs))) (ce_addresses c)
      = ce_addresses c"
    using assms(7) by (simp add: list_all_iff filter_id_conv)
  then have ne: "out \<noteq> []" using assms(6) by (simp add: out_def keep_safe_def)
  have "r = \<lparr>rr_addresses = out, rr_error = ASTERNET_OK, rr_elapsed_ms = 0, rr_cache_hit = True\<rparr>"
    "rs' = store_cache env (cache_key host epoch) out t rs" "w' = w"
    using assms(8) assms(1,6) ne
    unfolding resolve_with_metadata_def clk prod.case Let_def if_not_P [OF assms(1)] assms(2) option.case
      resolve_name_def probe h l if_not_P [OF assms(6)] out_def [symmetric]
    by simp_all
  moreover have "image_mset ip_text (mset out) = image_mset ip_text (mset (ce_addresses c))"
    using filt by (simp add: out_def keep_safe_def image_mset.compositionality comp_def)
  ultimately show ?thesis
    using ne by (simp add: store_cache_def Let_def update_conv)
qed

lemma cache_hit_renews_ttl_witness:
  "\<exists>r rs' w' c'. resolve_with_metadata demo_env
      ((SmartDnsResolverImpl default_dns_config None)\<lparr>rs_cache := [(cache_key ''a'' 0,
         \<lparr>ce_addresses = [default_ip_result\<lparr>ip_text := ''8.8.8.8''\<rparr>], ce_expires_at_ms = 1000, ce_stale_until_ms = 2000\<rparr>)]\<rparr>)
      ''a'' 0 0 () = (r, rs', w') \<and> rr_cache_hit r
    \<and> map_of (rs_cache rs') (cache_key ''a'' 0) = Some c' \<and> ce_expires_at_ms c' = 301000"
proof -
  let ?c = "\<lparr>ce_addresses = [default_ip_result\<lparr>ip_text := ''8.8.8.8''\<rparr>], ce_expires_at_ms = 1000, ce_stale_until_ms = 2000\<rparr>"
  let ?rs = "(SmartDnsResolverImpl default_dns_config None)\<lparr>rs_cache := [(cache_key ''a'' 0, ?c)]\<rparr>"
  obtain r rs' w' where run: "resolve_with_metadata demo_env ?rs ''a'' 0 0 () = (r, rs', w')" by (rule prod_cases3)
  have "is_numeric_ip demo_parser ''a'' = None" by (simp add: is_numeric_ip_def demo_parser_def c_str_def)
  moreover have "is_safe_ipv4 (ipv4 8 8 8 8) False" by (simp add: is_safe_ipv4_def ipv4_def)
  then have "is_safe_ip demo_parser ''8.8.8.8'' False"
    by (simp add: is_safe_ip_def demo_parser_def c_str_def)
  ultimately show ?thesis
    using cache_hit_renews_ttl [OF _ _ _ _ _ _ _ run, of ?c 1000] run
    by (simp add: demo_env_def default_dns_config_def default_ip_result_def SmartDnsResolverImpl_def) blast
qed

section \<open>No live lookup while offline\<close>

lemma offline_stages:
  assumes "q_quality (rs_quality rs) = kOffline"
  shows "httpdns_stage (env\<lparr>de_thread := th, de_getaddrinfo := g\<rparr>) host d a t rs v = httpdns_stage env host d a t rs v"
    "local_stage (env\<lparr>de_thread := th, de_getaddrinfo := g\<rparr>) host d a t rs v = local_stage env host d a t rs v"
    "fst (snd (snd (httpdns_stage env host d a t rs v))) = rs" "fst (snd (snd (local_stage env host d a t rs v))) = rs"
  using assms by (simp_all add: httpdns_stage_def local_stage_def Let_def case_prod_beta split: option.split)

lemma env_swap:
  assumes env': "env' = env\<lparr>de_thread := th, de_getaddrinfo := g\<rparr>"
  shows "probe_cache env' k rs v = probe_cache env k rs v" "keep_safe env' allow mark xs = keep_safe env allow mark xs"
    "store_cache env' k xs now rs = store_cache env k xs now rs" "de_clock env' = de_clock env"
    "resolve_literal env' rs host v6 st v = resolve_literal env rs host v6 st v" "de_parser env' = de_parser env"
  by (simp_all add: env' probe_cache_def keep_safe_def store_cache_def resolve_literal_def ip_family_v6_def
      Let_def split: option.split)

lemma httpdns_stage_pair: "httpdns_stage env host d a t rs v =
   (fst (httpdns_stage env host d a t rs v), fst (snd (httpdns_stage env host d a t rs v)),
    fst (snd (snd (httpdns_stage env host d a t rs v))), snd (snd (snd (httpdns_stage env host d a t rs v))))"
  by simp

text \<open>
  While the last published quality is OFFLINE, a resolution starts no lookup: the
  result, the resolver and the world after it are the same whatever a lookup thread or the system
  resolver would do, and the count of active lookups does not change. The answer comes from the
  cache, the backup list or a stale entry.
\<close>

theorem offline_no_lookup:
  assumes "q_quality (rs_quality rs) = kOffline"
  shows "resolve_with_metadata (env\<lparr>de_thread := th, de_getaddrinfo := g\<rparr>) rs host epoch timeout w
      = resolve_with_metadata env rs host epoch timeout w
    \<and> rs_active (fst (snd (resolve_with_metadata env rs host epoch timeout w))) = rs_active rs"
proof -
  let ?env = "env\<lparr>de_thread := th, de_getaddrinfo := g\<rparr>"
  have name: "resolve_name ?env rs host epoch timeout st v = resolve_name env rs host epoch timeout st v
      \<and> rs_active (fst (snd (resolve_name env rs host epoch timeout st v))) = rs_active rs" for st v
  proof -
    obtain a1 hit stale w1 where p: "probe_cache env (cache_key host epoch) rs v = (a1, hit, stale, w1)"
      by (rule prod_cases4)
    let ?d = "st + max 1 (if timeout > 0 then timeout else dc_default_lookup_timeout_ms (rs_config rs))"
    obtain a2 t2 w2 where h: "httpdns_stage env host ?d a1 False rs w1 = (a2, t2, rs, w2)"
      using offline_stages(3) [OF assms, of env host ?d a1 False w1]
      by (cases "httpdns_stage env host ?d a1 False rs w1") auto
    obtain a3 t3 w3 where l: "local_stage env host ?d a2 t2 rs w2 = (a3, t3, rs, w3)"
      using offline_stages(4) [OF assms, of env host ?d a2 t2 w2]
      by (cases "local_stage env host ?d a2 t2 rs w2") auto
    note hl = h l trans [OF offline_stages(1) [OF assms, where th = th and g = g] h]
      trans [OF offline_stages(2) [OF assms, where th = th and g = g] l]
    show ?thesis
      unfolding resolve_name_def Let_def env_swap [OF refl] p hl prod.case
      by (simp add: case_prod_beta store_cache_def Let_def)
  qed
  show ?thesis
    by (simp add: resolve_with_metadata_def env_swap [OF refl] name Let_def case_prod_beta split: option.split)
qed

lemma offline_no_lookup_witness:
  "rs_active (fst (snd (resolve_with_metadata demo_env
     (dns_on_quality_change (default_snapshot\<lparr>q_quality := kOffline\<rparr>) (SmartDnsResolverImpl default_dns_config None))
     ''a'' 0 0 ()))) = 0"
  using offline_no_lookup [where rs = "dns_on_quality_change (default_snapshot\<lparr>q_quality := kOffline\<rparr>)
     (SmartDnsResolverImpl default_dns_config None)" and env = demo_env]
  by (simp add: dns_on_quality_change_def SmartDnsResolverImpl_def)

section \<open>The interface of the resolver\<close>

text \<open>
  What the client relies on when it picks the address to dial: a resolution with code OK has a
  first address, and every address passed the filter.
\<close>

locale address_source =
  fixes resolve :: "'s \<Rightarrow> string \<Rightarrow> nat \<Rightarrow> int \<Rightarrow> resolve_result \<times> 's" and allowed :: "string \<Rightarrow> bool" and inv :: "'s \<Rightarrow> bool"
  assumes resolve_inv_kept: "inv s \<Longrightarrow> inv (snd (resolve s host epoch timeout))"
    and resolve_allowed: "inv s \<Longrightarrow> list_all (\<lambda>a. allowed (ip_text a)) (rr_addresses (fst (resolve s host epoch timeout)))"
    and resolve_ok: "inv s \<Longrightarrow> rr_error (fst (resolve s host epoch timeout)) = ASTERNET_OK \<longleftrightarrow>
      rr_addresses (fst (resolve s host epoch timeout)) \<noteq> []"
begin

lemma dial_address:
  assumes "inv s" and "rr_error (fst (resolve s host epoch timeout)) = ASTERNET_OK"
  shows "\<exists>a rest. rr_addresses (fst (resolve s host epoch timeout)) = a # rest \<and> allowed (ip_text a)"
  using resolve_allowed [OF assms(1)] resolve_ok [OF assms(1)] assms(2)
  by (metis list.pred_inject(2) neq_Nil_conv)

end

definition resolve_op :: "'w dns_env \<Rightarrow> 'w resolver \<times> 'w \<Rightarrow> string \<Rightarrow> nat \<Rightarrow> int \<Rightarrow> resolve_result \<times> 'w resolver \<times> 'w" where
  "resolve_op env s host epoch timeout = resolve_with_metadata env (fst s) host epoch timeout (snd s)"

lemma resolve_config:
  assumes "resolve_with_metadata env rs host epoch timeout w = (r, rs', w')"
  shows "rs_config rs' = rs_config rs"
  using assms
proof (cases rule: resolve_cases)
  case (name started w1)
  from name(3) show ?thesis
    by (rule resolve_name_result) (simp add: store_cache_def Let_def)
qed simp_all

interpretation dns_source: address_source "resolve_op env"
  "\<lambda>ip. is_safe_ip (de_parser env) ip allow" "\<lambda>s. dc_allow_private (rs_config (fst s)) = allow"
  for env :: "'w dns_env" and allow
proof
  fix s :: "'w resolver \<times> 'w" and host epoch timeout
  assume inv: "dc_allow_private (rs_config (fst s)) = allow"
  obtain r rs' w' where run: "resolve_with_metadata env (fst s) host epoch timeout (snd s) = (r, rs', w')"
    by (rule prod_cases3)
  from resolve_safe [OF run] resolve_config [OF run] inv run
  show "dc_allow_private (rs_config (fst (snd (resolve_op env s host epoch timeout)))) = allow"
    "list_all (\<lambda>a. is_safe_ip (de_parser env) (ip_text a) allow) (rr_addresses (fst (resolve_op env s host epoch timeout)))"
    "rr_error (fst (resolve_op env s host epoch timeout)) = ASTERNET_OK \<longleftrightarrow>
      rr_addresses (fst (resolve_op env s host epoch timeout)) \<noteq> []"
    by (simp_all add: resolve_op_def)
qed

end
