(* ===== verification/Json_Text.thy ===== *)
theory Json_Text
  imports Prelude
begin

text \<open>
  JSON string literals. The printers of the core (\<open>monitor/metrics.cpp\<close>) and of the Android bridge
  (\<open>asternet_jni.cpp\<close>) escape text by hand; \<open>json_string\<close> is the reader they are measured
  against: RFC 8259 restricted to the escapes of single bytes. It returns the text up to the closing
  quote and what follows it, and rejects raw control characters and unknown escapes.
\<close>

abbreviation backslash :: char where "backslash \<equiv> CHR 0x5C"
abbreviation quote :: char where "quote \<equiv> CHR 0x22"
abbreviation backspace :: char where "backspace \<equiv> CHR 0x08"
abbreviation form_feed :: char where "form_feed \<equiv> CHR 0x0C"

definition kHex :: string where "kHex = ''0123456789abcdef''"

text \<open>Two hexadecimal digits of a byte: \<open>kHex[c >> 4]\<close>, \<open>kHex[c & 0x0f]\<close>.\<close>

definition hex_byte :: "char \<Rightarrow> string" where
  "hex_byte c = [kHex ! (byte c div 16), kHex ! (byte c mod 16)]"

definition u00_escape :: "char \<Rightarrow> string" where
  "u00_escape c = backslash # CHR ''u'' # CHR ''0'' # CHR ''0'' # hex_byte c"

definition hex_digit :: "char \<Rightarrow> nat option" where
  "hex_digit c =
     (if isdigit c then Some (byte c - 48)
      else if 97 \<le> byte c \<and> byte c \<le> 102 then Some (byte c - 87)
      else if 65 \<le> byte c \<and> byte c \<le> 70 then Some (byte c - 55) else None)"

definition single_escape :: "char \<Rightarrow> char option" where
  "single_escape c =
     map_of [(quote, quote), (backslash, backslash), (CHR ''/'', CHR ''/''), (CHR ''b'', backspace),
       (CHR ''f'', form_feed), (CHR ''n'', newline), (CHR ''r'', carriage_return), (CHR ''t'', tab)] c"

fun json_string :: "string \<Rightarrow> (string \<times> string) option" where
  "json_string [] = None"
| "json_string (c # s) =
     (if c = quote then Some ([], s)
      else if c = backslash then
        (case s of
           [] \<Rightarrow> None
         | e # r \<Rightarrow>
             if e = CHR ''u'' then
               (case r of
                  z1 # z2 # h # l # r' \<Rightarrow>
                    if z1 = CHR ''0'' \<and> z2 = CHR ''0'' then
                      (case (hex_digit h, hex_digit l) of
                         (Some a, Some b) \<Rightarrow> map_option (apfst (Cons (char_of (16 * a + b)))) (json_string r')
                       | _ \<Rightarrow> None)
                    else None
                | _ \<Rightarrow> None)
             else (case single_escape e of
                     Some x \<Rightarrow> map_option (apfst (Cons x)) (json_string r)
                   | None \<Rightarrow> None))
      else if byte c < 32 then None
      else map_option (apfst (Cons c)) (json_string s))"

declare json_string.simps(2) [simp del]

lemma hex_digit_kHex: "n < 16 \<Longrightarrow> hex_digit (kHex ! n) = Some n"
proof -
  have "\<forall>i \<in> set [0..<16]. hex_digit (kHex ! i) = Some i"
    by (simp add: kHex_def hex_digit_def upt_rec numeral_nat isdigit_def byte_def)
  then show "n < 16 \<Longrightarrow> hex_digit (kHex ! n) = Some n" by simp
qed

text \<open>What the reader does after each form of an escaped character.\<close>

lemma json_string_quote: "json_string (quote # s) = Some ([], s)"
  by (subst json_string.simps) simp

lemma json_string_plain:
  assumes "c \<noteq> quote" and "c \<noteq> backslash" and "32 \<le> byte c"
  shows "json_string (c # s) = map_option (apfst (Cons c)) (json_string s)"
  using assms by (subst json_string.simps) simp

lemma json_string_escape:
  assumes "single_escape e = Some x" and "e \<noteq> CHR ''u''"
  shows "json_string (backslash # e # s) = map_option (apfst (Cons x)) (json_string s)"
  using assms by (subst json_string.simps) simp

lemma json_string_u00: "json_string (u00_escape c @ s) = map_option (apfst (Cons c)) (json_string s)"
proof -
  have digits: "byte c div 16 < 16" "byte c mod 16 < 16" "16 * (byte c div 16) + byte c mod 16 = byte c"
    using byte_less [of c] by auto
  then show ?thesis
    by (simp add: u00_escape_def hex_byte_def json_string.simps hex_digit_kHex)
qed

end
