(* ===== verification/Metrics.thy ===== *)
theory Metrics
  imports Api_Types Json_Text
begin

text \<open>
  \<open>monitor/metrics.cpp\<close>: the stage funnel of finished requests, the bounded list of recent events,
  the bounded tally of failure stages and their JSON text. Every method holds the collector's mutex
  for its whole body. The decimal text of a \<open>double\<close> is a parameter of the printing functions.
\<close>

section \<open>State\<close>

record request_metrics =
  rm_response :: response_info
  rm_request_id :: nat
  rm_network_epoch :: nat
  rm_attempts :: int
  rm_connection_reused :: bool
  rm_cache_hit :: bool
  rm_deduplicated :: bool
  rm_failure_stage :: string

definition zero_response_info :: response_info where
  "zero_response_info =
     \<lparr>ri_result = 0, ri_http_status = 0, ri_protocol = PROTOCOL_UNKNOWN, ri_degraded = 0,
      ri_body_size = 0, ri_body_copied = 0, ri_dns_ms = 0, ri_connect_ms = 0, ri_tls_ms = 0,
      ri_ttfb_ms = 0, ri_total_ms = 0\<rparr>"

definition default_metrics :: request_metrics where
  "default_metrics =
     \<lparr>rm_response = zero_response_info, rm_request_id = 0, rm_network_epoch = 0, rm_attempts = 1,
      rm_connection_reused = False, rm_cache_hit = False, rm_deduplicated = False, rm_failure_stage = []\<rparr>"

record stage_stats =
  st_started :: nat
  st_succeeded :: nat
  st_failed :: nat
  st_samples :: nat
  st_total_ms :: int
  st_min_ms :: int
  st_max_ms :: int

definition default_stage :: stage_stats where
  "default_stage =
     \<lparr>st_started = 0, st_succeeded = 0, st_failed = 0, st_samples = 0, st_total_ms = 0, st_min_ms = -1,
      st_max_ms = 0\<rparr>"

record metrics_snapshot =
  ms_events :: nat
  ms_requests :: nat
  ms_success :: nat
  ms_failure :: nat
  ms_degraded :: nat
  ms_deduplicated :: nat
  ms_connection_reused :: nat
  ms_cache_hit :: nat
  ms_attempts :: nat
  ms_avg_total_ms :: int
  ms_max_total_ms :: int
  ms_dns :: stage_stats
  ms_connect :: stage_stats
  ms_tls :: stage_stats
  ms_ttfb :: stage_stats
  ms_transfer :: stage_stats
  ms_total :: stage_stats
  ms_failure_stages :: "(string, nat) table"

definition default_metrics_snapshot :: metrics_snapshot where
  "default_metrics_snapshot =
     \<lparr>ms_events = 0, ms_requests = 0, ms_success = 0, ms_failure = 0, ms_degraded = 0, ms_deduplicated = 0,
      ms_connection_reused = 0, ms_cache_hit = 0, ms_attempts = 0, ms_avg_total_ms = -1, ms_max_total_ms = -1,
      ms_dns = default_stage, ms_connect = default_stage, ms_tls = default_stage, ms_ttfb = default_stage,
      ms_transfer = default_stage, ms_total = default_stage, ms_failure_stages = []\<rparr>"

record collector =
  mc_max_events :: nat
  mc_snapshot :: metrics_snapshot
  mc_events :: "request_metrics list"

definition MetricsCollectorImpl :: "nat \<Rightarrow> collector" where
  "MetricsCollectorImpl max_events =
     \<lparr>mc_max_events = (if max_events = 0 then 1 else max_events), mc_snapshot = default_metrics_snapshot,
      mc_events = []\<rparr>"

section \<open>Counting\<close>

definition update_stage :: "stage_stats \<Rightarrow> bool \<Rightarrow> bool \<Rightarrow> bool \<Rightarrow> int \<Rightarrow> stage_stats" where
  "update_stage s started succeeded failed ms =
     (let s = (if started then s\<lparr>st_started := st_started s + 1\<rparr> else s);
          s = (if succeeded then s\<lparr>st_succeeded := st_succeeded s + 1\<rparr> else s);
          s = (if failed then s\<lparr>st_failed := st_failed s + 1\<rparr> else s)
      in if ms \<ge> 0
         then s\<lparr>st_samples := st_samples s + 1, st_total_ms := st_total_ms s + ms,
                st_min_ms := (if st_min_ms s < 0 \<or> ms < st_min_ms s then ms else st_min_ms s),
                st_max_ms := (if ms > st_max_ms s then ms else st_max_ms s)\<rparr>
         else s)"

definition average_ms :: "stage_stats \<Rightarrow> int" where
  "average_ms s = (if st_samples s = 0 then -1 else st_total_ms s div int (st_samples s))"

definition kMaxFailureStages :: nat where "kMaxFailureStages = 32"

definition bump :: "string \<Rightarrow> (string, nat) table \<Rightarrow> (string, nat) table" where
  "bump k m = AList.update k (case map_of m k of None \<Rightarrow> 1 | Some n \<Rightarrow> n + 1) m"

definition tally_failure_stage :: "(string, nat) table \<Rightarrow> string \<Rightarrow> (string, nat) table" where
  "tally_failure_stage stages stage =
     (if stage = [] then stages
      else
        let normalized = (if length stage > 64 then take 64 stage else stage) in
        if map_of stages normalized \<noteq> None then bump normalized stages
        else if length stages \<ge> kMaxFailureStages then bump ''other'' stages
        else bump normalized stages)"

definition dns_failed :: "request_metrics \<Rightarrow> bool" where
  "dns_failed m \<longleftrightarrow> ri_result (rm_response m) = ASTERNET_ERR_DNS \<or> rm_failure_stage m = ''dns''"

definition connect_failed :: "request_metrics \<Rightarrow> bool" where
  "connect_failed m \<longleftrightarrow> ri_result (rm_response m) = ASTERNET_ERR_CONNECT \<or> rm_failure_stage m = ''connect''"

definition connect_started :: "request_metrics \<Rightarrow> bool" where
  "connect_started m \<longleftrightarrow> \<not> dns_failed m \<and> \<not> rm_connection_reused m
     \<and> (ri_connect_ms (rm_response m) \<ge> 0 \<or> ri_result (rm_response m) = ASTERNET_ERR_CONNECT
        \<or> rm_failure_stage m = ''connect'')"

definition h3_handshake_timeout :: "request_metrics \<Rightarrow> bool" where
  "h3_handshake_timeout m \<longleftrightarrow> ri_protocol (rm_response m) = PROTOCOL_HTTP_3 \<and> rm_failure_stage m = ''timeout''
     \<and> ri_tls_ms (rm_response m) < 0 \<and> ri_ttfb_ms (rm_response m) < 0"

definition tls_started :: "request_metrics \<Rightarrow> bool" where
  "tls_started m \<longleftrightarrow> connect_started m \<and> \<not> connect_failed m
     \<and> (ri_tls_ms (rm_response m) \<ge> 0 \<or> ri_result (rm_response m) = ASTERNET_ERR_TLS
        \<or> rm_failure_stage m = ''tls'' \<or> h3_handshake_timeout m)"

definition tls_failed :: "request_metrics \<Rightarrow> bool" where
  "tls_failed m \<longleftrightarrow> ri_result (rm_response m) = ASTERNET_ERR_TLS \<or> rm_failure_stage m = ''tls'' \<or> h3_handshake_timeout m"

definition ttfb_started :: "request_metrics \<Rightarrow> bool" where
  "ttfb_started m \<longleftrightarrow> tls_started m \<and> \<not> tls_failed m
     \<and> (ri_ttfb_ms (rm_response m) \<ge> 0 \<or> rm_failure_stage m = ''ttfb'' \<or> rm_failure_stage m = ''timeout'')"

definition transfer_ms :: "request_metrics \<Rightarrow> int" where
  "transfer_ms m =
     (if ri_total_ms (rm_response m) \<ge> 0 \<and> ri_ttfb_ms (rm_response m) \<ge> 0
      then ri_total_ms (rm_response m) - ri_ttfb_ms (rm_response m) else -1)"

text \<open>The scalar counters, the stages and the failure tally of \<open>report_request\<close>.\<close>

definition count_request :: "request_metrics \<Rightarrow> metrics_snapshot \<Rightarrow> metrics_snapshot" where
  "count_request m s =
     (let r = rm_response m in
      s\<lparr>ms_requests := ms_requests s + 1,
        ms_attempts := ms_attempts s + (if rm_attempts m > 0 then nat (rm_attempts m) else 1),
        ms_success := ms_success s + (if ri_result r = ASTERNET_OK then 1 else 0),
        ms_failure := ms_failure s + (if ri_result r = ASTERNET_OK then 0 else 1),
        ms_degraded := ms_degraded s + (if ri_degraded r \<noteq> 0 then 1 else 0),
        ms_connection_reused := ms_connection_reused s + (if rm_connection_reused m then 1 else 0),
        ms_cache_hit := ms_cache_hit s + (if rm_cache_hit m then 1 else 0),
        ms_deduplicated := ms_deduplicated s + (if rm_deduplicated m then 1 else 0),
        ms_max_total_ms := (if ri_total_ms r \<ge> 0 \<and> (ms_max_total_ms s < 0 \<or> ri_total_ms r > ms_max_total_ms s)
                            then ri_total_ms r else ms_max_total_ms s)\<rparr>)"

definition count_stages :: "request_metrics \<Rightarrow> metrics_snapshot \<Rightarrow> metrics_snapshot" where
  "count_stages m s =
     (let r = rm_response m; ok = (ri_result r = ASTERNET_OK) in
      s\<lparr>ms_dns := update_stage (ms_dns s) True (\<not> dns_failed m) (dns_failed m) (ri_dns_ms r),
        ms_connect := (if connect_started m
          then update_stage (ms_connect s) True (\<not> connect_failed m) (connect_failed m) (ri_connect_ms r)
          else ms_connect s),
        ms_tls := (if tls_started m
          then update_stage (ms_tls s) True (\<not> tls_failed m) (tls_failed m) (ri_tls_ms r) else ms_tls s),
        ms_ttfb := (if ttfb_started m
          then update_stage (ms_ttfb s) True (\<not> ri_ttfb_ms r < 0) (ri_ttfb_ms r < 0) (ri_ttfb_ms r) else ms_ttfb s),
        ms_transfer := (if ri_ttfb_ms r \<ge> 0
          then update_stage (ms_transfer s) True ok (\<not> ok) (transfer_ms m) else ms_transfer s),
        ms_total := update_stage (ms_total s) True ok (\<not> ok) (ri_total_ms r)\<rparr>)"

definition tallied_stage :: "request_metrics \<Rightarrow> string" where
  "tallied_stage m =
     (if rm_failure_stage m \<noteq> [] then rm_failure_stage m
      else if ri_result (rm_response m) = ASTERNET_OK then [] else ''internal'')"

definition report_request :: "request_metrics \<Rightarrow> collector \<Rightarrow> collector" where
  "report_request m c =
     (let s = count_stages m (count_request m (mc_snapshot c));
          s = s\<lparr>ms_failure_stages := tally_failure_stage (ms_failure_stages s) (tallied_stage m)\<rparr>;
          events = (if length (mc_events c) = mc_max_events c then tl (mc_events c) else mc_events c) @ [m]
      in c\<lparr>mc_snapshot := s\<lparr>ms_events := length events\<rparr>, mc_events := events\<rparr>)"

definition metrics_report :: "response_info \<Rightarrow> collector \<Rightarrow> collector" where
  "metrics_report r c = report_request (default_metrics\<lparr>rm_response := r\<rparr>) c"

definition metrics_snapshot_of :: "collector \<Rightarrow> metrics_snapshot" where
  "metrics_snapshot_of c = (mc_snapshot c)\<lparr>ms_avg_total_ms := average_ms (ms_total (mc_snapshot c))\<rparr>"

section \<open>JSON text\<close>

definition escape_char :: "char \<Rightarrow> string" where
  "escape_char c =
     (if c = backslash then [backslash, backslash]
      else if c = quote then [backslash, quote]
      else if c = newline then [backslash, CHR ''n'']
      else if c = carriage_return then [backslash, CHR ''r'']
      else if c = tab then [backslash, CHR ''t'']
      else if byte c < 32 then u00_escape c
      else [c])"

definition escape_json :: "string \<Rightarrow> string" where
  "escape_json s = concat (map escape_char s)"

definition stage_json :: "(nat \<Rightarrow> nat \<Rightarrow> string) \<Rightarrow> stage_stats \<Rightarrow> string" where
  "stage_json show_rate s =
     ''{\"started\":'' @ dec_digits (st_started s) @ '',\"succeeded\":'' @ dec_digits (st_succeeded s)
     @ '',\"failed\":'' @ dec_digits (st_failed s) @ '',\"success_rate\":''
     @ (if st_started s = 0 then to_string (-1) else show_rate (st_succeeded s) (st_started s))
     @ '',\"avg_ms\":'' @ to_string (average_ms s) @ '',\"min_ms\":'' @ to_string (st_min_ms s)
     @ '',\"max_ms\":'' @ to_string (st_max_ms s) @ ''}''"

text \<open>The keys of a \<open>std::map\<close> are visited in order.\<close>

fun failure_entries :: "(string \<times> nat) list \<Rightarrow> string" where
  "failure_entries [] = []"
| "failure_entries [(k, n)] = quote # escape_json k @ quote # CHR '':'' # dec_digits n"
| "failure_entries ((k, n) # rest) =
     quote # escape_json k @ quote # CHR '':'' # dec_digits n @ CHR '','' # failure_entries rest"

definition snapshot_json :: "(nat \<Rightarrow> nat \<Rightarrow> string) \<Rightarrow> metrics_snapshot \<Rightarrow> string" where
  "snapshot_json show_rate s =
     ''{\"events\":'' @ dec_digits (ms_events s) @ '',\"metrics\":''
     @ ''{\"requests\":'' @ dec_digits (ms_requests s) @ '',\"success\":'' @ dec_digits (ms_success s)
     @ '',\"failure\":'' @ dec_digits (ms_failure s) @ '',\"degraded\":'' @ dec_digits (ms_degraded s)
     @ '',\"deduplicated\":'' @ dec_digits (ms_deduplicated s)
     @ '',\"connection_reused\":'' @ dec_digits (ms_connection_reused s)
     @ '',\"cache_hit\":'' @ dec_digits (ms_cache_hit s) @ '',\"attempts\":'' @ dec_digits (ms_attempts s)
     @ '',\"avg_total_ms\":'' @ to_string (ms_avg_total_ms s)
     @ '',\"max_total_ms\":'' @ to_string (ms_max_total_ms s) @ '',\"stages\":{''
     @ ''\"dns\":'' @ stage_json show_rate (ms_dns s) @ '',\"connect\":'' @ stage_json show_rate (ms_connect s)
     @ '',\"tls\":'' @ stage_json show_rate (ms_tls s) @ '',\"ttfb\":'' @ stage_json show_rate (ms_ttfb s)
     @ '',\"transfer\":'' @ stage_json show_rate (ms_transfer s)
     @ '',\"total\":'' @ stage_json show_rate (ms_total s) @ ''}'' @ '',\"failure_stages\":{''
     @ failure_entries (sort_key fst (ms_failure_stages s)) @ ''}}'' @ ''}''"

definition metrics_dump :: "(nat \<Rightarrow> nat \<Rightarrow> string) \<Rightarrow> collector \<Rightarrow> string" where
  "metrics_dump show_rate c = snapshot_json show_rate (metrics_snapshot_of c)"

definition recent_events :: "collector \<Rightarrow> request_metrics list" where
  "recent_events c = mc_events c"

section \<open>The funnel\<close>

text \<open>One stage: every start is a success or a failure, and the extremes bound the sampled times.\<close>

definition stage_inv :: "stage_stats \<Rightarrow> bool" where
  "stage_inv s \<longleftrightarrow> st_started s = st_succeeded s + st_failed s
     \<and> (if st_samples s = 0 then st_total_ms s = 0 \<and> st_min_ms s = -1 \<and> st_max_ms s = 0
        else 0 \<le> st_min_ms s \<and> st_min_ms s \<le> st_max_ms s
          \<and> int (st_samples s) * st_min_ms s \<le> st_total_ms s \<and> st_total_ms s \<le> int (st_samples s) * st_max_ms s)"

lemma stage_inv_default [simp]: "stage_inv default_stage"
  by (simp add: stage_inv_def default_stage_def)

lemma update_stage_fields [simp]:
  "st_started (update_stage s a b f ms) = st_started s + (if a then 1 else 0)"
  "st_succeeded (update_stage s a b f ms) = st_succeeded s + (if b then 1 else 0)"
  "st_failed (update_stage s a b f ms) = st_failed s + (if f then 1 else 0)"
  "st_samples (update_stage s a b f ms) = st_samples s + (if 0 \<le> ms then 1 else 0)"
  "st_total_ms (update_stage s a b f ms) = st_total_ms s + (if 0 \<le> ms then ms else 0)"
  "st_min_ms (update_stage s a b f ms) =
     (if 0 \<le> ms \<and> (st_min_ms s < 0 \<or> ms < st_min_ms s) then ms else st_min_ms s)"
  "st_max_ms (update_stage s a b f ms) = (if 0 \<le> ms \<and> ms > st_max_ms s then ms else st_max_ms s)"
  by (simp_all add: update_stage_def Let_def)

lemma update_stage_inv:
  assumes "stage_inv s"
  shows "stage_inv (update_stage s True b (\<not> b) ms)"
proof (cases "0 \<le> ms \<and> st_samples s \<noteq> 0")
  case True
  let ?n = "int (st_samples s)" and ?lo = "min ms (st_min_ms s)" and ?hi = "max ms (st_max_ms s)"
  from True assms have s: "0 \<le> st_min_ms s" "?n * st_min_ms s \<le> st_total_ms s" "st_total_ms s \<le> ?n * st_max_ms s"
    "st_min_ms s \<le> st_max_ms s" by (simp_all add: stage_inv_def)
  have "?n * ?lo \<le> ?n * st_min_ms s" "?n * st_max_ms s \<le> ?n * ?hi" by (simp_all add: mult_left_mono)
  with s have "(?n + 1) * ?lo \<le> st_total_ms s + ms" "st_total_ms s + ms \<le> (?n + 1) * ?hi"
    by (simp_all add: distrib_right)
  moreover have "st_min_ms (update_stage s True b (\<not> b) ms) = ?lo" "st_max_ms (update_stage s True b (\<not> b) ms) = ?hi"
    using True s by auto
  moreover from True s have "0 \<le> ?lo" "?lo \<le> ?hi" by simp_all
  ultimately show ?thesis
    using True assms unfolding stage_inv_def by (simp del: update_stage_fields(6,7) add: add.commute)
next
  case False
  with assms show ?thesis by (auto simp: stage_inv_def)
qed

definition funnel :: "metrics_snapshot \<Rightarrow> bool" where
  "funnel s \<longleftrightarrow> st_started (ms_dns s) = ms_requests s \<and> st_started (ms_total s) = ms_requests s
     \<and> st_succeeded (ms_total s) = ms_success s \<and> st_failed (ms_total s) = ms_failure s
     \<and> st_started (ms_connect s) \<le> st_succeeded (ms_dns s)
     \<and> st_started (ms_tls s) \<le> st_succeeded (ms_connect s)
     \<and> st_started (ms_ttfb s) \<le> st_succeeded (ms_tls s)
     \<and> st_started (ms_transfer s) \<le> ms_requests s
     \<and> ms_requests s \<le> ms_attempts s"

definition stages_inv :: "metrics_snapshot \<Rightarrow> bool" where
  "stages_inv s \<longleftrightarrow> stage_inv (ms_dns s) \<and> stage_inv (ms_connect s) \<and> stage_inv (ms_tls s)
     \<and> stage_inv (ms_ttfb s) \<and> stage_inv (ms_transfer s) \<and> stage_inv (ms_total s)"

text \<open>
  The failure tally: distinct names, at most \<open>kMaxFailureStages\<close> of them and the overflow entry
  \<open>other\<close>.
\<close>

definition tally_bounded :: "(string, nat) table \<Rightarrow> bool" where
  "tally_bounded m \<longleftrightarrow> keys_distinct m
     \<and> (length m \<le> kMaxFailureStages \<or> length m = Suc kMaxFailureStages \<and> map_of m ''other'' \<noteq> None)"

definition tally_sum :: "(string, nat) table \<Rightarrow> nat" where
  "tally_sum m = sum_list (map snd m)"

definition tally_inv :: "metrics_snapshot \<Rightarrow> bool" where
  "tally_inv s \<longleftrightarrow> tally_bounded (ms_failure_stages s)
     \<and> ms_failure s \<le> tally_sum (ms_failure_stages s) \<and> tally_sum (ms_failure_stages s) \<le> ms_requests s"

definition collector_inv :: "collector \<Rightarrow> bool" where
  "collector_inv c \<longleftrightarrow> funnel (mc_snapshot c) \<and> stages_inv (mc_snapshot c) \<and> tally_inv (mc_snapshot c)
     \<and> length (mc_events c) \<le> mc_max_events c \<and> 0 < mc_max_events c
     \<and> ms_events (mc_snapshot c) = length (mc_events c)"

text \<open>The parts of one report keep the three parts of the invariant.\<close>

lemma dns_failed_no_connect: "connect_started m \<Longrightarrow> \<not> dns_failed m"
  by (simp add: connect_started_def)

lemma connect_failed_no_tls: "tls_started m \<Longrightarrow> connect_started m \<and> \<not> connect_failed m"
  by (simp add: tls_started_def)

lemma tls_failed_no_ttfb: "ttfb_started m \<Longrightarrow> tls_started m \<and> \<not> tls_failed m"
  by (simp add: ttfb_started_def)

lemma count_request_stages [simp]:
  "ms_dns (count_request m s) = ms_dns s" "ms_connect (count_request m s) = ms_connect s"
  "ms_tls (count_request m s) = ms_tls s" "ms_ttfb (count_request m s) = ms_ttfb s"
  "ms_transfer (count_request m s) = ms_transfer s" "ms_total (count_request m s) = ms_total s"
  "ms_failure_stages (count_request m s) = ms_failure_stages s"
  by (simp_all add: count_request_def Let_def)

lemma count_stages_other [simp]:
  "ms_requests (count_stages m s) = ms_requests s" "ms_success (count_stages m s) = ms_success s"
  "ms_failure (count_stages m s) = ms_failure s" "ms_attempts (count_stages m s) = ms_attempts s"
  "ms_failure_stages (count_stages m s) = ms_failure_stages s"
  by (simp_all add: count_stages_def Let_def)

lemma count_funnel:
  assumes "funnel s"
  shows "funnel (count_stages m (count_request m s))"
  using assms dns_failed_no_connect [of m] connect_failed_no_tls [of m] tls_failed_no_ttfb [of m]
  unfolding funnel_def count_stages_def count_request_def Let_def
  by (cases "connect_started m"; cases "tls_started m"; cases "ttfb_started m")
    (simp_all, linarith+)

lemma count_stages_inv:
  assumes "stages_inv s"
  shows "stages_inv (count_stages m (count_request m s))"
  using assms update_stage_inv [of _ "\<not> _"] update_stage_inv
  unfolding stages_inv_def count_stages_def Let_def
  by simp

lemma bump_domain: "map_of (bump k m) j \<noteq> None \<longleftrightarrow> j = k \<or> map_of m j \<noteq> None"
  by (simp add: bump_def update_conv)

lemma bump_length: "length (bump k m) = (if map_of m k = None then Suc (length m) else length m)"
  by (simp add: bump_def length_update)

lemma bump_distinct [simp]: "keys_distinct m \<Longrightarrow> keys_distinct (bump k m)"
  by (simp add: bump_def)

lemma tally_bounded_step: "tally_bounded m \<Longrightarrow> tally_bounded (tally_failure_stage m stage)"
  unfolding tally_bounded_def tally_failure_stage_def Let_def
  by (auto simp: bump_length bump_domain simp del: not_None_eq)

lemma tally_sum_bump: "keys_distinct m \<Longrightarrow> tally_sum (bump k m) = Suc (tally_sum m)"
proof (induction m)
  case Nil
  then show ?case by (simp add: bump_def tally_sum_def)
next
  case (Cons p m)
  obtain a b where p: "p = (a, b)" by (cases p)
  from Cons have "tally_sum (bump k m) = Suc (tally_sum m)" by (simp add: keys_distinct_def)
  then show ?case by (simp add: p bump_def tally_sum_def)
qed

lemma tally_sum_step:
  "keys_distinct m \<Longrightarrow> tally_sum (tally_failure_stage m stage) = tally_sum m + (if stage = [] then 0 else 1)"
  by (simp add: tally_failure_stage_def Let_def tally_sum_bump)

section \<open>The collector as a function of what was reported\<close>

definition report_all :: "request_metrics list \<Rightarrow> collector \<Rightarrow> collector" where
  "report_all ms c = fold report_request ms c"

lemma report_all_snoc [simp]: "report_all (ms @ [m]) c = report_request m (report_all ms c)"
  by (simp add: report_all_def)

lemma report_all_Nil [simp]: "report_all [] c = c"
  by (simp add: report_all_def)

text \<open>
  The abstract specification computes every figure from the whole list of reports: one stage from
  which reports started it, which of those succeeded and the times they measured.
\<close>

definition stage_times :: "(request_metrics \<Rightarrow> bool) \<Rightarrow> (request_metrics \<Rightarrow> int) \<Rightarrow> request_metrics list \<Rightarrow> int list" where
  "stage_times started time ms = filter (\<lambda>t. 0 \<le> t) (map time (filter started ms))"

definition stage_spec ::
  "(request_metrics \<Rightarrow> bool) \<Rightarrow> (request_metrics \<Rightarrow> bool) \<Rightarrow> (request_metrics \<Rightarrow> int) \<Rightarrow> request_metrics list
     \<Rightarrow> stage_stats"
where
  "stage_spec started ok time ms =
     (let ts = stage_times started time ms in
      \<lparr>st_started = length (filter started ms),
       st_succeeded = length (filter (\<lambda>m. started m \<and> ok m) ms),
       st_failed = length (filter (\<lambda>m. started m \<and> \<not> ok m) ms),
       st_samples = length ts, st_total_ms = sum_list ts,
       st_min_ms = (if ts = [] then -1 else Min (set ts)),
       st_max_ms = (if ts = [] then 0 else Max (set ts))\<rparr>)"

lemma stage_times_snoc:
  "stage_times started time (ms @ [m]) =
     stage_times started time ms @ (if started m \<and> 0 \<le> time m then [time m] else [])"
  by (simp add: stage_times_def)

lemma stage_times_nonneg: "t \<in> set (stage_times started time ms) \<Longrightarrow> 0 \<le> t"
  by (simp add: stage_times_def)

lemma stage_spec_snoc:
  "stage_spec started ok time (ms @ [m]) =
     (if started m then update_stage (stage_spec started ok time ms) True (ok m) (\<not> ok m) (time m)
      else stage_spec started ok time ms)"
proof -
  let ?ts = "stage_times started time ms" and ?t = "time m"
  have "Min (set (?ts @ [?t])) = min ?t (Min (set ?ts))" "Max (set (?ts @ [?t])) = max ?t (Max (set ?ts))"
    and "0 \<le> Min (set ?ts)" "0 \<le> Max (set ?ts)" if "?ts \<noteq> []"
  proof -
    from that show "Min (set (?ts @ [?t])) = min ?t (Min (set ?ts))" "Max (set (?ts @ [?t])) = max ?t (Max (set ?ts))"
      by simp_all
    from that show "0 \<le> Min (set ?ts)" "0 \<le> Max (set ?ts)"
      using stage_times_nonneg [of _ started time ms] Max_in [of "set ?ts"] by auto
  qed
  note ext = this
  show ?thesis
  proof (cases "started m \<and> 0 \<le> ?t \<and> ?ts \<noteq> []")
    case False
    then show ?thesis by (auto simp: stage_spec_def stage_times_snoc update_stage_def Let_def)
  next
    case True
    then have s: "started m" and t: "0 \<le> ?t" and ne: "?ts \<noteq> []" by simp_all
    have ts: "stage_times started time (ms @ [m]) = ?ts @ [?t]" by (simp add: stage_times_snoc s t)
    have lo: "\<not> Min (set ?ts) < 0" using ext(3) [OF ne] by linarith
    show ?thesis
      unfolding stage_spec_def Let_def ts ext(1) [OF ne] ext(2) [OF ne] update_stage_def
      by (simp only: s t ne lo if_True if_False stage_stats.simps stage_stats.update_convs) (simp add: s lo min_def max_def)
  qed
qed

lemma stage_spec_Nil [simp]: "stage_spec started ok time [] = default_stage"
  by (simp add: stage_spec_def stage_times_def default_stage_def Let_def)

abbreviation report_ok :: "request_metrics \<Rightarrow> bool" where
  "report_ok m \<equiv> ri_result (rm_response m) = ASTERNET_OK"

definition snapshot_spec :: "request_metrics list \<Rightarrow> metrics_snapshot \<Rightarrow> bool" where
  "snapshot_spec ms s \<longleftrightarrow>
     ms_requests s = length ms
     \<and> ms_success s = length (filter report_ok ms)
     \<and> ms_failure s = length (filter (\<lambda>m. \<not> report_ok m) ms)
     \<and> ms_degraded s = length (filter (\<lambda>m. ri_degraded (rm_response m) \<noteq> 0) ms)
     \<and> ms_deduplicated s = length (filter rm_deduplicated ms)
     \<and> ms_connection_reused s = length (filter rm_connection_reused ms)
     \<and> ms_cache_hit s = length (filter rm_cache_hit ms)
     \<and> ms_attempts s = sum_list (map (\<lambda>m. nat (max 1 (rm_attempts m))) ms)
     \<and> ms_dns s = stage_spec (\<lambda>_. True) (\<lambda>m. \<not> dns_failed m) (\<lambda>m. ri_dns_ms (rm_response m)) ms
     \<and> ms_connect s = stage_spec connect_started (\<lambda>m. \<not> connect_failed m) (\<lambda>m. ri_connect_ms (rm_response m)) ms
     \<and> ms_tls s = stage_spec tls_started (\<lambda>m. \<not> tls_failed m) (\<lambda>m. ri_tls_ms (rm_response m)) ms
     \<and> ms_ttfb s = stage_spec ttfb_started (\<lambda>m. \<not> ri_ttfb_ms (rm_response m) < 0) (\<lambda>m. ri_ttfb_ms (rm_response m)) ms
     \<and> ms_transfer s = stage_spec (\<lambda>m. 0 \<le> ri_ttfb_ms (rm_response m)) report_ok transfer_ms ms
     \<and> ms_total s = stage_spec (\<lambda>_. True) report_ok (\<lambda>m. ri_total_ms (rm_response m)) ms"

lemma snapshot_spec_Nil: "snapshot_spec [] default_metrics_snapshot"
  by (simp add: snapshot_spec_def default_metrics_snapshot_def)

lemma snapshot_spec_step:
  assumes "snapshot_spec ms s"
  shows "snapshot_spec (ms @ [m]) (count_stages m (count_request m s))"
  using assms
  unfolding snapshot_spec_def stage_spec_snoc count_stages_def count_request_def Let_def
  by (simp add: max_def)

lemma snapshot_spec_other [simp]:
  "snapshot_spec ms (s\<lparr>ms_failure_stages := f\<rparr>) = snapshot_spec ms s"
  "snapshot_spec ms (s\<lparr>ms_events := n\<rparr>) = snapshot_spec ms s"
  by (simp_all add: snapshot_spec_def)

lemma last_n_snoc:
  assumes "0 < n"
  shows "(let evs = drop (length xs - n) xs in (if length evs = n then tl evs else evs) @ [x])
    = drop (length (xs @ [x]) - n) (xs @ [x])"
proof (cases "n \<le> length xs")
  case True
  with assms have "length (drop (length xs - n) xs) = n" by simp
  moreover have "tl (drop (length xs - n) xs) = drop (Suc (length xs) - n) xs"
    using True by (simp add: tl_drop Suc_diff_le drop_Suc)
  ultimately show ?thesis using assms True by (simp add: Let_def Suc_diff_le)
next
  case False
  then show ?thesis by (simp add: Let_def)
qed

lemma report_all_spec:
  "mc_max_events (report_all ms (MetricsCollectorImpl n)) = max 1 n
   \<and> snapshot_spec ms (mc_snapshot (report_all ms (MetricsCollectorImpl n)))
   \<and> mc_events (report_all ms (MetricsCollectorImpl n)) = drop (length ms - max 1 n) ms"
proof (induction ms rule: rev_induct)
  case Nil
  then show ?case by (simp add: MetricsCollectorImpl_def snapshot_spec_Nil)
next
  case (snoc m ms)
  have pos: "0 < max 1 n" by simp
  from snoc last_n_snoc [OF pos, of ms m] show ?case
    by (simp only: report_all_snoc report_request_def Let_def collector.simps collector.update_convs
      snapshot_spec_other) (simp add: snapshot_spec_step)
qed

lemma collector_inv_init: "collector_inv (MetricsCollectorImpl n)"
  by (simp add: collector_inv_def MetricsCollectorImpl_def default_metrics_snapshot_def funnel_def
      stages_inv_def tally_inv_def tally_bounded_def tally_sum_def default_stage_def stage_inv_def)

lemma funnel_other [simp]:
  "funnel (s\<lparr>ms_failure_stages := f\<rparr>) = funnel s" "funnel (s\<lparr>ms_events := n\<rparr>) = funnel s"
  "stages_inv (s\<lparr>ms_failure_stages := f\<rparr>) = stages_inv s" "stages_inv (s\<lparr>ms_events := n\<rparr>) = stages_inv s"
  by (simp_all add: funnel_def stages_inv_def)

lemma tally_inv_step:
  assumes "tally_inv s"
  shows "tally_inv ((count_stages m (count_request m s))
    \<lparr>ms_failure_stages := tally_failure_stage (ms_failure_stages s) (tallied_stage m), ms_events := n\<rparr>)"
proof -
  from assms have b: "tally_bounded (ms_failure_stages s)" and k: "keys_distinct (ms_failure_stages s)"
    and le: "ms_failure s \<le> tally_sum (ms_failure_stages s)" "tally_sum (ms_failure_stages s) \<le> ms_requests s"
    by (simp_all add: tally_inv_def tally_bounded_def)
  have counts: "ms_failure (count_request m s) = ms_failure s + (if report_ok m then 0 else 1)"
    "ms_requests (count_request m s) = ms_requests s + 1"
    by (simp_all add: count_request_def Let_def)
  have "tallied_stage m = [] \<Longrightarrow> report_ok m" by (simp add: tallied_stage_def split: if_splits)
  with le show ?thesis
    unfolding tally_inv_def
    by (simp add: tally_bounded_step [OF b] tally_sum_step [OF k] counts)
qed

lemma collector_inv_step:
  assumes "collector_inv c"
  shows "collector_inv (report_request m c)"
  using assms count_funnel [of "mc_snapshot c" m] count_stages_inv [of "mc_snapshot c" m]
    tally_inv_step [where s = "mc_snapshot c" and m = m]
  unfolding collector_inv_def report_request_def Let_def
  by simp

lemma collector_inv_all: "collector_inv c \<Longrightarrow> collector_inv (report_all ms c)"
  by (induction ms rule: rev_induct) (simp_all add: collector_inv_step)

lemma average_between:
  assumes "stage_inv s" and "0 < st_samples s"
  shows "st_min_ms s \<le> average_ms s \<and> average_ms s \<le> st_max_ms s"
proof -
  let ?n = "int (st_samples s)"
  from assms have "?n * st_min_ms s \<le> st_total_ms s" "st_total_ms s \<le> ?n * st_max_ms s" "0 < ?n"
    by (simp_all add: stage_inv_def)
  then have "st_min_ms s \<le> st_total_ms s div ?n" "st_total_ms s div ?n \<le> st_max_ms s"
    using zdiv_mono1 [of "?n * st_min_ms s" "st_total_ms s" ?n] zdiv_mono1 [of "st_total_ms s" "?n * st_max_ms s" ?n]
    by simp_all
  with assms(2) show ?thesis by (simp add: average_ms_def)
qed

definition averages_sound :: "metrics_snapshot \<Rightarrow> bool" where
  "averages_sound s \<longleftrightarrow>
     list_all (\<lambda>st. st_samples st = 0 \<and> average_ms st = -1
         \<or> st_min_ms st \<le> average_ms st \<and> average_ms st \<le> st_max_ms st)
       [ms_dns s, ms_connect s, ms_tls s, ms_ttfb s, ms_transfer s, ms_total s]"

lemma averages_sound_inv: "stages_inv s \<Longrightarrow> averages_sound s"
  using average_between by (auto simp: averages_sound_def stages_inv_def average_ms_def)

section \<open>Properties\<close>

text \<open>
  Property C27. The collector refines its log: after any sequence of reports, each counter, each
  stage (starts, successes, failures, samples, sum, minimum and maximum of the measured times) and
  the average handed out by \<open>snapshot()\<close> are the figures computed from the complete list of
  reports, and the retained events are exactly the last \<open>max(1, max_events)\<close> reports, in order.
\<close>

theorem metrics_refine_log:
  "let c = report_all ms (MetricsCollectorImpl n); s = metrics_snapshot_of c in
     snapshot_spec ms s
     \<and> ms_avg_total_ms s = average_ms (stage_spec (\<lambda>_. True) report_ok (\<lambda>m. ri_total_ms (rm_response m)) ms)
     \<and> recent_events c = drop (length ms - max 1 n) ms"
  using report_all_spec [of ms n]
  by (simp add: Let_def metrics_snapshot_of_def recent_events_def snapshot_spec_def)

text \<open>
  In every reachable state of the collector the funnel narrows (every request starts
  the DNS and the total stage; connects are at most the DNS successes, handshakes at most the
  connects that succeeded, first bytes at most the handshakes that succeeded), every stage's starts
  are its successes and failures, its minimum, average and maximum are in order, requests are
  successes and failures, and the tally of failure stages names every failed request while it stays
  within \<open>kMaxFailureStages\<close> names and the overflow entry.
\<close>

theorem metrics_funnel:
  "let c = report_all ms (MetricsCollectorImpl n) in
     collector_inv c \<and> averages_sound (mc_snapshot c)
     \<and> ms_requests (mc_snapshot c) = ms_success (mc_snapshot c) + ms_failure (mc_snapshot c)"
proof -
  have inv: "collector_inv (report_all ms (MetricsCollectorImpl n))"
    by (rule collector_inv_all [OF collector_inv_init])
  then show ?thesis
    unfolding Let_def
    by (simp add: averages_sound_inv collector_inv_def funnel_def stages_inv_def stage_inv_def)
qed

text \<open>The escaper against the reader, one character at a time.\<close>

lemma json_string_escape_char:
  "json_string (escape_char c @ s) = map_option (apfst (Cons c)) (json_string s)"
proof (cases "c = backslash \<or> c = quote \<or> c = newline \<or> c = carriage_return \<or> c = tab")
  case True
  then show ?thesis
    by (elim disjE) (simp_all add: escape_char_def json_string_escape single_escape_def)
next
  case False
  then show ?thesis
    by (cases "byte c < 32") (simp_all add: escape_char_def json_string_u00 json_string_plain)
qed

text \<open>
  Any text survives the JSON escaping of the metrics dump: reading the escaped text up
  to the closing quote gives back the text and stops exactly there, whatever follows. In
  particular no failure stage can break out of its string literal.
\<close>

theorem escape_json_roundtrip: "json_string (escape_json s @ quote # rest) = Some (s, rest)"
  by (induction s) (simp_all add: escape_json_def json_string_quote json_string_escape_char)

end
