(* ===== verification/Transport.thy ===== *)
theory Transport
  imports Api_Types
begin

text \<open>
  What the TCP engines share: the C number parsers and the header syntax they use, TLS trust and
  verification (\<open>platform/tls.cpp\<close>), and the establishment of a verified connection.

  The operating system and the TLS library are parameters: a record of operations on the world. A
  call that can fail returns what the code tests (a descriptor, a success flag), and every release
  of a resource is an operation of its own, so that a leak is visible as a missing call.
\<close>

section \<open>C number parsers\<close>

definition digit_value :: "char \<Rightarrow> nat option" where
  "digit_value c =
     (if isdigit c then Some (byte c - 48)
      else if 97 \<le> byte c \<and> byte c \<le> 122 then Some (byte c - 87)
      else if 65 \<le> byte c \<and> byte c \<le> 90 then Some (byte c - 55) else None)"

definition is_digit_of :: "nat \<Rightarrow> char \<Rightarrow> bool" where
  "is_digit_of base c \<longleftrightarrow> (case digit_value c of Some d \<Rightarrow> d < base | None \<Rightarrow> False)"

definition number_value :: "nat \<Rightarrow> string \<Rightarrow> nat" where
  "number_value base ds = foldl (\<lambda>acc c. acc * base + the (digit_value c)) 0 ds"

text \<open>
  \<open>strtoull\<close>: the value, whether \<open>errno\<close> became \<open>ERANGE\<close>, and the text at \<open>end\<close>, or \<open>None\<close> where
  there was no conversion and \<open>end\<close> is the start of the text. A sign is accepted, and a minus
  negates modulo \<open>2^64\<close>.
\<close>

definition skip_sign :: "string \<Rightarrow> bool \<times> string" where
  "skip_sign s =
     (case s of [] \<Rightarrow> (False, [])
      | c # r \<Rightarrow> if c = CHR ''-'' then (True, r) else if c = CHR ''+'' then (False, r) else (False, s))"

definition skip_hex_prefix :: "nat \<Rightarrow> string \<Rightarrow> string" where
  "skip_hex_prefix base s =
     (case s of
        z # x # c # r \<Rightarrow>
          if base = 16 \<and> z = CHR ''0'' \<and> tolower x = CHR ''x'' \<and> is_digit_of 16 c then c # r else s
      | _ \<Rightarrow> s)"

definition strtoull :: "nat \<Rightarrow> string \<Rightarrow> nat \<times> bool \<times> string option" where
  "strtoull base s =
     (let (neg, s1) = skip_sign (dropWhile isspace (c_str s));
          s2 = skip_hex_prefix base s1;
          ds = takeWhile (is_digit_of base) s2;
          v = number_value base ds
      in if ds = [] then (0, False, None)
         else if 2 ^ 64 \<le> v then (2 ^ 64 - 1, True, Some (dropWhile (is_digit_of base) s2))
         else (if neg then (2 ^ 64 - v) mod 2 ^ 64 else v, False, Some (dropWhile (is_digit_of base) s2)))"

text \<open>\<open>atoi\<close>: an optional sign and decimal digits after white space, 0 where there are none.\<close>

definition atoi :: "string \<Rightarrow> int" where
  "atoi s =
     (let (neg, s1) = skip_sign (dropWhile isspace (c_str s));
          v = int (number_value 10 (takeWhile (is_digit_of 10) s1))
      in if neg then - v else v)"

section \<open>Header syntax\<close>

text \<open>The bytes of a \<open>token\<close>, as both engines test them.\<close>

definition token_char :: "char \<Rightarrow> bool" where
  "token_char c \<longleftrightarrow> isalnum c \<or> c \<in> set ''!#$%&*+-.^_`|~'' \<or> byte c = 39"

definition hop_by_hop :: "string \<Rightarrow> bool" where
  "hop_by_hop lower_name \<longleftrightarrow>
     lower_name \<in> {''host'', ''connection'', ''content-length'', ''transfer-encoding'', ''keep-alive'',
                   ''proxy-connection'', ''upgrade''}"

definition lower :: "string \<Rightarrow> string" where
  "lower s = map tolower s"

definition is_blank :: "char \<Rightarrow> bool" where
  "is_blank c \<longleftrightarrow> c = CHR '' '' \<or> c = tab"

definition trim_blanks :: "string \<Rightarrow> string" where
  "trim_blanks s = rev (dropWhile is_blank (rev (dropWhile is_blank s)))"

definition request_line_unsafe :: "request \<Rightarrow> bool" where
  "request_line_unsafe req \<longleftrightarrow>
     has_crlf (req_host req) \<or> has_crlf (req_connect_host req) \<or> has_crlf (req_method req) \<or> has_crlf (req_path req)"

lemma token_char_not_crlf: "token_char c \<Longrightarrow> c \<noteq> carriage_return \<and> c \<noteq> newline \<and> c \<noteq> CHR '':'' \<and> c \<noteq> CHR '' ''"
  by (auto simp: token_char_def isalnum_def isdigit_def byte_def)

section \<open>TLS: trust stores and certificate chains (platform/tls.cpp)\<close>

text \<open>
  The certificate library is a parameter: the DER texts of the PEM blocks of a bundle, whether a
  store accepts a certificate, and the outcomes of the chain verification calls.
\<close>

record x509_lib =
  xl_ctx_new :: bool
  xl_bio_ok :: "string \<Rightarrow> bool"
  xl_pem_blocks :: "string \<Rightarrow> string list"
  xl_store_add :: "string \<Rightarrow> bool"
  xl_default_paths :: bool
  xl_stack_new :: bool
  xl_parse_der :: "string \<Rightarrow> bool"
  xl_stack_push :: "string \<Rightarrow> bool"
  xl_store_ctx :: "string \<Rightarrow> string list \<Rightarrow> bool"
  xl_verify :: "string list option \<Rightarrow> string \<Rightarrow> string \<Rightarrow> string list \<Rightarrow> bool"

definition load_ca_bundle :: "x509_lib \<Rightarrow> string \<Rightarrow> bool" where
  "load_ca_bundle lib pem =
     (if pem = [] \<or> \<not> xl_bio_ok lib pem then False
      else 0 < length (filter (xl_store_add lib) (xl_pem_blocks lib pem)))"

text \<open>The anchors a store holds: those of the bundle, or (\<open>None\<close>) those of the system.\<close>

definition trust_anchors :: "x509_lib \<Rightarrow> string \<Rightarrow> string list option" where
  "trust_anchors lib pem = (if pem = [] then None else Some (filter (xl_store_add lib) (xl_pem_blocks lib pem)))"

definition parse_chain :: "x509_lib \<Rightarrow> string list \<Rightarrow> bool" where
  "parse_chain lib certs \<longleftrightarrow> xl_stack_new lib \<and> list_all (xl_parse_der lib) certs \<and> list_all (xl_stack_push lib) (tl certs)"

definition verify_certificate_chain :: "x509_lib \<Rightarrow> string \<Rightarrow> string \<Rightarrow> string list \<Rightarrow> bool" where
  "verify_certificate_chain lib pem host certs =
     (if host = [] \<or> certs = [] then False
      else if \<not> xl_ctx_new lib \<or> (pem \<noteq> [] \<and> \<not> load_ca_bundle lib pem) then False
      else if pem = [] \<and> \<not> xl_default_paths lib then False
      else if \<not> parse_chain lib certs then False
      else if \<not> xl_store_ctx lib (hd certs) (tl certs) then False
      else xl_verify lib (trust_anchors lib pem) host (hd certs) (tl certs))"

section \<open>Connections\<close>

record pooled_connection =
  pc_fd :: int
  pc_host :: string
  pc_endpoint :: string
  pc_port :: nat
  pc_ca_cert_pem :: string
  pc_network_epoch :: nat
  pc_allow_insecure :: bool

record engine_config =
  ec_allow_insecure_tls_for_testing :: bool
  ec_ca_cert_pem :: string
  ec_testing_build :: bool

text \<open>\<open>ec_testing_build\<close> is the preprocessor symbol \<open>ASTERNET_ALLOW_INSECURE_TLS_FOR_TESTING\<close>.\<close>

definition allow_insecure :: "engine_config \<Rightarrow> bool" where
  "allow_insecure cfg = (if ec_testing_build cfg then ec_allow_insecure_tls_for_testing cfg else False)"

definition endpoint_of :: "request \<Rightarrow> string" where
  "endpoint_of req = (if req_connect_host req = [] then req_host req else req_connect_host req)"

definition ca_bundle_of :: "engine_config \<Rightarrow> request \<Rightarrow> string" where
  "ca_bundle_of cfg req = (if req_ca_cert_pem req = [] then ec_ca_cert_pem cfg else req_ca_cert_pem req)"

definition same_origin :: "engine_config \<Rightarrow> request \<Rightarrow> pooled_connection \<Rightarrow> bool" where
  "same_origin cfg req pc \<longleftrightarrow>
     pc_host pc = req_host req \<and> pc_endpoint pc = endpoint_of req \<and> pc_port pc = req_port req
     \<and> pc_ca_cert_pem pc = ca_bundle_of cfg req \<and> pc_network_epoch pc = req_network_epoch req
     \<and> pc_allow_insecure pc = allow_insecure cfg"

definition new_connection :: "engine_config \<Rightarrow> request \<Rightarrow> int \<Rightarrow> pooled_connection" where
  "new_connection cfg req fd =
     \<lparr>pc_fd = fd, pc_host = req_host req, pc_endpoint = endpoint_of req, pc_port = req_port req,
      pc_ca_cert_pem = ca_bundle_of cfg req, pc_network_epoch = req_network_epoch req,
      pc_allow_insecure = allow_insecure cfg\<rparr>"

lemma same_origin_new [simp]: "same_origin cfg req (new_connection cfg req fd)"
  by (simp add: same_origin_def new_connection_def)

text \<open>What a handshake is asked to enforce.\<close>

record tls_setup =
  ts_verify_peer :: bool
  ts_ca_bundle :: string
  ts_sni :: string
  ts_verify_host :: "string option"
  ts_alpn :: "string option"

definition tls_setup_of :: "engine_config \<Rightarrow> request \<Rightarrow> string option \<Rightarrow> tls_setup" where
  "tls_setup_of cfg req alpn =
     \<lparr>ts_verify_peer = (\<not> allow_insecure cfg), ts_ca_bundle = ca_bundle_of cfg req,
      ts_sni = c_str (req_host req),
      ts_verify_host = (if allow_insecure cfg then None else Some (c_str (req_host req))), ts_alpn = alpn\<rparr>"

definition strict_tls :: "tls_setup \<Rightarrow> bool" where
  "strict_tls t \<longleftrightarrow> ts_verify_peer t \<and> ts_verify_host t = Some (ts_sni t)"

lemma production_tls_strict: "\<not> ec_testing_build cfg \<Longrightarrow> strict_tls (tls_setup_of cfg req alpn)"
  by (simp add: strict_tls_def tls_setup_of_def allow_insecure_def)

text \<open>The calls of the operating system and the TLS library that both engines make.\<close>

record 'w net_env =
  ne_now :: "'w clock"
  ne_getaddrinfo :: "string \<Rightarrow> string \<Rightarrow> 'w \<Rightarrow> string list \<times> 'w"
  ne_socket :: "string \<Rightarrow> 'w \<Rightarrow> int \<times> 'w"
  ne_close :: "int \<Rightarrow> 'w \<Rightarrow> 'w"
  ne_ctx_new :: "'w \<Rightarrow> bool \<times> 'w"
  ne_load_ca :: "string \<Rightarrow> 'w \<Rightarrow> bool \<times> 'w"
  ne_default_paths :: "'w \<Rightarrow> bool \<times> 'w"
  ne_ctx_free :: "'w \<Rightarrow> 'w"
  ne_ssl_new :: "'w \<Rightarrow> bool \<times> 'w"
  ne_ssl_free :: "'w \<Rightarrow> 'w"
  ne_set_sni :: "string \<Rightarrow> 'w \<Rightarrow> bool \<times> 'w"
  ne_set1_host :: "string \<Rightarrow> 'w \<Rightarrow> bool \<times> 'w"

definition elapsed_since :: "('w, 'e) net_env_scheme \<Rightarrow> int \<Rightarrow> 'w \<Rightarrow> int \<times> 'w" where
  "elapsed_since env t w = (let (now, w) = ne_now env w in (now - t, w))"

text \<open>Roots of trust: the bundle where there is one, the system's otherwise.\<close>

definition trust_ready :: "('w, 'e) net_env_scheme \<Rightarrow> engine_config \<Rightarrow> request \<Rightarrow> 'w \<Rightarrow> bool \<times> 'w" where
  "trust_ready env cfg req w =
     (if allow_insecure cfg then (True, w)
      else if ca_bundle_of cfg req \<noteq> [] then ne_load_ca env (ca_bundle_of cfg req) w
      else ne_default_paths env w)"

definition close_tls :: "('w, 'e) net_env_scheme \<Rightarrow> int \<Rightarrow> 'w \<Rightarrow> 'w" where
  "close_tls env fd w = ne_close env fd (ne_ctx_free env (ne_ssl_free env w))"

definition close_ctx :: "('w, 'e) net_env_scheme \<Rightarrow> int \<Rightarrow> 'w \<Rightarrow> 'w" where
  "close_ctx env fd w = ne_close env fd (ne_ctx_free env w)"

definition close_connection ::
  "('w, 'e) net_env_scheme \<Rightarrow> pooled_connection option \<times> 'w \<Rightarrow> pooled_connection option \<times> 'w" where
  "close_connection env cw =
     (case cw of (None, w) \<Rightarrow> (None, w) | (Some pc, w) \<Rightarrow> (None, close_tls env (pc_fd pc) w))"

lemma close_connection_None [simp]: "fst (close_connection env cw) = None"
  by (auto simp: close_connection_def split: prod.splits option.splits)

section \<open>Resource discipline\<close>

text \<open>
  \<open>I s c l w\<close> reads: in the world \<open>w\<close> the component holds \<open>s\<close> sockets, \<open>c\<close> TLS contexts and \<open>l\<close> TLS
  sessions. The discipline says how each call moves the counts; a release needs something to
  release. A component that keeps it neither leaks nor frees twice, for every \<open>I\<close>, in particular for
  those that also record what the calls were.
\<close>

type_synonym 'w holding = "nat \<Rightarrow> nat \<Rightarrow> nat \<Rightarrow> 'w \<Rightarrow> bool"

definition call_keeps :: "'w holding \<Rightarrow> ('w \<Rightarrow> 'x \<times> 'w) \<Rightarrow> bool" where
  "call_keeps I f \<longleftrightarrow> (\<forall>s c l w. I s c l w \<longrightarrow> I s c l (snd (f w)))"

definition call_gains :: "'w holding \<Rightarrow> 'w holding \<Rightarrow> ('x \<Rightarrow> bool) \<Rightarrow> ('w \<Rightarrow> 'x \<times> 'w) \<Rightarrow> bool" where
  "call_gains I J ok f \<longleftrightarrow>
     (\<forall>s c l w. I s c l w \<longrightarrow> (if ok (fst (f w)) then J s c l (snd (f w)) else I s c l (snd (f w))))"

definition call_releases :: "'w holding \<Rightarrow> 'w holding \<Rightarrow> ('w \<Rightarrow> 'w) \<Rightarrow> bool" where
  "call_releases J I f \<longleftrightarrow> (\<forall>s c l w. J s c l w \<longrightarrow> I s c l (f w))"

definition net_discipline :: "('w, 'e) net_env_scheme \<Rightarrow> 'w holding \<Rightarrow> bool" where
  "net_discipline env I \<longleftrightarrow>
     call_keeps I (ne_now env)
     \<and> (\<forall>h p. call_keeps I (ne_getaddrinfo env h p))
     \<and> (\<forall>a. call_gains I (\<lambda>s. I (Suc s)) (\<lambda>fd. 0 \<le> fd) (ne_socket env a))
     \<and> (\<forall>fd. call_releases (\<lambda>s. I (Suc s)) I (ne_close env fd))
     \<and> call_gains I (\<lambda>s c. I s (Suc c)) (\<lambda>ok. ok) (ne_ctx_new env)
     \<and> (\<forall>b. call_keeps (\<lambda>s c. I s (Suc c)) (ne_load_ca env b))
     \<and> call_keeps (\<lambda>s c. I s (Suc c)) (ne_default_paths env)
     \<and> call_releases (\<lambda>s c. I s (Suc c)) I (ne_ctx_free env)
     \<and> call_gains (\<lambda>s c. I s (Suc c)) (\<lambda>s c l. I s (Suc c) (Suc l)) (\<lambda>ok. ok) (ne_ssl_new env)
     \<and> call_releases (\<lambda>s c l. I s c (Suc l)) I (ne_ssl_free env)
     \<and> (\<forall>h. call_keeps (\<lambda>s c l. I s c (Suc l)) (ne_set_sni env h))
     \<and> (\<forall>h. call_keeps (\<lambda>s c l. I s c (Suc l)) (ne_set1_host env h))"

text \<open>
  Which hosts and addresses may be dialled is a condition on their texts; looking up one that may be
  gives only addresses that may be. (Looking up a numeric address gives that address.)
\<close>

definition lookups_within :: "(string \<Rightarrow> bool) \<Rightarrow> (string \<Rightarrow> string \<Rightarrow> 'w \<Rightarrow> string list \<times> 'w) \<Rightarrow> bool" where
  "lookups_within may look \<longleftrightarrow> (\<forall>h p w. may h \<longrightarrow> list_all may (fst (look h p w)))"

lemma lookups_withinD: "lookups_within may look \<Longrightarrow> may h \<Longrightarrow> look h p w = (addrs, w') \<Longrightarrow> list_all may addrs"
  unfolding lookups_within_def by (metis fst_conv)

lemma call_keepsD: "call_keeps I f \<Longrightarrow> I s c l w \<Longrightarrow> f w = (x, w') \<Longrightarrow> I s c l w'"
  unfolding call_keeps_def by (metis snd_conv)

lemma call_gainsD:
  "call_gains I J ok f \<Longrightarrow> I s c l w \<Longrightarrow> f w = (x, w') \<Longrightarrow> if ok x then J s c l w' else I s c l w'"
  unfolding call_gains_def by (metis fst_conv snd_conv)

lemma net_disciplineD:
  assumes "net_discipline env I"
  shows "I s c l w \<Longrightarrow> ne_now env w = (t, w') \<Longrightarrow> I s c l w'"
    and "I s c l w \<Longrightarrow> ne_getaddrinfo env h p w = (addrs, w') \<Longrightarrow> I s c l w'"
    and "I s c l w \<Longrightarrow> ne_socket env a w = (fd, w') \<Longrightarrow> if 0 \<le> fd then I (Suc s) c l w' else I s c l w'"
    and "I (Suc s) c l w \<Longrightarrow> I s c l (ne_close env fd w)"
    and "I s c l w \<Longrightarrow> ne_ctx_new env w = (ok, w') \<Longrightarrow> if ok then I s (Suc c) l w' else I s c l w'"
    and "I s (Suc c) l w \<Longrightarrow> ne_load_ca env b w = (ok, w') \<Longrightarrow> I s (Suc c) l w'"
    and "I s (Suc c) l w \<Longrightarrow> ne_default_paths env w = (ok, w') \<Longrightarrow> I s (Suc c) l w'"
    and "I s (Suc c) l w \<Longrightarrow> I s c l (ne_ctx_free env w)"
    and "I s (Suc c) l w \<Longrightarrow> ne_ssl_new env w = (ok, w') \<Longrightarrow> if ok then I s (Suc c) (Suc l) w' else I s (Suc c) l w'"
    and "I s c (Suc l) w \<Longrightarrow> I s c l (ne_ssl_free env w)"
    and "I s c (Suc l) w \<Longrightarrow> ne_set_sni env h w = (ok, w') \<Longrightarrow> I s c (Suc l) w'"
    and "I s c (Suc l) w \<Longrightarrow> ne_set1_host env h w = (ok, w') \<Longrightarrow> I s c (Suc l) w'"
proof -
  from assms have d: "call_keeps I (ne_now env)" "\<And>h p. call_keeps I (ne_getaddrinfo env h p)"
    "\<And>a. call_gains I (\<lambda>s. I (Suc s)) (\<lambda>fd. 0 \<le> fd) (ne_socket env a)"
    "\<And>fd. call_releases (\<lambda>s. I (Suc s)) I (ne_close env fd)"
    "call_gains I (\<lambda>s c. I s (Suc c)) (\<lambda>ok. ok) (ne_ctx_new env)"
    "\<And>b. call_keeps (\<lambda>s c. I s (Suc c)) (ne_load_ca env b)"
    "call_keeps (\<lambda>s c. I s (Suc c)) (ne_default_paths env)"
    "call_releases (\<lambda>s c. I s (Suc c)) I (ne_ctx_free env)"
    "call_gains (\<lambda>s c. I s (Suc c)) (\<lambda>s c l. I s (Suc c) (Suc l)) (\<lambda>ok. ok) (ne_ssl_new env)"
    "call_releases (\<lambda>s c l. I s c (Suc l)) I (ne_ssl_free env)"
    "\<And>h. call_keeps (\<lambda>s c l. I s c (Suc l)) (ne_set_sni env h)"
    "\<And>h. call_keeps (\<lambda>s c l. I s c (Suc l)) (ne_set1_host env h)"
    unfolding net_discipline_def by simp_all
  show "I s c l w \<Longrightarrow> ne_now env w = (t, w') \<Longrightarrow> I s c l w'" by (rule call_keepsD [OF d(1)])
  show "I s c l w \<Longrightarrow> ne_getaddrinfo env h p w = (addrs, w') \<Longrightarrow> I s c l w'" by (rule call_keepsD [OF d(2)])
  show "I s c l w \<Longrightarrow> ne_socket env a w = (fd, w') \<Longrightarrow> if 0 \<le> fd then I (Suc s) c l w' else I s c l w'"
    by (rule call_gainsD [OF d(3)])
  show "I (Suc s) c l w \<Longrightarrow> I s c l (ne_close env fd w)"
    using d(4) [of fd] unfolding call_releases_def by simp
  show "I s c l w \<Longrightarrow> ne_ctx_new env w = (ok, w') \<Longrightarrow> if ok then I s (Suc c) l w' else I s c l w'"
    by (rule call_gainsD [OF d(5)])
  show "I s (Suc c) l w \<Longrightarrow> ne_load_ca env b w = (ok, w') \<Longrightarrow> I s (Suc c) l w'"
    by (rule call_keepsD [OF d(6)])
  show "I s (Suc c) l w \<Longrightarrow> ne_default_paths env w = (ok, w') \<Longrightarrow> I s (Suc c) l w'"
    by (rule call_keepsD [OF d(7)])
  show "I s (Suc c) l w \<Longrightarrow> I s c l (ne_ctx_free env w)"
    using d(8) unfolding call_releases_def by simp
  show "I s (Suc c) l w \<Longrightarrow> ne_ssl_new env w = (ok, w') \<Longrightarrow> if ok then I s (Suc c) (Suc l) w' else I s (Suc c) l w'"
    by (rule call_gainsD [OF d(9)])
  show "I s c (Suc l) w \<Longrightarrow> I s c l (ne_ssl_free env w)"
    using d(10) unfolding call_releases_def by simp
  show "I s c (Suc l) w \<Longrightarrow> ne_set_sni env h w = (ok, w') \<Longrightarrow> I s c (Suc l) w'"
    by (rule call_keepsD [OF d(11)])
  show "I s c (Suc l) w \<Longrightarrow> ne_set1_host env h w = (ok, w') \<Longrightarrow> I s c (Suc l) w'"
    by (rule call_keepsD [OF d(12)])
qed

lemma elapsed_holds:
  assumes "net_discipline env I" and "I s c l w" and "elapsed_since env t w = (d, w')"
  shows "I s c l w'"
proof -
  obtain now w1 where now: "ne_now env w = (now, w1)" by (rule prod.exhaust)
  with assms(3) have "w' = w1" by (simp add: elapsed_since_def)
  with net_disciplineD(1) [OF assms(1,2) now] show ?thesis by simp
qed

lemma trust_ready_holds:
  assumes "net_discipline env I" and "I s (Suc c) l w" and "trust_ready env cfg req w = (ok, w')"
  shows "I s (Suc c) l w'"
proof -
  have "(\<exists>b. ne_load_ca env b w = (ok, w')) \<or> ne_default_paths env w = (ok, w') \<or> w' = w"
    using assms(3) by (auto simp: trust_ready_def split: if_splits)
  with net_disciplineD(6,7) [OF assms(1,2)] assms(2) show ?thesis by blast
qed

lemma close_ctx_holds:
  "net_discipline env I \<Longrightarrow> I (Suc s) (Suc c) l w \<Longrightarrow> I s c l (close_ctx env fd w)"
  unfolding close_ctx_def
  by (rule net_disciplineD(4), assumption, rule net_disciplineD(8))

lemma close_tls_holds:
  "net_discipline env I \<Longrightarrow> I (Suc s) (Suc c) (Suc l) w \<Longrightarrow> I s c l (close_tls env fd w)"
  unfolding close_tls_def
  by (rule net_disciplineD(4), assumption, rule net_disciplineD(8), assumption, rule net_disciplineD(10))

text \<open>What an engine holds between its calls: everything of its connection, or nothing.\<close>

definition holds_connection :: "'w holding \<Rightarrow> 'c option \<times> 'w \<Rightarrow> bool" where
  "holds_connection I cw \<longleftrightarrow> (let n = (if fst cw = None then 0 else 1) in I n n n (snd cw))"

lemma holds_connection_simps [simp]:
  "holds_connection I (None, w) \<longleftrightarrow> I 0 0 0 w"
  "holds_connection I (Some pc, w) \<longleftrightarrow> I (Suc 0) (Suc 0) (Suc 0) w"
  by (simp_all add: holds_connection_def)

lemma close_connection_holds:
  assumes "net_discipline env I" and "holds_connection I cw" and "close_connection env cw = (c, w')"
  shows "c = None \<and> I 0 0 0 w'"
proof (cases "fst cw")
  case None
  with assms(2,3) show ?thesis by (cases cw) (simp add: close_connection_def)
next
  case (Some pc)
  with assms(2,3) close_tls_holds [OF assms(1)] show ?thesis
    by (cases cw) (auto simp: close_connection_def)
qed

section \<open>Deadlines\<close>

text \<open>
  \<open>T\<close> is the true time in ticks, \<open>K\<close> of them to a millisecond, which the clock counts. A deadline that
  the clock has not reached comes closer with every tick.
\<close>

definition ticks_left :: "('w \<Rightarrow> nat) \<Rightarrow> nat \<Rightarrow> int \<Rightarrow> 'w \<Rightarrow> nat" where
  "ticks_left T K dl w = nat (dl * int K - int (T w))"

lemma ticks_left_mono: "T w \<le> T w' \<Longrightarrow> ticks_left T K dl w' \<le> ticks_left T K dl w"
  by (simp add: ticks_left_def)

lemma before_deadline:
  assumes "0 < K" and "int (T w div K) < dl" and "T w < T w'"
  shows "ticks_left T K dl w' < ticks_left T K dl w"
proof -
  have "int (T w) < dl * int K"
  proof (rule ccontr)
    assume "\<not> int (T w) < dl * int K"
    then have "dl * int K div int K \<le> int (T w) div int K" by (intro zdiv_mono1) (use assms(1) in simp_all)
    with assms(1,2) show False by (simp add: zdiv_int)
  qed
  with assms(3) show ?thesis by (simp add: ticks_left_def)
qed

end
