(* ===== verification/Traceroute.thy ===== *)
theory Traceroute
  imports Complex_Main Ip_Filter Json_Text
begin

text \<open>
  The route trace of \<open>sdt/traceroute.cpp\<close> (the Linux and Android implementation): probes with a growing
  TTL on a connected UDP socket, answered through the socket's error queue.

  The system calls are a parameter. \<open>double\<close> seconds and milliseconds are exact rational numbers here,
  so the rounding of floating point arithmetic is not modelled; the two decimals of the printed text
  are. The loop that waits for an answer need not end and is a partial function.
\<close>

section \<open>Data\<close>

record trace_config =
  tc_max_hops :: int
  tc_probes_per_hop :: int
  tc_probe_timeout_ms :: int

definition default_trace_config :: trace_config where
  "default_trace_config = \<lparr>tc_max_hops = 30, tc_probes_per_hop = 3, tc_probe_timeout_ms = 2000\<rparr>"

record trace_hop =
  th_ttl :: int
  th_addr :: string
  th_rtt_ms :: "rat list"
  th_loss :: nat
  th_reached :: bool

record trace_result =
  tr_host :: string
  tr_port :: nat
  tr_resolved_ip :: string
  tr_ip_version :: int
  tr_max_hops :: int
  tr_probes_per_hop :: int
  tr_status :: string
  tr_error :: string
  tr_hops :: "trace_hop list"

definition default_trace_result :: trace_result where
  "default_trace_result =
     \<lparr>tr_host = [], tr_port = 0, tr_resolved_ip = [], tr_ip_version = 4, tr_max_hops = 0, tr_probes_per_hop = 0,
      tr_status = [], tr_error = [], tr_hops = []\<rparr>"

datatype trace_sockaddr = Trace_IPv4 in_addr | Trace_Other

text \<open>What \<open>connect\<close> and \<open>send\<close> can say: fine, no route (\<open>ENETUNREACH\<close>, \<open>EHOSTUNREACH\<close>), another error.\<close>

datatype send_outcome = Sent | No_Route | Send_Failed

text \<open>
  What \<open>recvmsg\<close> on the error queue gives: nothing there, an error, or a message, which may carry a
  \<open>sock_extended_err\<close>: whether its origin is ICMP, the ICMP type and code and the address of the router.
\<close>

record icmp_error =
  ie_origin_icmp :: bool
  ie_type :: nat
  ie_code :: nat
  ie_offender :: "trace_sockaddr option"

datatype recv_outcome = Nothing_There | Recv_Failed | Message "icmp_error option"

record 'w trace_env =
  te_now :: "'w \<Rightarrow> rat \<times> 'w"
  te_ntop :: "in_addr \<Rightarrow> string option"
  te_getaddrinfo :: "string \<Rightarrow> string \<Rightarrow> 'w \<Rightarrow> trace_sockaddr option \<times> 'w"
  te_socket :: "'w \<Rightarrow> int \<times> 'w"
  te_recverr :: "int \<Rightarrow> 'w \<Rightarrow> bool \<times> 'w"
  te_connect :: "int \<Rightarrow> trace_sockaddr \<Rightarrow> 'w \<Rightarrow> send_outcome \<times> 'w"
  te_set_ttl :: "int \<Rightarrow> int \<Rightarrow> 'w \<Rightarrow> bool \<times> 'w"
  te_send :: "int \<Rightarrow> string \<Rightarrow> 'w \<Rightarrow> send_outcome \<times> 'w"
  te_poll :: "int \<Rightarrow> int \<Rightarrow> 'w \<Rightarrow> int \<times> 'w"
  te_recv :: "int \<Rightarrow> 'w \<Rightarrow> recv_outcome \<times> 'w"
  te_close :: "int \<Rightarrow> 'w \<Rightarrow> 'w"

definition ipv4_to_string :: "'w trace_env \<Rightarrow> trace_sockaddr option \<Rightarrow> string" where
  "ipv4_to_string env sa =
     (case sa of
        Some (Trace_IPv4 a) \<Rightarrow> (case te_ntop env a of None \<Rightarrow> [] | Some s \<Rightarrow> s)
      | _ \<Rightarrow> [])"

section \<open>Waiting for the answer to a probe\<close>

record probe_reply =
  pp_replied :: bool
  pp_is_reached :: bool
  pp_done :: bool
  pp_addr :: string

definition no_reply :: probe_reply where
  "no_reply = \<lparr>pp_replied = False, pp_is_reached = False, pp_done = False, pp_addr = []\<rparr>"

definition ICMP_DEST_UNREACH :: nat where "ICMP_DEST_UNREACH = 3"
definition ICMP_UNREACH_PORT :: nat where "ICMP_UNREACH_PORT = 3"
definition ICMP_TIME_EXCEEDED :: nat where "ICMP_TIME_EXCEEDED = 11"

text \<open>What one error of the queue decides: the answer, or \<open>None\<close> where the wait goes on.\<close>

definition classify_error :: "'w trace_env \<Rightarrow> icmp_error \<Rightarrow> probe_reply option" where
  "classify_error env ee =
     (if \<not> ie_origin_icmp ee then None
      else if ie_type ee = ICMP_TIME_EXCEEDED
      then Some \<lparr>pp_replied = True, pp_is_reached = False, pp_done = False, pp_addr = ipv4_to_string env (ie_offender ee)\<rparr>
      else if ie_type ee = ICMP_DEST_UNREACH
      then Some \<lparr>pp_replied = True, pp_is_reached = (ie_code ee = ICMP_UNREACH_PORT), pp_done = True,
                 pp_addr = ipv4_to_string env (ie_offender ee)\<rparr>
      else None)"

partial_function (option) await_reply ::
  "'w trace_env \<Rightarrow> int \<Rightarrow> rat \<Rightarrow> 'w \<Rightarrow> (probe_reply \<times> 'w) option" where
  "await_reply env fd deadline w =
     (let (now, w) = te_now env w; remaining = deadline - now in
      if remaining \<le> 0 then Some (no_reply, w)
      else
        let (pr, w) = te_poll env fd (\<lfloor>remaining * 1000\<rfloor> + 1) w in
        if pr \<le> 0 then Some (no_reply, w)
        else
          let (r, w) = te_recv env fd w in
          (case r of
             Nothing_There \<Rightarrow> await_reply env fd deadline w
           | Recv_Failed \<Rightarrow> Some (no_reply, w)
           | Message None \<Rightarrow> await_reply env fd deadline w
           | Message (Some ee) \<Rightarrow>
               (case classify_error env ee of
                  Some reply \<Rightarrow> Some (reply, w)
                | None \<Rightarrow> await_reply env fd deadline w)))"

section \<open>Probes and hops\<close>

definition payload :: string where "payload = ''asternet-trace''"

text \<open>
  The state of the nested loops: the hop so far and the flags \<open>reached\<close> and \<open>done\<close>. \<open>Inl hop\<close> is the early
  return without a route.
\<close>

definition lost_probe :: "trace_hop \<Rightarrow> trace_hop" where
  "lost_probe hop = hop\<lparr>th_rtt_ms := th_rtt_ms hop @ [-1], th_loss := th_loss hop + 1\<rparr>"

definition record_reply :: "rat \<Rightarrow> probe_reply \<Rightarrow> trace_hop \<Rightarrow> trace_hop" where
  "record_reply rtt_ms reply hop =
     (let hop = (if th_addr hop = [] then hop\<lparr>th_addr := pp_addr reply\<rparr> else hop);
          hop = (if pp_is_reached reply then hop\<lparr>th_reached := True\<rparr> else hop)
      in hop\<lparr>th_rtt_ms := th_rtt_ms hop @ [rtt_ms]\<rparr>)"

fun trace_probes ::
  "'w trace_env \<Rightarrow> int \<Rightarrow> int \<Rightarrow> nat \<Rightarrow> trace_hop \<Rightarrow> bool \<Rightarrow> bool \<Rightarrow> 'w
     \<Rightarrow> ((trace_hop + trace_hop \<times> bool \<times> bool) \<times> 'w) option" where
  "trace_probes env fd timeout_ms 0 hop reached finished w = Some (Inr (hop, reached, finished), w)"
| "trace_probes env fd timeout_ms (Suc n) hop reached finished w =
     (if reached \<or> finished then Some (Inr (hop, reached, finished), w)
      else
        let (send_time, w) = te_now env w; (sent, w) = te_send env fd payload w in
        case sent of
          No_Route \<Rightarrow> Some (Inl (lost_probe hop), w)
        | Send_Failed \<Rightarrow> trace_probes env fd timeout_ms n (lost_probe hop) reached finished w
        | Sent \<Rightarrow>
            (case await_reply env fd (send_time + of_int timeout_ms / 1000) w of
               None \<Rightarrow> None
             | Some (reply, w) \<Rightarrow>
                 if pp_replied reply
                 then let (now, w) = te_now env w in
                   trace_probes env fd timeout_ms n (record_reply ((now - send_time) * 1000) reply hop)
                     (reached \<or> pp_is_reached reply) (finished \<or> pp_done reply) w
                 else trace_probes env fd timeout_ms n (lost_probe hop) reached finished w))"

definition new_hop :: "int \<Rightarrow> trace_hop" where
  "new_hop ttl = \<lparr>th_ttl = ttl, th_addr = [], th_rtt_ms = [], th_loss = 0, th_reached = False\<rparr>"

text \<open>The loop over the hops, \<open>n\<close> of them left. \<open>Inl\<close> is the early return again.\<close>

fun trace_hops ::
  "'w trace_env \<Rightarrow> int \<Rightarrow> int \<Rightarrow> nat \<Rightarrow> nat \<Rightarrow> int \<Rightarrow> trace_hop list \<Rightarrow> bool \<Rightarrow> bool \<Rightarrow> 'w
     \<Rightarrow> ((trace_hop list + trace_hop list \<times> bool) \<times> 'w) option" where
  "trace_hops env fd timeout_ms probes 0 ttl hops reached finished w = Some (Inr (hops, reached), w)"
| "trace_hops env fd timeout_ms probes (Suc n) ttl hops reached finished w =
     (if reached \<or> finished then Some (Inr (hops, reached), w)
      else
        let (ok, w) = te_set_ttl env fd ttl w in
        if \<not> ok then Some (Inr (hops, reached), w)
        else
          (case trace_probes env fd timeout_ms probes (new_hop ttl) reached finished w of
             None \<Rightarrow> None
           | Some (Inl hop, w) \<Rightarrow> Some (Inl (hops @ [hop]), w)
           | Some (Inr (hop, reached, finished), w) \<Rightarrow>
               trace_hops env fd timeout_ms probes n (ttl + 1) (hops @ [hop]) reached finished w))"

definition trace_timeout_ms :: "trace_config \<Rightarrow> int" where
  "trace_timeout_ms config =
     (if tc_probe_timeout_ms config \<le> 0 \<or> tc_probe_timeout_ms config > 60000 then 2000 else tc_probe_timeout_ms config)"

definition trace_failed :: "string \<Rightarrow> trace_result \<Rightarrow> trace_result" where
  "trace_failed error result = result\<lparr>tr_status := ''error'', tr_error := error\<rparr>"

definition trace_route_impl ::
  "'w trace_env \<Rightarrow> string \<Rightarrow> nat \<Rightarrow> trace_config \<Rightarrow> 'w \<Rightarrow> (trace_result \<times> 'w) option" where
  "trace_route_impl env host port config w =
     (let result = default_trace_result
            \<lparr>tr_host := host, tr_port := port, tr_max_hops := tc_max_hops config, tr_probes_per_hop := tc_probes_per_hop config\<rparr>;
          (res, w) = te_getaddrinfo env (c_str host) (dec_digits port) w in
      case res of
        None \<Rightarrow> Some (trace_failed ''dns resolve failed'' result, w)
      | Some dest \<Rightarrow>
          let result = result\<lparr>tr_resolved_ip := ipv4_to_string env (Some dest), tr_ip_version := 4\<rparr>;
              (fd, w) = te_socket env w in
          if fd < 0 then Some (trace_failed ''socket create failed'' result, w)
          else
            let (ok, w) = te_recverr env fd w in
            if \<not> ok then Some (trace_failed ''IP_RECVERR unsupported'' result, te_close env fd w)
            else
              let (connected, w) = te_connect env fd dest w in
              if connected \<noteq> Sent
              then Some (trace_failed (if connected = No_Route then ''no route to host'' else ''connect failed'') result,
                         te_close env fd w)
              else
                (case trace_hops env fd (trace_timeout_ms config) (nat (tc_probes_per_hop config)) (nat (tc_max_hops config)) 1
                        [] False False w of
                   None \<Rightarrow> None
                 | Some (Inl hops, w) \<Rightarrow>
                     Some (trace_failed ''no route to host'' (result\<lparr>tr_hops := hops\<rparr>), te_close env fd w)
                 | Some (Inr (hops, reached), w) \<Rightarrow>
                     Some (result\<lparr>tr_hops := hops, tr_status := (if reached then ''reached'' else ''completed'')\<rparr>,
                           te_close env fd w)))"

definition trace_route ::
  "'w trace_env \<Rightarrow> string \<Rightarrow> nat \<Rightarrow> trace_config \<Rightarrow> 'w \<Rightarrow> (trace_result \<times> 'w) option" where
  "trace_route env host port config w =
     (if host = [] \<or> port = 0
      then Some (trace_failed ''invalid argument'' (default_trace_result\<lparr>tr_host := host, tr_port := port\<rparr>), w)
      else trace_route_impl env host port config w)"

section \<open>The printed trace\<close>

definition trace_escape_char :: "char \<Rightarrow> string" where
  "trace_escape_char c =
     (if c = quote then [backslash, quote] else if c = backslash then [backslash, backslash]
      else if c = backspace then [backslash, CHR ''b''] else if c = form_feed then [backslash, CHR ''f'']
      else if c = newline then [backslash, CHR ''n''] else if c = carriage_return then [backslash, CHR ''r'']
      else if c = tab then [backslash, CHR ''t'']
      else if byte c < 0x20 then u00_escape c else [c])"

definition trace_escape :: "string \<Rightarrow> string" where
  "trace_escape s = concat (map trace_escape_char s)"

text \<open>\<open>std::fixed\<close> with two decimals rounds to the nearest, ties to even.\<close>

definition round_even :: "rat \<Rightarrow> int" where
  "round_even q =
     (let f = \<lfloor>q\<rfloor>; d = q - of_int f
      in if d < 1 / 2 then f else if d > 1 / 2 then f + 1 else if even f then f else f + 1)"

definition fixed2 :: "rat \<Rightarrow> string" where
  "fixed2 q =
     (let n = nat (round_even (q * 100))
      in dec_digits (n div 100) @ CHR ''.'' # dec_digits (n mod 100 div 10) @ dec_digits (n mod 10))"

fun strip_zeros :: "string \<Rightarrow> string" where
  "strip_zeros (c # d # s) = (if c = CHR ''0'' then strip_zeros (d # s) else c # d # s)"
| "strip_zeros s = s"

text \<open>The loop works at the back of the string.\<close>

definition rtt_to_string :: "rat \<Rightarrow> string" where
  "rtt_to_string ms =
     (if ms < 0 then ''-1''
      else
        let s = strip_zeros (rev (fixed2 ms))
        in rev (case s of [] \<Rightarrow> [] | c # r \<Rightarrow> if c = CHR ''.'' then r else s))"

fun rtt_range :: "rat list \<Rightarrow> rat \<times> rat \<times> rat \<times> nat \<Rightarrow> rat \<times> rat \<times> rat \<times> nat" where
  "rtt_range [] acc = acc"
| "rtt_range (v # vs) (min_rtt, max_rtt, rtt_sum, n) =
     (if v < 0 then rtt_range vs (min_rtt, max_rtt, rtt_sum, n)
      else rtt_range vs
        (if min_rtt < 0 \<or> v < min_rtt then v else min_rtt, if v > max_rtt then v else max_rtt, rtt_sum + v, n + 1))"

fun comma_separated :: "string list \<Rightarrow> string" where
  "comma_separated [] = []"
| "comma_separated [s] = s"
| "comma_separated (s # ss) = s @ CHR '','' # comma_separated ss"

definition hop_json :: "trace_hop \<Rightarrow> string" where
  "hop_json h =
     (let (min_rtt, max_rtt, rtt_sum, n) = rtt_range (th_rtt_ms h) (-1, -1, 0, 0);
          avg_rtt = (if n > 0 then rtt_sum / of_nat n else -1)
      in ''{\"ttl\":'' @ to_string (th_ttl h) @ '',\"addr\":\"'' @ trace_escape (th_addr h) @ ''\",\"rtt_ms\":[''
         @ comma_separated (map rtt_to_string (th_rtt_ms h)) @ '']'' @ '',\"min_rtt_ms\":'' @ rtt_to_string min_rtt
         @ '',\"avg_rtt_ms\":'' @ rtt_to_string avg_rtt @ '',\"max_rtt_ms\":'' @ rtt_to_string max_rtt
         @ '',\"loss\":'' @ dec_digits (th_loss h) @ '',\"reached\":''
         @ (if th_reached h then ''true'' else ''false'') @ ''}'')"

definition trace_json :: "trace_result \<Rightarrow> string" where
  "trace_json r =
     ''{\"host\":\"'' @ trace_escape (tr_host r) @ ''\",\"port\":'' @ dec_digits (tr_port r)
     @ '',\"resolved_ip\":\"'' @ trace_escape (tr_resolved_ip r) @ ''\",\"ip_version\":'' @ to_string (tr_ip_version r)
     @ '',\"max_hops\":'' @ to_string (tr_max_hops r) @ '',\"probes_per_hop\":'' @ to_string (tr_probes_per_hop r)
     @ '',\"status\":\"'' @ trace_escape (tr_status r) @ ''\",\"error\":\"'' @ trace_escape (tr_error r)
     @ ''\",\"hops\":['' @ comma_separated (map hop_json (tr_hops r)) @ '']}''"

definition trace_route_json ::
  "'w trace_env \<Rightarrow> string \<Rightarrow> nat \<Rightarrow> trace_config \<Rightarrow> 'w \<Rightarrow> (string \<times> 'w) option" where
  "trace_route_json env host port config w = map_option (apfst trace_json) (trace_route env host port config w)"

text \<open>Platforms without the error queue.\<close>

definition trace_route_unsupported :: "string \<Rightarrow> nat \<Rightarrow> trace_result" where
  "trace_route_unsupported host port =
     trace_failed ''traceroute unsupported on this platform'' (default_trace_result\<lparr>tr_host := host, tr_port := port\<rparr>)"

definition trace_route_json_unsupported :: "string \<Rightarrow> nat \<Rightarrow> trace_config \<Rightarrow> string" where
  "trace_route_json_unsupported host port config =
     ''{\"host\":\"'' @ trace_escape host @ ''\",\"port\":'' @ dec_digits port
     @ '',\"resolved_ip\":\"\",\"ip_version\":0,\"max_hops\":'' @ to_string (tc_max_hops config)
     @ '',\"probes_per_hop\":'' @ to_string (tc_probes_per_hop config)
     @ '',\"status\":\"error\",\"error\":\"traceroute unsupported on this platform\",\"hops\":[]}''"

section \<open>The shape of a trace\<close>

definition hop_sound :: "nat \<Rightarrow> trace_hop \<Rightarrow> bool" where
  "hop_sound probes h \<longleftrightarrow> length (th_rtt_ms h) \<le> probes \<and> th_loss h \<le> length (th_rtt_ms h)"

lemma lost_probe_simps [simp]:
  "th_ttl (lost_probe h) = th_ttl h" "th_reached (lost_probe h) = th_reached h"
  "length (th_rtt_ms (lost_probe h)) = Suc (length (th_rtt_ms h))" "th_loss (lost_probe h) = Suc (th_loss h)"
  by (simp_all add: lost_probe_def)

lemma record_reply_simps [simp]:
  "th_ttl (record_reply t r h) = th_ttl h" "th_reached (record_reply t r h) \<longleftrightarrow> th_reached h \<or> pp_is_reached r"
  "length (th_rtt_ms (record_reply t r h)) = Suc (length (th_rtt_ms h))" "th_loss (record_reply t r h) = th_loss h"
  by (simp_all add: record_reply_def Let_def)

definition probed :: "trace_hop \<Rightarrow> nat \<Rightarrow> trace_hop \<Rightarrow> bool" where
  "probed h n h' \<longleftrightarrow>
     th_ttl h' = th_ttl h \<and> length (th_rtt_ms h') \<le> length (th_rtt_ms h) + n
     \<and> (th_loss h \<le> length (th_rtt_ms h) \<longrightarrow> th_loss h' \<le> length (th_rtt_ms h'))"

lemma probed_refl: "probed h n h"
  by (simp add: probed_def)

lemma probed_step: "probed h1 n h' \<Longrightarrow> h1 = lost_probe h \<or> h1 = record_reply t r h \<Longrightarrow> probed h (Suc n) h'"
  by (auto simp: probed_def)

lemma trace_probes_sound:
  "trace_probes env fd timeout_ms n hop reached finished w = Some (res, w') \<Longrightarrow> th_reached hop = reached \<Longrightarrow>
     (case res of
        Inl hop' \<Rightarrow> probed hop n hop' \<and> \<not> th_reached hop'
      | Inr (hop', reached', finished') \<Rightarrow> probed hop n hop' \<and> th_reached hop' = reached')"
proof (induction n arbitrary: hop reached finished w)
  case 0
  then show ?case by (auto simp: probed_refl)
next
  case (Suc n)
  show ?case
  proof (cases "reached \<or> finished")
    case True
    with Suc.prems show ?thesis by (auto simp: probed_refl)
  next
    case False
    obtain send_time w1 where s: "te_now env w = (send_time, w1)" by (rule prod.exhaust)
    obtain sent w2 where t: "te_send env fd payload w1 = (sent, w2)" by (rule prod.exhaust)
    note run = Suc.prems(1) [unfolded trace_probes.simps if_not_P [OF False] Let_def s t prod.case]
    have lost: ?thesis if "trace_probes env fd timeout_ms n (lost_probe hop) reached finished w3 = Some (res, w')" for w3
      using Suc.IH [OF that] Suc.prems(2) by (auto split: sum.splits intro: probed_step)
    show ?thesis
    proof (cases sent)
      case No_Route
      with run Suc.prems(2) False show ?thesis by (auto simp: probed_def)
    next
      case Send_Failed
      with run lost show ?thesis by simp
    next
      case Sent
      with run obtain reply w3 where a: "await_reply env fd (send_time + of_int timeout_ms / 1000) w2 = Some (reply, w3)"
        by (auto split: option.splits)
      show ?thesis
      proof (cases "pp_replied reply")
        case True
        obtain now w4 where n: "te_now env w3 = (now, w4)" by (rule prod.exhaust)
        from run Sent a True n have
          "trace_probes env fd timeout_ms n (record_reply ((now - send_time) * 1000) reply hop) (reached \<or> pp_is_reached reply)
             (finished \<or> pp_done reply) w4 = Some (res, w')" by simp
        from Suc.IH [OF this] Suc.prems(2) show ?thesis by (auto split: sum.splits intro: probed_step)
      next
        case no: False
        with run Sent a lost show ?thesis by simp
      qed
    qed
  qed
qed

definition hops_sound :: "nat \<Rightarrow> trace_hop list \<Rightarrow> bool \<Rightarrow> bool" where
  "hops_sound probes hops reached \<longleftrightarrow>
     map th_ttl hops = map int [1..<Suc (length hops)] \<and> list_all (hop_sound probes) hops
     \<and> list_all (\<lambda>h. \<not> th_reached h) (butlast hops) \<and> (reached \<longleftrightarrow> hops \<noteq> [] \<and> th_reached (last hops))"

lemma hops_sound_snoc:
  assumes "hops_sound probes hops False" and "probed (new_hop (int (length hops) + 1)) probes h"
  shows "hops_sound probes (hops @ [h]) (th_reached h)"
proof -
  have "list_all (\<lambda>h. \<not> th_reached h) hops"
    using assms(1) by (cases hops rule: rev_cases) (auto simp: hops_sound_def)
  with assms show ?thesis
    by (auto simp: hops_sound_def hop_sound_def probed_def new_hop_def)
qed

lemma trace_hops_sound:
  "trace_hops env fd timeout_ms probes n ttl hops reached finished w = Some (res, w') \<Longrightarrow>
   hops_sound probes hops reached \<Longrightarrow> ttl = int (length hops) + 1 \<Longrightarrow>
     (case res of
        Inl hops' \<Rightarrow> hops_sound probes hops' False \<and> length hops' \<le> length hops + n
      | Inr (hops', reached') \<Rightarrow> hops_sound probes hops' reached' \<and> length hops' \<le> length hops + n)"
proof (induction n arbitrary: ttl hops reached finished w)
  case 0
  then show ?case by auto
next
  case (Suc n)
  show ?case
  proof (cases "reached \<or> finished")
    case True
    with Suc.prems show ?thesis by auto
  next
    case False
    obtain ok w1 where s: "te_set_ttl env fd ttl w = (ok, w1)" by (rule prod.exhaust)
    note run = Suc.prems(1) [unfolded trace_hops.simps if_not_P [OF False] Let_def s prod.case]
    show ?thesis
    proof (cases ok)
      case False
      with run Suc.prems(2) show ?thesis by auto
    next
      case True
      with run obtain r w2 where p: "trace_probes env fd timeout_ms probes (new_hop ttl) reached finished w1 = Some (r, w2)"
        by (auto split: option.splits)
      have h: "hops_sound probes hops False" using Suc.prems(2) False by simp
      note sound = trace_probes_sound [OF p] and snoc = hops_sound_snoc [OF h]
      show ?thesis
      proof (cases r)
        case (Inl hop)
        with run p True have "res = Inl (hops @ [hop])" by simp
        with snoc [of hop] sound False Inl Suc.prems(3) show ?thesis by (auto simp: new_hop_def)
      next
        case (Inr x)
        obtain hop reached' finished' where x: "x = (hop, reached', finished')" by (rule prod_cases3)
        from run p True Inr x have
          "trace_hops env fd timeout_ms probes n (ttl + 1) (hops @ [hop]) reached' finished' w2 = Some (res, w')" by simp
        from Suc.IH [OF this] snoc [of hop] sound False Inr x Suc.prems(3) show ?thesis
          by (auto simp: new_hop_def split: sum.splits)
      qed
    qed
  qed
qed

section \<open>A trace returns\<close>

text \<open>
  \<open>T\<close> is the time in a world. The clock reads it, no call turns it back, and reading the error queue takes
  at least \<open>d\<close>.
\<close>

definition ticking :: "'w trace_env \<Rightarrow> ('w \<Rightarrow> rat) \<Rightarrow> rat \<Rightarrow> bool" where
  "ticking env T d \<longleftrightarrow>
     0 < d
     \<and> (\<forall>w. fst (te_now env w) = T w \<and> T w \<le> T (snd (te_now env w)))
     \<and> (\<forall>fd t w. T w \<le> T (snd (te_poll env fd t w)))
     \<and> (\<forall>fd w. T w + d \<le> T (snd (te_recv env fd w)))"

text \<open>A condition that the calls of a running trace keep.\<close>

definition calm :: "'w trace_env \<Rightarrow> ('w \<Rightarrow> bool) \<Rightarrow> bool" where
  "calm env P \<longleftrightarrow>
     (\<forall>w. P w \<longrightarrow> P (snd (te_now env w)) \<and> (\<forall>fd t. P (snd (te_poll env fd t w))) \<and> (\<forall>fd. P (snd (te_recv env fd w)))
        \<and> (\<forall>fd s. P (snd (te_send env fd s w))) \<and> (\<forall>fd ttl. P (snd (te_set_ttl env fd ttl w))))"

lemma calmD:
  assumes "calm env P" and "P w"
  shows "te_now env w = (now, w') \<Longrightarrow> P w'" "te_poll env fd t w = (n, w') \<Longrightarrow> P w'" "te_recv env fd w = (r, w') \<Longrightarrow> P w'"
    "te_send env fd s w = (x, w') \<Longrightarrow> P w'" "te_set_ttl env fd ttl w = (ok, w') \<Longrightarrow> P w'"
  using assms unfolding calm_def by (metis snd_conv)+

lemma await_reply_returns:
  assumes tick: "ticking env T d" and calm: "calm env P"
  shows "P w \<Longrightarrow> \<exists>r w'. await_reply env fd deadline w = Some (r, w') \<and> P w'"
proof (induction "nat \<lceil>(deadline - T w) / d\<rceil>" arbitrary: w rule: less_induct)
  case less
  have d: "0 < d" using tick by (simp add: ticking_def)
  obtain now w1 where n: "te_now env w = (now, w1)" by (rule prod.exhaust)
  have now: "now = T w" "T w \<le> T w1" using tick n by (auto simp: ticking_def dest!: spec [of _ w])
  note p1 = calmD(1) [OF calm less.prems n]
  show ?case
  proof (cases "deadline - now \<le> 0")
    case True
    with n p1 show ?thesis by (simp add: await_reply.simps [of env fd deadline w])
  next
    case False
    obtain pr w2 where q: "te_poll env fd (\<lfloor>(deadline - now) * 1000\<rfloor> + 1) w1 = (pr, w2)" by (rule prod.exhaust)
    note p2 = calmD(2) [OF calm p1 q]
    obtain r w3 where e: "te_recv env fd w2 = (r, w3)" by (rule prod.exhaust)
    note p3 = calmD(3) [OF calm p2 e]
    have "T w1 \<le> T w2" "T w2 + d \<le> T w3" using tick q e unfolding ticking_def by (metis snd_conv)+
    then have t3: "T w + d \<le> T w3" using now(2) by simp
    have "\<lceil>(deadline - T w3) / d\<rceil> < \<lceil>(deadline - T w) / d\<rceil>"
    proof -
      have "(deadline - T w3) / d \<le> (deadline - T w - d) / d" using t3 d by (intro divide_right_mono) simp_all
      also have "\<dots> = (deadline - T w) / d - 1" using d by (simp add: diff_divide_distrib)
      finally have "(deadline - T w3) / d \<le> (deadline - T w) / d - 1" .
      then have "\<lceil>(deadline - T w3) / d\<rceil> \<le> \<lceil>(deadline - T w) / d - 1\<rceil>" by (rule ceiling_mono)
      then show ?thesis by simp
    qed
    moreover have "0 < \<lceil>(deadline - T w) / d\<rceil>" using False now(1) d by simp
    ultimately have again: "\<exists>r w'. await_reply env fd deadline w3 = Some (r, w') \<and> P w'"
      by (intro less.hyps p3) simp
    have "await_reply env fd deadline w =
      (if pr \<le> 0 then Some (no_reply, w2)
       else (case r of
             Nothing_There \<Rightarrow> await_reply env fd deadline w3
           | Recv_Failed \<Rightarrow> Some (no_reply, w3)
           | Message None \<Rightarrow> await_reply env fd deadline w3
           | Message (Some ee) \<Rightarrow>
               (case classify_error env ee of
                  Some reply \<Rightarrow> Some (reply, w3)
                | None \<Rightarrow> await_reply env fd deadline w3)))"
      unfolding await_reply.simps [of env fd deadline w] n prod.case Let_def if_not_P [OF False] q e ..
    with again p2 p3 show ?thesis by (auto split: recv_outcome.splits option.splits)
  qed
qed

lemma trace_probes_returns:
  assumes tick: "ticking env T d" and calm: "calm env P"
  shows "P w \<Longrightarrow> \<exists>r w'. trace_probes env fd timeout_ms n hop reached finished w = Some (r, w') \<and> P w'"
proof (induction n arbitrary: hop reached finished w)
  case 0
  then show ?case by simp
next
  case (Suc n)
  obtain send_time w1 where s: "te_now env w = (send_time, w1)" by (rule prod.exhaust)
  note p1 = calmD(1) [OF calm Suc.prems s]
  obtain sent w2 where t: "te_send env fd payload w1 = (sent, w2)" by (rule prod.exhaust)
  note p2 = calmD(4) [OF calm p1 t]
  obtain reply w3 where a: "await_reply env fd (send_time + of_int timeout_ms / 1000) w2 = Some (reply, w3)" and p3: "P w3"
    using await_reply_returns [OF tick calm p2] by blast
  obtain now w4 where n: "te_now env w3 = (now, w4)" by (rule prod.exhaust)
  note p4 = calmD(1) [OF calm p3 n]
  from s t a n p2 Suc.prems Suc.IH [OF p2] Suc.IH [OF p3] Suc.IH [OF p4] show ?case
    by (cases sent) auto
qed

lemma trace_hops_returns:
  assumes tick: "ticking env T d" and calm: "calm env P"
  shows "P w \<Longrightarrow> \<exists>r w'. trace_hops env fd timeout_ms probes n ttl hops reached finished w = Some (r, w') \<and> P w'"
proof (induction n arbitrary: ttl hops reached finished w)
  case 0
  then show ?case by simp
next
  case (Suc n)
  obtain ok w1 where s: "te_set_ttl env fd ttl w = (ok, w1)" by (rule prod.exhaust)
  note p1 = calmD(5) [OF calm Suc.prems s]
  obtain r w2 where p: "trace_probes env fd timeout_ms probes (new_hop ttl) reached finished w1 = Some (r, w2)" and p2: "P w2"
    using trace_probes_returns [OF tick calm p1] by blast
  from s p Suc.prems p1 p2 Suc.IH [OF p2] show ?case by (cases r) auto
qed

text \<open>\<open>I n\<close> says that \<open>n\<close> sockets are open.\<close>

definition trace_discipline :: "'w trace_env \<Rightarrow> (nat \<Rightarrow> 'w \<Rightarrow> bool) \<Rightarrow> bool" where
  "trace_discipline env I \<longleftrightarrow>
     (\<forall>n. calm env (I n))
     \<and> (\<forall>n w. I n w \<longrightarrow> (\<forall>h p. I n (snd (te_getaddrinfo env h p w))) \<and> (\<forall>fd. I n (snd (te_recverr env fd w)))
          \<and> (\<forall>fd a. I n (snd (te_connect env fd a w)))
          \<and> (if fst (te_socket env w) < 0 then I n (snd (te_socket env w)) else I (Suc n) (snd (te_socket env w))))
     \<and> (\<forall>n fd w. I (Suc n) w \<longrightarrow> I n (te_close env fd w))"

lemma trace_disciplineD:
  assumes "trace_discipline env I"
  shows "calm env (I n)" "I n w \<Longrightarrow> te_getaddrinfo env h p w = (a, w') \<Longrightarrow> I n w'"
    "I n w \<Longrightarrow> te_recverr env fd w = (ok, w') \<Longrightarrow> I n w'" "I n w \<Longrightarrow> te_connect env fd dest w = (c, w') \<Longrightarrow> I n w'"
    "I n w \<Longrightarrow> te_socket env w = (fd, w') \<Longrightarrow> fd < 0 \<Longrightarrow> I n w'"
    "I n w \<Longrightarrow> te_socket env w = (fd, w') \<Longrightarrow> \<not> fd < 0 \<Longrightarrow> I (Suc n) w'"
    "I (Suc n) w \<Longrightarrow> I n (te_close env fd w)"
  using assms unfolding trace_discipline_def by (metis fst_conv snd_conv)+

section \<open>Properties\<close>

definition trace_wf :: "trace_config \<Rightarrow> trace_result \<Rightarrow> bool" where
  "trace_wf config r \<longleftrightarrow>
     length (tr_hops r) \<le> nat (tc_max_hops config)
     \<and> map th_ttl (tr_hops r) = map int [1..<Suc (length (tr_hops r))]
     \<and> list_all (hop_sound (nat (tc_probes_per_hop config))) (tr_hops r)
     \<and> list_all (\<lambda>h. \<not> th_reached h) (butlast (tr_hops r))
     \<and> (tr_status r = ''reached'' \<longleftrightarrow> tr_hops r \<noteq> [] \<and> th_reached (last (tr_hops r)))
     \<and> (tr_status r = ''error'' \<longleftrightarrow> tr_error r \<noteq> [])
     \<and> tr_status r \<in> {''reached'', ''completed'', ''error''}"

lemma trace_failed_wf: "error \<noteq> [] \<Longrightarrow> tr_hops r = [] \<Longrightarrow> trace_wf config (trace_failed error r)"
  by (simp add: trace_wf_def trace_failed_def)

lemma hops_sound_wf:
  assumes "hops_sound (nat (tc_probes_per_hop config)) hops reached" and "length hops \<le> nat (tc_max_hops config)"
    and "tr_hops r = hops"
  shows "tr_status r = (if reached then ''reached'' else ''completed'') \<Longrightarrow> tr_error r = [] \<Longrightarrow> trace_wf config r"
    and "\<not> reached \<Longrightarrow> tr_status r = ''error'' \<Longrightarrow> tr_error r \<noteq> [] \<Longrightarrow> trace_wf config r"
  using assms by (auto simp: trace_wf_def hops_sound_def)

lemma trace_route_wf:
  assumes "trace_route env host port config w = Some (r, w')"
  shows "trace_wf config r \<and> tr_host r = host \<and> tr_port r = port"
proof (cases "host = [] \<or> port = 0")
  case True
  with assms have "r = trace_failed ''invalid argument'' (default_trace_result\<lparr>tr_host := host, tr_port := port\<rparr>)"
    by (simp add: trace_route_def)
  then show ?thesis by (simp add: trace_failed_wf default_trace_result_def) (simp add: trace_failed_def)
next
  case False
  let ?probes = "nat (tc_probes_per_hop config)" and ?n = "nat (tc_max_hops config)"
  have run: "trace_route_impl env host port config w = Some (r, w')" using assms False by (simp add: trace_route_def)
  have "(tr_status r = ''error'' \<and> tr_error r \<noteq> [] \<and> tr_hops r = [] \<and> tr_host r = host \<and> tr_port r = port)
    \<or> (\<exists>fd w1 w2 res. trace_hops env fd (trace_timeout_ms config) ?probes ?n 1 [] False False w1 = Some (res, w2)
         \<and> tr_hops r = (case res of Inl hops \<Rightarrow> hops | Inr (hops, _) \<Rightarrow> hops) \<and> tr_host r = host \<and> tr_port r = port
         \<and> (case res of Inl _ \<Rightarrow> tr_status r = ''error'' \<and> tr_error r = ''no route to host''
            | Inr (_, reached) \<Rightarrow> tr_status r = (if reached then ''reached'' else ''completed'') \<and> tr_error r = []))"
    using run
    by (auto simp: trace_route_impl_def trace_failed_def default_trace_result_def Let_def
        split: prod.splits option.splits if_splits sum.splits; blast?)
  then show ?thesis
  proof (elim disjE exE conjE)
    assume "tr_status r = ''error''" "tr_error r \<noteq> []" "tr_hops r = []" "tr_host r = host" "tr_port r = port"
    then show ?thesis by (simp add: trace_wf_def)
  next
    fix fd w1 w2 res
    assume h: "trace_hops env fd (trace_timeout_ms config) ?probes ?n 1 [] False False w1 = Some (res, w2)"
      and r: "tr_hops r = (case res of Inl hops \<Rightarrow> hops | Inr (hops, _) \<Rightarrow> hops)" "tr_host r = host" "tr_port r = port"
      and c: "case res of Inl _ \<Rightarrow> tr_status r = ''error'' \<and> tr_error r = ''no route to host''
            | Inr (_, reached) \<Rightarrow> tr_status r = (if reached then ''reached'' else ''completed'') \<and> tr_error r = []"
    have "hops_sound ?probes [] False" by (simp add: hops_sound_def)
    from trace_hops_sound [OF h this] have s: "case res of
        Inl hops' \<Rightarrow> hops_sound ?probes hops' False \<and> length hops' \<le> ?n
      | Inr (hops', reached') \<Rightarrow> hops_sound ?probes hops' reached' \<and> length hops' \<le> ?n" by (simp split: sum.splits prod.splits)
    have "trace_wf config r"
    proof (cases res)
      case (Inl hops)
      with s r(1) c show ?thesis by (intro hops_sound_wf(2) [where hops = hops and reached = False]) simp_all
    next
      case (Inr x)
      obtain hops reached where x: "x = (hops, reached)" by (rule prod.exhaust)
      with Inr s r(1) c show ?thesis by (intro hops_sound_wf(1) [where hops = hops and reached = reached]) simp_all
    qed
    with r show ?thesis by simp
  qed
qed

lemma trace_route_done:
  assumes disc: "trace_discipline env I" and tick: "ticking env T d" and i: "I n w"
  shows "\<exists>r w'. trace_route env host port config w = Some (r, w') \<and> I n w'"
proof (cases "host = [] \<or> port = 0")
  case True
  with i show ?thesis by (simp add: trace_route_def)
next
  case False
  note D = trace_disciplineD [OF disc]
  obtain res w1 where a: "te_getaddrinfo env (c_str host) (dec_digits port) w = (res, w1)" by (rule prod.exhaust)
  note i1 = D(2) [OF i a]
  show ?thesis
  proof (cases res)
    case None
    with False a i1 show ?thesis by (simp add: trace_route_def trace_route_impl_def Let_def)
  next
    case (Some dest)
    obtain fd w2 where s: "te_socket env w1 = (fd, w2)" by (rule prod.exhaust)
    show ?thesis
    proof (cases "fd < 0")
      case True
      with False a Some s D(5) [OF i1 s] show ?thesis by (simp add: trace_route_def trace_route_impl_def Let_def)
    next
      case ok: False
      note i2 = D(6) [OF i1 s ok]
      obtain e w3 where e: "te_recverr env fd w2 = (e, w3)" by (rule prod.exhaust)
      note i3 = D(3) [OF i2 e]
      obtain c w4 where c: "te_connect env fd dest w3 = (c, w4)" by (rule prod.exhaust)
      note i4 = D(4) [OF i3 c]
      obtain r w5 where h: "trace_hops env fd (trace_timeout_ms config) (nat (tc_probes_per_hop config))
          (nat (tc_max_hops config)) 1 [] False False w4 = Some (r, w5)" and i5: "I (Suc n) w5"
        using trace_hops_returns [OF tick D(1) i4] by blast
      from False a Some s ok e c h D(7) [OF i3] D(7) [OF i4] D(7) [OF i5] show ?thesis
        by (cases r) (auto simp: trace_route_def trace_route_impl_def Let_def split: if_splits)
    qed
  qed
qed

text \<open>
  Property C36. A route trace is consistent: at most the configured number of hops, numbered from 1
  without gaps, each with at most the configured number of probes and no more losses than probes; only
  the last hop can be the target, and the status is "reached" exactly then; an error text is given
  exactly with the status "error".
\<close>

theorem trace_route_sound:
  assumes "trace_route env host port config w = Some (r, w')"
  shows "trace_wf config r \<and> tr_host r = host \<and> tr_port r = port"
  by (rule trace_route_wf [OF assms])

text \<open>
  Property C35. A route trace returns, whatever arrives on the error queue, as long as time passes when
  the queue is read; and every socket it opened is closed again, on every path.
\<close>

theorem trace_route_returns:
  assumes "trace_discipline env I" and "ticking env T d" and "I n w"
  shows "\<exists>r w'. trace_route env host port config w = Some (r, w') \<and> I n w'"
  by (rule trace_route_done [OF assms])

text \<open>
  Where no time passes the wait spins: an ordinary datagram makes the socket readable but is never read,
  since only the error queue is, and the next poll comes back at once.
\<close>

lemma await_reply_spins:
  assumes now: "\<And>w. te_now env w = (t, w)" and poll: "\<And>ms w. te_poll env fd ms w = (1, w)"
    and recv: "\<And>w. te_recv env fd w = (Nothing_There, w)" and "t < deadline"
  shows "await_reply env fd deadline w = None"
proof (rule ccontr)
  assume "await_reply env fd deadline w \<noteq> None"
  then obtain out where out: "await_reply env fd deadline w = Some out" by blast
  have "env' = env \<longrightarrow> fd' = fd \<longrightarrow> dl' = deadline \<longrightarrow> False" if "await_reply env' fd' dl' w' = Some out'" for env' fd' dl' w' out'
    using that
  proof (induct rule: await_reply.raw_induct [rotated, consumes 1])
    case (1 rec env' fd' dl' w' out')
    show ?case
    proof (intro impI)
      assume eq: "env' = env" "fd' = fd" "dl' = deadline"
      with 1(2) have "rec env fd deadline w' = Some out'"
        using now [of w'] poll [of _ w'] recv [of w'] assms(4) by (simp add: Let_def)
      with 1(1) show False by (cases out') blast
    qed
  qed
  with out show False by blast
qed

text \<open>A network in which the second router is the target; the world counts seconds and sockets.\<close>

definition demo_trace_env :: "(rat \<times> nat \<times> int) trace_env" where
  "demo_trace_env =
     \<lparr>te_now = (\<lambda>(t, k, ttl). (t, (t, k, ttl))), te_ntop = (\<lambda>a. Some (dec_digits (unat a))),
      te_getaddrinfo = (\<lambda>_ _ w. (Some (Trace_IPv4 2), w)), te_socket = (\<lambda>(t, k, ttl). (3, (t, Suc k, ttl))),
      te_recverr = (\<lambda>_ w. (True, w)), te_connect = (\<lambda>_ _ w. (Sent, w)), te_set_ttl = (\<lambda>_ n (t, k, _). (True, (t, k, n))),
      te_send = (\<lambda>_ _ w. (Sent, w)), te_poll = (\<lambda>_ _ w. (1, w)),
      te_recv = (\<lambda>_ (t, k, ttl). (Message (Some \<lparr>ie_origin_icmp = True, ie_type = (if ttl \<ge> 2 then 3 else 11), ie_code = 3,
         ie_offender = Some (Trace_IPv4 (word_of_int ttl))\<rparr>), (t + 1, k, ttl))),
      te_close = (\<lambda>_ (t, k, ttl). (t, k - 1, ttl))\<rparr>"

lemma demo_trace_await:
  "await_reply demo_trace_env fd deadline (t, k, ttl) =
     (if deadline - t \<le> 0 then Some (no_reply, (t, k, ttl))
      else Some (\<lparr>pp_replied = True, pp_is_reached = (ttl \<ge> 2), pp_done = (ttl \<ge> 2), pp_addr = dec_digits (unat (word_of_int ttl :: 32 word))\<rparr>,
                 (t + 1, k, ttl)))"
  by (subst await_reply.simps)
    (simp add: demo_trace_env_def classify_error_def ICMP_TIME_EXCEEDED_def ICMP_DEST_UNREACH_def ICMP_UNREACH_PORT_def
      ipv4_to_string_def)

lemma demo_trace_calls:
  "te_now demo_trace_env (t, k, ttl) = (t, (t, k, ttl))" "te_getaddrinfo demo_trace_env h p w = (Some (Trace_IPv4 2), w)"
  "te_socket demo_trace_env (t, k, ttl) = (3, (t, Suc k, ttl))" "te_recverr demo_trace_env fd w = (True, w)"
  "te_connect demo_trace_env fd d w = (Sent, w)" "te_set_ttl demo_trace_env fd n (t, k, ttl) = (True, (t, k, n))"
  "te_send demo_trace_env fd s w = (Sent, w)" "te_close demo_trace_env fd (t, k, ttl) = (t, k - 1, ttl)"
  by (simp_all add: demo_trace_env_def)

lemma trace_route_returns_witness:
  "\<exists>r t ttl. trace_route demo_trace_env ''h'' 33434 default_trace_config (0, 0, 0) = Some (r, (t, 0, ttl))"
proof -
  have "trace_discipline demo_trace_env (\<lambda>n (t, k, ttl). k = n)"
    by (auto simp: trace_discipline_def calm_def demo_trace_env_def)
  moreover have "ticking demo_trace_env fst 1"
    by (auto simp: ticking_def demo_trace_env_def)
  ultimately show ?thesis
    using trace_route_returns [of demo_trace_env "\<lambda>n (t, k, ttl). k = n" fst 1 0 "(0, 0, 0)" "''h''" 33434 default_trace_config]
    by auto
qed

lemma trace_route_sound_witness:
  "\<exists>r w. trace_route demo_trace_env ''h'' 7 \<lparr>tc_max_hops = 5, tc_probes_per_hop = 1, tc_probe_timeout_ms = 0\<rparr> (0, 0, 0)
     = Some (r, w) \<and> trace_wf \<lparr>tc_max_hops = 5, tc_probes_per_hop = 1, tc_probe_timeout_ms = 0\<rparr> r
     \<and> tr_status r = ''reached'' \<and> map th_addr (tr_hops r) = [''1'', ''2'']"
proof -
  let ?c = "\<lparr>tc_max_hops = 5, tc_probes_per_hop = 1, tc_probe_timeout_ms = 0\<rparr>"
  have d: "dec_digits (Suc 0) = ''1''" "dec_digits 2 = ''2''"
    by (subst dec_digits.simps, simp add: char_of_def bit_0)+
  have n: "nat 5 = Suc (Suc (Suc (Suc (Suc 0))))" by simp
  have "\<exists>r w. trace_route demo_trace_env ''h'' 7 ?c (0, 0, 0) = Some (r, w) \<and> tr_status r = ''reached''
      \<and> map th_addr (tr_hops r) = [''1'', ''2'']"
    unfolding trace_route_def trace_route_impl_def demo_trace_calls Let_def prod.case trace_config.simps n
    by (simp add: demo_trace_calls trace_timeout_ms_def demo_trace_await record_reply_def new_hop_def default_trace_result_def d)
  then obtain r w where run: "trace_route demo_trace_env ''h'' 7 ?c (0, 0, 0) = Some (r, w)"
    and out: "tr_status r = ''reached''" "map th_addr (tr_hops r) = [''1'', ''2'']" by (elim exE conjE)
  with trace_route_sound [OF run] show ?thesis by (intro exI [of _ r] exI [of _ w]) simp
qed

end
