(* ===== verification/Client.thy ===== *)
theory Client
  imports Orchestrator Protocol_Selector Connection_Pool Dns_Resolver Metrics Transport Traceroute
begin

text \<open>
  \<open>client.cpp\<close>: the facade that owns the engines, the selector, the resolver, the pool, the prober,
  the orchestrator and the metrics, and takes a request through all of them.

  The state of a client is a record next to the world outside it; a request runs on the pair. One
  thread is modelled: what threads share inside a request is the coalescer, whose interleavings are
  modelled with the orchestrator, and the other components serialise their operations on mutexes of
  their own. The metrics worker is a thread of its own and modelled as a step. The engines, the
  operating system and the clock are parameters.
\<close>

section \<open>State\<close>

text \<open>A collector the host installed is a number; the client's own one is the shadow collector.\<close>

datatype collector_ref = Shadow | Installed nat

record 'w client =
  cl_id :: nat
  cl_config :: client_config
  cl_ca_cert_pem :: string
  cl_destroyed :: bool
  cl_next_request_id :: nat
  cl_network_epoch :: nat
  cl_selector :: "'w selector"
  cl_resolver :: "'w resolver"
  cl_pool :: "'w pool"
  cl_prober :: prober
  cl_coalescer :: coalescer
  cl_callback :: bool
  cl_notified :: "public_snapshot list"
  cl_last_quality :: quality_snapshot
  cl_collector :: collector_ref
  cl_shadow :: collector
  cl_queue :: "(request_metrics \<times> collector_ref) list"
  cl_delivered :: "(nat \<times> request_metrics) list"
  cl_worker_stop :: bool

text \<open>
  Every client has its own engines: the engines of the environment take the number of their client, and
  \<open>ce_destroy\<close> is what their destructors do.

  \<open>cl_notified\<close> lists what the host's quality callback was called with, \<open>cl_delivered\<close> what the
  installed collectors were given.
\<close>

record 'w client_env =
  ce_clock :: "'w clock"
  ce_sleep :: "int \<Rightarrow> 'w \<Rightarrow> 'w"
  ce_dns :: "'w dns_env"
  ce_ban_order :: "(selector_key, ban_state) hash_order"
  ce_pool_order :: "(string, pool_entry) hash_order"
  ce_http1 :: "nat \<Rightarrow> engine_config \<Rightarrow> 'w engine"
  ce_http2 :: "nat \<Rightarrow> engine_config \<Rightarrow> 'w engine"
  ce_quic :: "nat \<Rightarrow> engine_config \<Rightarrow> 'w engine"
  ce_xquic_enabled :: bool
  ce_testing_build :: bool
  ce_migrate_http1 :: "nat \<Rightarrow> 'w \<Rightarrow> int \<times> 'w"
  ce_migrate_http2 :: "nat \<Rightarrow> 'w \<Rightarrow> int \<times> 'w"
  ce_migrate_quic :: "nat \<Rightarrow> 'w \<Rightarrow> int \<times> 'w"
  ce_prefetch_quic :: "nat \<Rightarrow> string \<Rightarrow> 'w \<Rightarrow> int \<times> 'w"
  ce_destroy :: "nat \<Rightarrow> engine_config \<Rightarrow> 'w \<Rightarrow> 'w"
  ce_trace :: "'w trace_env option"
  ce_ratio :: "nat \<Rightarrow> nat \<Rightarrow> string"

type_synonym 'w client_state = "'w client \<times> 'w"

section \<open>The guard against re-entrance\<close>

text \<open>The clients whose requests are on the stack of the calling thread: a thread-local array of 32.\<close>

definition kMaxActiveClients :: nat where "kMaxActiveClients = 32"

definition is_active_client :: "nat list \<Rightarrow> 'w client \<Rightarrow> bool" where
  "is_active_client active cl \<longleftrightarrow> list_ex (\<lambda>i. i = cl_id cl) active"

definition request_guard_refuses :: "nat list \<Rightarrow> 'w client \<Rightarrow> bool" where
  "request_guard_refuses active cl \<longleftrightarrow> is_active_client active cl \<or> length active \<ge> kMaxActiveClients"

section \<open>Helpers\<close>

definition is_replayable_safe_method :: "request \<Rightarrow> bool" where
  "is_replayable_safe_method req \<longleftrightarrow>
     (if req_body req \<noteq> [] then False
      else req_method req = ''GET'' \<or> req_method req = ''HEAD'' \<or> req_method req = ''OPTIONS'')"

fun to_public_quality :: "network_quality \<Rightarrow> asternet_quality" where
  "to_public_quality kGood = QUALITY_GOOD"
| "to_public_quality kDegraded = QUALITY_DEGRADED"
| "to_public_quality kBad = QUALITY_BAD"
| "to_public_quality kOffline = QUALITY_OFFLINE"
| "to_public_quality kUnknown = QUALITY_UNKNOWN"

fun to_public_network :: "asternet_network \<Rightarrow> asternet_network" where
  "to_public_network (NETWORK_OTHER n) = NETWORK_UNKNOWN"
| "to_public_network net = net"

definition public_of :: "quality_snapshot \<Rightarrow> public_snapshot" where
  "public_of q =
     \<lparr>pq_score = q_score q, pq_quality = to_public_quality (q_quality q), pq_network = to_public_network (q_network q),
      pq_samples = q_samples q, pq_probe_count = q_probe_count q, pq_success_samples = q_success_samples q,
      pq_failure_samples = q_failure_samples q, pq_consecutive_failures = q_consecutive_failures q,
      pq_total_failures = q_total_failures q, pq_smoothed_rtt_ms = q_smoothed_rtt_ms q,
      pq_loss_permil = q_loss_permil q, pq_bandwidth_kbps = q_bandwidth_kbps q,
      pq_last_quality_change_ms = q_last_quality_change_ms q, pq_last_sample_ms = q_last_sample_ms q,
      pq_network_epoch = q_network_epoch q\<rparr>"

definition ASTERNET_ABI_VERSION :: "32 word" where
  "ASTERNET_ABI_VERSION = or (push_bit 16 1) 2"

definition check_abi :: "32 word \<Rightarrow> bool" where
  "check_abi abi_version \<longleftrightarrow>
     (let expected_major = drop_bit 16 ASTERNET_ABI_VERSION; got_major = drop_bit 16 abi_version;
          expected_minor = and ASTERNET_ABI_VERSION 0xffff; got_minor = and abi_version 0xffff
      in got_major = expected_major \<and> got_minor \<le> expected_minor)"

definition failure_stage_for :: "int \<Rightarrow> string" where
  "failure_stage_for result =
     (if result = ASTERNET_ERR_DNS then ''dns'' else if result = ASTERNET_ERR_CONNECT then ''connect''
      else if result = ASTERNET_ERR_TLS then ''tls'' else if result = ASTERNET_ERR_TIMEOUT then ''timeout''
      else if result = ASTERNET_ERR_PROTOCOL then ''protocol'' else if result = ASTERNET_ERR_CANCELED then ''canceled''
      else ''internal'')"

text \<open>\<open>static_cast<int>\<close> of a 64-bit duration.\<close>

definition to_int32 :: "int \<Rightarrow> int" where
  "to_int32 i = (i + 2 ^ 31) mod 2 ^ 32 - 2 ^ 31"

lemma to_int32_id: "- (2 ^ 31) \<le> i \<Longrightarrow> i < 2 ^ 31 \<Longrightarrow> to_int32 i = i"
  by (simp add: to_int32_def)

section \<open>Construction\<close>

definition client_engine_config :: "'w client_env \<Rightarrow> string \<Rightarrow> engine_config" where
  "client_engine_config env ca =
     \<lparr>ec_allow_insecure_tls_for_testing = False, ec_ca_cert_pem = ca, ec_testing_build = ce_testing_build env\<rparr>"

definition has_quic :: "'w client_env \<Rightarrow> client_config \<Rightarrow> bool" where
  "has_quic env cfg \<longleftrightarrow> ce_xquic_enabled env \<and> cfg_enable_http3 cfg \<noteq> 0"

text \<open>The migration handler asks every engine; the first OK decides.\<close>

definition migration_handler :: "'w client_env \<Rightarrow> nat \<Rightarrow> client_config \<Rightarrow> 'w \<Rightarrow> int \<times> 'w" where
  "migration_handler env i cfg w =
     (let (result, w) = ce_migrate_http1 env i w;
          (current, w) = ce_migrate_http2 env i w;
          result = (if result \<noteq> ASTERNET_OK then current else result)
      in if has_quic env cfg
         then (let (current, w) = ce_migrate_quic env i w in (if result \<noteq> ASTERNET_OK then current else result, w))
         else (result, w))"

text \<open>The prefetch handler reads the prober when it is called.\<close>

definition prefetch_handler :: "'w client_env \<Rightarrow> nat \<Rightarrow> client_config \<Rightarrow> prober \<Rightarrow> string \<Rightarrow> 'w \<Rightarrow> int \<times> 'w" where
  "prefetch_handler env i cfg prober host w =
     (if \<not> has_quic env cfg then (ASTERNET_ERR_UNSUPPORTED, w)
      else if q_quality (pr_snapshot prober) = kOffline then (ASTERNET_ERR_DEGRADED, w)
      else ce_prefetch_quic env i host w)"

definition new_client :: "'w client_env \<Rightarrow> nat \<Rightarrow> client_config \<Rightarrow> 'w client" where
  "new_client env i cfg =
     (let ca = (case cfg_ca_cert_pem cfg of None \<Rightarrow> [] | Some s \<Rightarrow> s);
          ec = client_engine_config env ca;
          prober = QualityProberImpl default_prober_config False
      in \<lparr>cl_id = i, cl_config = cfg, cl_ca_cert_pem = ca, cl_destroyed = False, cl_next_request_id = 1,
          cl_network_epoch = 0,
          cl_selector = ProtocolSelector (if has_quic env cfg then Some (ce_quic env i ec) else None)
                          (Some (ce_http2 env i ec)) (Some (ce_http1 env i ec)),
          cl_resolver = SmartDnsResolverImpl (default_dns_config\<lparr>dc_allow_private := (cfg_allow_private_networks cfg \<noteq> 0)\<rparr>) None,
          cl_pool = set_migration_handler (Some (migration_handler env i cfg)) (ConnectionPoolImpl 128),
          cl_prober = prober, cl_coalescer = RequestCoalescer 128, cl_callback = False, cl_notified = [],
          cl_last_quality = pr_snapshot prober, cl_collector = Shadow, cl_shadow = MetricsCollectorImpl 128,
          cl_queue = [], cl_delivered = [], cl_worker_stop = False\<rparr>)"

section \<open>Metrics: the queue and its worker\<close>

definition enqueue_metrics :: "request_metrics \<Rightarrow> collector_ref \<Rightarrow> 'w client \<Rightarrow> 'w client" where
  "enqueue_metrics m c cl =
     (let q = (if length (cl_queue cl) \<ge> 256 then tl (cl_queue cl) else cl_queue cl)
      in cl\<lparr>cl_queue := q @ [(m, c)]\<rparr>)"

text \<open>One turn of the worker: \<open>None\<close> when it waits or has returned.\<close>

definition worker_step :: "'w client \<Rightarrow> 'w client option" where
  "worker_step cl =
     (case cl_queue cl of
        [] \<Rightarrow> None
      | (m, c) # rest \<Rightarrow>
          let cl = cl\<lparr>cl_queue := rest, cl_shadow := report_request m (cl_shadow cl)\<rparr>
          in Some (case c of Shadow \<Rightarrow> cl | Installed i \<Rightarrow> cl\<lparr>cl_delivered := cl_delivered cl @ [(i, m)]\<rparr>))"

text \<open>The worker runs until the queue is empty; once stopped, it returns then.\<close>

definition worker_drain :: "'w client \<Rightarrow> 'w client" where
  "worker_drain cl =
     fold (\<lambda>(m, c) cl. cl\<lparr>cl_shadow := report_request m (cl_shadow cl),
             cl_delivered := (case c of Shadow \<Rightarrow> cl_delivered cl | Installed i \<Rightarrow> cl_delivered cl @ [(i, m)])\<rparr>)
       (cl_queue cl) (cl\<lparr>cl_queue := []\<rparr>)"

definition metrics_of :: "nat \<Rightarrow> nat \<Rightarrow> request_context \<Rightarrow> response \<Rightarrow> int \<Rightarrow> request_metrics" where
  "metrics_of request_id network_epoch c resp result =
     \<lparr>rm_response = zero_response_info
        \<lparr>ri_result := result, ri_http_status := resp_http_status resp, ri_protocol := resp_protocol resp,
         ri_degraded := (if resp_degraded resp then 1 else 0), ri_body_size := length (resp_body resp),
         ri_body_copied := length (resp_body resp), ri_dns_ms := resp_dns_ms resp,
         ri_connect_ms := resp_connect_ms resp, ri_tls_ms := resp_tls_ms resp, ri_ttfb_ms := resp_ttfb_ms resp,
         ri_total_ms := resp_total_ms resp\<rparr>,
      rm_request_id = request_id, rm_network_epoch = network_epoch, rm_attempts = resp_attempts resp,
      rm_connection_reused = resp_connection_reused resp, rm_cache_hit = rc_dns_cache_hit c,
      rm_deduplicated = rc_deduplicated c, rm_failure_stage = resp_failure_stage resp\<rparr>"

definition report_metrics ::
  "collector_ref \<Rightarrow> nat \<Rightarrow> nat \<Rightarrow> request_context \<Rightarrow> response \<Rightarrow> int \<Rightarrow> 'w client \<Rightarrow> 'w client" where
  "report_metrics collector request_id network_epoch c resp result cl =
     enqueue_metrics (metrics_of request_id network_epoch c resp result) collector cl"

definition set_metrics_collector :: "collector_ref option \<Rightarrow> 'w client \<Rightarrow> int \<times> 'w client" where
  "set_metrics_collector c cl =
     (if cl_destroyed cl then (ASTERNET_ERR_CANCELED, cl)
      else (ASTERNET_OK, cl\<lparr>cl_collector := (case c of None \<Rightarrow> Shadow | Some r \<Rightarrow> r)\<rparr>))"

section \<open>Quality notifications\<close>

definition stale_snapshot :: "quality_snapshot \<Rightarrow> quality_snapshot \<Rightarrow> bool" where
  "stale_snapshot latest q \<longleftrightarrow>
     q_network_epoch q < q_network_epoch latest
     \<or> (q_network_epoch q = q_network_epoch latest \<and> q_last_sample_ms q < q_last_sample_ms latest)"

definition publish_quality_change :: "quality_snapshot \<Rightarrow> 'w client \<Rightarrow> 'w client" where
  "publish_quality_change q cl =
     (if cl_destroyed cl then cl
      else if stale_snapshot (cl_last_quality cl) q then cl
      else
        let cl = cl\<lparr>cl_last_quality := q, cl_resolver := dns_on_quality_change q (cl_resolver cl)\<rparr>
        in if cl_callback cl then cl\<lparr>cl_notified := cl_notified cl @ [public_of q]\<rparr> else cl)"

definition client_set_quality_callback :: "bool \<Rightarrow> 'w client \<Rightarrow> 'w client" where
  "client_set_quality_callback callback cl =
     (if cl_destroyed cl then cl
      else
        let snapshot = cl_last_quality cl; cl = cl\<lparr>cl_callback := callback\<rparr>
        in if callback then publish_quality_change snapshot cl else cl)"

section \<open>Network changes, prefetching, diagnostics, the end\<close>

definition quality_moved :: "quality_snapshot \<Rightarrow> quality_snapshot \<Rightarrow> bool" where
  "quality_moved before after \<longleftrightarrow>
     q_network_epoch after \<noteq> q_network_epoch before \<or> q_network after \<noteq> q_network before
     \<or> q_quality after \<noteq> q_quality before"

definition client_on_network_change ::
  "'w client_env \<Rightarrow> nat list \<Rightarrow> asternet_network \<Rightarrow> 'w client_state \<Rightarrow> 'w client_state" where
  "client_on_network_change env active net st =
     (let (cl, w) = st in
      if is_active_client active cl \<or> cl_destroyed cl then st
      else
        let before = pr_snapshot (cl_prober cl);
            epoch = cl_network_epoch cl + 1;
            (now, w) = ce_clock env w;
            (prober, _) = prober_on_network_change 1 now epoch net (cl_prober cl);
            after = pr_snapshot prober;
            cl = cl\<lparr>cl_network_epoch := epoch, cl_prober := prober, cl_last_quality := after,
                    cl_pool := pool_on_network_change epoch net (cl_pool cl),
                    cl_resolver := dns_on_quality_change after (dns_on_network_change epoch (cl_resolver cl))\<rparr>;
            (_, pool, w) = pool_migrate net (cl_pool cl) w;
            cl = cl\<lparr>cl_pool := pool\<rparr>
        in (if quality_moved before after then publish_quality_change after cl else cl, w))"

definition client_prefetch :: "'w client_env \<Rightarrow> string \<Rightarrow> 'w client_state \<Rightarrow> int \<times> 'w client_state" where
  "client_prefetch env host st =
     (let (cl, w) = st in
      if host = [] then (ASTERNET_ERR_INVALID_ARGUMENT, st)
      else if cl_destroyed cl then (ASTERNET_ERR_CANCELED, st)
      else
        let quality = pr_snapshot (cl_prober cl);
            (dns_result, resolver, w) = dns_prefetch (ce_dns env) (cl_resolver cl) host (cl_network_epoch cl) w;
            cl = cl\<lparr>cl_resolver := resolver\<rparr>
        in if q_quality quality \<noteq> kOffline
           then
             let pool = set_prefetch_handler (Some (prefetch_handler env (cl_id cl) (cl_config cl) (cl_prober cl))) (cl_pool cl);
                 (_, pool, w) = pool_prefetch host pool w
             in (dns_result, cl\<lparr>cl_pool := pool\<rparr>, w)
           else (dns_result, cl, w))"

definition dump_diag :: "'w client_env \<Rightarrow> nat list \<Rightarrow> 'w client \<Rightarrow> string" where
  "dump_diag env active cl =
     (if is_active_client active cl then ''{}''
      else ''{\"network_epoch\":'' @ dec_digits (cl_network_epoch cl)
        @ '',\"dns\":'' @ dns_dump (cl_resolver cl)
        @ '',\"connections\":'' @ pool_dump (cl_pool cl)
        @ '',\"quality\":'' @ prober_dump (cl_prober cl)
        @ '',\"metrics\":'' @ metrics_dump (ce_ratio env) (cl_shadow cl)
        @ ''}'')"

text \<open>\<open>None\<close> when the trace does not return; without an error queue in the system it is not attempted.\<close>

definition client_trace_route ::
  "'w client_env \<Rightarrow> string \<Rightarrow> nat \<Rightarrow> 'w client_state \<Rightarrow> (string \<times> 'w client_state) option" where
  "client_trace_route env host port st =
     (let (cl, w) = st in
      if host = [] \<or> port = 0 then Some (''{}'', st)
      else if cl_destroyed cl then Some (''{}'', st)
      else (case ce_trace env of
          None \<Rightarrow> Some (trace_route_json_unsupported host port default_trace_config, st)
        | Some te \<Rightarrow>
            map_option (\<lambda>(text, w). (text, cl, w)) (trace_route_json te host port default_trace_config w)))"

text \<open>The destructor stops the worker, which empties its queue first, and drops the pool's entries.\<close>

definition client_destroy :: "'w client \<Rightarrow> 'w client" where
  "client_destroy cl =
     (let cl = worker_drain (cl\<lparr>cl_destroyed := True, cl_worker_stop := True\<rparr>)
      in cl\<lparr>cl_pool := pool_evict_all (cl_pool cl)\<rparr>)"

section \<open>The transport of a request\<close>

text \<open>The clocks of the orchestrator, on the client's state.\<close>

definition client_clock :: "'w client_env \<Rightarrow> 'w client_state clock" where
  "client_clock env st = (let (now, w) = ce_clock env (snd st) in (now, fst st, w))"

definition client_sleep :: "'w client_env \<Rightarrow> int \<Rightarrow> 'w client_state \<Rightarrow> 'w client_state" where
  "client_sleep env d st = (fst st, ce_sleep env d (snd st))"

definition origin_of :: "request_context \<Rightarrow> origin" where
  "origin_of c =
     \<lparr>or_host = req_host (rc_request c), or_port = req_port (rc_request c), or_protocol = PROTOCOL_UNKNOWN,
      or_network_epoch = rc_network_epoch c\<rparr>"

definition dial_request :: "request_context \<Rightarrow> resolve_result \<Rightarrow> ip_result \<Rightarrow> request" where
  "dial_request c resolution a =
     (rc_request c)\<lparr>req_connect_host := ip_text a, req_dns_ms := rr_elapsed_ms resolution\<rparr>"

text \<open>
  One address: a lease around the selector, then the feedback to resolver and prober. The quality
  callback of the prober is suppressed during a request.
\<close>

definition dial_address ::
  "'w client_env \<Rightarrow> request_context \<Rightarrow> resolve_result \<Rightarrow> ip_result \<Rightarrow> response \<Rightarrow> 'w client_state
     \<Rightarrow> int \<times> response \<times> 'w client_state" where
  "dial_address env c resolution a resp st =
     (let (cl, w) = st;
          attempt = dial_request c resolution a;
          (lease, pool, w) = pool_acquire (ce_pool_order env) (ce_clock env) (origin_of c) (cl_pool cl) w;
          r = selector_request_with_policy (ce_ban_order env) (ce_clock env) (cl_selector cl) attempt (rc_policy c) resp w;
          result = sr_ret r; resp = sr_resp r;
          (pool, w) = pool_release (ce_clock env) lease (result = ASTERNET_OK) pool (sr_world r);
          observed_rtt = to_int32 (if resp_ttfb_ms resp \<ge> 0 then resp_ttfb_ms resp else resp_total_ms resp);
          (resolver, w) = report_connection_result (ce_dns env) (req_host attempt) (req_connect_host attempt)
             (rc_network_epoch c) (result = ASTERNET_OK) observed_rtt (cl_resolver cl) w;
          (now, w) = ce_clock env w;
          (prober, _) = prober_observe 1 now (result = ASTERNET_OK) observed_rtt (cl_prober cl)
      in (result, resp,
          cl\<lparr>cl_pool := pool, cl_selector := sr_sel r, cl_resolver := resolver, cl_prober := prober\<rparr>, w))"

fun dial_addresses ::
  "'w client_env \<Rightarrow> request_context \<Rightarrow> resolve_result \<Rightarrow> ip_result list \<Rightarrow> int \<Rightarrow> response \<Rightarrow> 'w client_state
     \<Rightarrow> int \<times> response \<times> 'w client_state" where
  "dial_addresses env c resolution [] result resp st = (result, resp, st)"
| "dial_addresses env c resolution (a # rest) result resp st =
     (case dial_address env c resolution a resp st of
        (result, resp, st) \<Rightarrow>
          if result = ASTERNET_OK \<or> result \<noteq> ASTERNET_ERR_CONNECT then (result, resp, st)
          else dial_addresses env c resolution rest result resp st)"

definition max_addresses :: "request_context \<Rightarrow> resolve_result \<Rightarrow> nat" where
  "max_addresses c resolution =
     (if req_retry_safe (rc_request c) then min 2 (length (rr_addresses resolution)) else 1)"

definition execute_transport :: "'w client_env \<Rightarrow> 'w client_state terminal" where
  "execute_transport env c resp st =
     (let (cl, w) = st;
          (resolution, resolver, w) = resolve_with_metadata (ce_dns env) (cl_resolver cl) (req_host (rc_request c))
             (rc_network_epoch c) (req_timeout_ms (rc_request c)) w;
          cl = cl\<lparr>cl_resolver := resolver\<rparr>;
          c = (if rc_attempts c \<le> 1 then c\<lparr>rc_dns_cache_hit := rr_cache_hit resolution\<rparr> else c);
          resp = resp\<lparr>resp_dns_ms := rr_elapsed_ms resolution\<rparr>
      in if rr_error resolution \<noteq> ASTERNET_OK \<or> rr_addresses resolution = []
         then
           let (now, w) = ce_clock env w; (prober, _) = prober_observe 1 now False (-1) (cl_prober cl)
           in (ASTERNET_ERR_DNS, c, resp\<lparr>resp_err_code := ASTERNET_ERR_DNS, resp_failure_stage := ''dns''\<rparr>,
               cl\<lparr>cl_prober := prober\<rparr>, w)
         else
           let (result, resp, st) = dial_addresses env c resolution
                 (take (max_addresses c resolution) (rr_addresses resolution)) ASTERNET_ERR_CONNECT resp (cl, w);
               resp = (if resp_dns_ms resp < 0 then resp\<lparr>resp_dns_ms := rr_elapsed_ms resolution\<rparr> else resp);
               resp = (if result \<noteq> ASTERNET_OK \<and> resp_failure_stage resp = []
                       then resp\<lparr>resp_failure_stage := failure_stage_for result\<rparr> else resp)
           in (result, c, resp, st))"

section \<open>The request\<close>

definition effective_timeout :: "'w client \<Rightarrow> int \<Rightarrow> int" where
  "effective_timeout cl timeout_ms =
     (if timeout_ms > 0 then timeout_ms
      else if cfg_default_timeout_ms (cl_config cl) > 0 then cfg_default_timeout_ms (cl_config cl) else 15000)"

definition request_context_of :: "'w client \<Rightarrow> request \<Rightarrow> asternet_policy \<Rightarrow> int \<Rightarrow> request_context" where
  "request_context_of cl req policy started_ms =
     (let timeout = effective_timeout cl (req_timeout_ms req);
          r = req\<lparr>req_allow_insecure := False, req_timeout_ms := timeout, req_network_epoch := cl_network_epoch cl\<rparr>;
          safe = (req_retry_safe req \<or> is_replayable_safe_method r);
          r = r\<lparr>req_retry_safe := safe\<rparr>
      in default_context\<lparr>rc_request := r, rc_policy := policy, rc_request_id := cl_next_request_id cl,
           rc_network_epoch := cl_network_epoch cl, rc_max_retries := (if safe then 1 else 0),
           rc_deadline_ms := started_ms + timeout\<rparr>)"

definition quality_changed :: "quality_snapshot \<Rightarrow> quality_snapshot \<Rightarrow> bool" where
  "quality_changed before after \<longleftrightarrow>
     quality_moved before after \<or> q_score after \<noteq> q_score before \<or> q_samples after \<noteq> q_samples before
     \<or> q_total_failures after \<noteq> q_total_failures before"

text \<open>What becomes of the response after the orchestrator.\<close>

definition finish_response :: "int \<Rightarrow> request_context \<Rightarrow> int \<Rightarrow> response \<Rightarrow> response" where
  "finish_response ret c elapsed_ms resp =
     (let resp = (if resp_total_ms resp < 0 then resp\<lparr>resp_total_ms := elapsed_ms\<rparr> else resp);
          resp = (if resp_failure_stage resp = [] \<and> ret \<noteq> ASTERNET_OK
                  then resp\<lparr>resp_failure_stage := failure_stage_for ret\<rparr> else resp)
      in resp\<lparr>resp_attempts := max (resp_attempts resp) (rc_attempts c)\<rparr>)"

definition run_orchestrator ::
  "'w client_env \<Rightarrow> request_context \<Rightarrow> response \<Rightarrow> 'w client_state \<Rightarrow> int \<times> request_context \<times> response \<times> 'w client_state" where
  "run_orchestrator env c resp st =
     (let (ret, c, resp, st, co) = orchestrator_execute (client_clock env) (client_sleep env)
            (\<lambda>st. Some (cl_prober (fst st))) (execute_transport env) (cl_coalescer (fst st)) c resp st
      in (ret, c, resp, (fst st)\<lparr>cl_coalescer := co\<rparr>, snd st))"

text \<open>
  The code, the response, the protocol and the degradation of the out parameters (unchanged, \<open>None\<close>,
  where the request is refused) and the state.
\<close>

definition client_request_with_policy ::
  "'w client_env \<Rightarrow> nat list \<Rightarrow> request \<Rightarrow> asternet_policy \<Rightarrow> response \<Rightarrow> 'w client_state
     \<Rightarrow> int \<times> response \<times> (asternet_protocol \<times> bool) option \<times> 'w client_state" where
  "client_request_with_policy env active req policy resp st =
     (let (cl, w) = st in
      if request_guard_refuses active cl then (ASTERNET_ERR_INTERNAL, resp, None, st)
      else
        let (started_ms, w) = ce_clock env w in
        if cl_destroyed cl then (ASTERNET_ERR_CANCELED, resp, None, (cl, w))
        else
          let before = pr_snapshot (cl_prober cl);
              c = request_context_of cl req policy started_ms;
              cl = cl\<lparr>cl_next_request_id := cl_next_request_id cl + 1\<rparr>;
              (ret, c, resp, st) = run_orchestrator env c resp (cl, w);
              (cl, w) = st;
              (elapsed_ms, w) = (if resp_total_ms resp < 0
                 then (let (now, w) = ce_clock env w in (now - started_ms, w)) else (0, w));
              resp = finish_response ret c elapsed_ms resp;
              after = pr_snapshot (cl_prober cl);
              cl = report_metrics (cl_collector cl) (rc_request_id c) (rc_network_epoch c) c resp ret cl;
              cl = (if quality_changed before after then publish_quality_change after cl else cl)
          in (ret, resp, Some (resp_protocol resp, resp_degraded resp), cl, w))"

definition client_request ::
  "'w client_env \<Rightarrow> nat list \<Rightarrow> request \<Rightarrow> response \<Rightarrow> 'w client_state
     \<Rightarrow> int \<times> response \<times> (asternet_protocol \<times> bool) option \<times> 'w client_state" where
  "client_request env active req resp st = client_request_with_policy env active req POLICY_AUTO resp st"

end
