(* ===== verification/Client_Safety.thy ===== *)
theory Client_Safety
  imports Client
begin

text \<open>
  What a request through the whole client does to the world outside: which requests reach an engine
  and how many, and what is left of its leases. The orchestrator part is a budget argument that holds
  for every condition the transport keeps; the selector part follows the requests it hands to the
  engines; the client part puts them together.
\<close>

section \<open>A budget through the orchestrator\<close>

text \<open>
  \<open>J n w\<close>: the world is fine and \<open>n\<close> more calls of the transport are allowed. \<open>C\<close> is what stays true
  of the context.
\<close>

definition budgeted ::
  "'w clock \<Rightarrow> (int \<Rightarrow> 'w \<Rightarrow> 'w) \<Rightarrow> 'w terminal \<Rightarrow> (nat \<Rightarrow> 'w \<Rightarrow> bool) \<Rightarrow> (request_context \<Rightarrow> bool) \<Rightarrow> bool" where
  "budgeted clk sleep terminal J C \<longleftrightarrow>
     (\<forall>n w. J n w \<longrightarrow> J n (snd (clk w)) \<and> (\<forall>d. J n (sleep d w)))
     \<and> (\<forall>n w. J (Suc n) w \<longrightarrow> J n w)
     \<and> (\<forall>n c resp w r c' resp' w'. terminal c resp w = (r, c', resp', w') \<longrightarrow> J (Suc n) w \<longrightarrow> C c \<longrightarrow> J n w' \<and> C c')
     \<and> (\<forall>c. C c \<longrightarrow> (\<forall>t a. C (c\<lparr>rc_request := (rc_request c)\<lparr>req_timeout_ms := t\<rparr>, rc_attempts := a\<rparr>))
          \<and> (\<forall>b m. C (c\<lparr>rc_weak_network := b, rc_max_retries := m\<rparr>)) \<and> (\<forall>b. C (c\<lparr>rc_deduplicated := b\<rparr>))
          \<and> (\<forall>b. C (c\<lparr>rc_dns_cache_hit := b\<rparr>)))"

lemma budgetedD:
  assumes "budgeted clk sleep terminal J C"
  shows "J n w \<Longrightarrow> clk w = (now, w') \<Longrightarrow> J n w'" "J n w \<Longrightarrow> J n (sleep d w)" "J (Suc n) w \<Longrightarrow> J n w"
    "terminal c resp w = (r, c', resp', w') \<Longrightarrow> J (Suc n) w \<Longrightarrow> C c \<Longrightarrow> J n w' \<and> C c'"
    "C c \<Longrightarrow> C (c\<lparr>rc_request := (rc_request c)\<lparr>req_timeout_ms := t\<rparr>, rc_attempts := a\<rparr>)"
    "C c \<Longrightarrow> C (c\<lparr>rc_weak_network := b, rc_max_retries := m\<rparr>)" "C c \<Longrightarrow> C (c\<lparr>rc_deduplicated := b\<rparr>)"
    "C c \<Longrightarrow> C (c\<lparr>rc_dns_cache_hit := b\<rparr>)"
  using assms unfolding budgeted_def by (metis snd_conv)+

lemma budget_le:
  assumes "budgeted clk sleep terminal J C" and "J n w" and "m \<le> n"
  shows "J m w"
  using assms(3,2) by (induction rule: inc_induct) (auto intro: budgetedD(3) [OF assms(1)])

lemma retry_loop_budget:
  assumes b: "budgeted clk sleep terminal J C"
  shows "retry_loop clk sleep terminal deadline attempt left c resp w = (early, result, c', resp', w') \<Longrightarrow>
    J (Suc left) w \<Longrightarrow> C c \<Longrightarrow> (\<exists>n. J n w') \<and> C c'"
proof (induction left arbitrary: attempt c resp w)
  case 0
  obtain now w1 where n: "clk w = (now, w1)" by (rule prod.exhaust)
  note j1 = budgetedD(1) [OF b 0(2) n]
  let ?c = "c\<lparr>rc_request := (rc_request c)\<lparr>req_timeout_ms := deadline - now\<rparr>, rc_attempts := rc_attempts c + 1\<rparr>"
  obtain r c2 resp2 w2 where t: "terminal ?c default_response w1 = (r, c2, resp2, w2)" by (rule prod_cases4)
  from budgetedD(4) [OF b t j1 budgetedD(5) [OF b 0(3)]] 0 n t j1 show ?case
    by (subst (asm) retry_loop.simps) (auto split: if_splits)
next
  case (Suc left)
  obtain now w1 where n: "clk w = (now, w1)" by (rule prod.exhaust)
  note j1 = budgetedD(1) [OF b Suc(3) n]
  let ?c = "c\<lparr>rc_request := (rc_request c)\<lparr>req_timeout_ms := deadline - now\<rparr>, rc_attempts := rc_attempts c + 1\<rparr>"
  obtain r c2 resp2 w2 where t: "terminal ?c default_response w1 = (r, c2, resp2, w2)" by (rule prod_cases4)
  note j2 = budgetedD(4) [OF b t j1 budgetedD(5) [OF b Suc(4)]]
  obtain now3 w3 where n3: "clk w2 = (now3, w3)" by (rule prod.exhaust)
  note j3 = budgetedD(1) [OF b conjunct1 [OF j2] n3]
  show ?case
  proof (cases "deadline - now \<le> 0")
    case True
    from Suc.prems have "w' = w1 \<and> c' = c" by (subst (asm) retry_loop.simps) (use True in \<open>simp add: n\<close>)
    with j1 Suc(4) show ?thesis by blast
  next
    case False
    have run: "(if r = ASTERNET_OK \<or> \<not> retry_is_retryable r then (False, r, c2, resp2\<lparr>resp_attempts := rc_attempts c2\<rparr>, w2)
       else if now3 + retry_delay_ms attempt (rc_request_id c2) \<ge> deadline
       then (False, r, c2, resp2\<lparr>resp_attempts := rc_attempts c2\<rparr>, w3)
       else retry_loop clk sleep terminal deadline (Suc attempt) left c2 (resp2\<lparr>resp_attempts := rc_attempts c2\<rparr>)
              (sleep (retry_delay_ms attempt (rc_request_id c2)) w3)) = (early, result, c', resp', w')"
      using Suc.prems(1)
      unfolding retry_loop.simps [of clk sleep terminal deadline attempt "Suc left" c resp w] n prod.case Let_def
        if_not_P [OF False] t n3 nat.case .
    show ?thesis
    proof (cases "r = ASTERNET_OK \<or> \<not> retry_is_retryable r \<or> now3 + retry_delay_ms attempt (rc_request_id c2) \<ge> deadline")
      case True
      with run j2 j3 show ?thesis by (auto split: if_splits)
    next
      case False
      with run have again: "retry_loop clk sleep terminal deadline (Suc attempt) left c2 (resp2\<lparr>resp_attempts := rc_attempts c2\<rparr>)
              (sleep (retry_delay_ms attempt (rc_request_id c2)) w3) = (early, result, c', resp', w')" by auto
      show ?thesis by (rule Suc.IH [OF again budgetedD(2) [OF b j3] conjunct2 [OF j2]])
    qed
  qed
qed

lemma retry_interceptor_budget:
  assumes b: "budgeted clk sleep terminal J C"
    and run: "RetryInterceptor clk sleep terminal c resp w = (result, c', resp', w')"
    and j: "J (Suc (retry_limit c)) w" and c: "C c"
  shows "(\<exists>n. J n w') \<and> C c'"
proof -
  obtain now w1 where n: "clk w = (now, w1)" by (rule prod.exhaust)
  define d where "d = (if rc_deadline_ms c > 0 then rc_deadline_ms c else now + req_timeout_ms (rc_request c))"
  obtain early r c2 resp2 w2 where l: "retry_loop clk sleep terminal d 0 (retry_limit c) c resp w1 = (early, r, c2, resp2, w2)"
    by (rule prod_cases5)
  note g = retry_loop_budget [OF b l budgetedD(1) [OF b j n] c]
  have "w' = w2 \<and> (c' = c2 \<or> c' = c2\<lparr>rc_request := (rc_request c2)\<lparr>req_timeout_ms := req_timeout_ms (rc_request c)\<rparr>\<rparr>)"
    using run unfolding RetryInterceptor_def Let_def n prod.case d_def [symmetric] l by (auto split: if_splits)
  moreover have "C (c2\<lparr>rc_request := (rc_request c2)\<lparr>req_timeout_ms := t\<rparr>\<rparr>)" for t
    using budgetedD(5) [OF b conjunct2 [OF g], where t = t and a = "rc_attempts c2"] by simp
  ultimately show ?thesis using g by auto
qed

lemma orchestrator_budget:
  assumes b: "budgeted clk sleep terminal J C"
    and run: "orchestrator_execute clk sleep get_prober terminal co c resp w = (result, c', resp', w', co')"
    and j: "J (Suc (retry_limit (normalize_retry_safety c))) w" and c: "C (normalize_retry_safety c)"
  shows "(\<exists>n. J n w') \<and> C c'"
proof -
  let ?c = "normalize_retry_safety c"
  let ?op = "chain_execute (orchestrator_chain clk sleep get_prober) terminal"
  have op: "(\<exists>n. J n w2) \<and> C c2" if "?op ?c resp w = (r, c2, resp2, w2)" for r c2 resp2 w2
  proof -
    define d where "d = (case get_prober w of None \<Rightarrow> ?c | Some p \<Rightarrow>
      if prober_is_weak_net p
      then ?c\<lparr>rc_weak_network := True, rc_max_retries := (if q_quality (pr_snapshot p) = kOffline then 0 else min (rc_max_retries ?c) 1)\<rparr>
      else ?c\<lparr>rc_weak_network := False\<rparr>)"
    have run: "RetryInterceptor clk sleep terminal d resp w = (r, c2, resp2, w2)"
      using that by (auto simp: d_def chain_execute_def orchestrator_chain_def WeakNetInterceptor_def Let_def split: option.splits if_splits)
    have "retry_limit d \<le> retry_limit ?c"
      by (auto simp: d_def retry_limit_def nat_mono split: option.splits)
    then have "J (Suc (retry_limit d)) w" by (intro budget_le [OF b j]) simp
    moreover have "C d"
    proof -
      have "?c\<lparr>rc_weak_network := False\<rparr> = ?c\<lparr>rc_weak_network := False, rc_max_retries := rc_max_retries ?c\<rparr>" by simp
      then have "C (?c\<lparr>rc_weak_network := False\<rparr>)"
        using budgetedD(6) [OF b c, where b = False and m = "rc_max_retries ?c"] by (simp only:)
      then show ?thesis using c budgetedD(6) [OF b c] unfolding d_def by (cases "get_prober w") simp_all
    qed
    ultimately show ?thesis by (rule retry_interceptor_budget [OF b run])
  qed
  obtain r1 c1 resp1 w1 where o: "?op ?c resp w = (r1, c1, resp1, w1)" by (rule prod_cases4)
  note op1 = op [OF o]
  show ?thesis
    using run op1 j budgetedD(7) [OF b c] budgetedD(8) [OF b budgetedD(7) [OF b c]]
    by (auto simp: orchestrator_execute_def coalescer_execute_def o Let_def follower_result_def follower_timeout_def
        split: if_splits prod.splits entry.splits)
qed

section \<open>The requests the selector hands to the engines\<close>

text \<open>
  \<open>R new w w'\<close>: from \<open>w\<close> the world got to \<open>w'\<close> while engines were called with the requests \<open>new\<close>, in that
  order. Such a relation may say that a log in the world grew by \<open>new\<close>, or that a condition on the
  world is kept as long as \<open>new\<close> is harmless; what follows holds for all of them.
\<close>

locale world_trace =
  fixes R :: "request list \<Rightarrow> 'w \<Rightarrow> 'w \<Rightarrow> bool"
  assumes stays: "R [] w w" and follows: "R xs u v \<Longrightarrow> R ys v w \<Longrightarrow> R (xs @ ys) u w"
begin

lemma then_quiet: "R xs u v \<Longrightarrow> R [] v w \<Longrightarrow> R xs u w"
  using follows [of xs u v "[]" w] by simp

lemma quiet_then: "R [] u v \<Longrightarrow> R ys v w \<Longrightarrow> R ys u w"
  using follows [of "[]" u v ys w] by simp

lemma quiet_around: "R [] u v \<Longrightarrow> R ys v w \<Longrightarrow> R [] w z \<Longrightarrow> R ys u z"
  by (rule then_quiet [OF quiet_then])

end

text \<open>The two relations of interest, a log of the calls and a condition that harmless calls keep.\<close>

definition log_grows :: "('w \<Rightarrow> request list) \<Rightarrow> request list \<Rightarrow> 'w \<Rightarrow> 'w \<Rightarrow> bool" where
  "log_grows calls new w w' \<longleftrightarrow> calls w' = calls w @ new"

interpretation call_log: world_trace "log_grows calls" for calls :: "'w \<Rightarrow> request list"
  by unfold_locales (simp_all add: log_grows_def)

definition kept_by :: "(request \<Rightarrow> bool) \<Rightarrow> ('w \<Rightarrow> bool) \<Rightarrow> request list \<Rightarrow> 'w \<Rightarrow> 'w \<Rightarrow> bool" where
  "kept_by harmless P new w w' \<longleftrightarrow> (list_all harmless new \<longrightarrow> P w \<longrightarrow> P w')"

interpretation condition_kept: world_trace "kept_by harmless P" for harmless and P :: "'w \<Rightarrow> bool"
  by unfold_locales (simp_all add: kept_by_def)

definition logs_calls :: "(request list \<Rightarrow> 'w \<Rightarrow> 'w \<Rightarrow> bool) \<Rightarrow> 'w clock \<Rightarrow> 'w selector \<Rightarrow> bool" where
  "logs_calls R clk sel \<longleftrightarrow>
     world_trace R \<and> (\<forall>w. R [] w (snd (clk w)))
     \<and> (\<forall>s e q w. step_engine sel s = Some e \<longrightarrow> R [q] w (snd (snd (e q w))))"

lemma logs_callsD:
  assumes "logs_calls R clk sel"
  shows "world_trace R" "clk w = (now, w') \<Longrightarrow> R [] w w'"
    "step_engine sel s = Some e \<Longrightarrow> e q w = (r, resp, w') \<Longrightarrow> R [q] w w'"
  using assms unfolding logs_calls_def by (metis snd_conv)+

lemma gate_log:
  assumes "logs_calls R clk sel" and "selector_gate rc clk t req st = (ok, st')"
  shows "R [] (at_world st) (at_world st')"
  using assms(2) logs_callsD(2) [OF assms(1)] world_trace.stays [OF logs_callsD(1) [OF assms(1)]]
  by (auto simp: selector_gate_def selector_is_available_def Let_def split: option.splits if_splits prod.splits)

lemma attempt_log:
  assumes "logs_calls R clk sel" and "step_engine sel s = Some e"
    and "selector_attempt ho clk s e req rem st = (ok, st')"
  shows "R [req\<lparr>req_timeout_ms := rem\<rparr>] (at_world st) (at_world st')"
proof -
  note R = logs_callsD [OF assms(1)]
  obtain ret tmp w where e: "e (req\<lparr>req_timeout_ms := rem\<rparr>) (at_world st) = (ret, tmp, w)" by (rule prod_cases3)
  note called = R(3) [OF assms(2) e]
  have "R [] w (at_world st')"
    using assms(3) e R(2) world_trace.stays [OF R(1)]
    by (auto simp: selector_attempt_def selector_record_failure_def Let_def split: if_splits prod.splits)
  with called show ?thesis by (rule world_trace.then_quiet [OF R(1)])
qed

definition sent_as :: "request \<Rightarrow> request list \<Rightarrow> bool" where
  "sent_as req new \<longleftrightarrow> (\<forall>q \<in> set new. \<exists>t. q = req\<lparr>req_timeout_ms := t\<rparr>)"

lemma sent_as_simps [simp]:
  "sent_as req []" "sent_as req (q # new) \<longleftrightarrow> (\<exists>t. q = req\<lparr>req_timeout_ms := t\<rparr>) \<and> sent_as req new"
  by (auto simp: sent_as_def)

definition loop_log :: "(request list \<Rightarrow> 'w \<Rightarrow> 'w \<Rightarrow> bool) \<Rightarrow> request \<Rightarrow> nat \<Rightarrow> 'w \<Rightarrow> 'w \<Rightarrow> bool" where
  "loop_log R req n w w' \<longleftrightarrow>
     (\<exists>new. R new w w' \<and> sent_as req new \<and> length new \<le> n \<and> (\<not> req_retry_safe req \<longrightarrow> length new \<le> 1))"

lemma loop_log_same: "R [] w w' \<Longrightarrow> loop_log R req n w w'"
  by (auto simp: loop_log_def)

lemma loop_log_mono:
  assumes "loop_log R req n w1 w'" and "world_trace R" and "R [] w w1"
  shows "loop_log R req (Suc n) w w'"
proof -
  obtain new where new: "R new w1 w'" "sent_as req new" "length new \<le> n" "\<not> req_retry_safe req \<longrightarrow> length new \<le> 1"
    using assms(1) unfolding loop_log_def by blast
  with world_trace.quiet_then [OF assms(2,3) new(1)] show ?thesis
    unfolding loop_log_def by (intro exI [of _ new]) simp
qed

lemma loop_log_step:
  assumes "loop_log R req n w1 w'" and "world_trace R" and "R [req\<lparr>req_timeout_ms := t\<rparr>] w w1" and "req_retry_safe req"
  shows "loop_log R req (Suc n) w w'"
proof -
  obtain new where new: "R new w1 w'" "sent_as req new" "length new \<le> n"
    using assms(1) unfolding loop_log_def by blast
  with assms(4) world_trace.follows [OF assms(2,3) new(1)] show ?thesis unfolding loop_log_def
    by (intro exI [of _ "(req\<lparr>req_timeout_ms := t\<rparr>) # new"]) auto
qed

lemma loop_log_one: "R [req\<lparr>req_timeout_ms := t\<rparr>] w w' \<Longrightarrow> loop_log R req (Suc n) w w'"
  unfolding loop_log_def by (intro exI [of _ "[req\<lparr>req_timeout_ms := t\<rparr>]"]) auto

lemma selector_loop_log:
  assumes logs: "logs_calls R clk sel"
  shows "selector_loop ho clk req start fb chain st = (ok, st') \<Longrightarrow> same_setup sel (at_sel st) \<Longrightarrow>
    same_setup sel (at_sel st') \<and> loop_log R req (length chain) (at_world st) (at_world st')"
proof (induction chain arbitrary: st)
  case Nil
  then show ?case using world_trace.stays [OF logs_callsD(1) [OF logs]] by (auto intro: loop_log_same)
next
  case (Cons s rest)
  note wt = logs_callsD(1) [OF logs]
  note stays = world_trace.stays [OF wt]
  have skip: "?case" if "selector_loop ho clk req start fb rest st1 = (ok, st')" "same_setup sel (at_sel st1)"
    "R [] (at_world st) (at_world st1)" for st1
    using Cons.IH [OF that(1,2)] that(3) by (auto intro: loop_log_mono [OF _ wt])
  show ?case
  proof (cases "step_engine (at_sel st) s")
    case None
    with Cons.prems skip [of "st\<lparr>at_last_error := ASTERNET_ERR_UNSUPPORTED\<rparr>"] show ?thesis
      by (auto simp: Let_def stays intro: loop_log_same split: if_splits)
  next
    case (Some e)
    then have eng: "step_engine sel s = Some e" using same_setup_engine [OF Cons.prems(2)] by simp
    obtain g st1 where gate: "selector_gate fb clk (step_type s) req st = (g, st1)" by (rule prod.exhaust)
    note g1 = gate_log [OF logs gate] and sel1 = same_setup_trans [OF Cons.prems(2)]
    have s1: "same_setup sel (at_sel st1)" using gate_frame [OF gate] sel1 by blast
    note run = Cons.prems(1) [unfolded selector_loop.simps Some option.case gate prod.case]
    show ?thesis
    proof (cases g)
      case False
      with run s1 g1 skip [of "st1\<lparr>at_last_error := ASTERNET_ERR_DEGRADED, at_degraded := True\<rparr>"] show ?thesis
        by (auto simp: Let_def intro: loop_log_same split: if_splits)
    next
      case True
      obtain now w where n: "clk (at_world st1) = (now, w)" by (rule prod.exhaust)
      have w: "R [] (at_world st) w" by (rule world_trace.then_quiet [OF wt g1 logs_callsD(2) [OF logs n]])
      let ?rem = "remaining_ms req start now"
      obtain a st2 where at: "selector_attempt ho clk s e req ?rem (st1\<lparr>at_world := w\<rparr>) = (a, st2)" by (rule prod.exhaust)
      have s2: "same_setup sel (at_sel st2)" using attempt_frame [OF at] same_setup_trans [OF s1] by simp
      have c2: "R [req\<lparr>req_timeout_ms := ?rem\<rparr>] (at_world st) (at_world st2)"
        using world_trace.quiet_then [OF wt w] attempt_log [OF logs eng at] by simp
      show ?thesis
      proof (cases "?rem \<le> 0")
        case True
        with run \<open>g\<close> n s1 w show ?thesis by (auto simp: Let_def intro: loop_log_same)
      next
        case False
        show ?thesis
        proof (cases "a \<or> \<not> is_retryable_error (at_last_error st2) \<or> \<not> fb \<or> \<not> req_retry_safe req")
          case True
          with run \<open>g\<close> n False at have "st' = st2" by (auto simp: Let_def split: if_splits)
          with s2 loop_log_one [of R, OF c2] show ?thesis by simp
        next
          case go: False
          with run \<open>g\<close> n False at
          have "selector_loop ho clk req start fb rest (st2\<lparr>at_degraded := True\<rparr>) = (ok, st')" by (auto simp: Let_def)
          from Cons.IH [OF this] s2 loop_log_step [of R, OF _ wt c2] go show ?thesis by auto
        qed
      qed
    qed
  qed
qed

lemma policy_chain_length: "policy_chain policy = Some (chain, fb) \<Longrightarrow> length chain \<le> 3"
  by (cases policy) auto

lemma selector_log:
  assumes logs: "logs_calls R clk sel0" and same: "same_setup sel0 sel"
  shows "let r = selector_request_with_policy ho clk sel req policy resp w in
    same_setup sel0 (sr_sel r) \<and> loop_log R req 3 w (sr_world r)"
proof (cases "policy_chain policy")
  case None
  with same world_trace.stays [OF logs_callsD(1) [OF logs]] show ?thesis
    by (simp add: selector_request_with_policy_def loop_log_same)
next
  case (Some a)
  then obtain chain fb where pc: "policy_chain policy = Some (chain, fb)" by (cases a) simp
  from pc obtain start w1 ok st where c: "clk w = (start, w1)"
    and l: "selector_loop ho clk req start fb chain (start_state sel w1 resp) = (ok, st)"
    and r: "selector_request_with_policy ho clk sel req policy resp w = selector_finish ok st"
    by (rule selector_run)
  from selector_loop_log [OF logs l] same have "same_setup sel0 (at_sel st)"
    "loop_log R req (length chain) w1 (at_world st)" by (simp_all add: start_state_def)
  moreover have "loop_log R req 3 w (at_world st)"
    using calculation(2) policy_chain_length [OF pc] world_trace.quiet_then [OF logs_callsD(1,2) [OF logs], OF c]
    unfolding loop_log_def by (meson le_trans)
  ultimately show ?thesis using r by simp
qed

section \<open>What the other components leave alone\<close>

text \<open>A condition on the world that the clock, sleeping and the resolver's system calls keep.\<close>

definition client_quiet :: "'w client_env \<Rightarrow> ('w \<Rightarrow> bool) \<Rightarrow> bool" where
  "client_quiet env Q \<longleftrightarrow>
     (\<forall>w. Q w \<longrightarrow> Q (snd (ce_clock env w)) \<and> (\<forall>d. Q (ce_sleep env d w)) \<and> Q (snd (de_clock (ce_dns env) w))
        \<and> (\<forall>h. Q (snd (de_getaddrinfo (ce_dns env) h w))) \<and> (\<forall>d. Q (snd (de_thread (ce_dns env) d w))))"

lemma client_quietD:
  assumes "client_quiet env Q" and "Q w"
  shows "ce_clock env w = (now, w') \<Longrightarrow> Q w'" "Q (ce_sleep env d w)" "de_clock (ce_dns env) w = (now, w') \<Longrightarrow> Q w'"
    "de_getaddrinfo (ce_dns env) h w = (a, w') \<Longrightarrow> Q w'" "de_thread (ce_dns env) d w = (f, w') \<Longrightarrow> Q w'"
  using assms unfolding client_quiet_def by (metis snd_conv)+

lemma bounded_lookup_quiet:
  assumes q: "client_quiet env Q" and "\<And>w a w'. lookup w = (a, w') \<Longrightarrow> Q w \<Longrightarrow> Q w'"
    and "run_bounded_lookup (ce_dns env) dl lookup t rs w = (a, t', rs', w')" and "Q w"
  shows "Q w'"
proof -
  obtain fate w1 where f: "de_thread (ce_dns env) dl w = (fate, w1)" by (rule prod.exhaust)
  obtain b w2 where l: "lookup w1 = (b, w2)" by (rule prod.exhaust)
  note w1 = client_quietD(5) [OF q assms(4) f]
  from assms(3,4) f l w1 assms(2) [OF l w1] show ?thesis
    by (auto simp: run_bounded_lookup_def split: if_splits thread_fate.splits)
qed

lemma resolve_local_quiet:
  "client_quiet env Q \<Longrightarrow> resolve_local (ce_dns env) host allow w = (a, w') \<Longrightarrow> Q w \<Longrightarrow> Q w'"
  by (auto simp: resolve_local_def split: prod.splits option.splits dest: client_quietD(4))

lemma local_stage_quiet:
  assumes q: "client_quiet env Q" and run: "local_stage (ce_dns env) host dl a t rs w = (a', t', rs', w')" and w: "Q w"
  shows "Q w'"
proof (cases "a = []")
  case False
  with run w show ?thesis by (simp add: local_stage_def)
next
  case True
  obtain now w1 where n: "de_clock (ce_dns env) w = (now, w1)" by (rule prod.exhaust)
  note w1 = client_quietD(3) [OF q w n]
  let ?lookup = "\<lambda>w. let (a, w) = resolve_local (ce_dns env) host (dc_allow_private (rs_config rs)) w in (Some a, w)"
  obtain f t2 rs2 w2 where b: "run_bounded_lookup (ce_dns env) dl ?lookup t rs w1 = (f, t2, rs2, w2)" by (rule prod_cases4)
  have "Q w2"
    by (rule bounded_lookup_quiet [OF q _ b w1]) (auto split: prod.splits dest: resolve_local_quiet [OF q])
  with run True n b w1 show ?thesis by (auto simp: local_stage_def split: if_splits)
qed

lemma probe_cache_quiet:
  "client_quiet env Q \<Longrightarrow> probe_cache (ce_dns env) key rs w = (a, h, st, w') \<Longrightarrow> Q w \<Longrightarrow> Q w'"
  by (auto simp: probe_cache_def Let_def split: prod.splits option.splits if_splits dest: client_quietD(3))

lemma resolve_quiet:
  assumes q: "client_quiet env Q" and run: "resolve_with_metadata (ce_dns env) rs host epoch timeout w = (r, rs', w')"
    and w: "Q w" and "rs_httpdns rs = None"
  shows "Q w'" and "rs_httpdns rs' = None"
proof -
  obtain started w1 where c: "de_clock (ce_dns env) w = (started, w1)" by (rule prod.exhaust)
  note w1 = client_quietD(3) [OF q w c]
  have "Q w' \<and> rs_httpdns rs' = None"
  proof (cases "host = [] \<or> is_numeric_ip (de_parser (ce_dns env)) host \<noteq> None")
    case True
    with run c w1 assms(4) client_quietD(3) [OF q w1] show ?thesis
      by (auto simp: resolve_with_metadata_def resolve_literal_def split: if_splits option.splits prod.splits)
  next
    case False
    then have run: "resolve_name (ce_dns env) rs host epoch timeout started w1 = (r, rs', w')"
      using run c by (simp add: resolve_with_metadata_def)
    obtain a1 hit stale w2 where p: "probe_cache (ce_dns env) (cache_key host epoch) rs w1 = (a1, hit, stale, w2)"
      by (rule prod_cases4)
    note w2 = probe_cache_quiet [OF q p w1]
    let ?d = "started + max 1 (if timeout > 0 then timeout else dc_default_lookup_timeout_ms (rs_config rs))"
    have h: "httpdns_stage (ce_dns env) host ?d a1 False rs w2 = (a1, False, rs, w2)"
      using assms(4) by (simp add: httpdns_stage_def)
    obtain a3 t3 rs3 w3 where l: "local_stage (ce_dns env) host ?d a1 False rs w2 = (a3, t3, rs3, w3)"
      by (rule prod_cases4)
    note w3 = local_stage_quiet [OF q l w2]
    obtain now w4 where n: "de_clock (ce_dns env) w3 = (now, w4)" by (rule prod.exhaust)
    note w4 = client_quietD(3) [OF q w3 n]
    obtain fin w5 where f: "de_clock (ce_dns env) w4 = (fin, w5)" by (rule prod.exhaust)
    note w5 = client_quietD(3) [OF q w4 f]
    have "w' = w5"
      using run unfolding resolve_name_def p h l Let_def prod.case n f by (auto split: prod.splits)
    moreover from run obtain candidates m now' where
      "rs' = store_cache (ce_dns env) (cache_key host epoch) (rr_addresses r) now' (rs\<lparr>rs_active := m\<rparr>)"
      by (rule resolve_name_result) blast
    then have "rs_httpdns rs' = None" using assms(4) by (simp add: store_cache_def Let_def)
    ultimately show ?thesis using w5 by simp
  qed
  then show "Q w'" "rs_httpdns rs' = None" by simp_all
qed

lemma pool_quiet:
  assumes q: "client_quiet env Q"
  shows "pool_acquire ho (ce_clock env) og p w = (l, p', w') \<Longrightarrow> Q w \<Longrightarrow> Q w'"
    and "pool_release (ce_clock env) l ok p w = (p', w') \<Longrightarrow> Q w \<Longrightarrow> Q w'"
  using client_quietD(1) [OF q]
  by (auto simp: pool_acquire_def pool_release_def Let_def split: if_splits prod.splits option.splits)

lemma pool_handler:
  "pool_acquire ho clk og p w = (l, p', w') \<Longrightarrow> pl_migration_handler p' = pl_migration_handler p"
  "pool_release clk l ok p w = (p', w') \<Longrightarrow> pl_migration_handler p' = pl_migration_handler p"
  by (auto simp: pool_acquire_def pool_release_def evict_idle_def Let_def split: if_splits prod.splits option.splits)

lemma report_quiet:
  assumes q: "client_quiet env Q" and "report_connection_result (ce_dns env) h ip e ok rtt rs w = (rs', w')" and "Q w"
  shows "Q w'" and "rs_config rs' = rs_config rs" and "rs_httpdns rs' = rs_httpdns rs"
  using assms(2,3) client_quietD(3) [OF q] by (auto simp: report_connection_result_def Let_def split: if_splits prod.splits)

section \<open>The transport\<close>

text \<open>A request as an engine sees it: the given one, dialled at an address that passes the filter.\<close>

definition dialled :: "address_parser \<Rightarrow> bool \<Rightarrow> request \<Rightarrow> request \<Rightarrow> bool" where
  "dialled parser allow r q \<longleftrightarrow>
     is_safe_ip parser (req_connect_host q) allow
     \<and> (\<exists>t a d. q = r\<lparr>req_timeout_ms := t, req_connect_host := a, req_dns_ms := d\<rparr>)"

definition client_ok ::
  "'w selector \<Rightarrow> bool \<Rightarrow> ('w \<Rightarrow> int \<times> 'w) option \<Rightarrow> nat set \<Rightarrow> 'w client \<Rightarrow> bool" where
  "client_ok sel allow mh held cl \<longleftrightarrow>
     same_setup sel (cl_selector cl) \<and> pool_inv (cl_pool cl) \<and> pool_held (cl_pool cl) = held
     \<and> pl_migration_handler (cl_pool cl) = mh
     \<and> dc_allow_private (rs_config (cl_resolver cl)) = allow \<and> rs_httpdns (cl_resolver cl) = None"

definition observes :: "'w client_env \<Rightarrow> (request list \<Rightarrow> 'w \<Rightarrow> 'w \<Rightarrow> bool) \<Rightarrow> 'w selector \<Rightarrow> bool" where
  "observes env R sel \<longleftrightarrow> logs_calls R (ce_clock env) sel \<and> (\<forall>u. client_quiet env (R [] u))"

lemma observesD:
  assumes "observes env R sel"
  shows "logs_calls R (ce_clock env) sel" "client_quiet env (R [] u)" "world_trace R" "R [] w w"
  using assms logs_callsD(1) world_trace.stays by (fastforce simp: observes_def)+

lemma observes_quiet:
  assumes "observes env R sel"
  shows "client_quiet env (R new u)"
  using observesD(2) [OF assms] observesD(4) [OF assms] world_trace.then_quiet [OF observesD(3) [OF assms]]
  unfolding client_quiet_def by blast

definition address_limit :: "request \<Rightarrow> nat" where
  "address_limit r = (if req_retry_safe r then 3 else 1)"

lemma dial_address_log:
  assumes obs: "observes env R sel" and ok: "client_ok sel allow mh held cl"
    and c: "rc_request c = r\<lparr>req_timeout_ms := t\<rparr>" and a: "is_safe_ip (de_parser (ce_dns env)) (ip_text a) allow"
    and run: "dial_address env c resolution a resp (cl, w) = (result, resp', cl', w')"
  shows "client_ok sel allow mh held cl' \<and> (\<exists>new. R new w w'
    \<and> list_all (dialled (de_parser (ce_dns env)) allow r) new \<and> length new \<le> address_limit r)"
proof -
  let ?attempt = "dial_request c resolution a"
  obtain l p1 w1 where acq: "pool_acquire (ce_pool_order env) (ce_clock env) (origin_of c) (cl_pool cl) w = (l, p1, w1)"
    by (rule prod_cases3)
  define s where "s = selector_request_with_policy (ce_ban_order env) (ce_clock env) (cl_selector cl) ?attempt (rc_policy c) resp w1"
  let ?okr = "sr_ret s = ASTERNET_OK"
  obtain p2 w2 where rel: "pool_release (ce_clock env) l ?okr p1 (sr_world s) = (p2, w2)" by (rule prod.exhaust)
  let ?rtt = "to_int32 (if resp_ttfb_ms (sr_resp s) \<ge> 0 then resp_ttfb_ms (sr_resp s) else resp_total_ms (sr_resp s))"
  obtain rs3 w3 where rep: "report_connection_result (ce_dns env) (req_host ?attempt) (req_connect_host ?attempt)
      (rc_network_epoch c) ?okr ?rtt (cl_resolver cl) w2 = (rs3, w3)" by (rule prod.exhaust)
  obtain now w4 where n: "ce_clock env w3 = (now, w4)" by (rule prod.exhaust)
  obtain pr note0 where pr: "prober_observe 1 now ?okr ?rtt (cl_prober cl) = (pr, note0)" by (rule prod.exhaust)
  have out: "cl' = cl\<lparr>cl_pool := p2, cl_selector := sr_sel s, cl_resolver := rs3, cl_prober := pr\<rparr>" "w' = w4"
    using run unfolding dial_address_def Let_def prod.case acq s_def [symmetric] rel rep n pr by auto
  have sel: "same_setup sel (sr_sel s)" "loop_log R ?attempt 3 w1 (sr_world s)"
    using selector_log [OF observesD(1) [OF obs], of "cl_selector cl" "ce_ban_order env" ?attempt "rc_policy c" resp w1] ok
    by (simp_all add: s_def Let_def client_ok_def)
  note wt = observesD(3) [OF obs] and quiet = observes_quiet [OF obs] and stays = observesD(4) [OF obs]
  have w1: "R [] w w1" by (rule pool_quiet(1) [OF quiet acq stays])
  have "R [] (sr_world s) w2" by (rule pool_quiet(2) [OF quiet rel stays])
  note rp = report_quiet [OF quiet rep this]
  have w4: "R [] (sr_world s) w'" unfolding out(2) by (rule client_quietD(1) [OF quiet rp(1) n])
  have inv: "pool_inv (cl_pool cl)" using ok by (simp add: client_ok_def)
  have acq': "pool_acquire_op (ce_pool_order env) (ce_clock env) (origin_of c) (cl_pool cl, w) = (l, p1, w1)"
    by (simp add: pool_acquire_op_def acq)
  have "pool_inv p1" using pool_leases.acquire_keeps [OF _ acq'] inv by simp
  then have "pool_held p2 = pool_held (cl_pool cl) \<and> pool_inv p2"
    using pool_leases.bracket_balanced [OF _ acq', of "(p1, sr_world s)" ?okr] inv rel by (simp add: pool_release_op_def)
  then have "client_ok sel allow mh held cl'" using ok out sel(1) rp pool_handler(1) [OF acq] pool_handler(2) [OF rel] by (simp add: client_ok_def)
  moreover obtain new where new: "R new w1 (sr_world s)" "sent_as ?attempt new" "length new \<le> 3"
    "\<not> req_retry_safe ?attempt \<longrightarrow> length new \<le> 1" using sel(2) unfolding loop_log_def by blast
  have "list_all (dialled (de_parser (ce_dns env)) allow r) new"
    unfolding list_all_iff
  proof
    fix q assume "q \<in> set new"
    then obtain t' where "q = ?attempt\<lparr>req_timeout_ms := t'\<rparr>" using new(2) unfolding sent_as_def by blast
    then have "q = r\<lparr>req_timeout_ms := t', req_connect_host := ip_text a, req_dns_ms := rr_elapsed_ms resolution\<rparr>"
      using c by (simp add: dial_request_def)
    with a show "dialled (de_parser (ce_dns env)) allow r q" unfolding dialled_def by auto
  qed
  moreover have "length new \<le> address_limit r" using new(3,4) c by (simp add: address_limit_def dial_request_def)
  ultimately show ?thesis using world_trace.quiet_around [OF wt w1 new(1) w4] by blast
qed

lemma dial_addresses_log:
  assumes obs: "observes env R sel" and c: "rc_request c = r\<lparr>req_timeout_ms := t\<rparr>"
  shows "dial_addresses env c resolution as result0 resp (cl, w) = (result, resp', cl', w') \<Longrightarrow>
    client_ok sel allow mh held cl \<Longrightarrow>
    list_all (\<lambda>a. is_safe_ip (de_parser (ce_dns env)) (ip_text a) allow) as \<Longrightarrow>
    client_ok sel allow mh held cl' \<and> (\<exists>new. R new w w'
      \<and> list_all (dialled (de_parser (ce_dns env)) allow r) new \<and> length new \<le> length as * address_limit r)"
proof (induction as arbitrary: result0 resp cl w)
  case Nil
  then show ?case using observesD(4) [OF obs] by (auto intro!: exI [of _ "[]"])
next
  case (Cons a rest)
  obtain result1 resp1 cl1 w1 where d: "dial_address env c resolution a resp (cl, w) = (result1, resp1, cl1, w1)"
    by (rule prod_cases4)
  obtain new where ok1: "client_ok sel allow mh held cl1" and new: "R new w w1"
    "list_all (dialled (de_parser (ce_dns env)) allow r) new" "length new \<le> address_limit r"
    using dial_address_log [OF obs Cons.prems(2) c _ d] Cons.prems(3) by auto
  show ?case
  proof (cases "result1 = ASTERNET_OK \<or> result1 \<noteq> ASTERNET_ERR_CONNECT")
    case True
    with Cons.prems(1) d ok1 new show ?thesis by (auto intro: trans_le_add1)
  next
    case False
    with Cons.prems(1) d have "dial_addresses env c resolution rest result1 resp1 (cl1, w1) = (result, resp', cl', w')" by auto
    from Cons.IH [OF this ok1] Cons.prems(3) obtain more where "client_ok sel allow mh held cl'"
      "R more w1 w'" "list_all (dialled (de_parser (ce_dns env)) allow r) more"
      "length more \<le> length rest * address_limit r" by auto
    with new world_trace.follows [OF observesD(3) [OF obs] new(1)] show ?thesis
      by (intro conjI exI [of _ "new @ more"]) simp_all
  qed
qed

definition transport_limit :: "request \<Rightarrow> nat" where
  "transport_limit r = (if req_retry_safe r then 6 else 1)"

lemma execute_transport_log:
  assumes obs: "observes env R sel" and ok: "client_ok sel allow mh held cl"
    and c: "rc_request c = r\<lparr>req_timeout_ms := t\<rparr>"
    and run: "execute_transport env c resp (cl, w) = (result, c', resp', cl', w')"
  shows "client_ok sel allow mh held cl' \<and> rc_request c' = rc_request c \<and> (\<exists>new. R new w w'
    \<and> list_all (dialled (de_parser (ce_dns env)) allow r) new \<and> length new \<le> transport_limit r)"
proof -
  obtain res rs1 w1 where r: "resolve_with_metadata (ce_dns env) (cl_resolver cl) (req_host (rc_request c))
      (rc_network_epoch c) (req_timeout_ms (rc_request c)) w = (res, rs1, w1)" by (rule prod_cases3)
  let ?cl = "cl\<lparr>cl_resolver := rs1\<rparr>"
  define c1 where "c1 = (if rc_attempts c \<le> 1 then c\<lparr>rc_dns_cache_hit := rr_cache_hit res\<rparr> else c)"
  define resp1 where "resp1 = resp\<lparr>resp_dns_ms := rr_elapsed_ms res\<rparr>"
  have c1: "rc_request c1 = rc_request c" by (simp add: c1_def)
  note wt = observesD(3) [OF obs] and quiet = observes_quiet [OF obs] and stays = observesD(4) [OF obs]
  have http: "rs_httpdns (cl_resolver cl) = None" using ok by (simp add: client_ok_def)
  note rq = resolve_quiet [OF quiet r stays http]
  have ok1: "client_ok sel allow mh held ?cl" using ok rq(2) resolve_config [OF r] by (simp add: client_ok_def)
  have safe: "list_all (\<lambda>a. is_safe_ip (de_parser (ce_dns env)) (ip_text a) allow) (rr_addresses res)"
    using resolve_safe [OF r] ok by (simp add: client_ok_def)
  note run = run [unfolded execute_transport_def Let_def prod.case r c1_def [symmetric] resp1_def [symmetric]]
  show ?thesis
  proof (cases "rr_error res \<noteq> ASTERNET_OK \<or> rr_addresses res = []")
    case True
    obtain now w2 where n: "ce_clock env w1 = (now, w2)" by (rule prod.exhaust)
    have "R [] w w2" by (rule client_quietD(1) [OF quiet rq(1) n])
    moreover have "client_ok sel allow mh held cl' \<and> rc_request c' = rc_request c \<and> w' = w2"
      using run True n ok1 c1 by (auto simp: client_ok_def split: prod.splits)
    ultimately show ?thesis by (auto intro!: exI [of _ "[]"])
  next
    case False
    let ?as = "take (max_addresses c1 res) (rr_addresses res)"
    obtain result2 resp2 cl2 w2 where d: "dial_addresses env c1 res ?as ASTERNET_ERR_CONNECT resp1 (?cl, w1) = (result2, resp2, cl2, w2)"
      by (rule prod_cases4)
    have out: "cl' = cl2" "w' = w2" "c' = c1" using run False d by auto
    have "list_all (\<lambda>a. is_safe_ip (de_parser (ce_dns env)) (ip_text a) allow) ?as"
      using safe by (auto simp: list_all_iff dest: in_set_takeD)
    moreover have "rc_request c1 = r\<lparr>req_timeout_ms := t\<rparr>" using c c1 by simp
    ultimately obtain new where "client_ok sel allow mh held cl2" "R new w1 w2"
      "list_all (dialled (de_parser (ce_dns env)) allow r) new" "length new \<le> length ?as * address_limit r"
      using dial_addresses_log [OF obs _ d ok1] by blast
    moreover have "length ?as * address_limit r \<le> transport_limit r"
      using c c1 by (auto simp: max_addresses_def address_limit_def transport_limit_def min_def)
    ultimately show ?thesis using out world_trace.quiet_then [OF wt rq(1)] c1 by (blast intro: le_trans)
  qed
qed

section \<open>The request\<close>

definition client_budget ::
  "'w client_env \<Rightarrow> (request list \<Rightarrow> 'w \<Rightarrow> 'w \<Rightarrow> bool) \<Rightarrow> 'w selector \<Rightarrow> bool \<Rightarrow> ('w \<Rightarrow> int \<times> 'w) option \<Rightarrow> nat set
     \<Rightarrow> request \<Rightarrow> 'w \<Rightarrow> nat \<Rightarrow> nat \<Rightarrow> 'w client_state \<Rightarrow> bool" where
  "client_budget env R sel allow mh held r before limit n st \<longleftrightarrow>
     client_ok sel allow mh held (fst st)
     \<and> (\<exists>new. R new before (snd st) \<and> list_all (dialled (de_parser (ce_dns env)) allow r) new
          \<and> length new + n * transport_limit r \<le> limit)"

lemma client_budgeted:
  assumes obs: "observes env R sel"
  shows "budgeted (client_clock env) (client_sleep env) (execute_transport env)
    (client_budget env R sel allow mh held r before limit) (\<lambda>c. \<exists>t. rc_request c = r\<lparr>req_timeout_ms := t\<rparr>)"
proof -
  note quiet = observes_quiet [OF obs]
  have clk: "client_budget env R sel allow mh held r before limit n (snd (client_clock env st))
      \<and> (\<forall>d. client_budget env R sel allow mh held r before limit n (client_sleep env d st))"
    if "client_budget env R sel allow mh held r before limit n st" for n st
  proof -
    obtain now w where n: "ce_clock env (snd st) = (now, w)" by (rule prod.exhaust)
    have "R new before w" "R new before (ce_sleep env d (snd st))" if "R new before (snd st)" for new d
      using client_quietD(1) [OF quiet that n] client_quietD(2) [OF quiet that] by simp_all
    with that n show ?thesis unfolding client_budget_def client_clock_def client_sleep_def by auto
  qed
  have less: "client_budget env R sel allow mh held r before limit n st"
    if "client_budget env R sel allow mh held r before limit (Suc n) st" for n st
    using that by (fastforce simp: client_budget_def)
  have attempt: "client_budget env R sel allow mh held r before limit n st' \<and> (\<exists>t. rc_request c' = r\<lparr>req_timeout_ms := t\<rparr>)"
    if run: "execute_transport env c resp st = (result, c', resp', st')"
      and b: "client_budget env R sel allow mh held r before limit (Suc n) st"
      and c: "\<exists>t. rc_request c = r\<lparr>req_timeout_ms := t\<rparr>" for n c resp st result c' resp' st'
  proof -
    obtain cl w where st: "st = (cl, w)" by (rule prod.exhaust)
    obtain cl' w' where st': "st' = (cl', w')" by (rule prod.exhaust)
    obtain t where t: "rc_request c = r\<lparr>req_timeout_ms := t\<rparr>" using c ..
    obtain old where old: "client_ok sel allow mh held cl" "R old before w"
      "list_all (dialled (de_parser (ce_dns env)) allow r) old" "length old + Suc n * transport_limit r \<le> limit"
      using b st by (auto simp: client_budget_def)
    from execute_transport_log [OF obs old(1) t run [unfolded st st']] obtain new where
      new: "client_ok sel allow mh held cl'" "rc_request c' = rc_request c" "R new w w'"
      "list_all (dialled (de_parser (ce_dns env)) allow r) new" "length new \<le> transport_limit r" by blast
    have "R (old @ new) before w'" by (rule world_trace.follows [OF observesD(3) [OF obs] old(2) new(3)])
    with new old t st' show ?thesis by (auto simp: client_budget_def intro!: exI [of _ "old @ new"])
  qed
  show ?thesis
    unfolding budgeted_def using clk less attempt by auto
qed

text \<open>The request as the transport sees it: what the client and the orchestrator make of it.\<close>

definition effective_request :: "'w client \<Rightarrow> request \<Rightarrow> asternet_policy \<Rightarrow> request" where
  "effective_request cl req policy = rc_request (normalize_retry_safety (request_context_of cl req policy 0))"

lemma request_context_started:
  "rc_request (normalize_retry_safety (request_context_of cl req policy t)) = effective_request cl req policy"
  "retry_limit (normalize_retry_safety (request_context_of cl req policy t)) \<le> 1"
  "\<not> req_retry_safe (effective_request cl req policy) \<Longrightarrow>
     retry_limit (normalize_retry_safety (request_context_of cl req policy t)) = 0"
  by (simp_all add: effective_request_def request_context_of_def normalize_retry_safety_def retry_limit_def
      default_context_def Let_def)

definition engine_call_limit :: "request \<Rightarrow> nat" where
  "engine_call_limit r = (if req_retry_safe r then 12 else 1)"

lemma run_orchestrator_log:
  assumes obs: "observes env R sel" and ok: "client_ok sel allow mh held cl"
    and run: "run_orchestrator env (request_context_of cl0 req policy t) resp (cl, w) = (ret, c', resp', cl', w')"
  shows "client_ok sel allow mh held cl' \<and> (\<exists>new. R new w w'
    \<and> list_all (dialled (de_parser (ce_dns env)) allow (effective_request cl0 req policy)) new
    \<and> length new \<le> engine_call_limit (effective_request cl0 req policy))"
proof -
  let ?r = "effective_request cl0 req policy" and ?c = "request_context_of cl0 req policy t"
  let ?J = "client_budget env R sel allow mh held ?r w (engine_call_limit ?r)"
  obtain ret1 c1 resp1 st1 co1 where o: "orchestrator_execute (client_clock env) (client_sleep env)
      (\<lambda>st. Some (cl_prober (fst st))) (execute_transport env) (cl_coalescer cl) ?c resp (cl, w) = (ret1, c1, resp1, st1, co1)"
    by (rule prod_cases5)
  have "Suc (retry_limit (normalize_retry_safety ?c)) * transport_limit ?r \<le> engine_call_limit ?r"
    using request_context_started(2) [of cl0 req policy t] request_context_started(3) [of cl0 req policy t]
    by (cases "req_retry_safe ?r") (simp_all add: transport_limit_def engine_call_limit_def)
  then have "?J (Suc (retry_limit (normalize_retry_safety ?c))) (cl, w)"
    using ok observesD(4) [OF obs] by (auto simp: client_budget_def intro!: exI [of _ "[]"])
  moreover have "\<exists>t'. rc_request (normalize_retry_safety ?c) = ?r\<lparr>req_timeout_ms := t'\<rparr>"
    by (rule exI [of _ "req_timeout_ms ?r"]) (simp add: request_context_started(1))
  ultimately have "\<exists>n. ?J n st1"
    using orchestrator_budget [OF client_budgeted [OF obs] o] by blast
  with run o show ?thesis by (fastforce simp: run_orchestrator_def client_budget_def client_ok_def)
qed

lemma publish_ok: "client_ok sel allow mh held cl \<Longrightarrow> client_ok sel allow mh held (publish_quality_change q cl)"
  by (simp add: publish_quality_change_def client_ok_def dns_on_quality_change_def Let_def)

lemma client_request_log:
  assumes obs: "observes env R sel" and ok: "client_ok sel allow mh held cl"
    and run: "client_request_with_policy env active req policy resp (cl, w) = (ret, resp', out, cl', w')"
  shows "client_ok sel allow mh held cl' \<and> (\<exists>new. R new w w'
    \<and> list_all (dialled (de_parser (ce_dns env)) allow (effective_request cl req policy)) new
    \<and> length new \<le> engine_call_limit (effective_request cl req policy))"
proof (cases "request_guard_refuses active cl")
  case True
  with run ok observesD(4) [OF obs] show ?thesis by (auto simp: client_request_with_policy_def intro!: exI [of _ "[]"])
next
  case False
  note wt = observesD(3) [OF obs] and quiet = observes_quiet [OF obs] and stays = observesD(4) [OF obs]
  obtain started w1 where n: "ce_clock env w = (started, w1)" by (rule prod.exhaust)
  have w1: "R [] w w1" by (rule client_quietD(1) [OF quiet stays n])
  note run = run [unfolded client_request_with_policy_def prod.case Let_def if_not_P [OF False] n]
  show ?thesis
  proof (cases "cl_destroyed cl")
    case True
    with run ok w1 show ?thesis by (auto intro!: exI [of _ "[]"])
  next
    case live: False
    let ?cl = "cl\<lparr>cl_next_request_id := cl_next_request_id cl + 1\<rparr>"
    obtain ret2 c2 resp2 cl2 w2 where o: "run_orchestrator env (request_context_of cl req policy started) resp (?cl, w1)
      = (ret2, c2, resp2, cl2, w2)" by (rule prod_cases5)
    have "client_ok sel allow mh held ?cl" using ok by (simp add: client_ok_def)
    from run_orchestrator_log [OF obs this o] world_trace.quiet_then [OF wt w1] obtain new where
      new: "client_ok sel allow mh held cl2" "R new w w2"
      "list_all (dialled (de_parser (ce_dns env)) allow (effective_request cl req policy)) new"
      "length new \<le> engine_call_limit (effective_request cl req policy)" by blast
    obtain ms w3 where e: "(if resp_total_ms resp2 < 0 then (case ce_clock env w2 of (now, w) \<Rightarrow> (now - started, w)) else (0, w2)) = (ms, w3)"
      by (rule prod.exhaust)
    have w3: "R new w w3"
      using e new(2) client_quietD(1) [OF quiet new(2)] by (auto split: if_splits prod.splits)
    note run = run [unfolded if_not_P [OF live] o prod.case e]
    have rep: "client_ok sel allow mh held (report_metrics k i ep c2 rs r' cl2)" for k i ep rs r'
      using new(1) by (simp add: report_metrics_def enqueue_metrics_def client_ok_def Let_def)
    from run have "w' = w3" "client_ok sel allow mh held cl'" using rep publish_ok [OF rep] by (auto split: if_splits)
    with new w3 show ?thesis by blast
  qed
qed

section \<open>Safety of a request\<close>

definition may_be_replayed :: "request \<Rightarrow> bool" where
  "may_be_replayed req \<longleftrightarrow>
     req_retry_safe req \<or> (req_body req = [] \<and> req_method req \<in> {''GET'', ''HEAD'', ''OPTIONS''})
     \<or> (req_idempotent req \<and> has_idempotency_key (req_headers req))"

lemma effective_request_fields:
  "req_host (effective_request cl req policy) = req_host req" "req_port (effective_request cl req policy) = req_port req"
  "req_method (effective_request cl req policy) = req_method req" "req_path (effective_request cl req policy) = req_path req"
  "req_body (effective_request cl req policy) = req_body req" "req_headers (effective_request cl req policy) = req_headers req"
  "\<not> req_allow_insecure (effective_request cl req policy)"
  "req_network_epoch (effective_request cl req policy) = cl_network_epoch cl"
  "req_retry_safe (effective_request cl req policy) \<longleftrightarrow> may_be_replayed req"
  by (auto simp: effective_request_def request_context_of_def normalize_retry_safety_def default_context_def Let_def
      is_replayable_safe_method_def may_be_replayed_def is_safe_method_def split: if_splits)

lemma dialled_fields:
  assumes "dialled parser allow r q"
  shows "is_safe_ip parser (req_connect_host q) allow" "req_host q = req_host r" "req_method q = req_method r"
    "req_path q = req_path r" "req_headers q = req_headers r" "req_body q = req_body r"
    "req_allow_insecure q = req_allow_insecure r" "req_network_epoch q = req_network_epoch r"
  using assms by (auto simp: dialled_def)

definition delivered_faithfully :: "'w client_env \<Rightarrow> 'w client \<Rightarrow> request \<Rightarrow> request \<Rightarrow> bool" where
  "delivered_faithfully env cl req q \<longleftrightarrow>
     is_safe_ip (de_parser (ce_dns env)) (req_connect_host q) (dc_allow_private (rs_config (cl_resolver cl)))
     \<and> req_host q = req_host req \<and> req_method q = req_method req \<and> req_path q = req_path req
     \<and> req_headers q = req_headers req \<and> req_body q = req_body req
     \<and> \<not> req_allow_insecure q \<and> req_network_epoch q = cl_network_epoch cl"


text \<open>A world that lists the engines' calls, and engines that always refuse the connection.\<close>

definition log_engine :: "(request list) engine" where
  "log_engine req w = (ASTERNET_ERR_CONNECT, default_response, w @ [req])"

definition log_env :: "(request list) client_env" where
  "log_env =
     \<lparr>ce_clock = (\<lambda>w. (0, w)), ce_sleep = (\<lambda>_ w. w),
      ce_dns = \<lparr>de_parser = demo_parser, de_ntop4 = (\<lambda>_. Some ''8.8.8.8''), de_ntop6 = (\<lambda>_. None),
        de_getaddrinfo = (\<lambda>_ w. (Some [AF_INET 0x08080808], w)), de_clock = (\<lambda>w. (0, w)),
        de_thread = (\<lambda>_ w. (Done_In_Time True, w)), de_cache_order = (\<lambda>_. 0), de_health_order = (\<lambda>_. 0)\<rparr>,
      ce_ban_order = (\<lambda>_. 0), ce_pool_order = (\<lambda>_. 0), ce_http1 = (\<lambda>_ _. log_engine), ce_http2 = (\<lambda>_ _. log_engine),
      ce_quic = (\<lambda>_ _. log_engine), ce_xquic_enabled = False, ce_testing_build = False,
      ce_migrate_http1 = (\<lambda>_ w. (0, w)), ce_migrate_http2 = (\<lambda>_ w. (0, w)), ce_migrate_quic = (\<lambda>_ w. (0, w)),
      ce_prefetch_quic = (\<lambda>_ _ w. (0, w)), ce_destroy = (\<lambda>_ _ w. w), ce_trace = None,
      ce_ratio = (\<lambda>_ _. [])\<rparr>"

definition demo_client :: "(request list) client" where
  "demo_client = new_client log_env 1
     \<lparr>cfg_struct_size = 64, cfg_abi_version = ASTERNET_ABI_VERSION, cfg_default_timeout_ms = 0,
      cfg_max_response_body_bytes = 0, cfg_enable_http3 = 0, cfg_allow_insecure_tls_for_testing = 0,
      cfg_ca_cert_pem = None, cfg_allow_private_networks = 0\<rparr>"

lemma log_env_observes: "observes log_env (log_grows (\<lambda>w. w)) (cl_selector demo_client)"
  by (auto simp: observes_def log_grows_def call_log.world_trace_axioms logs_calls_def client_quiet_def log_env_def demo_client_def new_client_def Let_def has_quic_def
      ProtocolSelector_def step_engine_def log_engine_def split: engine_type.splits)

definition demo_upload :: request where
  "demo_upload = default_request\<lparr>req_host := ''a'', req_method := ''POST'', req_body := ''b''\<rparr>"


end
