(* ===== verification/Client_Reports.thy ===== *)
theory Client_Reports
  imports Client_Safety
begin

text \<open>
  What a client tells its host: the records the metrics worker delivers and the quality notifications.
  The first part relates the worker, one record at a time, to the list of records it owes; the second
  shows, over every sequence of operations of the client, that its queue stays bounded and that
  notifications never go back in time; the third what a finished request reports.
\<close>

section \<open>The metrics worker\<close>

definition owed :: "(request_metrics \<times> collector_ref) list \<Rightarrow> (nat \<times> request_metrics) list" where
  "owed q = concat (map (\<lambda>(m, c). case c of Shadow \<Rightarrow> [] | Installed i \<Rightarrow> [(i, m)]) q)"

lemma owed_simps [simp]:
  "owed [] = []" "owed ((m, Shadow) # q) = owed q" "owed ((m, Installed i) # q) = (i, m) # owed q"
  by (simp_all add: owed_def)

fun worker_run :: "nat \<Rightarrow> 'w client \<Rightarrow> 'w client" where
  "worker_run 0 cl = cl"
| "worker_run (Suc n) cl = (case worker_step cl of None \<Rightarrow> cl | Some cl \<Rightarrow> worker_run n cl)"

definition delivered_all :: "'w client \<Rightarrow> 'w client" where
  "delivered_all cl =
     cl\<lparr>cl_queue := [], cl_shadow := fold (report_request \<circ> fst) (cl_queue cl) (cl_shadow cl),
        cl_delivered := cl_delivered cl @ owed (cl_queue cl)\<rparr>"

lemma worker_run_delivers: "length (cl_queue cl) \<le> n \<Longrightarrow> worker_run n cl = delivered_all cl"
proof (induction n arbitrary: cl)
  case 0
  then show ?case by (simp add: delivered_all_def)
next
  case (Suc n)
  show ?case
  proof (cases "cl_queue cl")
    case Nil
    then show ?thesis by (simp add: worker_step_def delivered_all_def)
  next
    case (Cons x q)
    obtain m c where x: "x = (m, c)" by (rule prod.exhaust)
    show ?thesis
      using Suc.prems Suc.IH [of "cl\<lparr>cl_queue := q, cl_shadow := report_request m (cl_shadow cl)\<rparr>"]
        Suc.IH [of "cl\<lparr>cl_queue := q, cl_shadow := report_request m (cl_shadow cl),
          cl_delivered := cl_delivered cl @ [(i, m)]\<rparr>" for i] Cons x
      by (cases c) (simp_all add: worker_step_def delivered_all_def Let_def)
  qed
qed

lemma worker_drain_delivers:
  fixes cl :: "'w client"
  shows "worker_drain cl = delivered_all cl"
proof -
  have "fold (\<lambda>(m, c) cl. cl\<lparr>cl_shadow := report_request m (cl_shadow cl),
             cl_delivered := (case c of Shadow \<Rightarrow> cl_delivered cl | Installed i \<Rightarrow> cl_delivered cl @ [(i, m)])\<rparr>) q cl
      = cl\<lparr>cl_shadow := fold (report_request \<circ> fst) q (cl_shadow cl), cl_delivered := cl_delivered cl @ owed q\<rparr>" for q and cl :: "'w client"
    by (induction q arbitrary: cl) (auto split: collector_ref.split)
  then show ?thesis by (simp add: worker_drain_def delivered_all_def)
qed

text \<open>
  Property C33. The metrics worker, run one record at a time, empties the queue in as many turns as it
  holds records and then waits; every record goes into the client's own collector and, where a collector
  was installed when it was queued, to that collector, exactly once and in the order of the requests.
  Draining in the destructor has the same effect, so nothing queued is lost at shutdown.
\<close>

theorem metrics_worker_delivers:
  "worker_run (length (cl_queue cl)) cl = worker_drain cl
   \<and> worker_step (worker_drain cl) = None
   \<and> cl_delivered (worker_drain cl) = cl_delivered cl @ owed (cl_queue cl)
   \<and> cl_shadow (worker_drain cl) = fold (report_request \<circ> fst) (cl_queue cl) (cl_shadow cl)
   \<and> cl_delivered (client_destroy cl) = cl_delivered (worker_drain cl)"
  using worker_run_delivers [OF order_refl, of cl]
  by (simp add: worker_drain_delivers delivered_all_def worker_step_def client_destroy_def Let_def)

section \<open>Every operation of the client\<close>

datatype client_op =
    Do_Request (op_active: "nat list") (op_request: request) (op_policy: asternet_policy)
  | Do_Network_Change "nat list" asternet_network
  | Do_Set_Callback bool
  | Do_Set_Collector "collector_ref option"
  | Do_Prefetch string
  | Do_Worker_Turn
  | Do_Destroy

fun client_apply :: "'w client_env \<Rightarrow> client_op \<Rightarrow> 'w client_state \<Rightarrow> 'w client_state" where
  "client_apply env (Do_Request active req policy) st =
     snd (snd (snd (client_request_with_policy env active req policy default_response st)))"
| "client_apply env (Do_Network_Change active net) st = client_on_network_change env active net st"
| "client_apply env (Do_Set_Callback b) (cl, w) = (client_set_quality_callback b cl, w)"
| "client_apply env (Do_Set_Collector c) (cl, w) = (snd (set_metrics_collector c cl), w)"
| "client_apply env (Do_Prefetch host) st = snd (client_prefetch env host st)"
| "client_apply env Do_Worker_Turn (cl, w) = (case worker_step cl of None \<Rightarrow> cl | Some cl \<Rightarrow> cl, w)"
| "client_apply env Do_Destroy (cl, w) = (client_destroy cl, w)"

definition client_run :: "'w client_env \<Rightarrow> client_op list \<Rightarrow> 'w client_state \<Rightarrow> 'w client_state" where
  "client_run env ops st = fold (client_apply env) ops st"

text \<open>The order in which notifications may come.\<close>

definition not_after :: "public_snapshot \<Rightarrow> public_snapshot \<Rightarrow> bool" where
  "not_after a b \<longleftrightarrow>
     pq_network_epoch a < pq_network_epoch b
     \<or> (pq_network_epoch a = pq_network_epoch b \<and> pq_last_sample_ms a \<le> pq_last_sample_ms b)"

lemma not_after_trans: "not_after a b \<Longrightarrow> not_after b c \<Longrightarrow> not_after a c"
  by (auto simp: not_after_def)

lemma not_after_refl [simp]: "not_after a a"
  by (simp add: not_after_def)

lemma not_stale: "\<not> stale_snapshot latest q \<Longrightarrow> not_after (public_of latest) (public_of q)"
  by (auto simp: stale_snapshot_def not_after_def public_of_def)

lemma newer_epoch: "not_after a (public_of q) \<Longrightarrow> q_network_epoch q < q_network_epoch r \<Longrightarrow> not_after a (public_of r)"
  by (auto simp: not_after_def public_of_def)

definition client_sound :: "'w client \<Rightarrow> bool" where
  "client_sound cl \<longleftrightarrow>
     length (cl_queue cl) \<le> 256
     \<and> q_network_epoch (pr_snapshot (cl_prober cl)) = cl_network_epoch cl
     \<and> q_network_epoch (cl_last_quality cl) \<le> cl_network_epoch cl
     \<and> sorted_wrt not_after (cl_notified cl)
     \<and> list_all (\<lambda>n. not_after n (public_of (cl_last_quality cl))) (cl_notified cl)"

text \<open>What a request leaves alone until it reports.\<close>

definition same_reports :: "'w client \<Rightarrow> 'w client \<Rightarrow> bool" where
  "same_reports a b \<longleftrightarrow>
     cl_queue b = cl_queue a \<and> cl_network_epoch b = cl_network_epoch a \<and> cl_last_quality b = cl_last_quality a
     \<and> cl_notified b = cl_notified a \<and> cl_destroyed b = cl_destroyed a \<and> cl_callback b = cl_callback a
     \<and> cl_collector b = cl_collector a \<and> cl_next_request_id b = cl_next_request_id a
     \<and> q_network_epoch (pr_snapshot (cl_prober b)) = q_network_epoch (pr_snapshot (cl_prober a))"

lemma same_reports_refl [simp]: "same_reports a a"
  by (simp add: same_reports_def)

lemma same_reports_trans: "same_reports a b \<Longrightarrow> same_reports b c \<Longrightarrow> same_reports a c"
  by (simp add: same_reports_def)

lemma same_reports_sound: "same_reports a b \<Longrightarrow> client_sound a \<Longrightarrow> client_sound b"
  by (simp add: same_reports_def client_sound_def)

lemma prober_observe_epoch:
  "prober_observe d now ok rtt p = (p', note) \<Longrightarrow> q_network_epoch (pr_snapshot p') = q_network_epoch (pr_snapshot p)"
  using observe_sample_epoch [of d now ok "default_sample\<lparr>qs_rtt_ms := rtt\<rparr>" p] by (simp add: prober_observe_def)

lemma dial_address_reports:
  "dial_address env c resolution a resp (cl, w) = (result, resp', cl', w') \<Longrightarrow> same_reports cl cl'"
  by (auto simp: dial_address_def Let_def same_reports_def split: prod.splits dest: prober_observe_epoch)

lemma dial_addresses_reports:
  "dial_addresses env c resolution as result0 resp (cl, w) = (result, resp', cl', w') \<Longrightarrow> same_reports cl cl'"
proof (induction as arbitrary: result0 resp cl w)
  case (Cons a rest)
  obtain result1 resp1 cl1 w1 where d: "dial_address env c resolution a resp (cl, w) = (result1, resp1, cl1, w1)"
    by (rule prod_cases4)
  from Cons.prems Cons.IH [of result1 resp1 cl1 w1] dial_address_reports [OF d] d show ?case
    by (auto split: if_splits intro: same_reports_trans)
qed simp

lemma execute_transport_reports:
  assumes "execute_transport env c resp (cl, w) = (result, c', resp', cl', w')"
  shows "same_reports cl cl' \<and> rc_request_id c' = rc_request_id c \<and> rc_network_epoch c' = rc_network_epoch c"
  using assms
  by (auto simp: execute_transport_def Let_def same_reports_def split: prod.splits if_splits
      dest: prober_observe_epoch dial_addresses_reports)

lemma run_orchestrator_reports:
  assumes run: "run_orchestrator env c resp (cl, w) = (ret, c', resp', cl', w')"
  shows "same_reports cl cl' \<and> rc_request_id c' = rc_request_id c \<and> rc_network_epoch c' = rc_network_epoch c"
proof -
  let ?J = "\<lambda>(_::nat) st. same_reports cl (fst st)"
  let ?C = "\<lambda>d. rc_request_id d = rc_request_id c \<and> rc_network_epoch d = rc_network_epoch c"
  have b: "budgeted (client_clock env) (client_sleep env) (execute_transport env) ?J ?C"
    unfolding budgeted_def
    by (auto simp: client_clock_def client_sleep_def Let_def split: prod.splits
        intro: same_reports_trans dest: execute_transport_reports)
  obtain ret1 c1 resp1 st1 co1 where o: "orchestrator_execute (client_clock env) (client_sleep env)
      (\<lambda>st. Some (cl_prober (fst st))) (execute_transport env) (cl_coalescer cl) c resp (cl, w) = (ret1, c1, resp1, st1, co1)"
    by (rule prod_cases5)
  have "?C (normalize_retry_safety c)" by (simp add: normalize_retry_safety_def Let_def)
  then have "same_reports cl (fst st1) \<and> ?C c1"
    using orchestrator_budget [OF b o] by simp
  with run o show ?thesis by (auto simp: run_orchestrator_def same_reports_def)
qed

lemma publish_sound:
  assumes "client_sound cl" and "q_network_epoch q \<le> cl_network_epoch cl"
  shows "client_sound (publish_quality_change q cl)"
proof (cases "cl_destroyed cl \<or> stale_snapshot (cl_last_quality cl) q")
  case True
  with assms(1) show ?thesis by (auto simp: publish_quality_change_def)
next
  case False
  have old: "list_all (\<lambda>n. not_after n (public_of q)) (cl_notified cl)"
    using assms(1) not_stale [of "cl_last_quality cl" q] False not_after_trans
    by (auto simp: client_sound_def list_all_iff)
  with assms False show ?thesis
    by (auto simp: publish_quality_change_def client_sound_def Let_def sorted_wrt_append list_all_iff)
qed

lemma enqueue_sound: "client_sound cl \<Longrightarrow> client_sound (enqueue_metrics m c cl)"
  by (auto simp: enqueue_metrics_def client_sound_def Let_def)

lemma request_sound:
  assumes s: "client_sound cl"
    and run: "client_request_with_policy env active req policy resp (cl, w) = (ret, resp', out, cl', w')"
  shows "client_sound cl'"
proof (cases "request_guard_refuses active cl")
  case True
  with run s show ?thesis by (simp add: client_request_with_policy_def)
next
  case False
  obtain started w1 where n: "ce_clock env w = (started, w1)" by (rule prod.exhaust)
  note run = run [unfolded client_request_with_policy_def prod.case Let_def if_not_P [OF False] n]
  show ?thesis
  proof (cases "cl_destroyed cl")
    case True
    with run s show ?thesis by simp
  next
    case live: False
    let ?cl = "cl\<lparr>cl_next_request_id := cl_next_request_id cl + 1\<rparr>"
    obtain ret2 c2 resp2 cl2 w2 where o: "run_orchestrator env (request_context_of cl req policy started) resp (?cl, w1)
      = (ret2, c2, resp2, cl2, w2)" by (rule prod_cases5)
    have "client_sound ?cl" using s by (simp add: client_sound_def)
    then have cl2: "client_sound cl2" using run_orchestrator_reports [OF o] same_reports_sound by blast
    obtain ms w3 where e: "(if resp_total_ms resp2 < 0 then (case ce_clock env w2 of (now, w) \<Rightarrow> (now - started, w)) else (0, w2)) = (ms, w3)"
      by (rule prod.exhaust)
    have rep: "client_sound (report_metrics k i ep c2 rs r' cl2)" for k i ep rs r'
      unfolding report_metrics_def by (rule enqueue_sound [OF cl2])
    have "client_sound (publish_quality_change (pr_snapshot (cl_prober cl2)) (report_metrics k i ep c2 rs r' cl2))" for k i ep rs r'
      by (rule publish_sound [OF rep]) (use cl2 in \<open>simp add: client_sound_def report_metrics_def enqueue_metrics_def Let_def\<close>)
    with rep run [unfolded if_not_P [OF live] o prod.case e] show ?thesis by (auto split: if_splits)
  qed
qed

lemma network_change_sound:
  assumes s: "client_sound cl" and run: "client_on_network_change env active net (cl, w) = (cl', w')"
  shows "client_sound cl'"
proof (cases "is_active_client active cl \<or> cl_destroyed cl")
  case True
  with run s show ?thesis by (simp add: client_on_network_change_def)
next
  case False
  obtain now w1 where n: "ce_clock env w = (now, w1)" by (rule prod.exhaust)
  let ?epoch = "cl_network_epoch cl + 1"
  obtain pr note0 where p: "prober_on_network_change 1 now ?epoch net (cl_prober cl) = (pr, note0)" by (rule prod.exhaust)
  have pr: "q_network_epoch (pr_snapshot pr) = ?epoch"
    using p by (auto simp: prober_on_network_change_def Let_def split: if_splits)
  define cl1 where "cl1 = cl\<lparr>cl_network_epoch := ?epoch, cl_prober := pr, cl_last_quality := pr_snapshot pr,
                    cl_pool := pool_on_network_change ?epoch net (cl_pool cl),
                    cl_resolver := dns_on_quality_change (pr_snapshot pr) (dns_on_network_change ?epoch (cl_resolver cl))\<rparr>"
  obtain m pool w2 where m: "pool_migrate net (cl_pool cl1) w1 = (m, pool, w2)" by (rule prod_cases3)
  have "list_all (\<lambda>n. not_after n (public_of (pr_snapshot pr))) (cl_notified cl)"
    unfolding list_all_iff
  proof
    fix n assume "n \<in> set (cl_notified cl)"
    then have "not_after n (public_of (cl_last_quality cl))" using s by (simp add: client_sound_def list_all_iff)
    moreover have "q_network_epoch (cl_last_quality cl) < q_network_epoch (pr_snapshot pr)"
      unfolding pr using s by (simp add: client_sound_def)
    ultimately show "not_after n (public_of (pr_snapshot pr))" by (rule newer_epoch)
  qed
  then have s1: "client_sound (cl1\<lparr>cl_pool := pool\<rparr>)"
    using s pr by (simp add: client_sound_def cl1_def)
  have "cl' = (if quality_moved (pr_snapshot (cl_prober cl)) (pr_snapshot pr)
      then publish_quality_change (pr_snapshot pr) (cl1\<lparr>cl_pool := pool\<rparr>) else cl1\<lparr>cl_pool := pool\<rparr>)"
    using run [unfolded client_on_network_change_def prod.case Let_def if_not_P [OF False] n p
        cl1_def [symmetric] m] by simp
  with s1 publish_sound [OF s1, of "pr_snapshot pr"] pr show ?thesis by (simp add: cl1_def)
qed

lemma worker_step_sound: "client_sound cl \<Longrightarrow> worker_step cl = Some cl' \<Longrightarrow> client_sound cl'"
  by (auto simp: worker_step_def client_sound_def Let_def split: list.splits collector_ref.splits)

lemma destroy_sound: "client_sound cl \<Longrightarrow> client_sound (client_destroy cl)"
  by (simp add: client_destroy_def worker_drain_delivers delivered_all_def client_sound_def Let_def)

lemma set_callback_sound: "client_sound cl \<Longrightarrow> client_sound (client_set_quality_callback b cl)"
  by (auto simp: client_set_quality_callback_def Let_def intro!: publish_sound) (auto simp: client_sound_def)

lemma prefetch_sound: "client_sound cl \<Longrightarrow> client_prefetch env host (cl, w) = (r, cl', w') \<Longrightarrow> client_sound cl'"
  by (auto simp: client_prefetch_def client_sound_def Let_def split: prod.splits if_splits)

lemma set_collector_sound: "client_sound cl \<Longrightarrow> client_sound (snd (set_metrics_collector c cl))"
  by (auto simp: set_metrics_collector_def client_sound_def)

lemma client_apply_sound: "client_sound (fst st) \<Longrightarrow> client_sound (fst (client_apply env op st))"
proof (cases op)
  case (Do_Request active req policy)
  assume s: "client_sound (fst st)"
  obtain cl w where st: "st = (cl, w)" by (rule prod.exhaust)
  obtain ret resp out cl' w' where run: "client_request_with_policy env active req policy default_response (cl, w) = (ret, resp, out, cl', w')"
    by (rule prod_cases5)
  from request_sound [OF _ run] s st run Do_Request show ?thesis by simp
next
  case (Do_Network_Change active net)
  assume s: "client_sound (fst st)"
  obtain cl w where st: "st = (cl, w)" by (rule prod.exhaust)
  obtain cl' w' where "client_on_network_change env active net (cl, w) = (cl', w')" by (rule prod.exhaust)
  from network_change_sound [OF _ this] s st this Do_Network_Change show ?thesis by simp
next
  case (Do_Prefetch host)
  assume s: "client_sound (fst st)"
  obtain cl w where st: "st = (cl, w)" by (rule prod.exhaust)
  obtain r cl' w' where "client_prefetch env host (cl, w) = (r, cl', w')" by (rule prod_cases3)
  from prefetch_sound [OF _ this] s st this Do_Prefetch show ?thesis by simp
qed (cases st; auto simp: set_callback_sound set_collector_sound destroy_sound worker_step_sound split: option.split)+

lemma client_run_sound: "client_sound (fst st) \<Longrightarrow> client_sound (fst (client_run env ops st))"
  unfolding client_run_def by (rule fold_invariant [where Q = "\<lambda>_. True"]) (simp_all add: client_apply_sound)

lemma new_client_sound: "client_sound (new_client env i cfg)"
  by (simp add: client_sound_def new_client_def Let_def QualityProberImpl_def default_snapshot_def)

text \<open>
  Property C22. Over every sequence of requests, network changes, callback and collector changes,
  prefetches, worker turns and the destruction of a new client: at most 256 metric records wait, the
  prober works for the client's network epoch, and the host's quality callback is never told of an older
  network epoch, or of an older sample of the same epoch, than the time before.
\<close>

theorem client_reports_sound:
  "let cl = fst (client_run env ops (new_client env i cfg, w)) in
   length (cl_queue cl) \<le> 256
   \<and> q_network_epoch (pr_snapshot (cl_prober cl)) = cl_network_epoch cl
   \<and> sorted_wrt not_after (cl_notified cl)"
  using client_run_sound [of "(new_client env i cfg, w)" env ops] new_client_sound [of env i cfg]
  by (simp add: client_sound_def Let_def)

section \<open>The report of a request\<close>

lemma failure_stage_for_nonempty: "failure_stage_for r \<noteq> []"
  by (simp add: failure_stage_for_def)

lemma finish_response_stage: "ret \<noteq> ASTERNET_OK \<Longrightarrow> resp_failure_stage (finish_response ret c ms resp) \<noteq> []"
  by (simp add: finish_response_def failure_stage_for_nonempty Let_def)

lemma publish_reports [simp]:
  "cl_queue (publish_quality_change q cl) = cl_queue cl" "cl_next_request_id (publish_quality_change q cl) = cl_next_request_id cl"
  by (simp_all add: publish_quality_change_def Let_def)

definition reports :: "request_metrics \<Rightarrow> nat \<Rightarrow> nat \<Rightarrow> int \<Rightarrow> response \<Rightarrow> bool" where
  "reports m request_id epoch ret resp \<longleftrightarrow>
     rm_request_id m = request_id \<and> rm_network_epoch m = epoch \<and> ri_result (rm_response m) = ret
     \<and> ri_http_status (rm_response m) = resp_http_status resp \<and> ri_protocol (rm_response m) = resp_protocol resp
     \<and> ri_total_ms (rm_response m) = resp_total_ms resp \<and> rm_attempts m = resp_attempts resp
     \<and> rm_failure_stage m = resp_failure_stage resp"

lemma metrics_of_reports: "reports (metrics_of k ep c resp ret) k ep ret resp"
  by (simp add: reports_def metrics_of_def)

text \<open>
  Property C23. A request is either refused, from inside a request of the same client (or with 32 requests
  on the thread's stack) with INTERNAL and on a destroyed client with CANCELED, and then nothing is
  reported and the response is as it was; or it ends with exactly one metrics record, queued last for the
  collector installed at that time, that carries the request's own number, the network epoch it started
  in and the code and response it returned; a request that fails always names the stage it failed in.
\<close>

theorem client_request_reported:
  assumes run: "client_request_with_policy env active req policy resp (cl, w) = (ret, resp', out, cl', w')"
  shows "if request_guard_refuses active cl \<or> cl_destroyed cl
     then ret = (if request_guard_refuses active cl then ASTERNET_ERR_INTERNAL else ASTERNET_ERR_CANCELED)
       \<and> resp' = resp \<and> out = None \<and> cl' = cl
     else out = Some (resp_protocol resp', resp_degraded resp')
       \<and> cl_next_request_id cl' = cl_next_request_id cl + 1
       \<and> (\<exists>m. cl_queue cl' = (if length (cl_queue cl) \<ge> 256 then tl (cl_queue cl) else cl_queue cl) @ [(m, cl_collector cl)]
            \<and> reports m (cl_next_request_id cl) (cl_network_epoch cl) ret resp')
       \<and> (ret \<noteq> ASTERNET_OK \<longrightarrow> resp_failure_stage resp' \<noteq> [])"
proof (cases "request_guard_refuses active cl")
  case True
  with run show ?thesis by (simp add: client_request_with_policy_def)
next
  case False
  obtain started w1 where n: "ce_clock env w = (started, w1)" by (rule prod.exhaust)
  note run = run [unfolded client_request_with_policy_def prod.case Let_def if_not_P [OF False] n]
  show ?thesis
  proof (cases "cl_destroyed cl")
    case True
    with run False show ?thesis by simp
  next
    case live: False
    let ?cl = "cl\<lparr>cl_next_request_id := cl_next_request_id cl + 1\<rparr>"
    obtain ret2 c2 resp2 cl2 w2 where o: "run_orchestrator env (request_context_of cl req policy started) resp (?cl, w1)
      = (ret2, c2, resp2, cl2, w2)" by (rule prod_cases5)
    have id: "rc_request_id c2 = cl_next_request_id cl" "rc_network_epoch c2 = cl_network_epoch cl"
      using run_orchestrator_reports [OF o] by (simp_all add: request_context_of_def Let_def)
    have same: "cl_queue cl2 = cl_queue cl" "cl_collector cl2 = cl_collector cl" "cl_next_request_id cl2 = cl_next_request_id cl + 1"
      using run_orchestrator_reports [OF o] by (simp_all add: same_reports_def)
    obtain ms w3 where e: "(if resp_total_ms resp2 < 0 then (case ce_clock env w2 of (now, w) \<Rightarrow> (now - started, w)) else (0, w2)) = (ms, w3)"
      by (rule prod.exhaust)
    note run = run [unfolded if_not_P [OF live] o prod.case e]
    have out: "ret = ret2" "resp' = finish_response ret2 c2 ms resp2" "out = Some (resp_protocol resp', resp_degraded resp')"
      using run by auto
    have q: "cl_queue cl' = (if length (cl_queue cl) \<ge> 256 then tl (cl_queue cl) else cl_queue cl)
        @ [(metrics_of (cl_next_request_id cl) (cl_network_epoch cl) c2 resp' ret, cl_collector cl)]
      \<and> cl_next_request_id cl' = cl_next_request_id cl + 1"
      using run by (auto simp: report_metrics_def enqueue_metrics_def Let_def same id split: if_splits)
    show ?thesis
      using q out metrics_of_reports [of "cl_next_request_id cl" "cl_network_epoch cl" c2 resp' ret]
        finish_response_stage [of ret2 c2 ms resp2] False live by auto
  qed
qed

text \<open>A request on the client of the previous theory, whose engines refuse every connection.\<close>

lemma client_request_reported_witness:
  "\<exists>ret resp out cl w. client_request_with_policy log_env [] demo_upload POLICY_AUTO default_response (demo_client, []) =
     (ret, resp, out, cl, w) \<and> (\<exists>m. cl_queue cl = [(m, Shadow)] \<and> rm_request_id m = 1)"
proof -
  obtain ret resp out cl w where run: "client_request_with_policy log_env [] demo_upload POLICY_AUTO default_response
      (demo_client, []) = (ret, resp, out, cl, w)" by (metis prod_cases5)
  have d: "cl_queue demo_client = []" "cl_collector demo_client = Shadow" "cl_next_request_id demo_client = 1"
    "\<not> request_guard_refuses [] demo_client" "\<not> cl_destroyed demo_client"
    by (simp_all add: demo_client_def new_client_def Let_def request_guard_refuses_def is_active_client_def kMaxActiveClients_def)
  with client_request_reported [OF run] obtain m where "cl_queue cl = [(m, Shadow)]" "rm_request_id m = 1"
    by (auto simp: reports_def)
  with run show ?thesis by blast
qed

end
