(* ===== verification/Client_Answers.thy ===== *)
theory Client_Answers
  imports Client_Safety
begin

text \<open>
  The way back through the client: a success that the host sees is the answer of an engine to this very
  request, and a request succeeds when its name resolves, the first engine of its chain answers and
  the clock stays within half the timeout.
\<close>

section \<open>Answers of engines\<close>

text \<open>What the layers above the engines leave alone in a response.\<close>

definition same_answer :: "response \<Rightarrow> response \<Rightarrow> bool" where
  "same_answer a b \<longleftrightarrow>
     resp_http_status a = resp_http_status b \<and> resp_body a = resp_body b \<and> resp_err_code a = resp_err_code b
     \<and> resp_connect_ms a = resp_connect_ms b \<and> resp_tls_ms a = resp_tls_ms b \<and> resp_ttfb_ms a = resp_ttfb_ms b
     \<and> resp_connection_reused a = resp_connection_reused b"

lemma same_answer_update [simp]:
  "same_answer a a" "same_answer a (b\<lparr>resp_attempts := n\<rparr>) = same_answer a b" "same_answer a (b\<lparr>resp_protocol := p\<rparr>) = same_answer a b"
  "same_answer a (b\<lparr>resp_degraded := d\<rparr>) = same_answer a b" "same_answer a (b\<lparr>resp_dns_ms := t\<rparr>) = same_answer a b"
  "same_answer a (b\<lparr>resp_total_ms := t\<rparr>) = same_answer a b" "same_answer a (b\<lparr>resp_failure_stage := f\<rparr>) = same_answer a b"
  by (simp_all add: same_answer_def)

text \<open>
  \<open>Got q a w\<close>: in the world \<open>w\<close>, an engine has answered \<open>q\<close> successfully with \<open>a\<close>. The engines make it true, and
  nothing makes it false again.
\<close>

definition answers_recorded :: "'w client_env \<Rightarrow> 'w selector \<Rightarrow> (request \<Rightarrow> response \<Rightarrow> 'w \<Rightarrow> bool) \<Rightarrow> bool" where
  "answers_recorded env sel Got \<longleftrightarrow>
     (\<forall>s e q w. step_engine sel s = Some e \<longrightarrow> fst (e q w) = ASTERNET_OK \<longrightarrow> Got q (fst (snd (e q w))) (snd (snd (e q w))))
     \<and> (\<forall>q a. client_quiet env (Got q a))"

lemma answers_recordedD:
  assumes "answers_recorded env sel Got"
  shows "step_engine sel s = Some e \<Longrightarrow> e q w = (ASTERNET_OK, a, w') \<Longrightarrow> Got q a w'" "client_quiet env (Got q a)"
  using assms unfolding answers_recorded_def by (metis fst_conv snd_conv, blast)

definition came_from :: "(request \<Rightarrow> response \<Rightarrow> 'w \<Rightarrow> bool) \<Rightarrow> (request \<Rightarrow> bool) \<Rightarrow> 'w \<Rightarrow> response \<Rightarrow> bool" where
  "came_from Got may w resp \<longleftrightarrow> (\<exists>q a. may q \<and> Got q a w \<and> same_answer a resp)"

lemma came_from_update [simp]:
  "came_from Got may w (b\<lparr>resp_attempts := n\<rparr>) = came_from Got may w b" "came_from Got may w (b\<lparr>resp_dns_ms := t\<rparr>) = came_from Got may w b"
  "came_from Got may w (b\<lparr>resp_total_ms := t\<rparr>) = came_from Got may w b" "came_from Got may w (b\<lparr>resp_failure_stage := f\<rparr>) = came_from Got may w b"
  by (simp_all add: came_from_def)

lemma came_from_mono:
  "came_from Got may w resp \<Longrightarrow> (\<And>q a. Got q a w \<Longrightarrow> Got q a w') \<Longrightarrow> (\<And>q. may q \<Longrightarrow> may' q) \<Longrightarrow> came_from Got may' w' resp"
  by (auto simp: came_from_def)

section \<open>Through the selector\<close>

lemma selector_answer:
  assumes got: "answers_recorded env sel0 Got" and same: "same_setup sel0 sel"
    and run: "selector_request_with_policy ho clk sel req policy resp w = r" and ok: "sr_ret r = ASTERNET_OK"
  shows "came_from Got (\<lambda>q. \<exists>t. q = req\<lparr>req_timeout_ms := t\<rparr>) (sr_world r) (sr_resp r)"
proof (cases "policy_chain policy")
  case None
  with run ok show ?thesis by (auto simp: selector_request_with_policy_def)
next
  case (Some pc)
  then obtain chain fb where pc: "policy_chain policy = Some (chain, fb)" by (cases pc) simp
  from pc obtain start w1 b st where l: "selector_loop ho clk req start fb chain (start_state sel w1 resp) = (b, st)"
    and "selector_request_with_policy ho clk sel req policy resp w = selector_finish b st" by (rule selector_run)
  with run have r: "r = selector_finish b st" by simp
  have "b" using loop_frame [OF l start_state_inv] ok unfolding r by (cases b) (auto simp: finish_ret split: if_splits)
  let ?G = "\<lambda>u. came_from Got (\<lambda>q. \<exists>t. q = req\<lparr>req_timeout_ms := t\<rparr>) (at_world u) (at_resp u)"
  have "if b then \<exists>s \<in> set chain. ?G st else attempt_inv sel st"
  proof (rule selector_loop_rule [where I = "attempt_inv sel" and Q = "\<lambda>_. ?G", OF _ _ _ _ _ _ l start_state_inv order.refl])
    fix st s g st'
    assume "selector_gate fb clk (step_type s) req st = (g, st')" and "attempt_inv sel st"
    then show "attempt_inv sel st'" by (rule attempt_inv_gate)
  next
    fix st s e rem st'
    assume "selector_attempt ho clk s e req rem st = (False, st')" and "attempt_inv sel st"
    from attempt_inv_step [OF this(2,1)] show "attempt_inv sel st'" by (simp add: attempt_inv_def)
  next
    fix st s e rem st'
    assume e: "step_engine (at_sel st) s = Some e" and at: "selector_attempt ho clk s e req rem st = (True, st')"
      and inv: "attempt_inv sel st"
    have "same_setup sel0 (at_sel st)" using same inv by (auto simp: attempt_inv_def intro: same_setup_trans)
    with e have eng: "step_engine sel0 s = Some e" by (simp add: same_setup_engine)
    obtain ret a v where call: "e (req\<lparr>req_timeout_ms := rem\<rparr>) (at_world st) = (ret, a, v)" by (rule prod_cases3)
    with at have "ret = ASTERNET_OK" "at_world st' = v" "same_answer a (at_resp st')"
      by (auto simp: selector_attempt_def Let_def split: if_splits prod.splits)
    with answers_recordedD(1) [OF got eng, of "req\<lparr>req_timeout_ms := rem\<rparr>" "at_world st" a v] call show "?G st'"
      by (auto simp: came_from_def)
  qed (auto simp: attempt_inv_def)
  with \<open>b\<close> show ?thesis by (simp add: r)
qed

section \<open>Through the transport\<close>

text \<open>With no relation to follow, the earlier lemmas still carry the client's setup.\<close>

lemma observes_nothing: "observes env (\<lambda>_ _ _. True) sel"
  by (simp add: observes_def logs_calls_def world_trace_def client_quiet_def)

lemma dial_address_answer:
  assumes got: "answers_recorded env sel Got" and same: "same_setup sel (cl_selector cl)"
    and c: "rc_request c = r\<lparr>req_timeout_ms := t\<rparr>" and a: "is_safe_ip (de_parser (ce_dns env)) (ip_text a) allow"
    and run: "dial_address env c resolution a resp (cl, w) = (ASTERNET_OK, resp', cl', w')"
  shows "came_from Got (dialled (de_parser (ce_dns env)) allow r) w' resp'"
proof -
  let ?attempt = "dial_request c resolution a"
  obtain l p1 w1 where acq: "pool_acquire (ce_pool_order env) (ce_clock env) (origin_of c) (cl_pool cl) w = (l, p1, w1)"
    by (rule prod_cases3)
  define s where "s = selector_request_with_policy (ce_ban_order env) (ce_clock env) (cl_selector cl) ?attempt (rc_policy c) resp w1"
  let ?okr = "sr_ret s = ASTERNET_OK"
  obtain p2 w2 where rel: "pool_release (ce_clock env) l ?okr p1 (sr_world s) = (p2, w2)" by (rule prod.exhaust)
  let ?rtt = "to_int32 (if resp_ttfb_ms (sr_resp s) \<ge> 0 then resp_ttfb_ms (sr_resp s) else resp_total_ms (sr_resp s))"
  obtain rs3 w3 where rep: "report_connection_result (ce_dns env) (req_host ?attempt) (req_connect_host ?attempt)
      (rc_network_epoch c) ?okr ?rtt (cl_resolver cl) w2 = (rs3, w3)" by (rule prod.exhaust)
  obtain now w4 where n: "ce_clock env w3 = (now, w4)" by (rule prod.exhaust)
  have out: "sr_ret s = ASTERNET_OK" "resp' = sr_resp s" "w' = w4"
    using run unfolding dial_address_def Let_def prod.case acq s_def [symmetric] rel rep n by (auto split: prod.splits)
  note quiet = answers_recordedD(2) [OF got]
  have later: "Got q a w'" if "Got q a (sr_world s)" for q a
    unfolding out(3) by (rule client_quietD(1) [OF quiet report_quiet(1) [OF quiet rep pool_quiet(2) [OF quiet rel that]] n])
  have "dialled (de_parser (ce_dns env)) allow r (?attempt\<lparr>req_timeout_ms := t'\<rparr>)" for t'
  proof -
    have "?attempt\<lparr>req_timeout_ms := t'\<rparr> = r\<lparr>req_timeout_ms := t', req_connect_host := ip_text a, req_dns_ms := rr_elapsed_ms resolution\<rparr>"
      using c by (simp add: dial_request_def)
    with a show ?thesis unfolding dialled_def by auto
  qed
  then show ?thesis
    using came_from_mono [OF selector_answer [OF got same s_def [symmetric] out(1)] later] unfolding out(2) by blast
qed

lemma dial_addresses_answer:
  assumes got: "answers_recorded env sel Got" and c: "rc_request c = r\<lparr>req_timeout_ms := t\<rparr>"
  shows "dial_addresses env c resolution as result0 resp (cl, w) = (ASTERNET_OK, resp', cl', w') \<Longrightarrow> result0 \<noteq> ASTERNET_OK \<Longrightarrow>
    client_ok sel allow mh held cl \<Longrightarrow>
    list_all (\<lambda>a. is_safe_ip (de_parser (ce_dns env)) (ip_text a) allow) as \<Longrightarrow>
    came_from Got (dialled (de_parser (ce_dns env)) allow r) w' resp'"
proof (induction as arbitrary: result0 resp cl w)
  case (Cons a rest)
  obtain result1 resp1 cl1 w1 where d: "dial_address env c resolution a resp (cl, w) = (result1, resp1, cl1, w1)"
    by (rule prod_cases4)
  have ok1: "client_ok sel allow mh held cl1"
    using dial_address_log [OF observes_nothing Cons.prems(3) c _ d] Cons.prems(4) by auto
  show ?case
  proof (cases "result1 = ASTERNET_OK \<or> result1 \<noteq> ASTERNET_ERR_CONNECT")
    case True
    with Cons.prems(1) d have "result1 = ASTERNET_OK" "resp' = resp1" "w' = w1" by auto
    with dial_address_answer [OF got _ c _ d [unfolded \<open>result1 = ASTERNET_OK\<close>], of allow] Cons.prems(3,4) show ?thesis
      by (simp add: client_ok_def)
  next
    case False
    with Cons.prems(1) d have "dial_addresses env c resolution rest result1 resp1 (cl1, w1) = (ASTERNET_OK, resp', cl', w')" by auto
    with False Cons.IH [OF this _ ok1] Cons.prems(4) show ?thesis by simp
  qed
qed simp

lemma execute_transport_answer:
  assumes got: "answers_recorded env sel Got" and ok: "client_ok sel allow mh held cl"
    and c: "rc_request c = r\<lparr>req_timeout_ms := t\<rparr>"
    and run: "execute_transport env c resp (cl, w) = (ASTERNET_OK, c', resp', cl', w')"
  shows "came_from Got (dialled (de_parser (ce_dns env)) allow r) w' resp'"
proof -
  obtain res rs1 w1 where r: "resolve_with_metadata (ce_dns env) (cl_resolver cl) (req_host (rc_request c))
      (rc_network_epoch c) (req_timeout_ms (rc_request c)) w = (res, rs1, w1)" by (rule prod_cases3)
  let ?cl = "cl\<lparr>cl_resolver := rs1\<rparr>"
  define c1 where "c1 = (if rc_attempts c \<le> 1 then c\<lparr>rc_dns_cache_hit := rr_cache_hit res\<rparr> else c)"
  let ?as = "take (max_addresses c1 res) (rr_addresses res)"
  obtain result2 resp2 cl2 w2 where d: "dial_addresses env c1 res ?as ASTERNET_ERR_CONNECT (resp\<lparr>resp_dns_ms := rr_elapsed_ms res\<rparr>)
      (?cl, w1) = (result2, resp2, cl2, w2)"
    by (rule prod_cases4)
  note run = run [unfolded execute_transport_def Let_def prod.case r c1_def [symmetric] d]
  have out: "result2 = ASTERNET_OK" "w' = w2" "came_from Got may w' resp' = came_from Got may w2 resp2" for may
    using run by (auto split: if_splits prod.splits)
  have http: "rs_httpdns (cl_resolver cl) = None" using ok by (simp add: client_ok_def)
  have "client_quiet env (\<lambda>_. True)" by (simp add: client_quiet_def)
  from resolve_quiet(2) [OF this r TrueI http] have ok1: "client_ok sel allow mh held ?cl"
    using ok resolve_config [OF r] by (simp add: client_ok_def)
  have "list_all (\<lambda>a. is_safe_ip (de_parser (ce_dns env)) (ip_text a) allow) ?as"
    using resolve_safe [OF r] ok by (auto simp: client_ok_def list_all_iff dest: in_set_takeD)
  moreover have "rc_request c1 = r\<lparr>req_timeout_ms := t\<rparr>" using c by (simp add: c1_def)
  ultimately show ?thesis
    using dial_addresses_answer [OF got _ d [unfolded out(1)] _ ok1] unfolding out(3) by simp
qed

section \<open>Through the orchestrator\<close>

text \<open>
  A success of the terminal is what a success of the orchestrator is: \<open>G\<close> relates a world to a response that is
  good in it.
\<close>

definition answering ::
  "'w clock \<Rightarrow> (int \<Rightarrow> 'w \<Rightarrow> 'w) \<Rightarrow> 'w terminal \<Rightarrow> ('w \<Rightarrow> bool) \<Rightarrow> (request_context \<Rightarrow> bool) \<Rightarrow> ('w \<Rightarrow> response \<Rightarrow> bool) \<Rightarrow> bool" where
  "answering clk sleep terminal Inv C G \<longleftrightarrow>
     budgeted clk sleep terminal (\<lambda>_. Inv) C
     \<and> (\<forall>c resp w r c' resp' w'. terminal c resp w = (r, c', resp', w') \<longrightarrow> Inv w \<longrightarrow> C c \<longrightarrow> r = ASTERNET_OK \<longrightarrow> G w' resp')
     \<and> (\<forall>w resp n. G w resp \<longrightarrow> G w (resp\<lparr>resp_attempts := n\<rparr>))"

lemma answeringD:
  assumes "answering clk sleep terminal Inv C G"
  shows "budgeted clk sleep terminal (\<lambda>_. Inv) C"
    "terminal c resp w = (r, c', resp', w') \<Longrightarrow> Inv w \<Longrightarrow> C c \<Longrightarrow> r = ASTERNET_OK \<Longrightarrow> G w' (resp'\<lparr>resp_attempts := n\<rparr>)"
  using assms unfolding answering_def by (blast, blast)

lemma retry_loop_answer:
  assumes a: "answering clk sleep terminal Inv C G"
  shows "retry_loop clk sleep terminal deadline attempt left c resp w = (early, result, c', resp', w') \<Longrightarrow>
    Inv w \<Longrightarrow> C c \<Longrightarrow> result = ASTERNET_OK \<Longrightarrow> G w' resp'"
proof (induction left arbitrary: attempt c resp w)
  case 0
  note b = budgetedD [OF answeringD(1) [OF a]]
  obtain now w1 where n: "clk w = (now, w1)" by (rule prod.exhaust)
  note j1 = b(1) [OF 0(2) n]
  let ?c = "c\<lparr>rc_request := (rc_request c)\<lparr>req_timeout_ms := deadline - now\<rparr>, rc_attempts := rc_attempts c + 1\<rparr>"
  obtain r c2 resp2 w2 where t: "terminal ?c default_response w1 = (r, c2, resp2, w2)" by (rule prod_cases4)
  from answeringD(2) [OF a t j1 b(5) [OF 0(3)]] 0(1,4) n t show ?case
    by (subst (asm) retry_loop.simps) (auto split: if_splits)
next
  case (Suc left)
  note b = budgetedD [OF answeringD(1) [OF a]]
  obtain now w1 where n: "clk w = (now, w1)" by (rule prod.exhaust)
  note j1 = b(1) [OF Suc(3) n]
  let ?c = "c\<lparr>rc_request := (rc_request c)\<lparr>req_timeout_ms := deadline - now\<rparr>, rc_attempts := rc_attempts c + 1\<rparr>"
  obtain r c2 resp2 w2 where t: "terminal ?c default_response w1 = (r, c2, resp2, w2)" by (rule prod_cases4)
  note j2 = b(4) [OF t j1 b(5) [OF Suc(4)]]
  obtain now3 w3 where n3: "clk w2 = (now3, w3)" by (rule prod.exhaust)
  note j3 = b(1) [OF conjunct1 [OF j2] n3]
  show ?case
  proof (cases "deadline - now \<le> 0")
    case True
    from Suc.prems(1,4) show ?thesis by (subst (asm) retry_loop.simps) (use True in \<open>simp add: n\<close>)
  next
    case False
    have run: "(if r = ASTERNET_OK \<or> \<not> retry_is_retryable r then (False, r, c2, resp2\<lparr>resp_attempts := rc_attempts c2\<rparr>, w2)
       else if now3 + retry_delay_ms attempt (rc_request_id c2) \<ge> deadline
       then (False, r, c2, resp2\<lparr>resp_attempts := rc_attempts c2\<rparr>, w3)
       else retry_loop clk sleep terminal deadline (Suc attempt) left c2 (resp2\<lparr>resp_attempts := rc_attempts c2\<rparr>)
              (sleep (retry_delay_ms attempt (rc_request_id c2)) w3)) = (early, result, c', resp', w')"
      using Suc.prems(1)
      unfolding retry_loop.simps [of clk sleep terminal deadline attempt "Suc left" c resp w] n prod.case Let_def
        if_not_P [OF False] t n3 nat.case .
    note good = answeringD(2) [OF a t j1 b(5) [OF Suc(4)]]
      and again = Suc.IH [OF _ b(2) [OF j3] conjunct2 [OF j2] Suc.prems(4)]
    show ?thesis
    proof (cases "r = ASTERNET_OK")
      case True
      with run good show ?thesis by auto
    next
      case False
      with run again Suc.prems(4) show ?thesis by (auto split: if_splits)
    qed
  qed
qed

lemma chain_answer:
  assumes a: "answering clk sleep terminal Inv C G"
    and run: "chain_execute (orchestrator_chain clk sleep get_prober) terminal c resp w = (ASTERNET_OK, c', resp', w')"
    and inv: "Inv w" and c: "C c"
  shows "G w' resp'"
proof -
  note b = budgetedD [OF answeringD(1) [OF a]]
  define d where "d = (case get_prober w of None \<Rightarrow> c | Some p \<Rightarrow>
    if prober_is_weak_net p
    then c\<lparr>rc_weak_network := True, rc_max_retries := (if q_quality (pr_snapshot p) = kOffline then 0 else min (rc_max_retries c) 1)\<rparr>
    else c\<lparr>rc_weak_network := False\<rparr>)"
  have run: "RetryInterceptor clk sleep terminal d resp w = (ASTERNET_OK, c', resp', w')"
    using run by (auto simp: d_def chain_execute_def orchestrator_chain_def WeakNetInterceptor_def Let_def split: option.splits if_splits)
  have "c\<lparr>rc_weak_network := False\<rparr> = c\<lparr>rc_weak_network := False, rc_max_retries := rc_max_retries c\<rparr>" by simp
  then have "C (c\<lparr>rc_weak_network := False\<rparr>)" using b(6) [OF c, where b = False and m = "rc_max_retries c"] by (simp only:)
  then have "C d" using c b(6) [OF c] unfolding d_def by (cases "get_prober w") simp_all
  obtain now w1 where n: "clk w = (now, w1)" by (rule prod.exhaust)
  define dl where "dl = (if rc_deadline_ms d > 0 then rc_deadline_ms d else now + req_timeout_ms (rc_request d))"
  obtain early r c2 resp2 w2 where l: "retry_loop clk sleep terminal dl 0 (retry_limit d) d resp w1 = (early, r, c2, resp2, w2)"
    by (rule prod_cases5)
  have "r = ASTERNET_OK \<and> resp' = resp2 \<and> w' = w2"
    using run unfolding RetryInterceptor_def Let_def n prod.case dl_def [symmetric] l by (auto split: if_splits)
  with retry_loop_answer [OF a l b(1) [OF inv n] \<open>C d\<close>] show ?thesis by simp
qed

text \<open>A thread that meets no other finds no flights, and leaves none.\<close>

lemma orchestrator_answer:
  assumes a: "answering clk sleep terminal Inv C G"
    and run: "orchestrator_execute clk sleep get_prober terminal co c resp w = (result, c', resp', w', co')"
    and inv: "Inv w" and c: "C (normalize_retry_safety c)" and alone: "co_flights co = []"
  shows "(result = ASTERNET_OK \<longrightarrow> G w' resp') \<and> co_flights co' = []"
proof -
  obtain r1 c1 resp1 w1 where o: "chain_execute (orchestrator_chain clk sleep get_prober) terminal (normalize_retry_safety c) resp w
    = (r1, c1, resp1, w1)" by (rule prod_cases4)
  have "r1 = ASTERNET_OK \<Longrightarrow> G w1 resp1" using chain_answer [OF a o [THEN trans] inv c] by auto
  moreover have "result = r1 \<and> resp' = resp1 \<and> w' = w1 \<and> co_flights co' = []"
    using run alone
    by (auto simp: orchestrator_execute_def coalescer_execute_def coalescer_enter_def coalescer_complete_def o Let_def
        split: if_splits)
  ultimately show ?thesis by simp
qed

section \<open>Through the client\<close>

lemma client_answering:
  assumes got: "answers_recorded env sel Got"
  shows "answering (client_clock env) (client_sleep env) (execute_transport env) (\<lambda>st. client_ok sel allow mh held (fst st))
    (\<lambda>c. \<exists>t. rc_request c = r\<lparr>req_timeout_ms := t\<rparr>)
    (\<lambda>st. came_from Got (dialled (de_parser (ce_dns env)) allow r) (snd st))"
proof -
  have step: "client_ok sel allow mh held cl' \<and> (\<exists>t. rc_request c' = r\<lparr>req_timeout_ms := t\<rparr>)"
    if "execute_transport env c resp (cl, w) = (x, c', resp', cl', w')" "client_ok sel allow mh held cl" "rc_request c = r\<lparr>req_timeout_ms := t\<rparr>"
    for c resp cl w x c' resp' cl' w' t
    using execute_transport_log [OF observes_nothing that(2,3,1)] that(3) by auto
  have good: "came_from Got (dialled (de_parser (ce_dns env)) allow r) w' resp'"
    if "execute_transport env c resp (cl, w) = (ASTERNET_OK, c', resp', cl', w')" "client_ok sel allow mh held cl" "rc_request c = r\<lparr>req_timeout_ms := t\<rparr>"
    for c resp cl w c' resp' cl' w' t
    by (rule execute_transport_answer [OF got that(2,3,1)])
  have "budgeted (client_clock env) (client_sleep env) (execute_transport env) (\<lambda>_ st. client_ok sel allow mh held (fst st))
    (\<lambda>c. \<exists>t. rc_request c = r\<lparr>req_timeout_ms := t\<rparr>)"
    using step by (auto simp: budgeted_def client_clock_def client_sleep_def case_prod_beta)
  with good show ?thesis by (auto simp: answering_def)
qed

text \<open>
  Property C4. The answers a host gets are the engines' own: if a request through the client succeeds, then an engine
  answered this very request (its host, method, path, headers and body, at an address that passes the
  filter) successfully while it ran, and status, body, code and timings of the response are those of
  that answer, whatever retries, fallbacks and other addresses were tried before. (One thread: no other request
  is in flight to share the answer of, and none is left behind.)
\<close>

theorem client_answers_genuine:
  assumes got: "answers_recorded env (cl_selector cl) Got"
    and inv: "pool_inv (cl_pool cl)" and http: "rs_httpdns (cl_resolver cl) = None" and alone: "co_flights (cl_coalescer cl) = []"
    and run: "client_request_with_policy env active req policy resp (cl, w) = (ret, resp', out, cl', w')"
  shows "co_flights (cl_coalescer cl') = []
    \<and> (ret = ASTERNET_OK \<longrightarrow> (\<exists>q a. delivered_faithfully env cl req q \<and> Got q a w' \<and> same_answer a resp'))"
proof (cases "request_guard_refuses active cl \<or> cl_destroyed cl")
  case True
  with run alone show ?thesis by (auto simp: client_request_with_policy_def Let_def split: if_splits prod.splits)
next
  case False
  let ?allow = "dc_allow_private (rs_config (cl_resolver cl))" and ?r = "effective_request cl req policy"
  obtain started w1 where n: "ce_clock env w = (started, w1)" by (rule prod.exhaust)
  let ?cl = "cl\<lparr>cl_next_request_id := cl_next_request_id cl + 1\<rparr>" and ?c = "request_context_of cl req policy started"
  obtain ret1 c1 resp1 st1 co1 where o: "orchestrator_execute (client_clock env) (client_sleep env)
      (\<lambda>st. Some (cl_prober (fst st))) (execute_transport env) (cl_coalescer ?cl) ?c resp (?cl, w1) = (ret1, c1, resp1, st1, co1)"
    by (rule prod_cases5)
  have ok: "client_ok (cl_selector cl) ?allow (pl_migration_handler (cl_pool cl)) (pool_held (cl_pool cl)) (fst (?cl, w1))"
    using inv http by (simp add: client_ok_def same_setup_def)
  have c: "\<exists>t'. rc_request (normalize_retry_safety ?c) = ?r\<lparr>req_timeout_ms := t'\<rparr>"
    by (rule exI [of _ "req_timeout_ms ?r"]) (simp add: request_context_started(1))
  have good: "(ret1 = ASTERNET_OK \<longrightarrow> came_from Got (dialled (de_parser (ce_dns env)) ?allow ?r) (snd st1) resp1) \<and> co_flights co1 = []"
    by (rule orchestrator_answer [OF client_answering [OF got] o ok c]) (simp add: alone)
  obtain ms w3 where e: "(if resp_total_ms resp1 < 0 then (case ce_clock env (snd st1) of (now, w) \<Rightarrow> (now - started, w)) else (0, snd st1)) = (ms, w3)"
    by (rule prod.exhaust)
  have "Got q a (snd st1) \<Longrightarrow> Got q a w3" for q a
    using e client_quietD(1) [OF answers_recordedD(2) [OF got]] by (auto split: if_splits prod.splits)
  moreover have "ret = ret1" "w' = w3" "resp' = finish_response ret1 c1 ms resp1" "cl_coalescer cl' = co1"
    using run False
    unfolding client_request_with_policy_def run_orchestrator_def Let_def prod.case n o fst_conv snd_conv e
    by (auto simp: report_metrics_def enqueue_metrics_def publish_quality_change_def Let_def split: if_splits)
  moreover have "delivered_faithfully env cl req q" if "dialled (de_parser (ce_dns env)) ?allow ?r q" for q
    using dialled_fields [OF that] by (simp add: delivered_faithfully_def effective_request_fields)
  ultimately show ?thesis
    using good by (auto simp: came_from_def finish_response_def Let_def)
qed

section \<open>When a request succeeds\<close>

text \<open>The engine that a request tries first: missing engines are passed over where the policy may fall back.\<close>

fun first_engine :: "'w selector \<Rightarrow> bool \<Rightarrow> chain_step list \<Rightarrow> 'w engine option" where
  "first_engine sel fb [] = None"
| "first_engine sel fb (s # rest) =
     (case step_engine sel s of Some e \<Rightarrow> Some e | None \<Rightarrow> if fb then first_engine sel fb rest else None)"

definition answers_first :: "'w selector \<Rightarrow> asternet_policy \<Rightarrow> bool" where
  "answers_first sel policy \<longleftrightarrow>
     sel_states sel = [] \<and> (\<exists>chain fb e. policy_chain policy = Some (chain, fb) \<and> first_engine sel fb chain = Some e
       \<and> (\<forall>q w. fst (e q w) = ASTERNET_OK))"

text \<open>The clock stays within half of the timeout.\<close>

definition in_time :: "'w clock \<Rightarrow> int \<Rightarrow> bool" where
  "in_time clk timeout \<longleftrightarrow> (\<exists>lo \<ge> 0. \<forall>w. lo \<le> fst (clk w) \<and> 2 * (fst (clk w) - lo) < timeout)"

lemma loop_succeeds:
  assumes time: "\<And>w. 0 < remaining_ms req start (fst (clk w))" and e: "\<And>q w. fst (e q w) = ASTERNET_OK"
  shows "sel_states (at_sel st) = [] \<Longrightarrow> first_engine (at_sel st) fb chain = Some e \<Longrightarrow> fst (selector_loop ho clk req start fb chain st)"
proof (induction chain arbitrary: st)
  case (Cons s rest)
  show ?case
  proof (cases "step_engine (at_sel st) s")
    case None
    with Cons.prems Cons.IH [of "st\<lparr>at_last_error := ASTERNET_ERR_UNSUPPORTED\<rparr>"] show ?thesis
      by (auto simp: Let_def split: if_splits)
  next
    case (Some e')
    have gate: "selector_gate fb clk (step_type s) req st = (True, st)"
      using Cons.prems(1) by (simp add: selector_gate_def selector_is_available_def)
    have "fst (selector_attempt ho clk s e req rem st')" for rem st'
      using e by (auto simp: selector_attempt_def Let_def case_prod_beta)
    then show ?thesis
      using Some Cons.prems(2) gate time [of "at_world st"] by (auto simp: Let_def case_prod_beta)
  qed
qed simp

lemma selector_succeeds:
  assumes "answers_first sel policy" and "\<And>w w'. fst (clk w) - fst (clk w') < req_timeout_ms req" and "0 < req_timeout_ms req"
  shows "sr_ret (selector_request_with_policy ho clk sel req policy resp w) = ASTERNET_OK"
proof -
  from assms(1) obtain chain fb e where pc: "policy_chain policy = Some (chain, fb)" and e: "first_engine sel fb chain = Some e"
    "\<And>q w. fst (e q w) = ASTERNET_OK" and fresh: "sel_states sel = []" unfolding answers_first_def by blast
  from pc obtain start w1 b st where c: "clk w = (start, w1)"
    and l: "selector_loop ho clk req start fb chain (start_state sel w1 resp) = (b, st)"
    and r: "selector_request_with_policy ho clk sel req policy resp w = selector_finish b st" by (rule selector_run)
  have time: "0 < remaining_ms req start (fst (clk v))" for v
    using assms(2) [of v w] assms(3) c by (simp add: remaining_ms_def)
  have "fst (selector_loop ho clk req start fb chain (start_state sel w1 resp))"
    by (rule loop_succeeds [where e = e, OF time e(2)]) (simp_all add: start_state_def fresh e(1))
  with l have b by simp
  then show ?thesis by (simp add: r)
qed

lemma transport_succeeds:
  assumes first: "answers_first (cl_selector cl) (rc_policy c)"
    and time: "\<And>w w'. fst (ce_clock env w) - fst (ce_clock env w') < req_timeout_ms (rc_request c)" "0 < req_timeout_ms (rc_request c)"
    and resolves: "\<And>epoch timeout w. rr_error (fst (resolve_with_metadata (ce_dns env) (cl_resolver cl) (req_host (rc_request c)) epoch timeout w)) = ASTERNET_OK"
  shows "fst (execute_transport env c resp (cl, w)) = ASTERNET_OK"
proof -
  obtain res rs1 w1 where r: "resolve_with_metadata (ce_dns env) (cl_resolver cl) (req_host (rc_request c))
      (rc_network_epoch c) (req_timeout_ms (rc_request c)) w = (res, rs1, w1)" by (rule prod_cases3)
  have err: "rr_error res = ASTERNET_OK" using resolves [of "rc_network_epoch c" "req_timeout_ms (rc_request c)" w] r by simp
  then obtain a rest where as: "rr_addresses res = a # rest" using resolve_safe [OF r] by (cases "rr_addresses res") auto
  have dial: "fst (dial_address env c' resolution b resp (cl\<lparr>cl_resolver := rs1\<rparr>, v)) = ASTERNET_OK"
    if "rc_request c' = rc_request c" "rc_policy c' = rc_policy c" for c' resolution b resp v
  proof -
    have "sr_ret (selector_request_with_policy (ce_ban_order env) (ce_clock env) (cl_selector cl) (dial_request c' resolution b) (rc_policy c) resp u) = ASTERNET_OK"
      for u by (rule selector_succeeds [OF first]) (use time that in \<open>simp_all add: dial_request_def\<close>)
    then show ?thesis using that by (simp add: dial_address_def Let_def case_prod_beta)
  qed
  define c1 where "c1 = (if rc_attempts c \<le> 1 then c\<lparr>rc_dns_cache_hit := rr_cache_hit res\<rparr> else c)"
  have c1: "rc_request c1 = rc_request c" "rc_policy c1 = rc_policy c" by (simp_all add: c1_def)
  obtain m where m: "max_addresses c1 res = Suc m"
    using as by (cases "max_addresses c1 res") (simp_all add: max_addresses_def split: if_splits)
  have "fst (dial_addresses env c1 res (take (max_addresses c1 res) (rr_addresses res)) ASTERNET_ERR_CONNECT resp' (cl\<lparr>cl_resolver := rs1\<rparr>, w1)) = ASTERNET_OK" for resp'
  proof -
    obtain r1 st1 where "dial_address env c1 res a resp' (cl\<lparr>cl_resolver := rs1\<rparr>, w1) = (ASTERNET_OK, r1, st1)"
      using dial [OF c1, of res a resp' w1] by (metis prod.collapse)
    with m show ?thesis by (simp add: as)
  qed
  then show ?thesis
    unfolding execute_transport_def Let_def prod.case r c1_def [symmetric] using err as by (simp add: case_prod_beta)
qed

text \<open>One successful round of the retry loop ends it.\<close>

lemma retry_loop_succeeds:
  assumes "\<And>w'. 0 < deadline - fst (clk w')"
    and "fst (terminal (c\<lparr>rc_request := (rc_request c)\<lparr>req_timeout_ms := deadline - fst (clk w)\<rparr>, rc_attempts := rc_attempts c + 1\<rparr>)
      default_response (snd (clk w))) = ASTERNET_OK"
  shows "fst (snd (retry_loop clk sleep terminal deadline attempt left c resp w)) = ASTERNET_OK"
  using assms(1) [of w] assms(2)
  by (subst retry_loop.simps) (auto simp: Let_def case_prod_beta split: nat.split)

lemma client_request_ok:
  assumes alive: "\<not> request_guard_refuses active cl" "\<not> cl_destroyed cl" and alone: "co_flights (cl_coalescer cl) = []"
    and first: "answers_first (cl_selector cl) policy"
    and time: "in_time (ce_clock env) (effective_timeout cl (req_timeout_ms req))"
    and resolves: "\<And>epoch timeout w. rr_error (fst (resolve_with_metadata (ce_dns env) (cl_resolver cl) (req_host req) epoch timeout w)) = ASTERNET_OK"
  shows "fst (client_request_with_policy env active req policy resp (cl, w)) = ASTERNET_OK"
proof -
  let ?t = "effective_timeout cl (req_timeout_ms req)"
  from time obtain lo where lo0: "0 \<le> lo" and lo: "\<And>w. lo \<le> fst (ce_clock env w)" "\<And>w. 2 * (fst (ce_clock env w) - lo) < ?t"
    unfolding in_time_def by blast
  obtain started w1 where n: "ce_clock env w = (started, w1)" by (rule prod.exhaust)
  let ?cl = "cl\<lparr>cl_next_request_id := cl_next_request_id cl + 1\<rparr>"
  let ?c = "normalize_retry_safety (request_context_of cl req policy started)"
  have c: "rc_policy ?c = policy" "req_host (rc_request ?c) = req_host req" "rc_deadline_ms ?c = started + ?t"
    by (simp_all add: request_context_of_def normalize_retry_safety_def default_context_def Let_def)
  have left: "?t < 2 * (started + ?t - fst (ce_clock env v))" for v using lo(1) [of w] lo(2) [of v] n by simp
  have "0 < ?t" using lo(1) [of w] lo(2) [of w] by simp
  then have dl: "0 < started + ?t - fst (ce_clock env v)" for v using left [of v] by simp
  have chain: "fst (chain_execute (orchestrator_chain (client_clock env) (client_sleep env) (\<lambda>st. Some (cl_prober (fst st)))) (execute_transport env)
      ?c resp (?cl, w1)) = ASTERNET_OK"
  proof -
    have round: "fst (snd (retry_loop (client_clock env) (client_sleep env) (execute_transport env) (started + ?t) 0 k d resp (?cl, v))) = ASTERNET_OK"
      if "rc_policy d = policy" "req_host (rc_request d) = req_host req" for k d v
    proof (rule retry_loop_succeeds)
      show "0 < started + ?t - fst (client_clock env st)" for st using dl by (simp add: client_clock_def Let_def case_prod_beta)
      have "fst (ce_clock env u) - fst (ce_clock env u') < started + ?t - fst (ce_clock env v)" for u u'
        using lo(1) [of u'] lo(2) [of u] left [of v] by simp
      then show "fst (execute_transport env (d\<lparr>rc_request := (rc_request d)\<lparr>req_timeout_ms := started + ?t - fst (client_clock env (?cl, v))\<rparr>,
          rc_attempts := rc_attempts d + 1\<rparr>) default_response (snd (client_clock env (?cl, v)))) = ASTERNET_OK"
        using that first resolves dl by (simp add: client_clock_def Let_def case_prod_beta transport_succeeds)
    qed
    have "fst (RetryInterceptor (client_clock env) (client_sleep env) (execute_transport env) d resp (?cl, w1)) = ASTERNET_OK"
      if "rc_policy d = policy" "req_host (rc_request d) = req_host req" "rc_deadline_ms d = started + ?t" for d
      using round [OF that(1,2), where k = "retry_limit d"] that(3) \<open>0 < ?t\<close> lo0 lo(1) [of w] n
      by (simp add: RetryInterceptor_def client_clock_def Let_def case_prod_beta)
    then show ?thesis using c by (simp add: chain_execute_def orchestrator_chain_def WeakNetInterceptor_def Let_def)
  qed
  then have "fst (run_orchestrator env (request_context_of cl req policy started) resp (?cl, w1)) = ASTERNET_OK"
    using alone
    by (auto simp: run_orchestrator_def orchestrator_execute_def coalescer_execute_def coalescer_enter_def Let_def case_prod_beta)
  then show ?thesis using alive n by (simp add: client_request_with_policy_def Let_def case_prod_beta)
qed

subsection \<open>An exchange\<close>

text \<open>Engines that answer with the path of the request, and a world that lists what was answered.\<close>

definition answer_engine :: "((request \<times> response) list) engine" where
  "answer_engine req w =
     (let a = default_response\<lparr>resp_http_status := 200, resp_body := req_path req\<rparr> in (ASTERNET_OK, a, w @ [(req, a)]))"

definition answer_env :: "((request \<times> response) list) client_env" where
  "answer_env =
     \<lparr>ce_clock = (\<lambda>w. (0, w)), ce_sleep = (\<lambda>_ w. w),
      ce_dns = \<lparr>de_parser = demo_parser, de_ntop4 = (\<lambda>_. Some ''8.8.8.8''), de_ntop6 = (\<lambda>_. None),
        de_getaddrinfo = (\<lambda>_ w. (Some [AF_INET 0x08080808], w)), de_clock = (\<lambda>w. (0, w)),
        de_thread = (\<lambda>_ w. (Done_In_Time True, w)), de_cache_order = (\<lambda>_. 0), de_health_order = (\<lambda>_. 0)\<rparr>,
      ce_ban_order = (\<lambda>_. 0), ce_pool_order = (\<lambda>_. 0), ce_http1 = (\<lambda>_ _. answer_engine), ce_http2 = (\<lambda>_ _. answer_engine),
      ce_quic = (\<lambda>_ _. answer_engine), ce_xquic_enabled = False, ce_testing_build = False,
      ce_migrate_http1 = (\<lambda>_ w. (0, w)), ce_migrate_http2 = (\<lambda>_ w. (0, w)), ce_migrate_quic = (\<lambda>_ w. (0, w)),
      ce_prefetch_quic = (\<lambda>_ _ w. (0, w)), ce_destroy = (\<lambda>_ _ w. w), ce_trace = None,
      ce_ratio = (\<lambda>_ _. [])\<rparr>"

definition answer_client :: "((request \<times> response) list) client" where
  "answer_client = new_client answer_env 1
     \<lparr>cfg_struct_size = 64, cfg_abi_version = ASTERNET_ABI_VERSION, cfg_default_timeout_ms = 0,
      cfg_max_response_body_bytes = 0, cfg_enable_http3 = 0, cfg_allow_insecure_tls_for_testing = 0,
      cfg_ca_cert_pem = None, cfg_allow_private_networks = 0\<rparr>"

definition ask :: request where
  "ask = default_request\<lparr>req_host := ''8.8.8.8'', req_path := ''/x''\<rparr>"

lemma answer_client_fields:
  "cl_destroyed answer_client = False" "co_flights (cl_coalescer answer_client) = []"
  "cl_selector answer_client = ProtocolSelector None (Some answer_engine) (Some answer_engine)"
  "cl_resolver answer_client = SmartDnsResolverImpl default_dns_config None" "cl_id answer_client = 1"
  "pool_inv (cl_pool answer_client)" "effective_timeout answer_client t = (if 0 < t then t else 15000)"
  by (simp_all add: answer_client_def new_client_def Let_def has_quic_def answer_env_def RequestCoalescer_def effective_timeout_def
      pool_inv_def pool_shape_def pool_counts_def leases_on_def ConnectionPoolImpl_def set_migration_handler_def default_dns_config_def)

lemma answer_answers: "answers_first (cl_selector answer_client) POLICY_AUTO"
  unfolding answers_first_def
  by (intro conjI exI [of _ "[h3_step, h2_step, h1_step]"] exI [of _ True] exI [of _ answer_engine])
    (simp_all add: answer_client_fields ProtocolSelector_def step_engine_def h3_step_def h2_step_def answer_engine_def Let_def)

lemma literal_resolves:
  assumes "host \<noteq> []" and "is_numeric_ip (de_parser env) host \<noteq> None" and "is_safe_ip (de_parser env) host (dc_allow_private (rs_config rs))"
  shows "rr_error (fst (resolve_with_metadata env rs host epoch timeout w)) = ASTERNET_OK"
  using assms
  by (auto simp: resolve_with_metadata_def resolve_literal_def default_resolve_result_def Let_def case_prod_beta split: option.split)

lemma ask_resolves: "rr_error (fst (resolve_with_metadata (ce_dns answer_env) (cl_resolver answer_client) (req_host ask) epoch timeout w)) = ASTERNET_OK"
proof (rule literal_resolves)
  have host: "req_host ask = ''8.8.8.8''" by (simp add: ask_def)
  have s: "c_str ''8.8.8.8'' = ''8.8.8.8''" by (simp add: c_str_def char_eval)
  have p: "pton4 (de_parser (ce_dns answer_env)) ''8.8.8.8'' = Some (ipv4 8 8 8 8)" by (simp add: answer_env_def demo_parser_def)
  show "is_numeric_ip (de_parser (ce_dns answer_env)) (req_host ask) \<noteq> None" by (simp add: is_numeric_ip_def host s p)
  have "is_safe_ipv4 (ipv4 8 8 8 8) False"
    by (simp add: is_safe_ipv4_def ipv4_def Let_def)
  then show "is_safe_ip (de_parser (ce_dns answer_env)) (req_host ask) (dc_allow_private (rs_config (cl_resolver answer_client)))"
    by (simp add: is_safe_ip_def host s p answer_client_fields SmartDnsResolverImpl_def default_dns_config_def)
qed (simp add: ask_def)

lemma ask_in_time: "in_time (ce_clock answer_env) (effective_timeout answer_client (req_timeout_ms ask))"
  by (auto simp: in_time_def answer_env_def answer_client_fields)

text \<open>
  Property C5. A request succeeds when nothing stands in its way: the client is alive and not being re-entered, the name
  resolves, the first engine of the policy's chain that the client has answers, no circuit breaker has opened, and the
  clock stays within half of the timeout. No layer in between loses a request or turns its success into a
  failure.
\<close>

theorem client_request_succeeds:
  assumes alive: "\<not> request_guard_refuses active cl" "\<not> cl_destroyed cl" and alone: "co_flights (cl_coalescer cl) = []"
    and first: "answers_first (cl_selector cl) policy"
    and time: "in_time (ce_clock env) (effective_timeout cl (req_timeout_ms req))"
    and resolves: "\<And>epoch timeout w. rr_error (fst (resolve_with_metadata (ce_dns env) (cl_resolver cl) (req_host req) epoch timeout w)) = ASTERNET_OK"
  shows "fst (client_request_with_policy env active req policy resp (cl, w)) = ASTERNET_OK"
  by (rule client_request_ok [OF assms])

lemma client_request_succeeds_witness:
  "fst (client_request_with_policy answer_env [] ask POLICY_AUTO default_response (answer_client, [])) = ASTERNET_OK"
  by (rule client_request_succeeds [OF _ _ _ answer_answers ask_in_time ask_resolves])
    (simp_all add: answer_client_fields request_guard_refuses_def is_active_client_def kMaxActiveClients_def)

lemma client_answers_genuine_witness:
  "\<exists>resp out cl log q a. client_request_with_policy answer_env [] ask POLICY_AUTO default_response (answer_client, []) = (ASTERNET_OK, resp, out, cl, log)
     \<and> (q, a) \<in> set log \<and> req_path q = ''/x'' \<and> resp_body resp = ''/x'' \<and> resp_http_status resp = 200"
proof -
  let ?Got = "\<lambda>q a w. (q, a) \<in> set w \<and> resp_body a = req_path q \<and> resp_http_status a = 200"
  have got: "answers_recorded answer_env (cl_selector answer_client) ?Got"
    by (auto simp: answers_recorded_def client_quiet_def answer_env_def answer_client_fields ProtocolSelector_def step_engine_def
        answer_engine_def Let_def split: engine_type.splits)
  have http: "rs_httpdns (cl_resolver answer_client) = None" by (simp add: answer_client_fields SmartDnsResolverImpl_def)
  obtain ret resp out cl log where
    run: "client_request_with_policy answer_env [] ask POLICY_AUTO default_response (answer_client, []) = (ret, resp, out, cl, log)"
    by (rule prod_cases5)
  have "fst (client_request_with_policy answer_env [] ask POLICY_AUTO default_response (answer_client, [])) = ASTERNET_OK"
    by (rule client_request_ok [OF _ _ _ answer_answers ask_in_time ask_resolves])
      (simp_all add: answer_client_fields request_guard_refuses_def is_active_client_def kMaxActiveClients_def)
  with run have ok: "ret = ASTERNET_OK" by simp
  with client_answers_genuine [OF got answer_client_fields(6) http answer_client_fields(2) run] obtain q a where
    "delivered_faithfully answer_env answer_client ask q" "(q, a) \<in> set log" "resp_body a = req_path q" "resp_http_status a = 200"
    "same_answer a resp" by blast
  then have "(q, a) \<in> set log \<and> req_path q = ''/x'' \<and> resp_body resp = ''/x'' \<and> resp_http_status resp = 200"
    by (auto simp: delivered_faithfully_def same_answer_def ask_def)
  with run ok show ?thesis by blast
qed

end
