(* ===== verification/Abi_Registry.thy ===== *)
theory Abi_Registry
  imports Prelude
begin

text \<open>
  The handle registry of \<open>abi/abi.cpp\<close>: the table from the opaque tokens a host holds to the reference
  counted handles, and the leases that keep a client alive while a call runs.

  \<open>rg_heap\<close> holds every \<open>ClientHandle\<close> that was ever registered, \<open>rg_map\<close> the table \<open>g_handles\<close> of the
  tokens that are valid. The operations are split where the code drops one mutex and takes another, so
  that the step relation at the end can interleave the threads of the host at every such point.
\<close>

section \<open>The registry\<close>

record 'c client_handle =
  hd_client :: "'c option"
  hd_active :: nat
  hd_destroying :: bool

record 'c registry =
  rg_map :: "(64 word, nat) table"
  rg_heap :: "'c client_handle list"
  rg_next :: "64 word"

definition empty_registry :: "'c registry" where
  "empty_registry = \<lparr>rg_map = [], rg_heap = [], rg_next = 1\<rparr>"

text \<open>\<open>acquire_client\<close>: the lookup under the registry's mutex, then the check under the handle's.\<close>

definition acquire_lookup :: "64 word \<Rightarrow> 'c registry \<Rightarrow> nat option" where
  "acquire_lookup opaque rg = (if opaque = 0 then None else map_of (rg_map rg) opaque)"

definition acquire_lock :: "nat \<Rightarrow> 'c registry \<Rightarrow> 'c option \<times> 'c registry" where
  "acquire_lock h rg =
     (let hd = rg_heap rg ! h in
      if hd_destroying hd \<or> hd_client hd = None then (None, rg)
      else (hd_client hd, rg\<lparr>rg_heap := (rg_heap rg)[h := hd\<lparr>hd_active := hd_active hd + 1\<rparr>]\<rparr>))"

definition acquire_client :: "64 word \<Rightarrow> 'c registry \<Rightarrow> ('c \<times> nat) option \<times> 'c registry" where
  "acquire_client opaque rg =
     (case acquire_lookup opaque rg of
        None \<Rightarrow> (None, rg)
      | Some h \<Rightarrow> (case acquire_lock h rg of (None, rg) \<Rightarrow> (None, rg) | (Some c, rg) \<Rightarrow> (Some (c, h), rg)))"

definition release_client :: "nat \<Rightarrow> 'c registry \<Rightarrow> 'c registry" where
  "release_client h rg =
     (let hd = rg_heap rg ! h;
          hd = (if hd_active hd > 0 then hd\<lparr>hd_active := hd_active hd - 1\<rparr> else hd);
          hd = (if hd_destroying hd \<and> hd_active hd = 0 then hd\<lparr>hd_client := None\<rparr> else hd)
      in rg\<lparr>rg_heap := (rg_heap rg)[h := hd]\<rparr>)"

text \<open>Registration at the end of \<open>asternet_client_create\<close>; \<open>None\<close> when the tokens are used up.\<close>

definition register_client :: "'c \<Rightarrow> 'c registry \<Rightarrow> 64 word option \<times> 'c registry" where
  "register_client c rg =
     (if rg_next rg > drop_bit 1 (- 1) then (None, rg)
      else
        let token = or (push_bit 1 (rg_next rg)) 1;
            hd = \<lparr>hd_client = Some c, hd_active = 0, hd_destroying = False\<rparr>
        in (Some token,
            rg\<lparr>rg_next := rg_next rg + 1, rg_map := AList.update token (length (rg_heap rg)) (rg_map rg),
               rg_heap := rg_heap rg @ [hd]\<rparr>))"

text \<open>\<open>asternet_client_destroy\<close>: out of the table, then marked under the handle's mutex.\<close>

definition destroy_lookup :: "64 word \<Rightarrow> 'c registry \<Rightarrow> (nat \<times> 'c registry) option" where
  "destroy_lookup opaque rg =
     (case map_of (rg_map rg) opaque of
        None \<Rightarrow> None
      | Some h \<Rightarrow> Some (h, rg\<lparr>rg_map := AList.delete opaque (rg_map rg)\<rparr>))"

definition destroy_mark :: "nat \<Rightarrow> 'c registry \<Rightarrow> 'c registry" where
  "destroy_mark h rg =
     (let hd = (rg_heap rg ! h)\<lparr>hd_destroying := True\<rparr>;
          hd = (if hd_active hd = 0 then hd\<lparr>hd_client := None\<rparr> else hd)
      in rg\<lparr>rg_heap := (rg_heap rg)[h := hd]\<rparr>)"

definition asternet_client_destroy :: "64 word \<Rightarrow> 'c registry \<Rightarrow> 'c registry" where
  "asternet_client_destroy opaque rg =
     (case destroy_lookup opaque rg of None \<Rightarrow> rg | Some (h, rg) \<Rightarrow> destroy_mark h rg)"

section \<open>Tokens\<close>

lemma max_handle_id: "(x :: 64 word) \<le> drop_bit 1 (- 1) \<longleftrightarrow> unat x < 2 ^ 63"
proof -
  have "unat (drop_bit 1 (- 1) :: 64 word) = 2 ^ 63 - 1"
    by (simp add: unat_drop_bit_eq unsigned_minus_1_eq_mask drop_bit_eq_div mask_eq_exp_minus_1)
  then have "x \<le> drop_bit 1 (- 1) \<longleftrightarrow> unat x \<le> 2 ^ 63 - 1" by (simp only: word_le_nat_alt)
  then show ?thesis by auto
qed

lemma token_unat:
  assumes "unat (x :: 64 word) < 2 ^ 63"
  shows "unat (or (push_bit 1 x) 1) = 2 * unat x + 1"
proof -
  have "unat (push_bit 1 x) = 2 * unat x"
    using assms by (simp only: unsigned_push_bit_eq) (simp add: push_bit_eq_mult take_bit_nat_eq_self)
  then have "unat (or (push_bit 1 x) 1) = or (2 * unat x) 1" by (simp add: unsigned_or_eq)
  then show ?thesis by (simp add: or_Suc_0_eq)
qed

lemma register_token:
  assumes "register_client c rg = (Some token, rg')"
  shows "unat token = 2 * unat (rg_next rg) + 1" "unat (rg_next rg') = unat (rg_next rg) + 1" "unat (rg_next rg) < 2 ^ 63"
proof -
  from assms have r: "\<not> rg_next rg > drop_bit 1 (- 1)" "token = or (push_bit 1 (rg_next rg)) 1" "rg_next rg' = rg_next rg + 1"
    by (auto simp: register_client_def Let_def split: if_splits)
  then show small: "unat (rg_next rg) < 2 ^ 63" by (simp only: not_less max_handle_id)
  with r(2) show "unat token = 2 * unat (rg_next rg) + 1" by (simp only: token_unat)
  show "unat (rg_next rg') = unat (rg_next rg) + 1" using r(3) small by (simp add: unat_word_ariths(1))
qed

section \<open>Interleavings\<close>

text \<open>
  Where a thread of the host is inside a call: outside; past the table with a handle; with a lease and
  its own reference to the client; with that reference only (leases are given back before the local
  \<open>shared_ptr\<close> goes out of scope); or between the two halves of a destroy.
\<close>

datatype phase = Outside | Found nat | Using nat | Leaving nat | Destroying nat

record 'c abi_system =
  as_registry :: "'c registry"
  as_threads :: "phase list"
  as_freed :: "nat list"

text \<open>Who holds a reference to the client of handle \<open>h\<close>; the last one to go runs the destructor.\<close>

definition referenced :: "nat \<Rightarrow> 'c registry \<Rightarrow> phase list \<Rightarrow> bool" where
  "referenced h rg ts \<longleftrightarrow> hd_client (rg_heap rg ! h) \<noteq> None \<or> Using h \<in> set ts \<or> Leaving h \<in> set ts"

definition settle :: "nat \<Rightarrow> 'c abi_system \<Rightarrow> 'c abi_system" where
  "settle h s = (if referenced h (as_registry s) (as_threads s) then s else s\<lparr>as_freed := as_freed s @ [h]\<rparr>)"

inductive abi_step :: "'c abi_system \<Rightarrow> 'c abi_system \<Rightarrow> bool" where
  create: "register_client c (as_registry s) = (r, rg) \<Longrightarrow> abi_step s (s\<lparr>as_registry := rg\<rparr>)"
| find: "t < length (as_threads s) \<Longrightarrow> as_threads s ! t = Outside \<Longrightarrow> acquire_lookup opaque (as_registry s) = Some h \<Longrightarrow>
    abi_step s (s\<lparr>as_threads := (as_threads s)[t := Found h]\<rparr>)"
| refuse: "t < length (as_threads s) \<Longrightarrow> as_threads s ! t = Found h \<Longrightarrow> acquire_lock h (as_registry s) = (None, rg) \<Longrightarrow>
    abi_step s (s\<lparr>as_registry := rg, as_threads := (as_threads s)[t := Outside]\<rparr>)"
| lease: "t < length (as_threads s) \<Longrightarrow> as_threads s ! t = Found h \<Longrightarrow> acquire_lock h (as_registry s) = (Some c, rg) \<Longrightarrow>
    abi_step s (s\<lparr>as_registry := rg, as_threads := (as_threads s)[t := Using h]\<rparr>)"
| release: "t < length (as_threads s) \<Longrightarrow> as_threads s ! t = Using h \<Longrightarrow>
    abi_step s (s\<lparr>as_registry := release_client h (as_registry s), as_threads := (as_threads s)[t := Leaving h]\<rparr>)"
| leave: "t < length (as_threads s) \<Longrightarrow> as_threads s ! t = Leaving h \<Longrightarrow>
    abi_step s (settle h (s\<lparr>as_threads := (as_threads s)[t := Outside]\<rparr>))"
| unregister: "t < length (as_threads s) \<Longrightarrow> as_threads s ! t = Outside \<Longrightarrow>
    destroy_lookup opaque (as_registry s) = Some (h, rg) \<Longrightarrow>
    abi_step s (s\<lparr>as_registry := rg, as_threads := (as_threads s)[t := Destroying h]\<rparr>)"
| mark: "t < length (as_threads s) \<Longrightarrow> as_threads s ! t = Destroying h \<Longrightarrow>
    abi_step s (settle h (s\<lparr>as_registry := destroy_mark h (as_registry s), as_threads := (as_threads s)[t := Outside]\<rparr>))"

inductive abi_reach :: "'c abi_system \<Rightarrow> 'c abi_system \<Rightarrow> bool" for s0 where
  abi_start: "abi_reach s0 s0"
| abi_then: "abi_reach s0 s \<Longrightarrow> abi_step s s' \<Longrightarrow> abi_reach s0 s'"

definition abi_initial :: "nat \<Rightarrow> 'c abi_system" where
  "abi_initial n = \<lparr>as_registry = empty_registry, as_threads = replicate n Outside, as_freed = []\<rparr>"

section \<open>The invariant\<close>

definition tokens_ok :: "'c registry \<Rightarrow> bool" where
  "tokens_ok rg \<longleftrightarrow>
     unat (rg_next rg) = length (rg_heap rg) + 1 \<and> unat (rg_next rg) \<le> 2 ^ 63 \<and> keys_distinct (rg_map rg)
     \<and> (\<forall>k h. map_of (rg_map rg) k = Some h \<longrightarrow> h < length (rg_heap rg) \<and> unat k = 2 * h + 3)"

definition refers_to :: "phase \<Rightarrow> nat option" where
  "refers_to p = (case p of Outside \<Rightarrow> None | Found h \<Rightarrow> Some h | Using h \<Rightarrow> Some h | Leaving h \<Rightarrow> Some h | Destroying h \<Rightarrow> Some h)"

text \<open>One handle: registered, or its destroy is under way by exactly one thread, or it is marked.\<close>

definition handle_ok :: "nat \<Rightarrow> 'c abi_system \<Rightarrow> bool" where
  "handle_ok h s \<longleftrightarrow>
     (let hd = rg_heap (as_registry s) ! h; ts = as_threads s;
          registered = (map_of (rg_map (as_registry s)) (of_nat (2 * h + 3)) = Some h)
      in hd_active hd = count_list ts (Using h)
         \<and> of_bool registered + count_list ts (Destroying h) + of_bool (hd_destroying hd) = (1 :: nat)
         \<and> (hd_client hd = None \<longleftrightarrow> hd_destroying hd \<and> hd_active hd = 0)
         \<and> count_list (as_freed s) h = of_bool (\<not> referenced h (as_registry s) ts))"

definition abi_inv :: "'c abi_system \<Rightarrow> bool" where
  "abi_inv s \<longleftrightarrow>
     tokens_ok (as_registry s)
     \<and> (\<forall>h < length (rg_heap (as_registry s)). handle_ok h s)
     \<and> (\<forall>p \<in> set (as_threads s). \<forall>h. refers_to p = Some h \<longrightarrow> h < length (rg_heap (as_registry s)))
     \<and> (\<forall>h \<in> set (as_freed s). h < length (rg_heap (as_registry s)))"

lemma count_list_update:
  "t < length ts \<Longrightarrow> count_list (ts[t := p]) x + of_bool (ts ! t = x) = count_list ts x + of_bool (p = x)"
proof (induction ts arbitrary: t)
  case (Cons a ts)
  then show ?case by (cases t) (auto split: if_splits)
qed simp

lemma count_list_replace:
  assumes "t < length ts"
  shows "ts ! t \<noteq> x \<Longrightarrow> p \<noteq> x \<Longrightarrow> count_list (ts[t := p]) x = count_list ts x"
    "ts ! t = x \<Longrightarrow> p \<noteq> x \<Longrightarrow> count_list ts x = Suc (count_list (ts[t := p]) x)"
    "ts ! t \<noteq> x \<Longrightarrow> p = x \<Longrightarrow> count_list (ts[t := p]) x = Suc (count_list ts x)"
  using count_list_update [OF assms, of p x] by simp_all

lemma referenced_count:
  "referenced h rg ts \<longleftrightarrow>
     hd_client (rg_heap rg ! h) \<noteq> None \<or> count_list ts (Using h) \<noteq> 0 \<or> count_list ts (Leaving h) \<noteq> 0"
  by (simp add: referenced_def count_list_0_iff)

lemma settle_simps [simp]:
  "as_registry (settle h s) = as_registry s" "as_threads (settle h s) = as_threads s"
  by (simp_all add: settle_def)

lemma settle_freed:
  "count_list (as_freed (settle h s)) k =
     count_list (as_freed s) k + of_bool (k = h \<and> \<not> referenced h (as_registry s) (as_threads s))"
  by (simp add: settle_def)

lemma handle_ok_cong:
  assumes "handle_ok h s" and "rg_heap (as_registry s') ! h = rg_heap (as_registry s) ! h"
    and "map_of (rg_map (as_registry s')) (of_nat (2 * h + 3)) = map_of (rg_map (as_registry s)) (of_nat (2 * h + 3))"
    and "\<And>p. p = Using h \<or> p = Leaving h \<or> p = Destroying h \<Longrightarrow> count_list (as_threads s') p = count_list (as_threads s) p"
    and "count_list (as_freed s') h = count_list (as_freed s) h"
  shows "handle_ok h s'"
  using assms by (simp add: handle_ok_def referenced_count Let_def)

section \<open>Every step keeps the invariant\<close>

lemma abi_invD:
  assumes "abi_inv s"
  shows "tokens_ok (as_registry s)"
    "h < length (rg_heap (as_registry s)) \<Longrightarrow> handle_ok h s"
    "t < length (as_threads s) \<Longrightarrow> refers_to (as_threads s ! t) = Some h \<Longrightarrow> h < length (rg_heap (as_registry s))"
    "h \<in> set (as_freed s) \<Longrightarrow> h < length (rg_heap (as_registry s))"
  using assms by (auto simp: abi_inv_def)

text \<open>A step of thread \<open>t\<close> on one handle: the table loses no other token, the other handles stay.\<close>

lemma one_handle_step:
  assumes inv: "abi_inv s" and h: "h < length (rg_heap (as_registry s))" and t: "t < length (as_threads s)"
    and heap: "rg_heap (as_registry s') = (rg_heap (as_registry s))[h := hnd]"
    and threads: "as_threads s' = (as_threads s)[t := p]"
    and toks: "tokens_ok (as_registry s')"
    and tmap: "\<And>k. k \<noteq> h \<Longrightarrow> k < length (rg_heap (as_registry s)) \<Longrightarrow>
       map_of (rg_map (as_registry s')) (of_nat (2 * k + 3)) = map_of (rg_map (as_registry s)) (of_nat (2 * k + 3))"
    and old: "refers_to (as_threads s ! t) \<in> {None, Some h}" and new: "refers_to p \<in> {None, Some h}"
    and freed: "\<And>k. k \<noteq> h \<Longrightarrow> count_list (as_freed s') k = count_list (as_freed s) k"
    and ok: "handle_ok h s'"
  shows "abi_inv s'"
proof -
  have len: "length (rg_heap (as_registry s')) = length (rg_heap (as_registry s))" by (simp add: heap)
  have "handle_ok k s'" if "k < length (rg_heap (as_registry s'))" for k
  proof (cases "k = h")
    case False
    have same: "count_list (as_threads s') q = count_list (as_threads s) q"
      if "q = Using k \<or> q = Leaving k \<or> q = Destroying k" for q
      unfolding threads
      by (rule count_list_replace(1) [OF t]) (use that old new False in \<open>auto simp: refers_to_def\<close>)
    show ?thesis
      by (rule handle_ok_cong [OF abi_invD(2) [OF inv]]) (use that False len heap tmap freed same in simp_all)
  qed (use ok in simp)
  moreover have "h' < length (rg_heap (as_registry s'))" if "q \<in> set (as_threads s')" "refers_to q = Some h'" for q h'
  proof (cases "q = p")
    case True
    with that new h len show ?thesis by simp
  next
    case False
    with that(1) have "q \<in> set (as_threads s)"
      using set_update_subset_insert [of "as_threads s" t p] by (auto simp: threads)
    with inv that(2) len show ?thesis by (simp add: abi_inv_def)
  qed
  moreover have "k < length (rg_heap (as_registry s'))" if "k \<in> set (as_freed s')" for k
  proof (cases "k = h")
    case False
    with freed that have "k \<in> set (as_freed s)" by (metis count_list_0_iff)
    with len abi_invD(4) [OF inv] show ?thesis by simp
  qed (use h len in simp)
  ultimately show ?thesis using toks by (simp add: abi_inv_def)
qed

lemma tokens_ok_heap:
  assumes "tokens_ok rg" shows "tokens_ok (rg\<lparr>rg_heap := (rg_heap rg)[h := hnd]\<rparr>)"
  using assms by (simp add: tokens_ok_def)

lemma handle_token:
  assumes "tokens_ok rg" and "h < length (rg_heap rg)"
  shows "unat (of_nat (2 * h + 3) :: 64 word) = 2 * h + 3"
proof -
  have "2 * h + 3 < 2 ^ 64" using assms by (simp add: tokens_ok_def)
  then have "take_bit 64 (2 * h + 3) = 2 * h + 3" by (simp only: take_bit_nat_eq_self)
  then show ?thesis by (simp only: unsigned_of_nat) simp
qed

lemma tokens_ok_map:
  "tokens_ok rg \<Longrightarrow> map_of (rg_map rg) k = Some h \<Longrightarrow> k = of_nat (2 * h + 3) \<and> h < length (rg_heap rg)"
  unfolding tokens_ok_def by (metis of_nat_unat ucast_id)

lemma refers_to_simps [simp]:
  "refers_to Outside = None" "refers_to (Found h) = Some h" "refers_to (Using h) = Some h"
  "refers_to (Leaving h) = Some h" "refers_to (Destroying h) = Some h"
  by (simp_all add: refers_to_def)

lemma find_inv:
  assumes inv: "abi_inv s" and t: "t < length (as_threads s)" "as_threads s ! t = Outside"
    and l: "acquire_lookup opaque (as_registry s) = Some h"
  shows "abi_inv (s\<lparr>as_threads := (as_threads s)[t := Found h]\<rparr>)"
proof -
  have h: "h < length (rg_heap (as_registry s))"
    using l tokens_ok_map [OF abi_invD(1) [OF inv]] by (auto simp: acquire_lookup_def split: if_splits)
  have "handle_ok h (s\<lparr>as_threads := (as_threads s)[t := Found h]\<rparr>)"
    by (rule handle_ok_cong [OF abi_invD(2) [OF inv h]]) (use t in \<open>auto simp: count_list_replace(1)\<close>)
  then show ?thesis
    by (intro one_handle_step [where h = h and t = t and p = "Found h" and hnd = "rg_heap (as_registry s) ! h", OF inv h t(1)])
      (use t abi_invD(1) [OF inv] in simp_all)
qed

lemma handle_acquire_inv:
  assumes inv: "abi_inv s" and t: "t < length (as_threads s)" "as_threads s ! t = Found h"
    and l: "acquire_lock h (as_registry s) = (r, rg)"
  shows "abi_inv (s\<lparr>as_registry := rg, as_threads := (as_threads s)[t := (if r = None then Outside else Using h)]\<rparr>)"
proof -
  have h: "h < length (rg_heap (as_registry s))" using abi_invD(3) [OF inv t(1), of h] t(2) by simp
  note ok = abi_invD(2) [OF inv h]
  show ?thesis
  proof (cases r)
    case None
    with l have rg: "rg = as_registry s" by (auto simp: acquire_lock_def Let_def split: if_splits)
    have "handle_ok h (s\<lparr>as_registry := rg, as_threads := (as_threads s)[t := Outside]\<rparr>)"
      by (rule handle_ok_cong [OF ok]) (use t rg in \<open>auto simp: count_list_replace(1)\<close>)
    with None show ?thesis
      by (intro one_handle_step [where h = h and t = t and p = Outside and hnd = "rg_heap (as_registry s) ! h", OF inv h t(1)])
        (use t rg abi_invD(1) [OF inv] in simp_all)
  next
    case (Some c)
    let ?hd = "rg_heap (as_registry s) ! h"
    from Some l have rg: "rg = (as_registry s)\<lparr>rg_heap := (rg_heap (as_registry s))[h := ?hd\<lparr>hd_active := hd_active ?hd + 1\<rparr>]\<rparr>"
      and open_h: "\<not> hd_destroying ?hd" "hd_client ?hd \<noteq> None"
      by (auto simp: acquire_lock_def Let_def split: if_splits)
    have "handle_ok h (s\<lparr>as_registry := rg, as_threads := (as_threads s)[t := Using h]\<rparr>)"
      using ok h t open_h by (simp add: handle_ok_def rg Let_def referenced_count count_list_replace)
    with Some show ?thesis
      by (intro one_handle_step [where h = h and t = t and p = "Using h" and hnd = "?hd\<lparr>hd_active := hd_active ?hd + 1\<rparr>", OF inv h t(1)])
        (use t rg tokens_ok_heap [OF abi_invD(1) [OF inv]] in simp_all)
  qed
qed

lemma handle_release_inv:
  assumes inv: "abi_inv s" and t: "t < length (as_threads s)" "as_threads s ! t = Using h"
  shows "abi_inv (s\<lparr>as_registry := release_client h (as_registry s), as_threads := (as_threads s)[t := Leaving h]\<rparr>)"
proof -
  let ?s = "s\<lparr>as_registry := release_client h (as_registry s), as_threads := (as_threads s)[t := Leaving h]\<rparr>"
  have h: "h < length (rg_heap (as_registry s))" using abi_invD(3) [OF inv t(1), of h] t(2) by simp
  note ok = abi_invD(2) [OF inv h]
  have using_h: "count_list (as_threads s) (Using h) = Suc (count_list ((as_threads s)[t := Leaving h]) (Using h))"
    by (rule count_list_replace(2) [OF t(1)]) (use t in simp_all)
  have leaving_h: "count_list ((as_threads s)[t := Leaving h]) (Leaving h) = Suc (count_list (as_threads s) (Leaving h))"
    by (rule count_list_replace(3) [OF t(1)]) (use t in simp_all)
  have destr_h: "count_list ((as_threads s)[t := Leaving h]) (Destroying h) = count_list (as_threads s) (Destroying h)"
    by (rule count_list_replace(1) [OF t(1)]) (use t in simp_all)
  have ok': "handle_ok h ?s"
    using ok h by (auto simp: handle_ok_def release_client_def Let_def referenced_count using_h leaving_h destr_h)
  obtain hnd where rg: "release_client h (as_registry s) = (as_registry s)\<lparr>rg_heap := (rg_heap (as_registry s))[h := hnd]\<rparr>"
    unfolding release_client_def Let_def by blast
  show ?thesis
    by (rule one_handle_step [where h = h and t = t and p = "Leaving h" and hnd = hnd, OF inv h t(1)])
      (use ok' t rg tokens_ok_heap [OF abi_invD(1) [OF inv]] in simp_all)
qed

lemma leave_inv:
  assumes inv: "abi_inv s" and t: "t < length (as_threads s)" "as_threads s ! t = Leaving h"
  shows "abi_inv (settle h (s\<lparr>as_threads := (as_threads s)[t := Outside]\<rparr>))"
proof -
  let ?s = "settle h (s\<lparr>as_threads := (as_threads s)[t := Outside]\<rparr>)"
  have h: "h < length (rg_heap (as_registry s))" using abi_invD(3) [OF inv t(1), of h] t(2) by simp
  note ok = abi_invD(2) [OF inv h]
  have leaving_h: "count_list (as_threads s) (Leaving h) = Suc (count_list ((as_threads s)[t := Outside]) (Leaving h))"
    by (rule count_list_replace(2) [OF t(1)]) (use t in simp_all)
  have rest: "count_list ((as_threads s)[t := Outside]) (Using h) = count_list (as_threads s) (Using h)"
    "count_list ((as_threads s)[t := Outside]) (Destroying h) = count_list (as_threads s) (Destroying h)"
    by (rule count_list_replace(1) [OF t(1)]; use t in simp)+
  have ok': "handle_ok h ?s"
    using ok h by (auto simp: handle_ok_def Let_def referenced_count settle_freed leaving_h rest)
  show ?thesis
    by (rule one_handle_step [where h = h and t = t and p = Outside and hnd = "rg_heap (as_registry s) ! h", OF inv h t(1)])
      (use ok' t abi_invD(1) [OF inv] in \<open>simp_all add: settle_freed\<close>)
qed

lemma unregister_inv:
  assumes inv: "abi_inv s" and t: "t < length (as_threads s)" "as_threads s ! t = Outside"
    and d: "destroy_lookup opaque (as_registry s) = Some (h, rg)"
  shows "abi_inv (s\<lparr>as_registry := rg, as_threads := (as_threads s)[t := Destroying h]\<rparr>)"
proof -
  let ?s = "s\<lparr>as_registry := rg, as_threads := (as_threads s)[t := Destroying h]\<rparr>"
  note toks = abi_invD(1) [OF inv]
  from d have rg: "rg = (as_registry s)\<lparr>rg_map := AList.delete opaque (rg_map (as_registry s))\<rparr>"
    and m: "map_of (rg_map (as_registry s)) opaque = Some h" by (auto simp: destroy_lookup_def split: option.splits)
  from tokens_ok_map [OF toks m] have op: "opaque = of_nat (2 * h + 3)" and h: "h < length (rg_heap (as_registry s))"
    by simp_all
  note ok = abi_invD(2) [OF inv h]
  have other: "of_nat (2 * k + 3) \<noteq> opaque" if "k \<noteq> h" "k < length (rg_heap (as_registry s))" for k
    using handle_token [OF toks that(2)] handle_token [OF toks h] that(1) op by (metis add_right_cancel mult_cancel1 zero_neq_numeral)
  have destr_h: "count_list ((as_threads s)[t := Destroying h]) (Destroying h) = Suc (count_list (as_threads s) (Destroying h))"
    by (rule count_list_replace(3) [OF t(1)]) (use t in simp_all)
  have rest: "count_list ((as_threads s)[t := Destroying h]) (Using h) = count_list (as_threads s) (Using h)"
    "count_list ((as_threads s)[t := Destroying h]) (Leaving h) = count_list (as_threads s) (Leaving h)"
    by (rule count_list_replace(1) [OF t(1)]; use t in simp)+
  have gone: "map_of (rg_map rg) opaque = None" by (simp add: rg delete_conv)
  have ok': "handle_ok h ?s"
    using ok m gone unfolding handle_ok_def op
    by (simp add: Let_def referenced_count destr_h rest) (auto simp: rg)
  have toks': "tokens_ok rg"
    using toks by (auto simp: tokens_ok_def rg delete_conv map_of_delete split: if_splits)
  show ?thesis
    by (rule one_handle_step [where h = h and t = t and p = "Destroying h" and hnd = "rg_heap (as_registry s) ! h", OF inv h t(1)])
      (use ok' t toks' other in \<open>simp_all add: rg delete_conv\<close>)
qed

lemma mark_inv:
  assumes inv: "abi_inv s" and t: "t < length (as_threads s)" "as_threads s ! t = Destroying h"
  shows "abi_inv (settle h (s\<lparr>as_registry := destroy_mark h (as_registry s), as_threads := (as_threads s)[t := Outside]\<rparr>))"
proof -
  let ?s = "settle h (s\<lparr>as_registry := destroy_mark h (as_registry s), as_threads := (as_threads s)[t := Outside]\<rparr>)"
  have h: "h < length (rg_heap (as_registry s))" using abi_invD(3) [OF inv t(1), of h] t(2) by simp
  note ok = abi_invD(2) [OF inv h]
  have destr_h: "count_list (as_threads s) (Destroying h) = Suc (count_list ((as_threads s)[t := Outside]) (Destroying h))"
    by (rule count_list_replace(2) [OF t(1)]) (use t in simp_all)
  have rest: "count_list ((as_threads s)[t := Outside]) (Using h) = count_list (as_threads s) (Using h)"
    "count_list ((as_threads s)[t := Outside]) (Leaving h) = count_list (as_threads s) (Leaving h)"
    by (rule count_list_replace(1) [OF t(1)]; use t in simp)+
  have ok': "handle_ok h ?s"
    using ok h by (auto simp: handle_ok_def Let_def referenced_count settle_freed destr_h rest destroy_mark_def)
  obtain hnd where rg: "destroy_mark h (as_registry s) = (as_registry s)\<lparr>rg_heap := (rg_heap (as_registry s))[h := hnd]\<rparr>"
    unfolding destroy_mark_def Let_def by blast
  show ?thesis
    by (rule one_handle_step [where h = h and t = t and p = Outside and hnd = hnd, OF inv h t(1)])
      (use ok' t rg tokens_ok_heap [OF abi_invD(1) [OF inv]] in \<open>simp_all add: settle_freed\<close>)
qed

lemma create_inv:
  assumes inv: "abi_inv s" and r: "register_client c (as_registry s) = (token, rg)"
  shows "abi_inv (s\<lparr>as_registry := rg\<rparr>)"
proof (cases token)
  case None
  with r have "rg = as_registry s" by (auto simp: register_client_def Let_def split: if_splits)
  with inv show ?thesis by simp
next
  case (Some k)
  let ?n = "length (rg_heap (as_registry s))"
  note toks = abi_invD(1) [OF inv] and reg = register_token [OF r [unfolded Some]]
  have rg: "rg_map rg = AList.update k ?n (rg_map (as_registry s))"
    "rg_heap rg = rg_heap (as_registry s) @ [\<lparr>hd_client = Some c, hd_active = 0, hd_destroying = False\<rparr>]"
    using r Some by (auto simp: register_client_def Let_def split: if_splits)
  have n: "unat (rg_next (as_registry s)) = ?n + 1" using toks by (simp add: tokens_ok_def)
  then have uk: "unat k = 2 * ?n + 3" using reg(1) by simp
  have toks': "tokens_ok rg"
    using toks reg uk n by (auto simp: tokens_ok_def rg update_conv split: if_splits) fastforce
  have k: "k = of_nat (2 * ?n + 3)"
    using tokens_ok_map [OF toks', of k ?n] by (simp add: rg update_conv)
  have old: "handle_ok h (s\<lparr>as_registry := rg\<rparr>)" if "h < ?n" for h
  proof -
    have "of_nat (2 * h + 3) \<noteq> k"
      using handle_token [OF toks that] uk that by (metis add_right_cancel less_irrefl mult_cancel1 zero_neq_numeral)
    then show ?thesis
      by (intro handle_ok_cong [OF abi_invD(2) [OF inv that]]) (use that in \<open>simp_all add: rg nth_append update_conv\<close>)
  qed
  have none: "count_list (as_threads s) (Using ?n) = 0" "count_list (as_threads s) (Leaving ?n) = 0"
    "count_list (as_threads s) (Destroying ?n) = 0" "count_list (as_freed s) ?n = 0"
    using inv unfolding abi_inv_def count_list_0_iff by fastforce+
  have "handle_ok ?n (s\<lparr>as_registry := rg\<rparr>)"
    using none k by (simp add: handle_ok_def Let_def referenced_count rg update_conv)
  then have "handle_ok h (s\<lparr>as_registry := rg\<rparr>)" if "h < length (rg_heap rg)" for h
    using that old by (cases "h = ?n") (simp_all add: rg(2))
  moreover have "?n < length (rg_heap rg)" by (simp add: rg(2))
  ultimately show ?thesis
    using inv toks' by (fastforce simp: abi_inv_def intro: less_trans)
qed

lemma abi_step_inv: "abi_step s s' \<Longrightarrow> abi_inv s \<Longrightarrow> abi_inv s'"
proof (induction rule: abi_step.induct)
  case (refuse t s h rg)
  then show ?case using handle_acquire_inv [of s t h None rg] by simp
next
  case (lease t s h c rg)
  then show ?case using handle_acquire_inv [of s t h "Some c" rg] by simp
qed (blast intro: create_inv find_inv handle_release_inv leave_inv unregister_inv mark_inv)+

lemma abi_initial_inv: "abi_inv (abi_initial n)"
  by (simp add: abi_inv_def abi_initial_def empty_registry_def tokens_ok_def)

lemma abi_reach_inv: "abi_reach s0 s \<Longrightarrow> abi_inv s0 \<Longrightarrow> abi_inv s"
  by (induction rule: abi_reach.induct) (blast intro: abi_step_inv)+

section \<open>The property\<close>

lemma not_referenced_freed:
  "handle_ok h s \<Longrightarrow> h \<in> set (as_freed s) \<longleftrightarrow> \<not> referenced h (as_registry s) (as_threads s)"
  by (metis count_list_0_iff handle_ok_def of_bool_eq(1) of_bool_eq(2) zero_neq_one)

lemma using_alive:
  assumes "handle_ok h s" and "t < length (as_threads s)" and "as_threads s ! t = Using h"
  shows "hd_client (rg_heap (as_registry s) ! h) \<noteq> None"
proof -
  have "count_list (as_threads s) (Using h) \<noteq> 0" using assms(2,3) nth_mem unfolding count_list_0_iff by force
  with assms(1) show ?thesis by (auto simp: handle_ok_def Let_def)
qed

lemma idle_handle:
  assumes "handle_ok h s" and "\<forall>p \<in> set (as_threads s). p = Outside"
  shows "count_list (as_freed s) h = of_bool (map_of (rg_map (as_registry s)) (of_nat (2 * h + 3)) \<noteq> Some h)"
proof -
  have "count_list (as_threads s) (Using h) = 0" "count_list (as_threads s) (Leaving h) = 0" "count_list (as_threads s) (Destroying h) = 0"
    using assms(2) unfolding count_list_0_iff by auto
  with assms(1) show ?thesis
    by (cases "map_of (rg_map (as_registry s)) (of_nat (2 * h + 3)) = Some h")
      (auto simp: handle_ok_def Let_def referenced_count)
qed

text \<open>
  Property C6. Whatever the host's threads do and however they interleave (creating, destroying and
  using clients, also one that another thread is destroying): a token is odd, names one handle for ever
  and is never issued again; a call that holds a lease has a live client, and no client is destroyed
  while a call still refers to it; and when all calls have returned, each client has been destroyed
  exactly once if its token was given to \<open>asternet_client_destroy\<close> and not at all otherwise.
\<close>

theorem abi_handles_safe:
  assumes "abi_reach (abi_initial n) s"
  shows "(\<forall>k h. map_of (rg_map (as_registry s)) k = Some h \<longrightarrow> unat k = 2 * h + 3 \<and> h < length (rg_heap (as_registry s)))
    \<and> (\<forall>t < length (as_threads s). \<forall>h. as_threads s ! t = Using h \<longrightarrow> hd_client (rg_heap (as_registry s) ! h) \<noteq> None)
    \<and> (\<forall>t < length (as_threads s). \<forall>h. as_threads s ! t = Using h \<or> as_threads s ! t = Leaving h \<longrightarrow> h \<notin> set (as_freed s))
    \<and> ((\<forall>p \<in> set (as_threads s). p = Outside) \<longrightarrow> (\<forall>h < length (rg_heap (as_registry s)).
          count_list (as_freed s) h = of_bool (map_of (rg_map (as_registry s)) (of_nat (2 * h + 3)) \<noteq> Some h)))"
proof -
  have inv: "abi_inv s" using abi_reach_inv [OF assms abi_initial_inv] .
  have h: "h < length (rg_heap (as_registry s))" if "t < length (as_threads s)" "as_threads s ! t = Using h \<or> as_threads s ! t = Leaving h" for t h
    using abi_invD(3) [OF inv that(1), of h] that(2) by auto
  have "h \<notin> set (as_freed s)" if "t < length (as_threads s)" "as_threads s ! t = Using h \<or> as_threads s ! t = Leaving h" for t h
    using not_referenced_freed [OF abi_invD(2) [OF inv h [OF that]]] that nth_mem [OF that(1)]
    unfolding referenced_def by metis
  moreover have "hd_client (rg_heap (as_registry s) ! h) \<noteq> None" if "t < length (as_threads s)" "as_threads s ! t = Using h" for t h
    using using_alive [OF abi_invD(2) [OF inv h] that] that by simp
  ultimately show ?thesis
    using abi_invD(1) [OF inv] idle_handle [OF abi_invD(2) [OF inv]] unfolding tokens_ok_def by blast
qed

text \<open>One thread uses a client while the other destroys it.\<close>

definition demo_raced :: "unit abi_system" where
  "demo_raced = \<lparr>as_registry = \<lparr>rg_map = [], rg_heap = [\<lparr>hd_client = Some (), hd_active = 1, hd_destroying = True\<rparr>], rg_next = 2\<rparr>,
     as_threads = [Using 0, Outside], as_freed = []\<rparr>"

lemma demo_raced_reach: "abi_reach (abi_initial 2) demo_raced"
proof -
  let ?hd = "\<lambda>n d. \<lparr>hd_client = Some (), hd_active = n, hd_destroying = d\<rparr>"
  let ?s = "\<lambda>m n d ts. \<lparr>as_registry = \<lparr>rg_map = m, rg_heap = [?hd n d], rg_next = 2\<rparr>, as_threads = ts, as_freed = []\<rparr>"
  have 1: "abi_reach (abi_initial 2) (?s [(3, 0)] 0 False [Outside, Outside])"
    using abi_then [OF abi_start create [of "()" "abi_initial 2" "Some 3" "\<lparr>rg_map = [(3, 0)], rg_heap = [?hd 0 False], rg_next = 2\<rparr>"]]
    by (simp add: abi_initial_def empty_registry_def register_client_def numeral_2_eq_2 Let_def)
  have 2: "abi_reach (abi_initial 2) (?s [(3, 0)] 0 False [Found 0, Outside])"
    using abi_then [OF 1 find [where t = 0 and opaque = 3 and h = 0]] by (simp add: acquire_lookup_def)
  have 3: "abi_reach (abi_initial 2) (?s [(3, 0)] 1 False [Using 0, Outside])"
    using abi_then [OF 2 lease [where t = 0 and h = 0 and c = "()" and rg = "\<lparr>rg_map = [(3, 0)], rg_heap = [?hd 1 False], rg_next = 2\<rparr>"]]
    by (simp add: acquire_lock_def)
  have 4: "abi_reach (abi_initial 2) (?s [] 1 False [Using 0, Destroying 0])"
    using abi_then [OF 3 unregister [where t = 1 and opaque = 3 and h = 0 and rg = "\<lparr>rg_map = [], rg_heap = [?hd 1 False], rg_next = 2\<rparr>"]]
    by (simp add: destroy_lookup_def)
  show ?thesis
    using abi_then [OF 4 mark [where t = 1 and h = 0]]
    by (simp add: destroy_mark_def settle_def referenced_def demo_raced_def)
qed

lemma abi_handles_safe_witness:
  "hd_client (rg_heap (as_registry demo_raced) ! 0) \<noteq> None \<and> 0 \<notin> set (as_freed demo_raced)"
  using abi_handles_safe [OF demo_raced_reach] by (simp add: demo_raced_def)

end
