(* ===== verification/Http1_Chunked.thy ===== *)
theory Http1_Chunked
  imports Transport
begin

text \<open>
  The chunked transfer coding as \<open>decode_chunked\<close> of \<open>engine/http1_engine.cpp\<close> reads it, and its
  correctness against an encoder: every encoding is decoded, and no proper prefix of an encoding is
  taken for a complete or an invalid body.
\<close>

section \<open>The decoder\<close>

datatype chunk_parse_result = kIncomplete | kInvalid | kComplete

function skip_trailers :: "string \<Rightarrow> chunk_parse_result" where
  "skip_trailers raw =
     (case find_sub crlf raw of
        None \<Rightarrow> kIncomplete
      | Some e \<Rightarrow> if e = 0 then kComplete else skip_trailers (drop (e + 2) raw))"
  by pat_completeness auto
termination
  by (relation "measure length") (auto dest: find_sub_bound simp: crlf_def)

declare skip_trailers.simps [simp del]

definition chunk_size_of :: "string \<Rightarrow> nat option" where
  "chunk_size_of line =
     (case strtoull 16 line of
        (v, erange, None) \<Rightarrow> None
      | (v, erange, Some rest) \<Rightarrow>
          if erange \<or> \<not> (rest = [] \<or> hd rest = CHR '';'') then None else Some v)"

function decode_from :: "string \<Rightarrow> string \<Rightarrow> chunk_parse_result \<times> string" where
  "decode_from raw out =
     (case find_sub crlf raw of
        None \<Rightarrow> (kIncomplete, out)
      | Some e \<Rightarrow>
          (case chunk_size_of (take e raw) of
             None \<Rightarrow> (kInvalid, out)
           | Some chunk_size \<Rightarrow>
               let raw = drop (e + 2) raw in
               if chunk_size = 0 then (skip_trailers raw, out)
               else if chunk_size > length raw then (kIncomplete, out)
               else if length raw < chunk_size + 2 then (kIncomplete, out)
               else if take 2 (drop chunk_size raw) \<noteq> crlf then (kInvalid, out)
               else decode_from (drop (chunk_size + 2) raw) (out @ take chunk_size raw)))"
  by pat_completeness auto
termination
  by (relation "measure (length \<circ> fst)") (auto dest: find_sub_bound simp: crlf_def)

declare decode_from.simps [simp del]

definition decode_chunked :: "string \<Rightarrow> chunk_parse_result \<times> string" where
  "decode_chunked raw = decode_from raw []"

section \<open>An encoder\<close>

definition hex_char :: "nat \<Rightarrow> char" where
  "hex_char d = ''0123456789abcdef'' ! d"

fun hex_text :: "nat \<Rightarrow> string" where
  "hex_text n = (if n < 16 then [hex_char n] else hex_text (n div 16) @ [hex_char (n mod 16)])"

declare hex_text.simps [simp del]

type_synonym chunk = "string \<times> string"

definition encode_chunk :: "chunk \<Rightarrow> string" where
  "encode_chunk c = hex_text (length (snd c)) @ fst c @ crlf @ snd c @ crlf"

definition encode_trailer :: "string list \<Rightarrow> string" where
  "encode_trailer ts = concat (map (\<lambda>t. t @ crlf) ts) @ crlf"

definition encode_chunked :: "chunk list \<Rightarrow> string list \<Rightarrow> string" where
  "encode_chunked cs ts = concat (map encode_chunk cs) @ hex_text 0 @ crlf @ encode_trailer ts"

definition chunk_ok :: "chunk \<Rightarrow> bool" where
  "chunk_ok c \<longleftrightarrow> (fst c = [] \<or> hd (fst c) = CHR '';'') \<and> carriage_return \<notin> set (fst c)
     \<and> snd c \<noteq> [] \<and> length (snd c) < 2 ^ 64"

definition trailer_ok :: "string \<Rightarrow> bool" where
  "trailer_ok t \<longleftrightarrow> t \<noteq> [] \<and> carriage_return \<notin> set t"

section \<open>Lines\<close>

lemma find_crlf_line:
  "carriage_return \<notin> set l \<Longrightarrow> find_sub crlf (l @ crlf @ r) = Some (length l)"
  by (induction l) (auto simp: crlf_def)

lemma find_crlf_line':
  "carriage_return \<notin> set l \<Longrightarrow> find_sub crlf (l @ carriage_return # newline # r) = Some (length l)"
  using find_crlf_line [of l r] by (simp add: crlf_def)

lemma find_crlf_none: "carriage_return \<notin> set l \<Longrightarrow> find_sub crlf l = None"
  by (induction l) (auto simp: crlf_def take_Cons split: nat.splits)

lemma find_crlf_cut: "carriage_return \<notin> set l \<Longrightarrow> find_sub crlf (l @ [carriage_return]) = None"
  by (induction l) (auto simp: crlf_def)

text \<open>A prefix of a line and its end has no line end unless it is long enough to hold it.\<close>

lemma find_crlf_short:
  assumes "carriage_return \<notin> set l" and "n < length l + 2"
  shows "find_sub crlf (take n (l @ crlf @ r)) = None"
proof (cases "n \<le> length l")
  case True
  then have eq: "take n (l @ crlf @ r) = take n l" by simp
  have "carriage_return \<notin> set (take n l)" using assms(1) by (meson in_set_takeD)
  then show ?thesis unfolding eq by (rule find_crlf_none)
next
  case False
  with assms(2) have n: "n = Suc (length l)" by simp
  have "take n (l @ crlf @ r) = l @ [carriage_return]" unfolding n by (simp add: crlf_def)
  with find_crlf_cut [OF assms(1)] show ?thesis by (simp only:)
qed

lemma take_line:
  assumes "length l + 2 \<le> n"
  shows "take n (l @ crlf @ r) = l @ crlf @ take (n - (length l + 2)) r"
proof -
  from assms obtain k where n: "n = length l + 2 + k" using le_iff_add by blast
  show ?thesis unfolding n by (simp add: crlf_def)
qed

section \<open>Hexadecimal sizes\<close>

lemma hex_char_digit: "d < 16 \<Longrightarrow> digit_value (hex_char d) = Some d"
proof -
  have "\<forall>i \<in> set [0..<16]. digit_value (hex_char i) = Some i"
    by (simp add: hex_char_def digit_value_def upt_rec numeral_nat isdigit_def byte_def)
  then show "d < 16 \<Longrightarrow> digit_value (hex_char d) = Some d" by simp
qed

lemma hex_char_is_digit: "d < 16 \<Longrightarrow> is_digit_of 16 (hex_char d)"
  by (simp add: is_digit_of_def hex_char_digit)

lemma hex_text_digits: "c \<in> set (hex_text n) \<Longrightarrow> is_digit_of 16 c"
proof (induction n rule: hex_text.induct)
  case (1 n)
  then show ?case
    by (cases "n < 16") (auto simp: hex_text.simps [of n] hex_char_is_digit)
qed

lemma hex_text_nonempty [simp]: "hex_text n \<noteq> []"
  by (subst hex_text.simps) simp

lemma hex_text_value: "number_value 16 (hex_text n) = n"
proof (induction n rule: hex_text.induct)
  case (1 n)
  show ?case
  proof (cases "n < 16")
    case True
    then show ?thesis by (subst hex_text.simps) (simp add: number_value_def hex_char_digit)
  next
    case False
    with 1 have "number_value 16 (hex_text (n div 16)) = n div 16" by simp
    with False show ?thesis by (subst hex_text.simps) (simp add: number_value_def hex_char_digit)
  qed
qed

lemma hex_digit_plain:
  assumes "is_digit_of 16 c"
  shows "c \<noteq> nul" "c \<noteq> carriage_return" "c \<noteq> newline" "\<not> isspace c" "c \<noteq> CHR ''-''" "c \<noteq> CHR ''+''"
    "tolower c \<noteq> CHR ''x''" "c \<noteq> CHR '';''"
proof -
  have "c \<noteq> nul \<and> c \<noteq> carriage_return \<and> c \<noteq> newline \<and> c \<noteq> CHR ''-'' \<and> c \<noteq> CHR ''+'' \<and> c \<noteq> CHR '';''
     \<and> c \<noteq> CHR ''x'' \<and> c \<noteq> CHR ''X''"
    using assms by (auto simp: is_digit_of_def digit_value_def isdigit_def byte_def)
  moreover have "\<not> isspace c"
    using assms by (auto simp: is_digit_of_def digit_value_def isdigit_def isspace_def split: if_splits)
  moreover have "tolower c = CHR ''x'' \<Longrightarrow> c = CHR ''x'' \<or> c = CHR ''X''"
  proof -
    assume "tolower c = CHR ''x''"
    then have "byte (tolower c) = 120" by (simp add: byte_def)
    then have "byte c = 120 \<or> byte c = 88" by (auto simp: tolower_def split: if_splits)
    then have "byte c = byte CHR ''x'' \<or> byte c = byte CHR ''X''" by (simp add: byte_def)
    then show ?thesis by (simp add: byte_inject)
  qed
  ultimately show "c \<noteq> nul" "c \<noteq> carriage_return" "c \<noteq> newline" "\<not> isspace c" "c \<noteq> CHR ''-''" "c \<noteq> CHR ''+''"
    "tolower c \<noteq> CHR ''x''" "c \<noteq> CHR '';''" by auto
qed

lemma takeWhile_all_then:
  "\<forall>c \<in> set xs. P c \<Longrightarrow> (ys = [] \<or> \<not> P (hd ys)) \<Longrightarrow> takeWhile P (xs @ ys) = xs"
  by (induction xs) (auto simp: takeWhile_eq_Nil_iff)

lemma dropWhile_all_then:
  "\<forall>c \<in> set xs. P c \<Longrightarrow> (ys = [] \<or> \<not> P (hd ys)) \<Longrightarrow> dropWhile P (xs @ ys) = ys"
  by (induction xs) (auto simp: dropWhile_eq_self_iff)

lemma chunk_size_of_encoded:
  assumes "n < 2 ^ 64" and ext: "ext = [] \<or> hd ext = CHR '';''"
  shows "chunk_size_of (hex_text n @ ext) = Some n"
proof -
  obtain c ds where h: "hex_text n = c # ds" by (cases "hex_text n") simp_all
  have digits: "\<forall>x \<in> set (c # ds). is_digit_of 16 x"
    using hex_text_digits [of _ n] h by auto
  have ext': "c_str ext = [] \<or> hd (c_str ext) = CHR '';''"
    using ext by (cases ext) (auto simp: c_str_def)
  have semi: "\<not> is_digit_of 16 (CHR '';'')" by (simp add: is_digit_of_def digit_value_def char_eval)
  have c_str: "c_str (c # ds @ ext) = c # ds @ c_str ext"
    using digits hex_digit_plain(1) unfolding c_str_def append_Cons [symmetric] by (subst takeWhile_append2) auto
  have first: "dropWhile isspace (c # ds @ c_str ext) = c # ds @ c_str ext"
    "skip_sign (c # ds @ c_str ext) = (False, c # ds @ c_str ext)"
    using hex_digit_plain [of c] digits by (simp_all add: skip_sign_def)
  have prefix: "skip_hex_prefix 16 (c # ds @ c_str ext) = c # ds @ c_str ext"
  proof (cases "ds @ c_str ext")
    case (Cons x xs)
    then have "tolower x \<noteq> CHR ''x''"
      using digits hex_digit_plain(7) ext' by (cases ds) (auto simp: char_eval)
    with Cons show ?thesis by (auto simp: skip_hex_prefix_def split: list.splits)
  qed (simp add: skip_hex_prefix_def)
  have "takeWhile (is_digit_of 16) ((c # ds) @ c_str ext) = c # ds"
    using digits ext' semi by (intro takeWhile_all_then) auto
  moreover have "dropWhile (is_digit_of 16) ((c # ds) @ c_str ext) = c_str ext"
    using digits ext' semi by (intro dropWhile_all_then) auto
  ultimately have spans: "takeWhile (is_digit_of 16) (c # ds @ c_str ext) = c # ds"
    "dropWhile (is_digit_of 16) (c # ds @ c_str ext) = c_str ext" by simp_all
  have "strtoull 16 (c # ds @ ext) = (n, False, Some (c_str ext))"
    using assms(1) hex_text_value [of n]
    unfolding strtoull_def c_str first Let_def prod.case prefix spans h by simp
  with ext' show ?thesis by (simp add: chunk_size_of_def h)
qed

lemma hex_text_no_cr: "carriage_return \<notin> set (hex_text n)"
  using hex_text_digits hex_digit_plain(2) by blast

section \<open>Decoding an encoding\<close>

lemma skip_trailers_line:
  assumes "carriage_return \<notin> set l"
  shows "skip_trailers (l @ crlf @ r) = (if l = [] then kComplete else skip_trailers r)"
  by (subst skip_trailers.simps) (simp only: find_crlf_line [OF assms] option.case, simp add: crlf_def)

lemma decode_from_line:
  assumes "carriage_return \<notin> set l" and "chunk_size_of l = Some v"
  shows "decode_from (l @ crlf @ r) out =
    (if v = 0 then (skip_trailers r, out)
     else if v > length r then (kIncomplete, out)
     else if length r < v + 2 then (kIncomplete, out)
     else if take 2 (drop v r) \<noteq> crlf then (kInvalid, out)
     else decode_from (drop (v + 2) r) (out @ take v r))"
proof -
  have parts: "take (length l) (l @ crlf @ r) = l" "drop (length l + 2) (l @ crlf @ r) = r"
    by (simp_all add: crlf_def)
  show ?thesis
    by (subst decode_from.simps) (simp only: find_crlf_line [OF assms(1)] option.case parts assms(2) Let_def)
qed

lemma encode_trailer_Cons: "encode_trailer (t # ts) = t @ crlf @ encode_trailer ts"
  by (simp add: encode_trailer_def)

lemma skip_trailers_encoded:
  "list_all trailer_ok ts \<Longrightarrow> skip_trailers (encode_trailer ts @ r) = kComplete"
proof (induction ts)
  case Nil
  show ?case using skip_trailers_line [of "[]" r] by (simp add: encode_trailer_def)
next
  case (Cons t ts)
  then show ?case
    using skip_trailers_line [of t "encode_trailer ts @ r"] by (simp add: encode_trailer_Cons trailer_ok_def)
qed

lemma skip_trailers_short:
  assumes "carriage_return \<notin> set l" and "n < length l + 2"
  shows "skip_trailers (take n (l @ crlf @ r)) = kIncomplete"
  by (subst skip_trailers.simps) (simp only: find_crlf_short [OF assms] option.case)

lemma skip_trailers_cut:
  "list_all trailer_ok ts \<Longrightarrow> n < length (encode_trailer ts)
    \<Longrightarrow> skip_trailers (take n (encode_trailer ts)) = kIncomplete"
proof (induction ts arbitrary: n)
  case Nil
  then show ?case
    using skip_trailers_short [of "[]" n "[]"] by (simp add: encode_trailer_def crlf_def)
next
  case (Cons t ts)
  then have t: "carriage_return \<notin> set t" "t \<noteq> []" by (simp_all add: trailer_ok_def)
  show ?case
  proof (cases "n < length t + 2")
    case True
    from skip_trailers_short [OF t(1) True] show ?thesis by (simp only: encode_trailer_Cons)
  next
    case False
    then have n: "length t + 2 \<le> n" by simp
    with Cons.prems(2) have "n - (length t + 2) < length (encode_trailer ts)"
      by (simp add: encode_trailer_Cons crlf_def)
    with Cons have "skip_trailers (take (n - (length t + 2)) (encode_trailer ts)) = kIncomplete" by simp
    with t show ?thesis
      unfolding encode_trailer_Cons take_line [OF n] skip_trailers_line [OF t(1)] by simp
  qed
qed

text \<open>One chunk: the decoder consumes it, or waits for the rest of it.\<close>

definition size_line :: "chunk \<Rightarrow> string" where
  "size_line c = hex_text (length (snd c)) @ fst c"

lemma size_line_ok:
  assumes "chunk_ok c"
  shows "carriage_return \<notin> set (size_line c)" "chunk_size_of (size_line c) = Some (length (snd c))" "snd c \<noteq> []"
  using assms chunk_size_of_encoded hex_text_no_cr by (auto simp: chunk_ok_def size_line_def)

lemma encode_chunk_line: "encode_chunk c @ r = size_line c @ crlf @ snd c @ crlf @ r"
  by (simp add: encode_chunk_def size_line_def)

lemma decode_from_chunk:
  assumes "chunk_ok c"
  shows "decode_from (encode_chunk c @ r) out = decode_from r (out @ snd c)"
  unfolding encode_chunk_line decode_from_line [OF size_line_ok(1,2) [OF assms]]
  using size_line_ok(3) [OF assms] by (simp add: crlf_def)

lemma decode_from_short:
  assumes "carriage_return \<notin> set l" and "n < length l + 2"
  shows "decode_from (take n (l @ crlf @ r)) out = (kIncomplete, out)"
  by (subst decode_from.simps) (simp only: find_crlf_short [OF assms] option.case)

lemma decode_from_chunk_cut:
  assumes "chunk_ok c" and "n < length (encode_chunk c)"
  shows "fst (decode_from (take n (encode_chunk c @ r)) out) = kIncomplete"
proof (cases "n < length (size_line c) + 2")
  case True
  show ?thesis
    unfolding encode_chunk_line decode_from_short [OF size_line_ok(1) [OF assms(1)] True] by simp
next
  case False
  then have n: "length (size_line c) + 2 \<le> n" by simp
  let ?m = "n - (length (size_line c) + 2)"
  have "length (take ?m (snd c @ crlf @ r)) < length (snd c) + 2"
    using assms(2) n by (simp add: encode_chunk_def size_line_def crlf_def)
  then show ?thesis
    unfolding encode_chunk_line take_line [OF n] decode_from_line [OF size_line_ok(1,2) [OF assms(1)]]
    using size_line_ok(3) [OF assms(1)] by simp
qed

lemma last_chunk:
  "decode_from (hex_text 0 @ crlf @ r) out = (skip_trailers r, out)"
  using decode_from_line [OF hex_text_no_cr, of 0 0 r out] chunk_size_of_encoded [of 0 "[]"] by simp

lemma decode_from_encoded:
  "list_all chunk_ok cs \<Longrightarrow> list_all trailer_ok ts
    \<Longrightarrow> decode_from (encode_chunked cs ts @ r) out = (kComplete, out @ concat (map snd cs))"
proof (induction cs arbitrary: out)
  case Nil
  then show ?case
    using last_chunk [of "encode_trailer ts @ r" out] by (simp add: encode_chunked_def skip_trailers_encoded)
next
  case (Cons c cs)
  then show ?case
    using decode_from_chunk [of c "encode_chunked cs ts @ r" out] by (simp add: encode_chunked_def)
qed

lemma decode_from_cut:
  "list_all chunk_ok cs \<Longrightarrow> list_all trailer_ok ts \<Longrightarrow> n < length (encode_chunked cs ts)
    \<Longrightarrow> fst (decode_from (take n (encode_chunked cs ts)) out) = kIncomplete"
proof (induction cs arbitrary: n out)
  case Nil
  show ?case
  proof (cases "n < length (hex_text 0) + 2")
    case True
    from decode_from_short [OF hex_text_no_cr True] show ?thesis by (simp add: encode_chunked_def)
  next
    case False
    then have n: "length (hex_text 0) + 2 \<le> n" by simp
    with Nil show ?thesis
      unfolding encode_chunked_def
      by (simp only: concat.simps list.map append_Nil take_line [OF n] last_chunk)
        (simp add: skip_trailers_cut crlf_def)
  qed
next
  case (Cons c cs)
  have eq: "encode_chunked (c # cs) ts = encode_chunk c @ encode_chunked cs ts"
    by (simp add: encode_chunked_def)
  show ?case
  proof (cases "n < length (encode_chunk c)")
    case True
    with Cons.prems show ?thesis unfolding eq by (simp only: list.pred_inject decode_from_chunk_cut)
  next
    case False
    then have "take n (encode_chunk c @ encode_chunked cs ts)
      = encode_chunk c @ take (n - length (encode_chunk c)) (encode_chunked cs ts)" by simp
    moreover from False Cons.prems(3) have "n - length (encode_chunk c) < length (encode_chunked cs ts)"
      by (simp add: eq)
    ultimately show ?thesis
      using Cons unfolding eq by (simp add: decode_from_chunk del: take_append)
  qed
qed

section \<open>Properties\<close>

text \<open>
  Property C28. Decoding any chunked encoding (non-empty chunks with optional extensions, any
  trailers) gives the concatenated data, whatever bytes follow it on the connection.
\<close>

theorem decode_chunked_roundtrip:
  assumes "list_all chunk_ok cs" and "list_all trailer_ok ts"
  shows "decode_chunked (encode_chunked cs ts @ extra) = (kComplete, concat (map snd cs))"
  using decode_from_encoded [OF assms, of extra "[]"] by (simp add: decode_chunked_def)

theorem decode_chunked_roundtrip_witness:
  "decode_chunked (encode_chunked [('';q=1'', ''hello''), ([], '' world'')] [''X: y''] @ ''HTTP/1.1'')
     = (kComplete, ''hello world'')"
  using decode_chunked_roundtrip [of "[('';q=1'', ''hello''), ([], '' world'')]" "[''X: y'']" "''HTTP/1.1''"]
  by (simp add: chunk_ok_def trailer_ok_def)

text \<open>
  A body that has not arrived completely is never taken for a complete or a malformed
  one: the decoder answers "incomplete" on every proper prefix of an encoding. Data that contains
  the end marker of a body does not end it early.
\<close>

theorem decode_chunked_waits:
  assumes "list_all chunk_ok cs" and "list_all trailer_ok ts" and "n < length (encode_chunked cs ts)"
  shows "fst (decode_chunked (take n (encode_chunked cs ts))) = kIncomplete"
  using decode_from_cut [OF assms, of "[]"] by (simp add: decode_chunked_def)

theorem decode_chunked_waits_witness:
  "let marker = ''0'' @ crlf @ crlf in
   fst (decode_chunked (take 9 (encode_chunked [([], marker)] []))) = kIncomplete"
proof -
  have "length (hex_text (length (''0'' @ crlf @ crlf))) = 1" by (simp add: hex_text.simps crlf_def)
  then show ?thesis
    using decode_chunked_waits [of "[([], ''0'' @ crlf @ crlf)]" "[]" 9]
    by (simp add: chunk_ok_def encode_chunked_def encode_chunk_def encode_trailer_def crlf_def Let_def)
qed

end
