(* ===== verification/Engine_Interface.thy ===== *)
theory Engine_Interface
  imports Api_Types
begin

text \<open>
  The interface \<open>NetworkEngine\<close> of \<open>engine/engine.h\<close> as its callers use it: a run of an engine may
  never return (\<open>None\<close>), but when it returns, the code is the one stored in the response, the
  protocol is the engine's own, and a success fits the body limit. Each engine interprets the
  interface with its own request function; the selector and the client rely on nothing else.
\<close>

locale network_engine =
  fixes proto :: asternet_protocol and run :: "request \<Rightarrow> 's \<Rightarrow> (int \<times> response \<times> 's) option"
  assumes contract: "run req s = Some (ret, resp, s') \<Longrightarrow>
     resp_err_code resp = ret \<and> resp_protocol resp = proto
     \<and> (ret = ASTERNET_OK \<longrightarrow> length (resp_body resp) \<le> req_max_body req)"
begin

text \<open>An engine that always returns is an engine in the sense of the selector.\<close>

lemma total_contract:
  assumes "\<And>req s. run req s = Some (e req s)"
  shows "engine_contract proto e"
proof (rule engine_contractI)
  fix req s ret resp s'
  assume "e req s = (ret, resp, s')"
  with assms [of req s] have "run req s = Some (ret, resp, s')" by simp
  then show "resp_err_code resp = ret \<and> resp_protocol resp = proto
    \<and> (ret = ASTERNET_OK \<longrightarrow> length (resp_body resp) \<le> req_max_body req)"
    by (rule contract)
qed

end

end
