(* ===== verification/Http1_Engine.thy ===== *)
theory Http1_Engine
  imports Http1_Chunked Engine_Interface
begin

text \<open>
  \<open>engine/http1_engine.cpp\<close>: one kept-alive TLS connection, the text of a request, and the reading
  of a response: the header block, interim (1xx) responses, the framing headers and a body by chunks,
  by length or up to the end of the stream. The engine's mutex covers each call.

  \<^item> \<open>SSL_read\<close> returns a byte string, empty where the code sees a result \<open>\<le> 0\<close>.
  \<^item> A failure is a value \<open>Inl (code, stage)\<close>: every error exit of \<open>request\<close> closes the connection,
    stores the code and the stage and measures the total time, which \<open>h1_fail\<close> does once.
  \<^item> The loop over interim responses is bounded by nothing but the peer, so it is a
    \<open>partial_function\<close> whose value is \<open>None\<close> where it never ends. All other loops terminate.
\<close>

section \<open>Reading\<close>

text \<open>Every read that returns bytes brings a bounded buffer closer to its bound.\<close>

lemma reading_progress:
  "d \<noteq> [] \<Longrightarrow> length raw \<le> m \<Longrightarrow> Suc m - length (raw @ d) < Suc m - length raw"
  by (cases d) auto

section \<open>The environment\<close>

record 'w h1_env = "'w net_env" +
  h1_connect :: "int \<Rightarrow> string \<Rightarrow> int \<Rightarrow> 'w \<Rightarrow> bool \<times> 'w"
  h1_handshake :: "tls_setup \<Rightarrow> int \<Rightarrow> 'w \<Rightarrow> bool \<times> 'w"
  h1_write :: "string \<Rightarrow> 'w \<Rightarrow> int \<times> 'w"
  h1_read :: "nat \<Rightarrow> 'w \<Rightarrow> string \<times> 'w"

type_synonym 'w h1_state = "pooled_connection option \<times> 'w"

section \<open>Connecting\<close>

fun connect_first :: "'w h1_env \<Rightarrow> int \<Rightarrow> string list \<Rightarrow> 'w \<Rightarrow> int \<times> 'w" where
  "connect_first env timeout_ms [] w = (-1, w)"
| "connect_first env timeout_ms (addr # rest) w =
     (let (fd, w) = ne_socket env addr w in
      if fd < 0 then connect_first env timeout_ms rest w
      else let (ok, w) = h1_connect env fd addr timeout_ms w in
        if ok then (fd, w) else connect_first env timeout_ms rest (ne_close env fd w))"

definition connect_with_timeout :: "'w h1_env \<Rightarrow> string \<Rightarrow> nat \<Rightarrow> int \<Rightarrow> 'w \<Rightarrow> int \<times> 'w" where
  "connect_with_timeout env host port timeout_ms w =
     (let (addrs, w) = ne_getaddrinfo env (c_str host) (dec_digits port) w in
      if addrs = [] then (-1, w) else connect_first env timeout_ms addrs w)"

text \<open>From the connected socket to the verified session; the code and the time of the handshake.\<close>

definition h1_start_tls ::
  "'w h1_env \<Rightarrow> engine_config \<Rightarrow> request \<Rightarrow> int \<Rightarrow> 'w \<Rightarrow> int \<times> int \<times> 'w" where
  "h1_start_tls env cfg req fd w =
     (let (ok, w) = ne_ctx_new env w in
      if \<not> ok then (ASTERNET_ERR_TLS, -1, ne_close env fd w)
      else let (ok, w) = trust_ready env cfg req w in
      if \<not> ok then (ASTERNET_ERR_TLS, -1, close_ctx env fd w)
      else let (ok, w) = ne_ssl_new env w in
      if \<not> ok then (ASTERNET_ERR_OUT_OF_MEMORY, -1, close_ctx env fd w)
      else let (ok, w) = ne_set_sni env (c_str (req_host req)) w;
               (ok, w) = (if ok \<and> \<not> allow_insecure cfg then ne_set1_host env (c_str (req_host req)) w else (ok, w)) in
      if \<not> ok then (ASTERNET_ERR_TLS, -1, close_tls env fd w)
      else let (tls_start, w) = ne_now env w;
               (ok, w) = h1_handshake env (tls_setup_of cfg req None) fd w;
               (tls_ms, w) = elapsed_since env tls_start w in
      if \<not> ok then (ASTERNET_ERR_TLS, tls_ms, close_tls env fd w)
      else (ASTERNET_OK, tls_ms, w))"

definition h1_ensure_connection ::
  "'w h1_env \<Rightarrow> engine_config \<Rightarrow> request \<Rightarrow> response \<Rightarrow> 'w h1_state \<Rightarrow> int \<times> bool \<times> response \<times> 'w h1_state" where
  "h1_ensure_connection env cfg req resp cw =
     (if (case fst cw of Some pc \<Rightarrow> same_origin cfg req pc | None \<Rightarrow> False) then (ASTERNET_OK, True, resp, cw)
      else
        let (_, w) = close_connection env cw;
            (connect_start, w) = ne_now env w;
            (fd, w) = connect_with_timeout env (endpoint_of req) (req_port req) (req_timeout_ms req) w;
            (connect_ms, w) = elapsed_since env connect_start w;
            resp = resp\<lparr>resp_connect_ms := connect_ms\<rparr> in
        if fd < 0 then (ASTERNET_ERR_CONNECT, False, resp, None, w)
        else let (code, tls_ms, w) = h1_start_tls env cfg req fd w;
                 resp = resp\<lparr>resp_tls_ms := tls_ms\<rparr> in
          if code = ASTERNET_OK then (ASTERNET_OK, False, resp, Some (new_connection cfg req fd), w)
          else (code, False, resp, None, w))"

section \<open>The request text\<close>

definition host_header :: "request \<Rightarrow> string" where
  "host_header req =
     (if req_port req \<noteq> 443 \<and> req_port req \<noteq> 80 then req_host req @ '':'' @ dec_digits (req_port req)
      else req_host req)"

text \<open>\<open>None\<close>: the header makes the request fail; \<open>Some []\<close>: it is dropped.\<close>

definition custom_header :: "header \<Rightarrow> string list option" where
  "custom_header h =
     (if has_crlf (h_name h) \<or> has_crlf (h_value h) then None
      else if h_name h = [] then None
      else if \<not> list_all token_char (h_name h) then None
      else if hop_by_hop (lower (h_name h)) then Some []
      else Some [h_name h @ '': '' @ h_value h])"

fun custom_headers :: "header list \<Rightarrow> string list option" where
  "custom_headers [] = Some []"
| "custom_headers (h # hs) =
     (case custom_header h of None \<Rightarrow> None
      | Some ls \<Rightarrow> map_option ((@) ls) (custom_headers hs))"

definition request_lines :: "request \<Rightarrow> string list" where
  "request_lines req =
     [req_method req @ '' '' @ req_path req @ '' HTTP/1.1'', ''Host: '' @ host_header req,
      ''User-Agent: asternet/0.1'', ''Connection: keep-alive'']
     @ (if req_body req \<noteq> [] then [''Content-Length: '' @ dec_digits (length (req_body req))] else [])"

definition request_text :: "request \<Rightarrow> string option" where
  "request_text req =
     map_option (\<lambda>custom. concat (map (\<lambda>l. l @ crlf) (request_lines req @ custom)) @ crlf @ req_body req)
       (custom_headers (req_headers req))"

text \<open>The write loop: \<open>SSL_write\<close> is given at most \<open>INT_MAX\<close> bytes of what remains.\<close>

function h1_write_all :: "'w h1_env \<Rightarrow> string \<Rightarrow> 'w \<Rightarrow> bool \<times> 'w" where
  "h1_write_all env text w =
     (if text = [] then (True, w)
      else let r = h1_write env (take (2 ^ 31 - 1) text) w; n = fst r in
        if n \<le> 0 then (False, snd r) else h1_write_all env (drop (nat n) text) (snd r))"
  by pat_completeness auto
termination
  by (relation "measure (\<lambda>(_, text, _). length text)") auto

declare h1_write_all.simps [simp del]

section \<open>The response head\<close>

definition kMaxResponseHeaders :: nat where "kMaxResponseHeaders = 64 * 1024"

definition read_size :: nat where "read_size = 4096"

definition blank_line :: string where "blank_line = crlf @ crlf"

text \<open>
  The reading loops share their shape: while the buffer is within its limit and more is wanted, read
  and append; the end of the stream stops the loop.
\<close>

function read_while ::
  "'w h1_env \<Rightarrow> nat \<Rightarrow> (string \<Rightarrow> bool) \<Rightarrow> (string \<Rightarrow> nat) \<Rightarrow> string \<Rightarrow> 'w \<Rightarrow> string \<times> 'w" where
  "read_while env limit wanted amount buf w =
     (if length buf \<le> limit \<and> wanted buf then
        (case h1_read env (amount buf) w of
           (d, w) \<Rightarrow> if d = [] then (buf, w) else read_while env limit wanted amount (buf @ d) w)
      else (buf, w))"
  by pat_completeness auto
termination
  by (relation "measure (\<lambda>(_, limit, _, _, buf, _). Suc limit - length buf)")
    (auto simp del: length_append intro!: reading_progress)

declare read_while.simps [simp del]

text \<open>Reads until the blank line is there, the stream ends or the header bound is passed.\<close>

definition h1_read_head :: "'w h1_env \<Rightarrow> string \<Rightarrow> 'w \<Rightarrow> string \<times> 'w" where
  "h1_read_head env raw w =
     read_while env kMaxResponseHeaders (\<lambda>raw. find_sub blank_line raw = None) (\<lambda>_. read_size) raw w"

definition head_end :: "string \<Rightarrow> nat option" where
  "head_end raw = (if length raw > kMaxResponseHeaders then None else find_sub blank_line raw)"

text \<open>\<open>parse_status\<close>: the number after the first space, where there are two spaces.\<close>

definition parse_status :: "string \<Rightarrow> int \<Rightarrow> int" where
  "parse_status raw status =
     (case find_sub '' '' raw of
        None \<Rightarrow> status
      | Some sp1 \<Rightarrow>
          if find_sub '' '' (drop (sp1 + 1) raw) = None then status else atoi (drop (sp1 + 1) raw))"

definition interim :: "int \<Rightarrow> bool" where
  "interim status \<longleftrightarrow> 100 \<le> status \<and> status \<le> 199"

partial_function (option) h1_skip_interim ::
  "'w h1_env \<Rightarrow> int \<Rightarrow> string \<Rightarrow> nat \<Rightarrow> 'w \<Rightarrow> ((string \<times> nat) option \<times> int \<times> 'w) option" where
  "h1_skip_interim env status raw header_end w =
     (if \<not> interim status then Some (Some (raw, header_end), status, w)
      else
        let (raw, w) = h1_read_head env (drop (header_end + 4) raw) w in
        (case head_end raw of
           None \<Rightarrow> Some (None, status, w)
         | Some e \<Rightarrow> h1_skip_interim env (parse_status raw status) raw e w))"

section \<open>The framing headers\<close>

text \<open>\<open>std::string::npos\<close>, the value of \<open>cl\<close> where no length has been read.\<close>

definition npos :: nat where "npos = 2 ^ 64 - 1"

record framing =
  fr_chunked :: bool
  fr_connection_close :: bool
  fr_cl :: nat
  fr_invalid :: bool

definition default_framing :: framing where
  "default_framing = \<lparr>fr_chunked = False, fr_connection_close = False, fr_cl = npos, fr_invalid = False\<rparr>"

text \<open>\<open>None\<close> stands for an invalid length. An unconverted text leaves \<open>end\<close> at its start.\<close>

definition parse_content_length :: "string \<Rightarrow> nat option" where
  "parse_content_length value =
     (let (v, erange, endp) = strtoull 10 value;
          rest = (case endp of None \<Rightarrow> c_str value | Some rest \<Rightarrow> rest)
      in if erange \<or> dropWhile is_blank rest \<noteq> [] then None else Some v)"

definition scan_line :: "framing \<Rightarrow> string \<Rightarrow> framing" where
  "scan_line f line =
     (case find_sub '':'' line of
        None \<Rightarrow> f
      | Some colon \<Rightarrow>
          let name = lower (take colon line); value = trim_blanks (drop (colon + 1) line) in
          if name = ''transfer-encoding'' \<and> find_sub ''chunked'' (lower value) \<noteq> None
          then f\<lparr>fr_chunked := True\<rparr>
          else if name = ''connection'' \<and> find_sub ''close'' (lower value) \<noteq> None
          then f\<lparr>fr_connection_close := True\<rparr>
          else if name = ''content-length'' then
            (if value = [] then f\<lparr>fr_invalid := True\<rparr>
             else (case parse_content_length value of
                None \<Rightarrow> f\<lparr>fr_invalid := True\<rparr>
              | Some n \<Rightarrow> if fr_cl f \<noteq> npos \<and> fr_cl f \<noteq> n then f\<lparr>fr_invalid := True\<rparr> else f\<lparr>fr_cl := n\<rparr>))
          else f)"

function scan_headers :: "framing \<Rightarrow> string \<Rightarrow> framing" where
  "scan_headers f headers =
     (if headers = [] then f
      else (case find_sub crlf headers of
              None \<Rightarrow> scan_line f headers
            | Some e \<Rightarrow> scan_headers (scan_line f (take e headers)) (drop (e + 2) headers)))"
  by pat_completeness auto
termination
  by (relation "measure (\<lambda>(_, headers). length headers)") auto

declare scan_headers.simps [simp del]

section \<open>The body\<close>

text \<open>
  The chunked loop parses the buffer before every read; a buffer beyond the limit is not parsed any
  more, and its parse stays incomplete.
\<close>

definition read_chunked ::
  "'w h1_env \<Rightarrow> nat \<Rightarrow> string \<Rightarrow> 'w \<Rightarrow> (chunk_parse_result \<times> string) \<times> string \<times> 'w" where
  "read_chunked env limit body w =
     (let (body, w) = read_while env limit (\<lambda>b. fst (decode_chunked b) = kIncomplete) (\<lambda>_. read_size) body w in
      (if length body \<le> limit then decode_chunked body else (kIncomplete, []), body, w))"

definition read_length :: "'w h1_env \<Rightarrow> nat \<Rightarrow> string \<Rightarrow> 'w \<Rightarrow> string \<times> 'w" where
  "read_length env cl body w =
     read_while env cl (\<lambda>b. length b < cl) (\<lambda>b. min (cl - length b) read_size) body w"

definition read_to_eof :: "'w h1_env \<Rightarrow> nat \<Rightarrow> string \<Rightarrow> 'w \<Rightarrow> string \<times> 'w" where
  "read_to_eof env max_body body w =
     read_while env max_body (\<lambda>_. True) (\<lambda>b. min (max_body - length b + 1) read_size) body w"

definition no_body_status :: "request \<Rightarrow> int \<Rightarrow> bool" where
  "no_body_status req status \<longleftrightarrow> req_method req = ''HEAD'' \<or> status = 204 \<or> status = 304"

type_synonym failure = "int \<times> string"

definition h1_chunked_body :: "'w h1_env \<Rightarrow> nat \<Rightarrow> string \<Rightarrow> 'w \<Rightarrow> (failure + string) \<times> 'w" where
  "h1_chunked_body env max_body body w =
     (let ((res, decoded), body, w) = read_chunked env (max_body + kMaxResponseHeaders) body w in
      if res \<noteq> kComplete then
        (Inl (if length body > max_body + kMaxResponseHeaders then ASTERNET_ERR_BUFFER_TOO_SMALL
              else ASTERNET_ERR_PROTOCOL, ''body''), w)
      else if length decoded > max_body then (Inl (ASTERNET_ERR_BUFFER_TOO_SMALL, ''body''), w)
      else (Inr decoded, w))"

definition h1_sized_body :: "'w h1_env \<Rightarrow> nat \<Rightarrow> nat \<Rightarrow> string \<Rightarrow> 'w \<Rightarrow> (failure + string) \<times> 'w" where
  "h1_sized_body env max_body cl body w =
     (if cl > max_body then (Inl (ASTERNET_ERR_BUFFER_TOO_SMALL, ''body''), w)
      else let (body, w) = read_length env cl body w in
        if length body < cl then (Inl (ASTERNET_ERR_PROTOCOL, ''body''), w)
        else if length body > cl then (Inl (ASTERNET_ERR_PROTOCOL, ''body''), w)
        else (Inr (take cl body), w))"

definition h1_eof_body :: "'w h1_env \<Rightarrow> nat \<Rightarrow> string \<Rightarrow> 'w \<Rightarrow> (failure + string) \<times> 'w" where
  "h1_eof_body env max_body body w =
     (let (body, w) = read_to_eof env max_body body w in
      if length body > max_body then (Inl (ASTERNET_ERR_BUFFER_TOO_SMALL, ''body''), w)
      else (Inr body, w))"

definition h1_read_body ::
  "'w h1_env \<Rightarrow> request \<Rightarrow> int \<Rightarrow> framing \<Rightarrow> string \<Rightarrow> 'w \<Rightarrow> (failure + string) \<times> 'w" where
  "h1_read_body env req status f body w =
     (if no_body_status req status then
        (if body \<noteq> [] then (Inl (ASTERNET_ERR_PROTOCOL, ''body''), w) else (Inr [], w))
      else if fr_chunked f then h1_chunked_body env (req_max_body req) body w
      else if fr_cl f \<noteq> npos then h1_sized_body env (req_max_body req) (fr_cl f) body w
      else h1_eof_body env (req_max_body req) body w)"

text \<open>Whether the connection may serve another request.\<close>

definition h1_keep_alive :: "request \<Rightarrow> int \<Rightarrow> framing \<Rightarrow> bool" where
  "h1_keep_alive req status f \<longleftrightarrow>
     \<not> (fr_connection_close f \<or> no_body_status req status \<or> (\<not> fr_chunked f \<and> fr_cl f = npos))"

section \<open>The request\<close>

definition h1_finish :: "'w h1_env \<Rightarrow> int \<Rightarrow> int \<Rightarrow> response \<Rightarrow> 'w h1_state \<Rightarrow> int \<times> response \<times> 'w h1_state" where
  "h1_finish env t_start code resp cw =
     (let (total, w) = elapsed_since env t_start (snd cw) in
      (code, resp\<lparr>resp_total_ms := total, resp_err_code := code\<rparr>, fst cw, w))"

definition h1_fail ::
  "'w h1_env \<Rightarrow> int \<Rightarrow> failure \<Rightarrow> response \<Rightarrow> 'w h1_state \<Rightarrow> int \<times> response \<times> 'w h1_state" where
  "h1_fail env t_start f resp cw =
     h1_finish env t_start (fst f) (resp\<lparr>resp_failure_stage := snd f\<rparr>) (close_connection env cw)"

text \<open>After the final head: framing, body, and whether the connection is kept.\<close>

definition h1_receive ::
  "'w h1_env \<Rightarrow> int \<Rightarrow> request \<Rightarrow> response \<Rightarrow> string \<Rightarrow> nat \<Rightarrow> 'w h1_state \<Rightarrow> int \<times> response \<times> 'w h1_state" where
  "h1_receive env t_start req resp raw header_end cw =
     (let f = scan_headers default_framing (take header_end raw); status = resp_http_status resp in
      if fr_invalid f then h1_fail env t_start (ASTERNET_ERR_PROTOCOL, ''header'') resp cw
      else let (res, w) = h1_read_body env req status f (drop (header_end + 4) raw) (snd cw); cw = (fst cw, w) in
        (case res of
           Inl failed \<Rightarrow> h1_fail env t_start failed resp cw
         | Inr body \<Rightarrow>
             let resp = resp\<lparr>resp_body := body\<rparr> in
             if length body > req_max_body req
             then h1_fail env t_start (ASTERNET_ERR_BUFFER_TOO_SMALL, ''body'') resp cw
             else h1_finish env t_start ASTERNET_OK resp
               (if h1_keep_alive req status f then cw else close_connection env cw)))"

text \<open>Checking, building and writing the request.\<close>

definition h1_send :: "'w h1_env \<Rightarrow> request \<Rightarrow> 'w \<Rightarrow> failure option \<times> 'w" where
  "h1_send env req w =
     (if request_line_unsafe req then (Some (ASTERNET_ERR_PROTOCOL, ''header''), w)
      else (case request_text req of
        None \<Rightarrow> (Some (ASTERNET_ERR_PROTOCOL, ''header''), w)
      | Some text \<Rightarrow>
          let (ok, w) = h1_write_all env text w in
          (if ok then None else Some (ASTERNET_ERR_PROTOCOL, ''write''), w)))"

text \<open>The head of the final response, with the time of the first byte and the status.\<close>

definition h1_await ::
  "'w h1_env \<Rightarrow> int \<Rightarrow> response \<Rightarrow> 'w \<Rightarrow> ((failure + string \<times> nat) \<times> response \<times> 'w) option" where
  "h1_await env t_start resp w =
     (let (raw, w) = h1_read_head env [] w in
      case head_end raw of
        None \<Rightarrow> Some (Inl (ASTERNET_ERR_PROTOCOL, ''ttfb''), resp, w)
      | Some header_end \<Rightarrow>
          let (ttfb, w) = elapsed_since env t_start w; resp = resp\<lparr>resp_ttfb_ms := ttfb\<rparr> in
          (case h1_skip_interim env (parse_status raw 0) raw header_end w of
             None \<Rightarrow> None
           | Some (final, status, w) \<Rightarrow>
               Some (case final of None \<Rightarrow> Inl (ASTERNET_ERR_PROTOCOL, ''ttfb'') | Some head \<Rightarrow> Inr head,
                     resp\<lparr>resp_http_status := status\<rparr>, w)))"

definition h1_exchange ::
  "'w h1_env \<Rightarrow> int \<Rightarrow> request \<Rightarrow> response \<Rightarrow> 'w h1_state \<Rightarrow> (int \<times> response \<times> 'w h1_state) option" where
  "h1_exchange env t_start req resp cw =
     (case h1_send env req (snd cw) of
        (Some failed, w) \<Rightarrow> Some (h1_fail env t_start failed resp (fst cw, w))
      | (None, w) \<Rightarrow>
          (case h1_await env t_start resp w of
             None \<Rightarrow> None
           | Some (Inl failed, resp, w) \<Rightarrow> Some (h1_fail env t_start failed resp (fst cw, w))
           | Some (Inr (raw, header_end), resp, w) \<Rightarrow>
               Some (h1_receive env t_start req resp raw header_end (fst cw, w))))"

definition http1_request ::
  "'w h1_env \<Rightarrow> engine_config \<Rightarrow> request \<Rightarrow> 'w h1_state \<Rightarrow> (int \<times> response \<times> 'w h1_state) option" where
  "http1_request env cfg req cw =
     (let resp = default_response\<lparr>resp_protocol := PROTOCOL_HTTP_1_1, resp_dns_ms := req_dns_ms req\<rparr>;
          (t_start, w) = ne_now env (snd cw);
          (code, reused, resp, cw) = h1_ensure_connection env cfg req resp (fst cw, w) in
      if code \<noteq> ASTERNET_OK
      then Some (h1_finish env t_start code
             (resp\<lparr>resp_failure_stage := (if code = ASTERNET_ERR_CONNECT then ''connect'' else ''tls'')\<rparr>) cw)
      else h1_exchange env t_start req (resp\<lparr>resp_connection_reused := reused\<rparr>) cw)"

definition http1_prefetch :: "string \<Rightarrow> int" where
  "http1_prefetch host = ASTERNET_ERR_UNSUPPORTED"

definition http1_migrate_connection :: "'w h1_env \<Rightarrow> 'w h1_state \<Rightarrow> int \<times> 'w h1_state" where
  "http1_migrate_connection env cw = (ASTERNET_OK, close_connection env cw)"

definition http1_destroy :: "'w h1_env \<Rightarrow> 'w h1_state \<Rightarrow> 'w h1_state" where
  "http1_destroy env cw = close_connection env cw"

section \<open>The engine contract\<close>

definition h1_good :: "request \<Rightarrow> int \<times> response \<times> 'w h1_state \<Rightarrow> bool" where
  "h1_good req out \<longleftrightarrow>
     (case out of (ret, resp, _) \<Rightarrow>
        resp_err_code resp = ret \<and> resp_protocol resp = PROTOCOL_HTTP_1_1
        \<and> (ret = ASTERNET_OK \<longrightarrow> length (resp_body resp) \<le> req_max_body req))"

lemma h1_finish_good:
  assumes "resp_protocol resp = PROTOCOL_HTTP_1_1"
    and "code = ASTERNET_OK \<Longrightarrow> length (resp_body resp) \<le> req_max_body req"
  shows "h1_good req (h1_finish env t_start code resp cw)"
  using assms by (auto simp: h1_good_def h1_finish_def split: prod.splits)

lemma h1_fail_good:
  "resp_protocol resp = PROTOCOL_HTTP_1_1 \<Longrightarrow> fst f \<noteq> ASTERNET_OK \<Longrightarrow> h1_good req (h1_fail env t_start f resp cw)"
  unfolding h1_fail_def by (rule h1_finish_good) auto

lemma h1_read_body_failure:
  "h1_read_body env req status f body w = (Inl failed, w') \<Longrightarrow> fst failed \<noteq> ASTERNET_OK"
  by (auto simp: h1_read_body_def h1_chunked_body_def h1_sized_body_def h1_eof_body_def Let_def
      split: prod.splits if_splits)

lemma h1_receive_good:
  assumes "resp_protocol resp = PROTOCOL_HTTP_1_1"
  shows "h1_good req (h1_receive env t_start req resp raw header_end cw)"
proof -
  let ?f = "scan_headers default_framing (take header_end raw)"
  obtain res w where body: "h1_read_body env req (resp_http_status resp) ?f (drop (header_end + 4) raw) (snd cw) = (res, w)"
    by (rule prod.exhaust)
  note res = h1_receive_def [of env t_start req resp raw header_end cw, unfolded Let_def body prod.case]
  show ?thesis
  proof (cases res)
    case (Inl failed)
    with body have "fst failed \<noteq> ASTERNET_OK" by (blast dest: h1_read_body_failure)
    with assms show ?thesis
      unfolding res Inl sum.case by (cases "fr_invalid ?f") (simp_all add: h1_fail_good)
  next
    case (Inr content)
    with assms show ?thesis
      unfolding res Inr sum.case
      by (cases "fr_invalid ?f"; cases "length content > req_max_body req")
        (simp_all add: h1_fail_good h1_finish_good)
  qed
qed

lemma h1_send_failure: "h1_send env req w = (Some failed, w') \<Longrightarrow> fst failed \<noteq> ASTERNET_OK"
  by (auto simp: h1_send_def Let_def split: if_splits option.splits prod.splits)

lemma h1_await_response:
  assumes "h1_await env t_start resp w = Some (r, resp', w')"
  shows "resp_protocol resp' = resp_protocol resp" and "r = Inl failed \<Longrightarrow> fst failed \<noteq> ASTERNET_OK"
  using assms by (auto simp: h1_await_def Let_def split: option.splits prod.splits)

lemma h1_exchange_good:
  assumes p: "resp_protocol resp = PROTOCOL_HTTP_1_1" and out: "h1_exchange env t_start req resp cw = Some out"
  shows "h1_good req out"
proof -
  obtain sent w where send: "h1_send env req (snd cw) = (sent, w)" by (rule prod.exhaust)
  note out = out [unfolded h1_exchange_def send prod.case]
  show ?thesis
  proof (cases sent)
    case (Some failed)
    with out have "out = h1_fail env t_start failed resp (fst cw, w)" by simp
    then show ?thesis
      using h1_fail_good [OF p h1_send_failure [OF send [unfolded Some]]] by simp
  next
    case None
    note out = out [unfolded None option.case]
    show ?thesis
    proof (cases "h1_await env t_start resp w")
      case None
      with out show ?thesis by simp
    next
      case (Some awaited)
      obtain r resp' w' where awaited: "awaited = (r, resp', w')" by (rule prod_cases3)
      note await = Some [unfolded awaited]
      note out = out [unfolded await option.case prod.case]
      have p': "resp_protocol resp' = PROTOCOL_HTTP_1_1" using h1_await_response(1) [OF await] p by simp
      show ?thesis
      proof (cases r)
        case (Inl failed)
        with out have "out = h1_fail env t_start failed resp' (fst cw, w')" by simp
        then show ?thesis
          using h1_fail_good [OF p' h1_await_response(2) [OF await Inl]] by simp
      next
        case (Inr head)
        obtain raw e where "head = (raw, e)" by (rule prod.exhaust)
        with out Inr have "out = h1_receive env t_start req resp' raw e (fst cw, w')" by simp
        then show ?thesis using h1_receive_good [OF p'] by simp
      qed
    qed
  qed
qed

lemma h1_ensure_protocol:
  "h1_ensure_connection env cfg req resp cw = (code, reused, resp', cw') \<Longrightarrow> resp_protocol resp' = resp_protocol resp"
  by (auto simp: h1_ensure_connection_def Let_def split: if_splits option.splits prod.splits)

lemma http1_good:
  assumes "http1_request env cfg req cw = Some out"
  shows "h1_good req out"
proof -
  obtain t_start w where now: "ne_now env (snd cw) = (t_start, w)" by (rule prod.exhaust)
  let ?resp = "default_response\<lparr>resp_protocol := PROTOCOL_HTTP_1_1, resp_dns_ms := req_dns_ms req\<rparr>"
  obtain code reused resp cw' where
    ensure: "h1_ensure_connection env cfg req ?resp (fst cw, w) = (code, reused, resp, cw')"
    by (rule prod_cases4)
  have p: "resp_protocol resp = PROTOCOL_HTTP_1_1" using h1_ensure_protocol [OF ensure] by simp
  show ?thesis
  proof (cases "code = ASTERNET_OK")
    case True
    with assms now ensure p show ?thesis
      by (auto simp: http1_request_def Let_def intro: h1_exchange_good [rotated])
  next
    case False
    with assms now ensure p show ?thesis
      by (auto simp: http1_request_def Let_def intro!: h1_finish_good)
  qed
qed

section \<open>Resources and verification\<close>

definition h1_discipline :: "'w h1_env \<Rightarrow> (string \<Rightarrow> bool) \<Rightarrow> 'w holding \<Rightarrow> bool" where
  "h1_discipline env may I \<longleftrightarrow> net_discipline env I \<and> lookups_within may (ne_getaddrinfo env)
     \<and> (\<forall>fd a timeout. may a \<longrightarrow> call_keeps (\<lambda>s. I (Suc s)) (h1_connect env fd a timeout))
     \<and> (\<forall>t fd. strict_tls t \<longrightarrow> call_keeps (\<lambda>s c l. I (Suc s) (Suc c) (Suc l)) (h1_handshake env t fd))
     \<and> (\<forall>text. call_keeps (\<lambda>s c l. I (Suc s) (Suc c) (Suc l)) (h1_write env text))
     \<and> (\<forall>n. call_keeps (\<lambda>s c l. I (Suc s) (Suc c) (Suc l)) (h1_read env n))"

lemma h1_disciplineD:
  assumes "h1_discipline env may I"
  shows "net_discipline env I"
    and "may a \<Longrightarrow> I (Suc s) c l w \<Longrightarrow> h1_connect env fd a timeout w = (ok, w') \<Longrightarrow> I (Suc s) c l w'"
    and "strict_tls t \<Longrightarrow> I (Suc s) (Suc c) (Suc l) w \<Longrightarrow> h1_handshake env t fd w = (ok, w') \<Longrightarrow> I (Suc s) (Suc c) (Suc l) w'"
    and "I (Suc s) (Suc c) (Suc l) w \<Longrightarrow> I (Suc s) (Suc c) (Suc l) (snd (h1_write env text w))"
    and "I (Suc s) (Suc c) (Suc l) w \<Longrightarrow> I (Suc s) (Suc c) (Suc l) (snd (h1_read env n w))"
    and "lookups_within may (ne_getaddrinfo env)"
proof -
  from assms have d: "net_discipline env I"
    "\<And>fd a timeout. may a \<Longrightarrow> call_keeps (\<lambda>s. I (Suc s)) (h1_connect env fd a timeout)"
    "\<And>t fd. strict_tls t \<Longrightarrow> call_keeps (\<lambda>s c l. I (Suc s) (Suc c) (Suc l)) (h1_handshake env t fd)"
    "\<And>text. call_keeps (\<lambda>s c l. I (Suc s) (Suc c) (Suc l)) (h1_write env text)"
    "\<And>n. call_keeps (\<lambda>s c l. I (Suc s) (Suc c) (Suc l)) (h1_read env n)"
    "lookups_within may (ne_getaddrinfo env)"
    unfolding h1_discipline_def by simp_all
  show "net_discipline env I" "lookups_within may (ne_getaddrinfo env)" by (rule d(1), rule d(6))
  show "may a \<Longrightarrow> I (Suc s) c l w \<Longrightarrow> h1_connect env fd a timeout w = (ok, w') \<Longrightarrow> I (Suc s) c l w'"
    by (rule call_keepsD [OF d(2)])
  show "strict_tls t \<Longrightarrow> I (Suc s) (Suc c) (Suc l) w \<Longrightarrow> h1_handshake env t fd w = (ok, w') \<Longrightarrow> I (Suc s) (Suc c) (Suc l) w'"
    by (rule call_keepsD [OF d(3)])
  show "I (Suc s) (Suc c) (Suc l) w \<Longrightarrow> I (Suc s) (Suc c) (Suc l) (snd (h1_write env text w))"
    using d(4) unfolding call_keeps_def by simp
  show "I (Suc s) (Suc c) (Suc l) w \<Longrightarrow> I (Suc s) (Suc c) (Suc l) (snd (h1_read env n w))"
    using d(5) [of n] unfolding call_keeps_def by simp
qed

text \<open>The loops keep whatever their one call keeps.\<close>

lemma h1_write_all_keeps:
  "(\<And>payload w. P w \<Longrightarrow> P (snd (h1_write env payload w))) \<Longrightarrow> P w \<Longrightarrow> P (snd (h1_write_all env payload w))"
proof (induction env payload w rule: h1_write_all.induct)
  case (1 env payload w)
  let ?r = "h1_write env (take (2 ^ 31 - 1) payload) w"
  have "P (snd ?r)" using 1(2,3) by simp
  with 1 show ?case
    by (cases "payload = []"; cases "fst ?r \<le> 0") (simp_all add: h1_write_all.simps [of env payload w] h1_write_all.simps [of env "[]" w] Let_def)
qed

lemma read_while_keeps:
  "(\<And>n w. P w \<Longrightarrow> P (snd (h1_read env n w))) \<Longrightarrow> P w \<Longrightarrow> P (snd (read_while env limit wanted amount buf w))"
proof (induction env limit wanted amount buf w rule: read_while.induct)
  case (1 env limit wanted amount buf w)
  obtain d w' where r: "h1_read env (amount buf) w = (d, w')" by (rule prod.exhaust)
  have "P w'" using 1(2) [OF 1(3), of "amount buf"] by (simp add: r)
  with 1 r show ?case
    by (cases "length buf \<le> limit \<and> wanted buf"; cases "d = []")
      (simp_all add: read_while.simps [of env limit wanted amount buf w])
qed

lemma h1_read_head_keeps:
  "(\<And>n w. P w \<Longrightarrow> P (snd (h1_read env n w))) \<Longrightarrow> P w \<Longrightarrow> P (snd (h1_read_head env raw w))"
  unfolding h1_read_head_def by (rule read_while_keeps)

lemma h1_skip_interim_keeps:
  assumes "h1_skip_interim env status raw header_end w = Some out"
  shows "(\<And>n w. P w \<Longrightarrow> P (snd (h1_read env n w))) \<Longrightarrow> P w \<Longrightarrow> P (snd (snd out))"
  using assms
proof (induct rule: h1_skip_interim.raw_induct [rotated, consumes 1])
  case (1 f env status raw header_end w out)
  let ?r = "h1_read_head env (drop (header_end + 4) raw) w"
  have "P (snd ?r)" using 1(3,4) by (rule h1_read_head_keeps)
  with 1 show ?case
    by (cases "interim status"; cases "head_end (fst ?r)") (auto simp: Let_def split: prod.splits)
qed

lemma connect_first_holds:
  assumes "h1_discipline env may I" and "I s c l w" and "connect_first env timeout addrs w = (fd, w')"
    and "list_all may addrs"
  shows "if 0 \<le> fd then I (Suc s) c l w' else I s c l w'"
  using assms(2-4)
proof (induction addrs arbitrary: w)
  case Nil
  then show ?case by auto
next
  case (Cons a addrs)
  note d = h1_disciplineD [OF assms(1)]
  obtain fd1 w1 where sock: "ne_socket env a w = (fd1, w1)" by (rule prod.exhaust)
  note held = net_disciplineD(3) [OF d(1) Cons.prems(1) sock]
  show ?case
  proof (cases "fd1 < 0")
    case True
    with Cons.prems(2,3) sock held Cons.IH [of w1] show ?thesis by simp
  next
    case False
    obtain ok w2 where conn: "h1_connect env fd1 a timeout w1 = (ok, w2)" by (rule prod.exhaust)
    have held: "I (Suc s) c l w2" using d(2) [OF _ _ conn] held False Cons.prems(3) by simp
    show ?thesis
    proof (cases ok)
      case True
      with Cons.prems(2) sock conn False held show ?thesis by auto
    next
      case no: False
      have "I s c l (ne_close env fd1 w2)" by (rule net_disciplineD(4) [OF d(1) held])
      with Cons.prems(2,3) sock conn False no Cons.IH show ?thesis by simp
    qed
  qed
qed

lemma connect_with_timeout_holds:
  assumes "h1_discipline env may I" and "I s c l w" and "connect_with_timeout env host port timeout w = (fd, w')"
    and may: "may (c_str host)"
  shows "if 0 \<le> fd then I (Suc s) c l w' else I s c l w'"
proof -
  obtain addrs w1 where g: "ne_getaddrinfo env (c_str host) (dec_digits port) w = (addrs, w1)" by (rule prod.exhaust)
  have "I s c l w1" by (rule net_disciplineD(2) [OF h1_disciplineD(1) [OF assms(1)] assms(2) g])
  with assms(3) g connect_first_holds [OF assms(1)] lookups_withinD [OF h1_disciplineD(6) [OF assms(1)] may g] show ?thesis
    by (cases "addrs = []") (auto simp: connect_with_timeout_def)
qed

text \<open>The handshake, call by call; every failure gives back what it had acquired.\<close>

lemma h1_start_tls_holds:
  assumes disc: "h1_discipline env may I" and strict: "\<not> ec_testing_build cfg"
    and held: "I (Suc s) c l w" and run: "h1_start_tls env cfg req fd w = (code, tls_ms, w')"
  shows "if code = ASTERNET_OK then I (Suc s) (Suc c) (Suc l) w' else I s c l w'"
proof -
  note d = h1_disciplineD [OF disc]
  note n = net_disciplineD [OF d(1)]
  have insecure: "\<not> allow_insecure cfg" using strict by (simp add: allow_insecure_def)
  obtain ok1 w1 where e1: "ne_ctx_new env w = (ok1, w1)" by (rule prod.exhaust)
  note h1 = n(5) [OF held e1]
  show ?thesis
  proof (cases ok1)
    case False
    with run e1 h1 n(4) show ?thesis by (auto simp: h1_start_tls_def)
  next
    case ok1: True
    then have h1: "I (Suc s) (Suc c) l w1" using h1 by simp
    obtain ok2 w2 where e2: "trust_ready env cfg req w1 = (ok2, w2)" by (rule prod.exhaust)
    note h2 = trust_ready_holds [OF d(1) h1 e2]
    show ?thesis
    proof (cases ok2)
      case False
      with run e1 e2 ok1 close_ctx_holds [OF d(1) h2] show ?thesis by (auto simp: h1_start_tls_def)
    next
      case ok2: True
      obtain ok3 w3 where e3: "ne_ssl_new env w2 = (ok3, w3)" by (rule prod.exhaust)
      note h3 = n(9) [OF h2 e3]
      show ?thesis
      proof (cases ok3)
        case False
        then have "I (Suc s) (Suc c) l w3" using h3 by simp
        with run e1 e2 e3 ok1 ok2 False close_ctx_holds [OF d(1)] show ?thesis by (auto simp: h1_start_tls_def)
      next
        case ok3: True
        then have h3: "I (Suc s) (Suc c) (Suc l) w3" using h3 by simp
        obtain ok4 w4 where e4: "ne_set_sni env (c_str (req_host req)) w3 = (ok4, w4)" by (rule prod.exhaust)
        note h4 = n(11) [OF h3 e4]
        obtain ok5 w5 where e5: "(if ok4 \<and> \<not> allow_insecure cfg then ne_set1_host env (c_str (req_host req)) w4 else (ok4, w4)) = (ok5, w5)"
          by (rule prod.exhaust)
        have h5: "I (Suc s) (Suc c) (Suc l) w5"
          using e5 h4 n(12) [OF h4] by (auto split: if_splits)
        obtain t0 w6 where e6: "ne_now env w5 = (t0, w6)" by (rule prod.exhaust)
        note h6 = n(1) [OF h5 e6]
        obtain ok7 w7 where e7: "h1_handshake env (tls_setup_of cfg req None) fd w6 = (ok7, w7)" by (rule prod.exhaust)
        note h7 = d(3) [OF production_tls_strict [OF strict] h6 e7]
        obtain ms w8 where e8: "elapsed_since env t0 w7 = (ms, w8)" by (rule prod.exhaust)
        note h8 = elapsed_holds [OF d(1) h7 e8]
        note run = run [unfolded h1_start_tls_def Let_def e1 prod.case e2 e3 e4 e5 e6 e7 e8]
        from run ok1 ok2 ok3 h8 close_tls_holds [OF d(1) h5] close_tls_holds [OF d(1) h8] show ?thesis
          by (cases ok5; cases ok7) auto
      qed
    qed
  qed
qed

lemma h1_ensure_holds:
  assumes disc: "h1_discipline env may I" and strict: "\<not> ec_testing_build cfg"
    and held: "holds_connection I cw" and may: "may (c_str (endpoint_of req))"
    and run: "h1_ensure_connection env cfg req resp cw = (code, reused, resp', cw')"
  shows "holds_connection I cw' \<and> (code = ASTERNET_OK \<longrightarrow> fst cw' \<noteq> None)"
proof (cases "case fst cw of Some pc \<Rightarrow> same_origin cfg req pc | None \<Rightarrow> False")
  case True
  with run held show ?thesis by (auto simp: h1_ensure_connection_def split: option.splits)
next
  case False
  note d = h1_disciplineD [OF disc]
  obtain c0 w1 where e1: "close_connection env cw = (c0, w1)" by (rule prod.exhaust)
  have h1: "I 0 0 0 w1" using close_connection_holds [OF d(1) held e1] by simp
  obtain t0 w2 where e2: "ne_now env w1 = (t0, w2)" by (rule prod.exhaust)
  note h2 = net_disciplineD(1) [OF d(1) h1 e2]
  obtain fd w3 where e3: "connect_with_timeout env (endpoint_of req) (req_port req) (req_timeout_ms req) w2 = (fd, w3)"
    by (rule prod.exhaust)
  note h3 = connect_with_timeout_holds [OF disc h2 e3 may]
  obtain ms w4 where e4: "elapsed_since env t0 w3 = (ms, w4)" by (rule prod.exhaust)
  obtain code' tls_ms w5 where e5: "h1_start_tls env cfg req fd w4 = (code', tls_ms, w5)" by (rule prod_cases3)
  note run = run [unfolded h1_ensure_connection_def if_not_P [OF False] Let_def e1 prod.case e2 e3 e4 e5]
  show ?thesis
  proof (cases "fd < 0")
    case True
    then have "I 0 0 0 w3" using h3 by simp
    with elapsed_holds [OF d(1) _ e4] run True show ?thesis by auto
  next
    case False
    then have "I (Suc 0) 0 0 w3" using h3 by simp
    with elapsed_holds [OF d(1) _ e4] have "I (Suc 0) 0 0 w4" by blast
    from h1_start_tls_holds [OF disc strict this e5] run False show ?thesis
      by (cases "code' = ASTERNET_OK") auto
  qed
qed

lemma h1_read_body_keeps:
  assumes "\<And>n w. P w \<Longrightarrow> P (snd (h1_read env n w))" and "P w"
  shows "P (snd (h1_read_body env req status f body w))"
proof -
  have loop: "P w'" if "read_while env limit wanted amount body w = (b, w')" for limit wanted amount b w'
    using read_while_keeps [of P env w limit wanted amount body] assms that by simp
  have chunked: "P (snd (h1_chunked_body env m body w))" for m
    using loop unfolding h1_chunked_body_def read_chunked_def Let_def by (auto split: prod.splits)
  have sized: "P (snd (h1_sized_body env m cl body w))" for m cl
    using loop assms(2) unfolding h1_sized_body_def read_length_def by (auto split: prod.splits)
  have eof: "P (snd (h1_eof_body env m body w))" for m
    using loop unfolding h1_eof_body_def read_to_eof_def by (auto split: prod.splits)
  show ?thesis
  proof (cases "no_body_status req status")
    case True
    with assms(2) show ?thesis by (simp add: h1_read_body_def)
  next
    case False
    show ?thesis
      unfolding h1_read_body_def if_not_P [OF False] using chunked sized eof by simp
  qed
qed

lemma h1_finish_holds:
  assumes "net_discipline env I" and "holds_connection I cw" and "h1_finish env t_start code resp cw = (ret, resp', cw')"
  shows "holds_connection I cw'"
proof -
  obtain total w where e: "elapsed_since env t_start (snd cw) = (total, w)" by (rule prod.exhaust)
  with assms(3) have cw': "cw' = (fst cw, w)" by (simp add: h1_finish_def)
  show ?thesis
    using assms(2) elapsed_holds [OF assms(1) _ e] unfolding cw' holds_connection_def Let_def by simp
qed

lemma h1_fail_holds:
  assumes "net_discipline env I" and "holds_connection I cw" and "h1_fail env t_start f resp cw = (ret, resp', cw')"
  shows "holds_connection I cw'"
proof -
  obtain c w where e: "close_connection env cw = (c, w)" by (rule prod.exhaust)
  have "holds_connection I (close_connection env cw)"
    using close_connection_holds [OF assms(1,2) e] e by simp
  from h1_finish_holds [OF assms(1) this] assms(3) show ?thesis
    unfolding h1_fail_def by blast
qed

lemma h1_receive_holds:
  assumes disc: "h1_discipline env may I" and held: "holds_connection I cw" and live: "fst cw \<noteq> None"
    and run: "h1_receive env t_start req resp raw header_end cw = (ret, resp', cw')"
  shows "holds_connection I cw'"
proof -
  note d = h1_disciplineD [OF disc]
  let ?f = "scan_headers default_framing (take header_end raw)"
  obtain res w where body: "h1_read_body env req (resp_http_status resp) ?f (drop (header_end + 4) raw) (snd cw) = (res, w)"
    by (rule prod.exhaust)
  have "I (Suc 0) (Suc 0) (Suc 0) (snd cw)" using held live by (simp add: holds_connection_def)
  then have "I (Suc 0) (Suc 0) (Suc 0) w"
    using h1_read_body_keeps [of "I (Suc 0) (Suc 0) (Suc 0)" env "snd cw"] d(5) body by (metis snd_conv)
  with live have held': "holds_connection I (fst cw, w)" by auto
  obtain c w1 where e: "close_connection env (fst cw, w) = (c, w1)" by (rule prod.exhaust)
  have closed: "holds_connection I (close_connection env (fst cw, w))"
    using close_connection_holds [OF d(1) held' e] e by simp
  note run = run [unfolded h1_receive_def Let_def body prod.case]
  show ?thesis
  proof (cases "fr_invalid ?f")
    case True
    with run h1_fail_holds [OF d(1) held] show ?thesis by simp
  next
    case False
    note run = run [unfolded if_not_P [OF False]]
    show ?thesis
    proof (cases res)
      case (Inl failed)
      with run h1_fail_holds [OF d(1) held'] show ?thesis by simp
    next
      case (Inr content)
      with run h1_fail_holds [OF d(1) held'] h1_finish_holds [OF d(1) held'] h1_finish_holds [OF d(1) closed]
      show ?thesis by (simp split: if_splits)
    qed
  qed
qed

lemma h1_send_keeps:
  assumes "\<And>payload w. P w \<Longrightarrow> P (snd (h1_write env payload w))" and "P w"
  shows "P (snd (h1_send env req w))"
proof -
  have "P w'" if "h1_write_all env payload w = (ok, w')" for payload ok w'
    using h1_write_all_keeps [of P env w payload] assms that by simp
  with assms(2) show ?thesis
    by (auto simp: h1_send_def split: prod.splits option.splits)
qed

lemma h1_await_keeps:
  assumes rd: "\<And>n w. P w \<Longrightarrow> P (snd (h1_read env n w))" and now: "\<And>t w. P w \<Longrightarrow> P (snd (elapsed_since env t w))"
    and "P w" and run: "h1_await env t_start resp w = Some (r, resp', w')"
  shows "P w'"
proof -
  obtain raw w1 where e1: "h1_read_head env [] w = (raw, w1)" by (rule prod.exhaust)
  have p1: "P w1" using h1_read_head_keeps [of P env w "[]"] rd assms(3) e1 by simp
  note run = run [unfolded h1_await_def e1 Let_def prod.case]
  show ?thesis
  proof (cases "head_end raw")
    case None
    with run p1 show ?thesis by simp
  next
    case (Some e)
    obtain ttfb w2 where e2: "elapsed_since env t_start w1 = (ttfb, w2)" by (rule prod.exhaust)
    have p2: "P w2" using now [OF p1, of t_start] e2 by simp
    note run = run [unfolded Some e2 option.case prod.case]
    show ?thesis
    proof (cases "h1_skip_interim env (parse_status raw 0) raw e w2")
      case None
      with run show ?thesis by simp
    next
      case (Some out)
      have "P (snd (snd out))" using h1_skip_interim_keeps [OF Some] rd p2 by blast
      with run Some show ?thesis by (auto split: prod.splits)
    qed
  qed
qed

lemma h1_exchange_holds:
  assumes disc: "h1_discipline env may I" and held: "holds_connection I cw" and live: "fst cw \<noteq> None"
    and run: "h1_exchange env t_start req resp cw = Some (ret, resp', cw')"
  shows "holds_connection I cw'"
proof -
  note d = h1_disciplineD [OF disc]
  let ?P = "I (Suc 0) (Suc 0) (Suc 0)"
  have p: "?P (snd cw)" using held live by (simp add: holds_connection_def)
  have again: "?P w \<Longrightarrow> holds_connection I (fst cw, w)" for w using live by auto
  obtain sent w1 where send: "h1_send env req (snd cw) = (sent, w1)" by (rule prod.exhaust)
  have p1: "?P w1" using h1_send_keeps [of ?P env "snd cw"] d(4) p send by (metis snd_conv)
  note run = run [unfolded h1_exchange_def send prod.case]
  show ?thesis
  proof (cases sent)
    case (Some failed)
    with run h1_fail_holds [OF d(1) again [OF p1]] show ?thesis by simp
  next
    case None
    note run = run [unfolded None option.case]
    obtain awaited where "h1_await env t_start resp w1 = Some awaited"
      using run by (cases "h1_await env t_start resp w1") simp_all
    moreover obtain r resp1 w2 where "awaited = (r, resp1, w2)" by (rule prod_cases3)
    ultimately have await: "h1_await env t_start resp w1 = Some (r, resp1, w2)" by simp
    have now: "?P w \<Longrightarrow> ?P (snd (elapsed_since env t w))" for t w
      using elapsed_holds [OF d(1), of "Suc 0" "Suc 0" "Suc 0" w t] by (metis prod.collapse)
    have p2: "?P w2" using h1_await_keeps [of ?P env w1 t_start resp r resp1 w2] d(5) now p1 await by blast
    note run = run [unfolded await option.case prod.case]
    show ?thesis
    proof (cases r)
      case (Inl failed)
      with run h1_fail_holds [OF d(1) again [OF p2]] show ?thesis by simp
    next
      case (Inr head)
      with run h1_receive_holds [OF disc again [OF p2]] live show ?thesis
        by (cases head) simp
    qed
  qed
qed

lemma http1_holds:
  assumes disc: "h1_discipline env may I" and strict: "\<not> ec_testing_build cfg" and held: "holds_connection I cw"
    and may: "may (c_str (endpoint_of req))" and run: "http1_request env cfg req cw = Some (ret, resp, cw')"
  shows "holds_connection I cw'"
proof -
  note d = h1_disciplineD [OF disc]
  obtain t_start w where now: "ne_now env (snd cw) = (t_start, w)" by (rule prod.exhaust)
  let ?resp = "default_response\<lparr>resp_protocol := PROTOCOL_HTTP_1_1, resp_dns_ms := req_dns_ms req\<rparr>"
  obtain code reused resp1 cw1 where
    ensure: "h1_ensure_connection env cfg req ?resp (fst cw, w) = (code, reused, resp1, cw1)"
    by (rule prod_cases4)
  have "holds_connection I (fst cw, w)"
    using held net_disciplineD(1) [OF d(1) _ now] by (simp add: holds_connection_def Let_def)
  note held1 = h1_ensure_holds [OF disc strict this may ensure]
  note run = run [unfolded http1_request_def Let_def now prod.case ensure]
  show ?thesis
  proof (cases "code = ASTERNET_OK")
    case True
    with run have "h1_exchange env t_start req (resp1\<lparr>resp_connection_reused := reused\<rparr>) cw1 = Some (ret, resp, cw')"
      by simp
    moreover from held1 True have "holds_connection I cw1" "fst cw1 \<noteq> None" by simp_all
    ultimately show ?thesis using h1_exchange_holds [OF disc] by blast
  next
    case False
    with run have "h1_finish env t_start code
        (resp1\<lparr>resp_failure_stage := if code = ASTERNET_ERR_CONNECT then ''connect'' else ''tls''\<rparr>) cw1 = (ret, resp, cw')"
      by simp
    with held1 h1_finish_holds [OF d(1)] show ?thesis by blast
  qed
qed

section \<open>Returning\<close>

text \<open>
  \<open>left w\<close> bounds the bytes the peer will still send. With such a bound the interim loop ends,
  because every round consumes a blank line.
\<close>

definition finite_peer :: "'w h1_env \<Rightarrow> ('w \<Rightarrow> nat) \<Rightarrow> bool" where
  "finite_peer env left \<longleftrightarrow> (\<forall>n w. left (snd (h1_read env n w)) + length (fst (h1_read env n w)) \<le> left w)"

lemma read_while_consumes:
  "finite_peer env left \<Longrightarrow> read_while env limit wanted amount buf w = (b, w')
    \<Longrightarrow> length b + left w' \<le> length buf + left w"
proof (induction env limit wanted amount buf w rule: read_while.induct)
  case (1 env limit wanted amount buf w)
  obtain d w1 where r: "h1_read env (amount buf) w = (d, w1)" by (rule prod.exhaust)
  have le: "left w1 + length d \<le> left w"
    using 1(2) r unfolding finite_peer_def by (metis fst_conv snd_conv)
  show ?case
  proof (cases "length buf \<le> limit \<and> wanted buf \<and> d \<noteq> []")
    case True
    with 1 r have "length b + left w' \<le> length (buf @ d) + left w1"
      by (simp add: read_while.simps [of env limit wanted amount buf w])
    with le show ?thesis by simp
  next
    case False
    with 1 r le show ?thesis
      by (auto simp: read_while.simps [of env limit wanted amount buf w] split: if_splits)
  qed
qed

lemma head_end_bound: "head_end raw = Some e \<Longrightarrow> e + 4 \<le> length raw"
  by (auto simp: head_end_def blank_line_def crlf_def dest: find_sub_bound split: if_splits)

lemma h1_skip_interim_returns:
  assumes "finite_peer env left"
  shows "header_end + 4 \<le> length raw \<Longrightarrow> h1_skip_interim env status raw header_end w \<noteq> None"
proof (induction "length raw + left w" arbitrary: status raw header_end w rule: less_induct)
  case less
  obtain raw' w' where r: "h1_read_head env (drop (header_end + 4) raw) w = (raw', w')" by (rule prod.exhaust)
  have "length raw' + left w' \<le> length (drop (header_end + 4) raw) + left w"
    using read_while_consumes [OF assms] r unfolding h1_read_head_def by blast
  also have "\<dots> < length raw + left w" using less.prems by simp
  finally have lt: "length raw' + left w' < length raw + left w" .
  show ?case
  proof (cases "interim status")
    case False
    then show ?thesis by (subst h1_skip_interim.simps) simp
  next
    case True
    show ?thesis
    proof (cases "head_end raw'")
      case None
      with True r show ?thesis by (subst h1_skip_interim.simps) simp
    next
      case (Some e)
      have "h1_skip_interim env (parse_status raw' status) raw' e w' \<noteq> None"
        by (rule less.hyps [OF lt head_end_bound [OF Some]])
      with True r Some show ?thesis by (subst h1_skip_interim.simps) simp
    qed
  qed
qed

lemma h1_await_returns:
  assumes "finite_peer env left"
  shows "h1_await env t_start resp w \<noteq> None"
proof -
  obtain raw w1 where e1: "h1_read_head env [] w = (raw, w1)" by (rule prod.exhaust)
  show ?thesis
  proof (cases "head_end raw")
    case None
    with e1 show ?thesis by (simp add: h1_await_def)
  next
    case (Some e)
    obtain ttfb w2 where e2: "elapsed_since env t_start w1 = (ttfb, w2)" by (rule prod.exhaust)
    obtain out where "h1_skip_interim env (parse_status raw 0) raw e w2 = Some out"
      using h1_skip_interim_returns [OF assms head_end_bound [OF Some]] by blast
    with e1 e2 Some show ?thesis by (cases out) (simp add: h1_await_def)
  qed
qed

text \<open>A peer that answers every read with one more interim response.\<close>

definition interim_head :: string where
  "interim_head = ''HTTP/1.1 100 C'' @ crlf @ crlf"

lemma interim_head_facts:
  "find_sub blank_line interim_head = Some 14" "length interim_head = 18" "interim_head \<noteq> []"
  "parse_status interim_head s = 100" "find_sub blank_line [] = None" "blank_line \<noteq> []"
  by (simp_all add: interim_head_def blank_line_def crlf_def parse_status_def atoi_def skip_sign_def c_str_def
      isspace_def byte_def is_digit_of_def digit_value_def isdigit_def number_value_def)

lemma flood_read_head:
  assumes "\<And>n w. fst (h1_read env n w) = interim_head"
  shows "\<exists>w'. h1_read_head env [] w = (interim_head, w')"
proof -
  obtain d w' where r: "h1_read env read_size w = (d, w')" by (rule prod.exhaust)
  with assms have "d = interim_head" by (metis fst_conv)
  with r show ?thesis
    unfolding h1_read_head_def
    by (simp add: read_while.simps [of _ _ _ _ "[]"] read_while.simps [of _ _ _ _ interim_head] interim_head_facts)
qed

lemma flood_skip_interim:
  assumes "h1_skip_interim env status raw header_end w = Some out"
  shows "(\<And>n w. fst (h1_read env n w) = interim_head) \<Longrightarrow> status = 100 \<Longrightarrow> raw = interim_head \<Longrightarrow> header_end = 14
    \<Longrightarrow> False"
  using assms
proof (induct rule: h1_skip_interim.raw_induct [rotated, consumes 1])
  case (1 f env status raw header_end w out)
  note hyps = 1
  obtain w' where "h1_read_head env [] w = (interim_head, w')"
    using flood_read_head [of env w, OF hyps(3)] by (elim exE)
  moreover have "drop (header_end + 4) raw = []" using hyps(5,6) by (simp add: interim_head_facts)
  moreover have "head_end interim_head = Some 14" "interim status"
    using hyps(4) by (simp_all add: head_end_def kMaxResponseHeaders_def interim_def interim_head_facts)
  ultimately have "f env (parse_status interim_head status) interim_head 14 w' = Some out"
    using hyps(2) by simp
  from hyps(1) [OF this hyps(3)] show ?case by (simp add: interim_head_facts)
qed

interpretation http1: network_engine PROTOCOL_HTTP_1_1 "http1_request env cfg"
  for env :: "'w h1_env" and cfg
proof
  fix req cw ret resp and cw' :: "'w h1_state"
  assume "http1_request env cfg req cw = Some (ret, resp, cw')"
  from http1_good [OF this] show "resp_err_code resp = ret \<and> resp_protocol resp = PROTOCOL_HTTP_1_1
    \<and> (ret = ASTERNET_OK \<longrightarrow> length (resp_body resp) \<le> req_max_body req)"
    by (simp add: h1_good_def)
qed

section \<open>What the peer reads\<close>

text \<open>A server's reader of a request: lines up to the blank line, then the rest.\<close>

function server_read :: "string \<Rightarrow> (string list \<times> string) option" where
  "server_read s =
     (case find_sub crlf s of
        None \<Rightarrow> None
      | Some e \<Rightarrow>
          if e = 0 then Some ([], drop 2 s)
          else map_option (apfst (Cons (take e s))) (server_read (drop (e + 2) s)))"
  by pat_completeness auto
termination
  by (relation "measure length") (auto dest: find_sub_bound simp: crlf_def)

declare server_read.simps [simp del]

definition plain_line :: "string \<Rightarrow> bool" where
  "plain_line l \<longleftrightarrow> l \<noteq> [] \<and> \<not> has_crlf l"

lemma plain_line_cr: "plain_line l \<Longrightarrow> carriage_return \<notin> set l"
  by (auto simp: plain_line_def has_crlf_def)

lemma server_read_lines:
  "list_all plain_line ls \<Longrightarrow> server_read (concat (map (\<lambda>l. l @ crlf) ls) @ crlf @ body) = Some (ls, body)"
proof (induction ls)
  case Nil
  show ?case
    by (subst server_read.simps) (simp add: find_crlf_line [of "[]", simplified] crlf_def)
next
  case (Cons l ls)
  let ?r = "concat (map (\<lambda>l. l @ crlf) ls) @ crlf @ body"
  from Cons have cr: "carriage_return \<notin> set l" and ne: "l \<noteq> []"
    using plain_line_cr [of l] by (auto simp: plain_line_def)
  have "take (length l) (l @ crlf @ ?r) = l" "drop (length l + 2) (l @ crlf @ ?r) = ?r"
    by (simp_all add: crlf_def)
  with Cons ne have "server_read (l @ crlf @ ?r) = Some (l # ls, body)"
    by (subst server_read.simps) (simp only: find_crlf_line [OF cr] option.case, simp)
  then show ?case by simp
qed

lemma digits_no_crlf: "\<not> has_crlf (dec_digits n)"
  using dec_digits_isdigit [of carriage_return n] dec_digits_isdigit [of newline n]
  by (auto simp: has_crlf_def isdigit_def byte_def)

lemma request_lines_plain:
  assumes "\<not> request_line_unsafe req"
  shows "list_all plain_line (request_lines req)"
  using assms digits_no_crlf
  by (simp add: request_lines_def request_line_unsafe_def plain_line_def host_header_def)

definition custom_line_of :: "header list \<Rightarrow> string \<Rightarrow> bool" where
  "custom_line_of hs l \<longleftrightarrow>
     list_ex (\<lambda>h. l = h_name h @ '': '' @ h_value h \<and> \<not> hop_by_hop (lower (h_name h))) hs"

lemma custom_header_line:
  assumes "custom_header h = Some ls" and "l \<in> set ls"
  shows "plain_line l \<and> l = h_name h @ '': '' @ h_value h \<and> \<not> hop_by_hop (lower (h_name h))"
  using assms by (auto simp: custom_header_def plain_line_def split: if_splits)

lemma custom_headers_lines:
  "custom_headers hs = Some ls \<Longrightarrow> list_all plain_line ls \<and> list_all (custom_line_of hs) ls"
proof (induction hs arbitrary: ls)
  case Nil
  then show ?case by simp
next
  case (Cons h hs)
  then obtain l1 l2 where 1: "custom_header h = Some l1" "custom_headers hs = Some l2" "ls = l1 @ l2"
    by (auto split: option.splits)
  with Cons.IH [of l2] custom_header_line [OF 1(1)] show ?case
    by (auto simp: list_all_iff custom_line_of_def)
qed

section \<open>Properties\<close>


definition demo_post :: request where
  "demo_post = default_request\<lparr>req_host := ''a.example'', req_method := ''POST'', req_body := ''x=1'',
     req_headers := [\<lparr>h_name = ''X-Id'', h_value = ''7''\<rparr>, \<lparr>h_name = ''Content-Length'', h_value = ''99''\<rparr>]\<rparr>"


text \<open>
  Property C14. Resources and verification: whatever the network does, a request that starts with
  exactly the resources of its kept connection (or none) ends with exactly those of the connection it
  keeps (or none). No socket, TLS context or session leaks or is freed twice on any path, reads and
  writes happen only on a live session, connections are attempted only to the addresses that the
  request's endpoint stands for, and in a production build every handshake is asked to verify the peer
  for the request's host.
\<close>

theorem http1_resources:
  assumes "h1_discipline env may I" and "\<not> ec_testing_build cfg" and "holds_connection I cw"
    and "may (c_str (endpoint_of req))" and "http1_request env cfg req cw = Some (ret, resp, cw')"
  shows "holds_connection I cw' \<and> holds_connection I (http1_destroy env cw') \<and> fst (http1_destroy env cw') = None"
proof -
  have held: "holds_connection I cw'" by (rule http1_holds [OF assms])
  obtain c w where e: "close_connection env cw' = (c, w)" by (rule prod.exhaust)
  from close_connection_holds [OF h1_disciplineD(1) [OF assms(1)] held e] held show ?thesis
    by (simp add: http1_destroy_def e)
qed

text \<open>A network whose world counts what is held; the system has no usable trust roots.\<close>

definition demo_h1_env :: "(nat \<times> nat \<times> nat) h1_env" where
  "demo_h1_env =
     \<lparr>ne_now = (\<lambda>w. (0, w)), ne_getaddrinfo = (\<lambda>_ _ w. ([''peer''], w)),
      ne_socket = (\<lambda>_ (s, c, l). (3, (s + 1, c, l))), ne_close = (\<lambda>_ (s, c, l). (s - 1, c, l)),
      ne_ctx_new = (\<lambda>(s, c, l). (True, (s, c + 1, l))), ne_load_ca = (\<lambda>_ w. (True, w)),
      ne_default_paths = (\<lambda>w. (False, w)), ne_ctx_free = (\<lambda>(s, c, l). (s, c - 1, l)),
      ne_ssl_new = (\<lambda>(s, c, l). (True, (s, c, l + 1))), ne_ssl_free = (\<lambda>(s, c, l). (s, c, l - 1)),
      ne_set_sni = (\<lambda>_ w. (True, w)), ne_set1_host = (\<lambda>_ w. (True, w)),
      h1_connect = (\<lambda>_ _ _ w. (True, w)), h1_handshake = (\<lambda>_ _ w. (True, w)),
      h1_write = (\<lambda>s w. (int (length s), w)), h1_read = (\<lambda>_ w. ([], w))\<rparr>"

definition production_config :: engine_config where
  "production_config = \<lparr>ec_allow_insecure_tls_for_testing = True, ec_ca_cert_pem = [], ec_testing_build = False\<rparr>"

definition counted :: "(nat \<times> nat \<times> nat) holding" where
  "counted s c l w \<longleftrightarrow> w = (s, c, l)"

lemma demo_h1_discipline: "h1_discipline demo_h1_env (\<lambda>_. True) counted"
  by (simp add: h1_discipline_def lookups_within_def net_discipline_def call_keeps_def call_gains_def call_releases_def demo_h1_env_def
      counted_def)

theorem http1_resources_witness:
  "\<exists>resp. http1_request demo_h1_env production_config default_request (None, (0, 0, 0))
      = Some (ASTERNET_ERR_TLS, resp, (None, (0, 0, 0)))
    \<and> holds_connection counted (None, (0, 0, 0))"
proof -
  have run: "\<exists>resp. http1_request demo_h1_env production_config default_request (None, (0, 0, 0))
      = Some (ASTERNET_ERR_TLS, resp, (None, (0, 0, 0)))"
    by (simp add: http1_request_def h1_ensure_connection_def h1_start_tls_def connect_with_timeout_def
        trust_ready_def allow_insecure_def ca_bundle_of_def production_config_def default_request_def
        demo_h1_env_def close_connection_def close_ctx_def elapsed_since_def h1_finish_def)
  then obtain resp where "http1_request demo_h1_env production_config default_request (None, (0, 0, 0))
      = Some (ASTERNET_ERR_TLS, resp, (None, (0, 0, 0)))" by (elim exE)
  with http1_resources [OF demo_h1_discipline _ _ _ this] run show ?thesis
    by (simp add: production_config_def counted_def)
qed

lemma http1_request_returns:
  assumes "finite_peer env left"
  shows "http1_request env cfg req cw \<noteq> None"
proof -
  obtain t_start w where now: "ne_now env (snd cw) = (t_start, w)" by (rule prod.exhaust)
  let ?resp = "default_response\<lparr>resp_protocol := PROTOCOL_HTTP_1_1, resp_dns_ms := req_dns_ms req\<rparr>"
  obtain code reused resp1 cw1 where
    ensure: "h1_ensure_connection env cfg req ?resp (fst cw, w) = (code, reused, resp1, cw1)"
    by (rule prod_cases4)
  have "h1_exchange env t_start req resp2 cw2 \<noteq> None" for resp2 cw2
  proof -
    obtain sent w1 where "h1_send env req (snd cw2) = (sent, w1)" by (rule prod.exhaust)
    moreover obtain r resp3 w2 where "h1_await env t_start resp2 w1 = Some (r, resp3, w2)"
      using h1_await_returns [OF assms, of t_start resp2 w1] by (metis option.exhaust prod_cases3)
    ultimately show ?thesis
      by (cases sent; cases r) (auto simp: h1_exchange_def simp del: not_None_eq split: prod.splits)
  qed
  then show ?thesis
    unfolding http1_request_def Let_def now prod.case ensure by (simp del: not_None_eq)
qed

text \<open>
  Property C29. A request over HTTP/1.1 returns whenever the peer sends finitely many bytes: the
  reading loops stop at their bounds or at the end of the stream, and each interim response consumes
  at least a blank line.
\<close>

theorem http1_returns:
  assumes "finite_peer env left"
  shows "http1_request env cfg req cw \<noteq> None"
  by (rule http1_request_returns [OF assms])

theorem http1_returns_witness:
  "http1_request demo_h1_env production_config demo_post (None, (0, 0, 0)) \<noteq> None"
proof -
  have "finite_peer demo_h1_env (\<lambda>_. 0)" by (simp add: finite_peer_def demo_h1_env_def)
  then show ?thesis by (rule http1_returns)
qed

text \<open>
  The converse: nothing else bounds the interim loop. A peer that answers every read
  with one more \<open>100 Continue\<close> keeps a request of any timeout from ever returning, because the loop
  never compares the clock with the deadline.
\<close>

theorem http1_interim_flood:
  assumes "\<And>n w. fst (h1_read env n w) = interim_head"
  shows "h1_await env t_start resp w = None"
proof -
  obtain w1 where e1: "h1_read_head env [] w = (interim_head, w1)"
    using flood_read_head [of env w, OF assms] by (elim exE)
  obtain ttfb w2 where e2: "elapsed_since env t_start w1 = (ttfb, w2)" by (rule prod.exhaust)
  have "h1_skip_interim env 100 interim_head 14 w2 = None"
    using flood_skip_interim [OF _ assms refl refl refl] by (cases "h1_skip_interim env 100 interim_head 14 w2") auto
  then show ?thesis
    by (simp add: h1_await_def e1 e2 head_end_def kMaxResponseHeaders_def interim_head_facts)
qed

theorem http1_interim_flood_witness:
  "h1_await (demo_h1_env\<lparr>h1_read := \<lambda>_ w. (interim_head, w)\<rparr>) 0 default_response (1, 1, 1) = None"
  by (rule http1_interim_flood) simp

section \<open>Lenient lengths\<close>

text \<open>
  A negative \<open>Content-Length\<close> is not rejected: \<open>strtoull\<close> negates \<open>1\<close> modulo \<open>2^64\<close>, which is the
  value that stands for "no length", so the body is read to the end of the stream instead; a negative
  chunk size is accepted in the same way.
\<close>

lemma negative_length_is_no_length: "scan_line default_framing ''Content-Length: -1'' = default_framing"
  by (simp add: scan_line_def default_framing_def lower_def trim_blanks_def is_blank_def parse_content_length_def
      strtoull_def skip_sign_def skip_hex_prefix_def c_str_def is_digit_of_def digit_value_def number_value_def
      npos_def char_eval bit_0)

lemma negative_chunk_size: "chunk_size_of ''-ffffffffffffffff'' = Some 1"
  by (simp add: chunk_size_of_def strtoull_def skip_sign_def skip_hex_prefix_def c_str_def is_digit_of_def
      digit_value_def number_value_def char_eval)

end
