(* ===== verification/Abi.thy ===== *)
theory Abi
  imports Abi_Registry Client Http1_Engine
begin

text \<open>
  The C ABI (\<open>abi/abi.cpp\<close>): validation of what a host passes in, the translation of its structs, the
  entry points and the buffers they fill. The calls run one after the other here, each on the registry
  (whose clients carry their state) and the world; the interleavings of the registry itself are in
  \<open>Abi_Registry\<close>. Exceptions of the C++ library (out of memory) are not modelled, nor the layout of the
  structs beyond the 64-bit one of the client configuration, whose size is an input.
\<close>

section \<open>Validation\<close>

definition is_idempotent_method :: "string \<Rightarrow> bool" where
  "is_idempotent_method m \<longleftrightarrow> m = ''GET'' \<or> m = ''HEAD'' \<or> m = ''OPTIONS''"

definition idempotency_header :: "c_header \<Rightarrow> bool" where
  "idempotency_header h \<longleftrightarrow>
     (case (ch_name h, ch_value h) of
        (Some n, Some v) \<Rightarrow> v \<noteq> [] \<and> map tolower n = ''idempotency-key'' \<and> list_ex (\<lambda>c. \<not> isspace c) v
      | _ \<Rightarrow> False)"

definition abi_has_idempotency_key :: "c_header list option \<Rightarrow> nat \<Rightarrow> bool" where
  "abi_has_idempotency_key headers header_count \<longleftrightarrow>
     (case headers of None \<Rightarrow> False | Some hs \<Rightarrow> list_ex idempotency_header (take header_count hs))"

definition contains_crlf :: "string option \<Rightarrow> bool" where
  "contains_crlf v \<longleftrightarrow> (case v of None \<Rightarrow> False | Some s \<Rightarrow> has_crlf s)"

definition valid_token :: "string option \<Rightarrow> bool" where
  "valid_token v \<longleftrightarrow> (case v of None \<Rightarrow> False | Some s \<Rightarrow> s \<noteq> [] \<and> list_all token_char s)"

definition visible_char :: "char \<Rightarrow> bool" where
  "visible_char c \<longleftrightarrow> \<not> (byte c \<le> 0x20 \<or> byte c = 0x7f)"

definition valid_path :: "string option \<Rightarrow> bool" where
  "valid_path v \<longleftrightarrow>
     (case v of None \<Rightarrow> False | Some s \<Rightarrow> (case s of [] \<Rightarrow> False | c # _ \<Rightarrow> c = CHR ''/'') \<and> list_all visible_char s)"

definition valid_host :: "string option \<Rightarrow> bool" where
  "valid_host v \<longleftrightarrow> (case v of None \<Rightarrow> False | Some s \<Rightarrow> s \<noteq> [] \<and> list_all visible_char s)"

definition valid_header_name :: "string option \<Rightarrow> bool" where
  "valid_header_name v \<longleftrightarrow> (case v of None \<Rightarrow> False | Some s \<Rightarrow> s \<noteq> [] \<and> list_all token_char s)"

definition protected_header :: "string \<Rightarrow> bool" where
  "protected_header name \<longleftrightarrow>
     (let lower_name = map tolower name
      in lower_name = ''host'' \<or> lower_name = ''content-length'' \<or> lower_name = ''transfer-encoding''
         \<or> lower_name = ''connection'')"

section \<open>Response information and result strings\<close>

definition reset_response_info :: "response_info option \<Rightarrow> response_info option" where
  "reset_response_info info =
     map_option (\<lambda>_. zero_response_info
       \<lparr>ri_result := ASTERNET_ERR_INTERNAL, ri_protocol := PROTOCOL_UNKNOWN, ri_dns_ms := -1, ri_connect_ms := -1,
        ri_tls_ms := -1, ri_ttfb_ms := -1, ri_total_ms := -1\<rparr>) info"

definition fill_response_info :: "response \<Rightarrow> int \<Rightarrow> response_info option \<Rightarrow> response_info option" where
  "fill_response_info r result info =
     map_option (\<lambda>i. i
       \<lparr>ri_result := result, ri_http_status := resp_http_status r, ri_protocol := resp_protocol r,
        ri_degraded := (if resp_degraded r then 1 else 0), ri_body_size := length (resp_body r),
        ri_dns_ms := resp_dns_ms r, ri_connect_ms := resp_connect_ms r, ri_tls_ms := resp_tls_ms r,
        ri_ttfb_ms := resp_ttfb_ms r, ri_total_ms := resp_total_ms r\<rparr>) info"

definition set_result :: "int \<Rightarrow> response_info option \<Rightarrow> response_info option" where
  "set_result result info = map_option (\<lambda>i. i\<lparr>ri_result := result\<rparr>) info"

definition asternet_result_string :: "int \<Rightarrow> string" where
  "asternet_result_string r =
     (if r = ASTERNET_OK then ''OK'' else if r = ASTERNET_ERR_ABI_VERSION then ''ABI_VERSION''
      else if r = ASTERNET_ERR_INVALID_ARGUMENT then ''INVALID_ARGUMENT''
      else if r = ASTERNET_ERR_NOT_INITIALIZED then ''NOT_INITIALIZED''
      else if r = ASTERNET_ERR_OUT_OF_MEMORY then ''OUT_OF_MEMORY'' else if r = ASTERNET_ERR_TIMEOUT then ''TIMEOUT''
      else if r = ASTERNET_ERR_DNS then ''DNS'' else if r = ASTERNET_ERR_CONNECT then ''CONNECT''
      else if r = ASTERNET_ERR_TLS then ''TLS'' else if r = ASTERNET_ERR_PROTOCOL then ''PROTOCOL''
      else if r = ASTERNET_ERR_CANCELED then ''CANCELED'' else if r = ASTERNET_ERR_DEGRADED then ''DEGRADED''
      else if r = ASTERNET_ERR_NETWORK_CHANGED then ''NETWORK_CHANGED''
      else if r = ASTERNET_ERR_UNSUPPORTED then ''UNSUPPORTED''
      else if r = ASTERNET_ERR_BUFFER_TOO_SMALL then ''BUFFER_TOO_SMALL''
      else if r = ASTERNET_ERR_INTERNAL then ''INTERNAL'' else ''UNKNOWN'')"

section \<open>Creating a client\<close>

text \<open>
  Offsets and size of \<open>asternet_client_config_t\<close> with 64-bit pointers. A host compiled against an older
  header passes a smaller struct: the bytes behind it read as zero.
\<close>

definition offset_allow_private :: nat where "offset_allow_private = 40"
definition sizeof_client_config :: nat where "sizeof_client_config = 48"

definition copied_int :: "nat \<Rightarrow> int \<Rightarrow> int" where
  "copied_int n v = (if n \<ge> 4 then v else v mod 256 ^ n)"

definition normalize_config :: "client_config \<Rightarrow> client_config" where
  "normalize_config cfg =
     (let copy_size = min (cfg_struct_size cfg) sizeof_client_config
      in cfg\<lparr>cfg_struct_size := sizeof_client_config,
             cfg_allow_private_networks := copied_int (copy_size - offset_allow_private) (cfg_allow_private_networks cfg)\<rparr>)"

type_synonym 'w abi_state = "'w client registry \<times> 'w"

text \<open>The new handle, \<open>0\<close> for a null pointer, and the error code; \<open>i\<close> identifies the client object.\<close>

definition asternet_client_create ::
  "'w client_env \<Rightarrow> nat \<Rightarrow> client_config option \<Rightarrow> 'w client registry \<Rightarrow> 64 word \<times> int \<times> 'w client registry" where
  "asternet_client_create env i config rg =
     (case config of
        None \<Rightarrow> (0, ASTERNET_ERR_INVALID_ARGUMENT, rg)
      | Some cfg \<Rightarrow>
          if cfg_struct_size cfg < offset_allow_private then (0, ASTERNET_ERR_ABI_VERSION, rg)
          else
            let cfg = normalize_config cfg in
            if \<not> check_abi (cfg_abi_version cfg) then (0, ASTERNET_ERR_ABI_VERSION, rg)
            else (case register_client (new_client env i cfg) rg of
                (None, rg) \<Rightarrow> (0, ASTERNET_ERR_OUT_OF_MEMORY, rg)
              | (Some token, rg) \<Rightarrow> (token, ASTERNET_OK, rg)))"

section \<open>Calls on a client\<close>

text \<open>
  A call: the lease, what it does to the client, the lease's end. \<open>None\<close> when the handle is not valid.
\<close>

definition store_client :: "nat \<Rightarrow> 'c \<Rightarrow> 'c registry \<Rightarrow> 'c registry" where
  "store_client h c rg = rg\<lparr>rg_heap := (rg_heap rg)[h := (rg_heap rg ! h)\<lparr>hd_client := Some c\<rparr>]\<rparr>"

definition with_client :: "64 word \<Rightarrow> ('c \<Rightarrow> 'w \<Rightarrow> 'r \<times> 'c \<times> 'w) \<Rightarrow> 'c registry \<times> 'w \<Rightarrow> 'r option \<times> 'c registry \<times> 'w" where
  "with_client opaque f st =
     (case st of (rg, w) \<Rightarrow>
        case acquire_client opaque rg of
          (None, rg) \<Rightarrow> (None, rg, w)
        | (Some (c, h), rg) \<Rightarrow> let (r, c, w) = f c w in (Some r, release_client h (store_client h c rg), w))"

definition asternet_client_on_network_change ::
  "'w client_env \<Rightarrow> nat list \<Rightarrow> 64 word \<Rightarrow> asternet_network \<Rightarrow> 'w abi_state \<Rightarrow> 'w abi_state" where
  "asternet_client_on_network_change env active opaque network st =
     snd (with_client opaque (\<lambda>c w. ((), client_on_network_change env active network (c, w))) st)"

definition asternet_client_prefetch ::
  "'w client_env \<Rightarrow> 64 word \<Rightarrow> string option \<Rightarrow> 'w abi_state \<Rightarrow> int \<times> 'w abi_state" where
  "asternet_client_prefetch env opaque host st =
     (if opaque = 0 \<or> \<not> valid_host host then (ASTERNET_ERR_INVALID_ARGUMENT, st)
      else (case with_client opaque (\<lambda>c w. client_prefetch env (the host) (c, w)) st of
          (None, st) \<Rightarrow> (ASTERNET_ERR_INVALID_ARGUMENT, st)
        | (Some r, st) \<Rightarrow> (r, st)))"

definition asternet_client_set_quality_callback :: "64 word \<Rightarrow> bool \<Rightarrow> 'w abi_state \<Rightarrow> 'w abi_state" where
  "asternet_client_set_quality_callback opaque callback st =
     snd (with_client opaque (\<lambda>c w. ((), client_set_quality_callback callback c, w)) st)"

section \<open>Requests\<close>

definition default_timeout_ms :: "'w client \<Rightarrow> int \<Rightarrow> int" where
  "default_timeout_ms cl request_timeout_ms =
     (if request_timeout_ms > 0 then request_timeout_ms
      else if cfg_default_timeout_ms (cl_config cl) > 0 then cfg_default_timeout_ms (cl_config cl) else 15000)"

text \<open>The checks before a client is looked up.\<close>

definition request_refused :: "64 word \<Rightarrow> c_request option \<Rightarrow> bool" where
  "request_refused opaque request \<longleftrightarrow>
     (case request of
        None \<Rightarrow> True
      | Some r \<Rightarrow>
          (opaque = 0 \<or> cr_host r = None \<or> cr_method r = None \<or> cr_path r = None
           \<or> (cr_body_len r > 0 \<and> cr_body r = None) \<or> (cr_header_count r > 0 \<and> cr_headers r = None)
           \<or> \<not> valid_host (cr_host r) \<or> \<not> valid_token (cr_method r) \<or> \<not> valid_path (cr_path r))
          \<or> (cr_port r = 0 \<or> cr_timeout_ms r < 0))"

definition base_request :: "'w client \<Rightarrow> c_request \<Rightarrow> request" where
  "base_request cl r =
     (let q = default_request
           \<lparr>req_host := the (cr_host r), req_port := cr_port r, req_method := the (cr_method r), req_path := the (cr_path r),
            req_timeout_ms := default_timeout_ms cl (cr_timeout_ms r), req_allow_insecure := False,
            req_ca_cert_pem := cl_ca_cert_pem cl\<rparr>;
          configured_max_body = cfg_max_response_body_bytes (cl_config cl);
          q = (if configured_max_body > 0 then q\<lparr>req_max_body := nat configured_max_body\<rparr> else q);
          q = (if cr_body_len r > 0 then q\<lparr>req_body := take (cr_body_len r) (the (cr_body r))\<rparr> else q)
      in q\<lparr>req_idempotent := (cr_idempotent r \<noteq> 0 \<or> (req_body q = [] \<and> is_idempotent_method (the (cr_method r)))),
           req_retry_safe := ((req_body q = [] \<and> is_idempotent_method (the (cr_method r)))
             \<or> (cr_idempotent r \<noteq> 0 \<and> abi_has_idempotency_key (cr_headers r) (cr_header_count r)))\<rparr>)"

definition convert_header :: "c_header \<Rightarrow> header option" where
  "convert_header h =
     (if \<not> valid_header_name (ch_name h) \<or> ch_value h = None \<or> contains_crlf (ch_name h) \<or> contains_crlf (ch_value h)
        \<or> protected_header (the (ch_name h))
      then None else Some \<lparr>h_name = the (ch_name h), h_value = the (ch_value h)\<rparr>)"

fun convert_headers :: "c_header list \<Rightarrow> header list option" where
  "convert_headers [] = Some []"
| "convert_headers (h # hs) =
     (case convert_header h of None \<Rightarrow> None | Some x \<Rightarrow> map_option ((#) x) (convert_headers hs))"

definition internal_request :: "'w client \<Rightarrow> c_request \<Rightarrow> request option" where
  "internal_request cl r =
     map_option (\<lambda>hs. (base_request cl r)\<lparr>req_headers := hs\<rparr>)
       (convert_headers (take (cr_header_count r) (case cr_headers r of None \<Rightarrow> [] | Some hs \<Rightarrow> hs)))"

text \<open>
  After the client has answered. The caller's buffer is the list of its bytes, at least
  \<open>capacity\<close> of them where the pointer is not null.
\<close>

definition finish_request ::
  "int \<Rightarrow> response \<Rightarrow> (asternet_protocol \<times> bool) option \<Rightarrow> string option \<Rightarrow> nat \<Rightarrow> response_info option
     \<Rightarrow> int \<times> string option \<times> response_info option" where
  "finish_request result resp out out_body capacity info =
     (let (actual_protocol, degraded) = (case out of None \<Rightarrow> (PROTOCOL_UNKNOWN, False) | Some p \<Rightarrow> p);
          resp = (if result = ASTERNET_OK then resp\<lparr>resp_protocol := actual_protocol\<rparr> else resp);
          resp = resp\<lparr>resp_degraded := degraded\<rparr>;
          info = fill_response_info resp result info
      in if result \<noteq> ASTERNET_OK then (result, out_body, info)
         else if (resp_body resp \<noteq> [] \<and> out_body = None) \<or> capacity < length (resp_body resp)
         then (ASTERNET_ERR_BUFFER_TOO_SMALL, out_body, set_result ASTERNET_ERR_BUFFER_TOO_SMALL info)
         else
           (ASTERNET_OK,
            (if resp_body resp \<noteq> []
             then map_option (\<lambda>b. resp_body resp @ drop (length (resp_body resp)) b) out_body else out_body),
            map_option (\<lambda>i. i\<lparr>ri_body_copied := length (resp_body resp)\<rparr>) info))"

definition client_call_request ::
  "'w client_env \<Rightarrow> nat list \<Rightarrow> c_request \<Rightarrow> string option \<Rightarrow> nat \<Rightarrow> response_info option \<Rightarrow> 'w client \<Rightarrow> 'w
     \<Rightarrow> (int \<times> string option \<times> response_info option) \<times> 'w client \<times> 'w" where
  "client_call_request env active r out_body capacity info cl w =
     (case internal_request cl r of
        None \<Rightarrow> ((ASTERNET_ERR_INVALID_ARGUMENT, out_body, set_result ASTERNET_ERR_INVALID_ARGUMENT info), cl, w)
      | Some q \<Rightarrow>
          (case client_request_with_policy env active q (cr_protocol_policy r) default_response (cl, w) of
             (result, resp, out, cl, w) \<Rightarrow> (finish_request result resp out out_body capacity info, cl, w)))"

definition asternet_client_request_sync ::
  "'w client_env \<Rightarrow> nat list \<Rightarrow> 64 word \<Rightarrow> c_request option \<Rightarrow> string option \<Rightarrow> nat \<Rightarrow> response_info option \<Rightarrow> 'w abi_state
     \<Rightarrow> (int \<times> string option \<times> response_info option) \<times> 'w abi_state" where
  "asternet_client_request_sync env active opaque request out_body capacity info st =
     (let info = reset_response_info info;
          refusal = (ASTERNET_ERR_INVALID_ARGUMENT, out_body, set_result ASTERNET_ERR_INVALID_ARGUMENT info)
      in if request_refused opaque request then (refusal, st)
         else (case with_client opaque (client_call_request env active (the request) out_body capacity info) st of
             (None, st) \<Rightarrow> (refusal, st)
           | (Some r, st) \<Rightarrow> (r, st)))"

section \<open>Diagnostics\<close>

text \<open>What is copied, ends with a NUL and fits; the rest of the buffer stays.\<close>

definition copy_diagnostics :: "string \<Rightarrow> string \<Rightarrow> nat \<Rightarrow> nat \<times> string" where
  "copy_diagnostics diagnostics out_buffer out_capacity =
     (let copied = (if length diagnostics < out_capacity - 1 then length diagnostics else out_capacity - 1)
      in (copied, take copied diagnostics @ nul # drop (copied + 1) out_buffer))"

definition asternet_client_dump_diagnostics ::
  "'w client_env \<Rightarrow> nat list \<Rightarrow> 64 word \<Rightarrow> string option \<Rightarrow> nat \<Rightarrow> 'w abi_state \<Rightarrow> (nat \<times> string option) \<times> 'w abi_state" where
  "asternet_client_dump_diagnostics env active opaque out_buffer out_capacity st =
     (case out_buffer of
        None \<Rightarrow> ((0, None), st)
      | Some b \<Rightarrow>
          if out_capacity = 0 then ((0, Some b), st)
          else (case with_client opaque (\<lambda>c w. (dump_diag env active c, c, w)) st of
              (None, st) \<Rightarrow> ((0, Some b), st)
            | (Some d, st) \<Rightarrow> (map_prod id Some (copy_diagnostics d b out_capacity), st)))"

text \<open>\<open>None\<close> when the trace does not return.\<close>

definition asternet_client_trace_route ::
  "'w client_env \<Rightarrow> 64 word \<Rightarrow> string option \<Rightarrow> nat \<Rightarrow> string option \<Rightarrow> nat \<Rightarrow> 'w abi_state
     \<Rightarrow> ((nat \<times> string option) \<times> 'w abi_state) option" where
  "asternet_client_trace_route env opaque host port out_buffer out_capacity st =
     (case out_buffer of
        None \<Rightarrow> Some ((0, None), st)
      | Some b \<Rightarrow>
          if out_capacity = 0 \<or> \<not> valid_host host \<or> port = 0 then Some ((0, Some b), st)
          else (case with_client opaque
              (\<lambda>c w. case client_trace_route env (the host) port (c, w) of None \<Rightarrow> (None, c, w) | Some (d, s) \<Rightarrow> (Some d, s)) st of
              (None, st) \<Rightarrow> Some ((0, Some b), st)
            | (Some None, st) \<Rightarrow> None
            | (Some (Some d), st) \<Rightarrow> Some (map_prod id Some (copy_diagnostics d b out_capacity), st)))"

end
