(* ===== verification/Abi_Safety.thy ===== *)
theory Abi_Safety
  imports Abi
begin

text \<open>
  What the C ABI guarantees its host and the core behind it: only well-formed requests reach a client,
  the out parameters agree with the returned code, buffers are never overrun, and a client is created
  only from a configuration this library understands.
\<close>

section \<open>Requests that reach a client are well formed\<close>

lemma visible_no_crlf: "list_all visible_char s \<Longrightarrow> \<not> has_crlf s"
  by (auto simp: has_crlf_def list_all_iff visible_char_def char_eval)

lemma token_no_crlf: "list_all token_char s \<Longrightarrow> \<not> has_crlf s"
  using token_char_not_crlf by (auto simp: has_crlf_def list_all_iff)

definition header_ok :: "header \<Rightarrow> bool" where
  "header_ok h \<longleftrightarrow>
     h_name h \<noteq> [] \<and> list_all token_char (h_name h) \<and> \<not> has_crlf (h_value h) \<and> \<not> protected_header (h_name h)"

lemma convert_header_ok: "convert_header c = Some h \<Longrightarrow> header_ok h"
  by (auto simp: convert_header_def header_ok_def valid_header_name_def contains_crlf_def split: if_splits option.splits)

lemma convert_headers_ok: "convert_headers cs = Some hs \<Longrightarrow> list_all header_ok hs"
  by (induction cs arbitrary: hs) (auto split: option.splits intro: convert_header_ok)

lemma custom_headers_total: "list_all header_ok hs \<Longrightarrow> custom_headers hs \<noteq> None"
proof (induction hs)
  case (Cons h hs)
  then have "custom_header h \<noteq> None" by (simp add: custom_header_def header_ok_def token_no_crlf)
  with Cons show ?case by auto
qed simp

lemma base_request_fields:
  "req_host (base_request cl r) = the (cr_host r)" "req_method (base_request cl r) = the (cr_method r)"
  "req_path (base_request cl r) = the (cr_path r)" "req_connect_host (base_request cl r) = []"
  "\<not> req_allow_insecure (base_request cl r)" "0 < req_timeout_ms (base_request cl r)"
  by (simp_all add: base_request_def Let_def default_request_def default_timeout_ms_def)

text \<open>
  Property C7. A request that passes the C ABI is well formed: a host and an absolute path without blanks
  and control characters, a token as its method, a positive deadline, certificate checks on, and headers
  whose names are tokens, whose values have no line breaks and that are none of \<open>Host\<close>,
  \<open>Content-Length\<close>, \<open>Transfer-Encoding\<close>, \<open>Connection\<close>. The HTTP/1.1 engine can therefore always write it,
  and a server reads back exactly the request line, the engine's own headers, the caller's lines and the
  body: nothing a host passes in can inject a header or a second request.
\<close>

theorem abi_request_wellformed:
  assumes "\<not> request_refused opaque (Some r)" and "internal_request cl r = Some q"
  shows "valid_host (Some (req_host q)) \<and> valid_token (Some (req_method q)) \<and> valid_path (Some (req_path q))
    \<and> list_all header_ok (req_headers q) \<and> \<not> req_allow_insecure q \<and> 0 < req_timeout_ms q
    \<and> (\<exists>payload custom. request_text q = Some payload
         \<and> server_read payload = Some (request_lines q @ custom, req_body q)
         \<and> list_all (custom_line_of (req_headers q)) custom)"
proof -
  obtain hs where q: "q = (base_request cl r)\<lparr>req_headers := hs\<rparr>" and hs: "list_all header_ok hs"
    using assms(2) convert_headers_ok by (auto simp: internal_request_def)
  have valid: "valid_host (Some (req_host q))" "valid_token (Some (req_method q))" "valid_path (Some (req_path q))"
    using assms(1) by (auto simp: q base_request_fields request_refused_def)
  then have "\<not> has_crlf (req_host q)" "\<not> has_crlf (req_method q)" "\<not> has_crlf (req_path q)"
    by (simp_all add: valid_host_def valid_token_def valid_path_def visible_no_crlf token_no_crlf)
  then have "\<not> request_line_unsafe q" by (simp add: request_line_unsafe_def q base_request_fields)
  then have plain: "list_all plain_line (request_lines q)" by (rule request_lines_plain)
  from custom_headers_total [OF hs] obtain custom where c: "custom_headers (req_headers q) = Some custom"
    by (auto simp: q)
  then have written: "request_text q = Some (concat (map (\<lambda>l. l @ crlf) (request_lines q @ custom)) @ crlf @ req_body q)"
    by (simp add: request_text_def)
  have "server_read (concat (map (\<lambda>l. l @ crlf) (request_lines q @ custom)) @ crlf @ req_body q)
      = Some (request_lines q @ custom, req_body q)"
    by (rule server_read_lines) (use plain custom_headers_lines [OF c] in simp)
  with written valid hs custom_headers_lines [OF c] show ?thesis by (simp add: q base_request_fields)
qed

section \<open>The outcome of a request\<close>

lemma reset_response_info_None [simp]: "reset_response_info info = None \<longleftrightarrow> info = None"
  by (simp add: reset_response_info_def)

lemma reset_copied: "reset_response_info info = Some i \<Longrightarrow> ri_body_copied i = 0"
  by (auto simp: reset_response_info_def zero_response_info_def)

definition outcome_ok ::
  "string option \<Rightarrow> nat \<Rightarrow> response_info option \<Rightarrow> int \<times> string option \<times> response_info option \<Rightarrow> bool" where
  "outcome_ok out_body capacity info r \<longleftrightarrow>
     (case r of (result, out_body', info') \<Rightarrow>
        (info' = None \<longleftrightarrow> info = None) \<and> (\<forall>i. info' = Some i \<longrightarrow> ri_result i = result)
        \<and> (if result = ASTERNET_OK
           then (\<exists>body. length body \<le> capacity \<and> (body \<noteq> [] \<longrightarrow> out_body \<noteq> None)
                 \<and> out_body' = map_option (\<lambda>b. body @ drop (length body) b) out_body
                 \<and> (\<forall>i. info' = Some i \<longrightarrow> ri_body_size i = length body \<and> ri_body_copied i = length body))
           else out_body' = out_body))"

lemma outcome_refused: "outcome_ok b cap info (-2, b, set_result (-2) info)"
  by (auto simp: outcome_ok_def set_result_def)

lemma finish_request_outcome: "outcome_ok out_body capacity info (finish_request result resp out out_body capacity info)"
proof -
  obtain p d where pd: "(case out of None \<Rightarrow> (PROTOCOL_UNKNOWN, False) | Some p \<Rightarrow> p) = (p, d)" by (rule prod.exhaust)
  define r where "r = (if result = ASTERNET_OK then resp\<lparr>resp_protocol := p\<rparr> else resp)\<lparr>resp_degraded := d\<rparr>"
  have run: "finish_request result resp out out_body capacity info =
     (let info = fill_response_info r result info
      in if result \<noteq> ASTERNET_OK then (result, out_body, info)
         else if (resp_body r \<noteq> [] \<and> out_body = None) \<or> capacity < length (resp_body r)
         then (ASTERNET_ERR_BUFFER_TOO_SMALL, out_body, set_result ASTERNET_ERR_BUFFER_TOO_SMALL info)
         else (ASTERNET_OK,
            (if resp_body r \<noteq> [] then map_option (\<lambda>b. resp_body r @ drop (length (resp_body r)) b) out_body else out_body),
            map_option (\<lambda>i. i\<lparr>ri_body_copied := length (resp_body r)\<rparr>) info))"
    by (simp add: finish_request_def pd r_def Let_def)
  show ?thesis
    unfolding run
    by (auto simp: outcome_ok_def fill_response_info_def set_result_def Let_def option.map_ident
        intro!: exI [of _ "resp_body r"])
qed

lemma client_call_outcome:
  "client_call_request env active r out_body capacity info cl w = (res, cl', w') \<Longrightarrow> outcome_ok out_body capacity info res"
  by (auto simp: client_call_request_def outcome_refused finish_request_outcome split: option.splits prod.splits)

lemma with_client_result:
  "with_client opaque f st = (Some r, st') \<Longrightarrow> \<exists>c w c' w'. f c w = (r, c', w')"
  by (auto simp: with_client_def Let_def split: prod.splits option.splits)

lemma with_client_unknown:
  "acquire_lookup opaque (fst st) = None \<Longrightarrow> with_client opaque f st = (None, st)"
  by (auto simp: with_client_def acquire_client_def split: prod.splits)

lemma request_sync_outcome:
  "outcome_ok out_body capacity info (fst (asternet_client_request_sync env active opaque request out_body capacity info st))"
proof -
  let ?info = "reset_response_info info"
  have weaken: "outcome_ok out_body capacity ?info r \<Longrightarrow> outcome_ok out_body capacity info r" for r
    by (simp add: outcome_ok_def split: prod.splits)
  have "outcome_ok out_body capacity ?info (fst (asternet_client_request_sync env active opaque request out_body capacity info st))"
  proof (cases "request_refused opaque request")
    case True
    then show ?thesis by (simp add: asternet_client_request_sync_def outcome_refused Let_def)
  next
    case False
    obtain r st' where w: "with_client opaque (client_call_request env active (the request) out_body capacity ?info) st = (r, st')"
      by (rule prod.exhaust)
    show ?thesis
    proof (cases r)
      case None
      with w False show ?thesis by (simp add: asternet_client_request_sync_def outcome_refused Let_def)
    next
      case (Some x)
      from with_client_result [OF w [unfolded Some]] obtain c v c' v' where
        "client_call_request env active (the request) out_body capacity ?info c v = (x, c', v')" by blast
      from client_call_outcome [OF this] w Some False show ?thesis by (simp add: asternet_client_request_sync_def Let_def)
    qed
  qed
  then show ?thesis by (rule weaken)
qed


text \<open>A host that posts a form.\<close>

definition form_request :: c_request where
  "form_request =
     \<lparr>cr_host = Some ''a.example'', cr_port = 443, cr_method = Some ''POST'', cr_path = Some ''/x'',
      cr_headers = Some [\<lparr>ch_name = Some ''X-Id'', ch_value = Some ''7''\<rparr>], cr_header_count = 1, cr_body = Some ''k=v'',
      cr_body_len = 3, cr_protocol_policy = POLICY_AUTO, cr_timeout_ms = 0, cr_idempotent = 0,
      cr_allow_insecure_tls_for_testing = 1\<rparr>"

definition plain_config :: client_config where
  "plain_config =
     \<lparr>cfg_struct_size = 40, cfg_abi_version = 0x10002, cfg_default_timeout_ms = 0, cfg_max_response_body_bytes = 0,
      cfg_enable_http3 = 0, cfg_allow_insecure_tls_for_testing = 1, cfg_ca_cert_pem = None, cfg_allow_private_networks = 1\<rparr>"

lemma form_not_refused: "\<not> request_refused 3 (Some form_request)"
  by (simp add: request_refused_def form_request_def valid_host_def valid_token_def valid_path_def visible_char_def
      token_char_def isalnum_def isdigit_def char_eval)

lemma form_converted: "convert_headers [\<lparr>ch_name = Some ''X-Id'', ch_value = Some ''7''\<rparr>] = Some [\<lparr>h_name = ''X-Id'', h_value = ''7''\<rparr>]"
  by (simp add: convert_header_def valid_header_name_def contains_crlf_def protected_header_def token_char_def isalnum_def
      isdigit_def tolower_def char_eval Let_def)

lemma abi_request_wellformed_witness:
  "\<forall>cl. \<exists>q. internal_request cl form_request = Some q \<and> req_body q = ''k=v'' \<and> \<not> req_allow_insecure q"
proof
  fix cl :: "'w client"
  have q: "internal_request cl form_request = Some ((base_request cl form_request)\<lparr>req_headers := [\<lparr>h_name = ''X-Id'', h_value = ''7''\<rparr>]\<rparr>)"
    using form_converted by (simp add: internal_request_def form_request_def)
  moreover have "req_body (base_request cl form_request) = ''k=v''"
    by (simp add: base_request_def form_request_def Let_def)
  ultimately show "\<exists>q. internal_request cl form_request = Some q \<and> req_body q = ''k=v'' \<and> \<not> req_allow_insecure q"
    using abi_request_wellformed [OF form_not_refused q] by simp
qed


section \<open>Creating a client\<close>

lemma copied_int_zero [simp]: "copied_int 0 v = 0"
  by (simp add: copied_int_def)

lemma new_client_setup:
  "dc_allow_private (rs_config (cl_resolver (new_client env i cfg))) \<longleftrightarrow> cfg_allow_private_networks cfg \<noteq> 0"
  "cl_config (new_client env i cfg) = cfg"
  by (simp_all add: new_client_def SmartDnsResolverImpl_def Let_def)

lemma check_abi_spec:
  "check_abi v \<longleftrightarrow> drop_bit 16 v = 1 \<and> and v 0xffff \<le> 2"
  by (simp add: check_abi_def ASTERNET_ABI_VERSION_def Let_def)

text \<open>
  Property C34. A client is created exactly when an error code OK is returned and then under a new token
  that is not null; any failure leaves the registry as it was. The configuration's size and version are
  checked first: the struct must reach up to the certificate bundle, the major version must agree and the
  minor version be at most 2. A host built against the struct without \<open>allow_private_networks\<close> gets a client
  that refuses private addresses, whatever lies behind its struct in memory.
\<close>

theorem abi_create_checked:
  assumes "asternet_client_create env i config rg = (token, err, rg')"
  shows "(token \<noteq> 0 \<longleftrightarrow> err = ASTERNET_OK) \<and> (err \<noteq> ASTERNET_OK \<longrightarrow> rg' = rg)
    \<and> (err = ASTERNET_OK \<longrightarrow> (\<exists>cfg cl. config = Some cfg \<and> cfg_struct_size cfg \<ge> 40
         \<and> drop_bit 16 (cfg_abi_version cfg) = 1 \<and> and (cfg_abi_version cfg) 0xffff \<le> 2
         \<and> register_client cl rg = (Some token, rg')
         \<and> (dc_allow_private (rs_config (cl_resolver cl)) \<longrightarrow> cfg_struct_size cfg > 40 \<and> cfg_allow_private_networks cfg \<noteq> 0)))"
proof (cases "err = ASTERNET_OK")
  case False
  with assms show ?thesis
    by (auto simp: asternet_client_create_def Let_def register_client_def split: option.splits if_splits prod.splits)
next
  case True
  with assms obtain cfg where c: "config = Some cfg" "cfg_struct_size cfg \<ge> offset_allow_private"
    "check_abi (cfg_abi_version (normalize_config cfg))"
    and reg: "register_client (new_client env i (normalize_config cfg)) rg = (Some token, rg')"
    by (auto simp: asternet_client_create_def Let_def split: option.splits if_splits prod.splits)
  let ?cl = "new_client env i (normalize_config cfg)"
  have "unat token = 2 * unat (rg_next rg) + 1" by (rule register_token(1) [OF reg])
  then have t: "token \<noteq> 0" by auto
  have "cfg_struct_size cfg > 40 \<and> cfg_allow_private_networks cfg \<noteq> 0" if "dc_allow_private (rs_config (cl_resolver ?cl))"
  proof -
    have v: "copied_int (min (cfg_struct_size cfg) 48 - 40) (cfg_allow_private_networks cfg) \<noteq> 0"
      using that by (simp add: new_client_setup normalize_config_def Let_def sizeof_client_config_def offset_allow_private_def)
    then have "cfg_struct_size cfg > 40" by (cases "cfg_struct_size cfg > 40") (simp_all add: min_def)
    moreover have "cfg_allow_private_networks cfg \<noteq> 0" using v by (auto simp: copied_int_def split: if_splits)
    ultimately show ?thesis ..
  qed
  with t True c reg show ?thesis
    by (auto simp: check_abi_spec normalize_config_def Let_def offset_allow_private_def intro!: exI [of _ ?cl])
qed

section \<open>Diagnostics\<close>

definition fits :: "string \<Rightarrow> nat \<Rightarrow> nat \<times> string option \<Rightarrow> bool" where
  "fits b capacity r \<longleftrightarrow>
     (\<exists>b'. snd r = Some b' \<and> length b' = length b \<and> drop capacity b' = drop capacity b \<and> fst r < capacity
        \<and> (fst r = 0 \<and> b' = b \<or> b' ! fst r = nul))"

lemma copy_diagnostics_fits:
  assumes "0 < capacity" and "capacity \<le> length b"
  shows "fits b capacity (map_prod id Some (copy_diagnostics d b capacity))"
proof -
  define n where "n = (if length d < capacity - 1 then length d else capacity - 1)"
  have n: "n < capacity" "n \<le> length d" using assms(1) by (auto simp: n_def)
  have c: "copy_diagnostics d b capacity = (n, take n d @ nul # drop (n + 1) b)"
    by (simp add: copy_diagnostics_def n_def Let_def)
  have "drop capacity (take n d @ nul # drop (n + 1) b) = drop capacity b"
    using n by (simp add: drop_Cons' )
  then show ?thesis using n assms(2) unfolding c fits_def by (auto simp: nth_append min_def)
qed

text \<open>
  Diagnostics and route traces never write past the host's buffer: whatever the client
  prints, the returned length is below the capacity, nothing at or behind the capacity changes, and
  either the buffer is as it was or it holds a terminating NUL at the returned length.
\<close>

theorem abi_diagnostics_fit:
  assumes "0 < capacity" and "capacity \<le> length b"
  shows "fits b capacity (fst (asternet_client_dump_diagnostics env active opaque (Some b) capacity st))
    \<and> (case asternet_client_trace_route env opaque host port (Some b) capacity st of None \<Rightarrow> True | Some r \<Rightarrow> fits b capacity (fst r))"
proof -
  have unchanged: "fits b capacity (0, Some b)" using assms by (simp add: fits_def)
  show ?thesis
    using unchanged copy_diagnostics_fits [OF assms] assms(1)
    unfolding asternet_client_dump_diagnostics_def asternet_client_trace_route_def
    by (simp split: option.split prod.split) metis
qed

lemma abi_create_checked_witness:
  "\<forall>env :: unit client_env. \<exists>cl rg. asternet_client_create env 0 (Some plain_config) empty_registry = (3, ASTERNET_OK, rg)
     \<and> register_client cl empty_registry = (Some 3, rg) \<and> \<not> dc_allow_private (rs_config (cl_resolver cl))"
proof
  fix env :: "unit client_env"
  obtain token err rg where run: "asternet_client_create env 0 (Some plain_config) empty_registry = (token, err, rg)"
    by (rule prod_cases3)
  have "check_abi (cfg_abi_version (normalize_config plain_config))"
    by (simp add: check_abi_spec normalize_config_def plain_config_def Let_def)
  moreover have "cfg_struct_size plain_config = 40" by (simp add: plain_config_def)
  moreover have "\<exists>rg. register_client c empty_registry = (Some 3, rg)" for c :: "unit client"
    by (simp add: register_client_def empty_registry_def Let_def)
  then obtain rg1 where "register_client (new_client env 0 (normalize_config plain_config)) empty_registry = (Some 3, rg1)" ..
  ultimately have "token = 3" "err = ASTERNET_OK"
    using run by (simp_all add: asternet_client_create_def offset_allow_private_def Let_def)
  with abi_create_checked [OF run] run show "\<exists>cl rg. asternet_client_create env 0 (Some plain_config) empty_registry = (3, ASTERNET_OK, rg)
     \<and> register_client cl empty_registry = (Some 3, rg) \<and> \<not> dc_allow_private (rs_config (cl_resolver cl))"
    by (auto simp: plain_config_def)
qed

lemma abi_diagnostics_fit_witness:
  "\<forall>env :: unit client_env. fits ''abcd'' 3 (fst (asternet_client_dump_diagnostics env [] 3 (Some ''abcd'') 3 (empty_registry, ())))"
  by (rule allI, rule conjunct1, rule abi_diagnostics_fit) simp_all

end
