(* ===== verification/Abi_Session.thy ===== *)
theory Abi_Session
  imports Client_Safety Abi_Safety
begin

text \<open>
  Whole sessions: the calls of a host on the C ABI, one after the other, from the empty registry on. The
  guarantees of the ABI's checks and those of the client compose to one statement on what reaches the
  engines of all clients that ever lived.
\<close>

section \<open>Sessions\<close>

datatype abi_call =
    Call_Create nat "client_config option"
  | Call_Destroy "64 word"
  | Call_Network_Change "nat list" "64 word" asternet_network
  | Call_Prefetch "64 word" "string option"
  | Call_Set_Quality_Callback "64 word" bool
  | Call_Dump "nat list" "64 word" "string option" nat
  | Call_Trace "64 word" "string option" nat "string option" nat
  | Call_Request "nat list" "64 word" "c_request option" "string option" nat "response_info option"

text \<open>
  The client that a call of \<open>asternet_client_destroy\<close> deletes: calls do not overlap here, so no lease is
  in its way. Its engines are destroyed with it.
\<close>

definition freed_client :: "64 word \<Rightarrow> 'c registry \<Rightarrow> 'c option" where
  "freed_client opaque rg =
     (case map_of (rg_map rg) opaque of
        None \<Rightarrow> None
      | Some h \<Rightarrow> if hd_active (rg_heap rg ! h) = 0 then hd_client (rg_heap rg ! h) else None)"

definition destroy_freed :: "'w client_env \<Rightarrow> 64 word \<Rightarrow> 'w abi_state \<Rightarrow> 'w" where
  "destroy_freed env opaque st =
     (case freed_client opaque (fst st) of
        None \<Rightarrow> snd st
      | Some c \<Rightarrow> ce_destroy env (cl_id c) (client_engine_config env (cl_ca_cert_pem c)) (snd st))"

text \<open>What a call leaves behind; \<open>None\<close> if it does not return.\<close>

fun abi_perform :: "'w client_env \<Rightarrow> abi_call \<Rightarrow> 'w abi_state \<Rightarrow> 'w abi_state option" where
  "abi_perform env (Call_Create i config) st = Some (snd (snd (asternet_client_create env i config (fst st))), snd st)"
| "abi_perform env (Call_Destroy h) st = Some (asternet_client_destroy h (fst st), destroy_freed env h st)"
| "abi_perform env (Call_Network_Change active h net) st = Some (asternet_client_on_network_change env active h net st)"
| "abi_perform env (Call_Prefetch h host) st = Some (snd (asternet_client_prefetch env h host st))"
| "abi_perform env (Call_Set_Quality_Callback h cb) st = Some (asternet_client_set_quality_callback h cb st)"
| "abi_perform env (Call_Dump active h b n) st = Some (snd (asternet_client_dump_diagnostics env active h b n st))"
| "abi_perform env (Call_Trace h host port b n) st = map_option snd (asternet_client_trace_route env h host port b n st)"
| "abi_perform env (Call_Request active h r b n info) st = Some (snd (asternet_client_request_sync env active h r b n info st))"

fun abi_session :: "'w client_env \<Rightarrow> abi_call list \<Rightarrow> 'w abi_state \<Rightarrow> 'w abi_state option" where
  "abi_session env [] st = Some st"
| "abi_session env (c # cs) st = (case abi_perform env c st of None \<Rightarrow> None | Some st \<Rightarrow> abi_session env cs st)"

section \<open>The clients of a registry\<close>

definition registry_all :: "('c \<Rightarrow> bool) \<Rightarrow> 'c registry \<Rightarrow> bool" where
  "registry_all P rg \<longleftrightarrow>
     (\<forall>k h. map_of (rg_map rg) k = Some h \<longrightarrow> h < length (rg_heap rg))
     \<and> (\<forall>h < length (rg_heap rg). \<forall>c. hd_client (rg_heap rg ! h) = Some c \<longrightarrow> P c)"

lemma registry_all_empty: "registry_all P empty_registry"
  by (simp add: registry_all_def empty_registry_def)

lemma registry_all_heap:
  assumes "registry_all P rg" and "\<And>c. hd_client hnd = Some c \<Longrightarrow> P c"
  shows "registry_all P (rg\<lparr>rg_heap := (rg_heap rg)[h := hnd]\<rparr>)"
proof -
  have "P c" if "k < length (rg_heap rg)" "hd_client ((rg_heap rg)[h := hnd] ! k) = Some c" for k c
    using that assms by (cases "h = k") (auto simp: registry_all_def)
  then show ?thesis using assms(1) by (simp add: registry_all_def)
qed

lemma registry_all_nth: "registry_all P rg \<Longrightarrow> h < length (rg_heap rg) \<Longrightarrow> hd_client (rg_heap rg ! h) = Some c \<Longrightarrow> P c"
  by (simp add: registry_all_def)

lemma registry_all_register:
  assumes "registry_all P rg" and "P c" and "register_client c rg = (r, rg')"
  shows "registry_all P rg'"
  using assms
  by (auto simp: register_client_def Let_def registry_all_def nth_append update_conv less_Suc_eq split: if_splits)

lemma registry_all_mark:
  assumes "registry_all P rg" and "h < length (rg_heap rg)"
  shows "registry_all P (destroy_mark h rg)" and "registry_all P (release_client h rg)"
  using registry_all_nth [OF assms] unfolding destroy_mark_def release_client_def Let_def
  by (auto intro!: registry_all_heap [OF assms(1)] simp: assms(1) split: if_splits)

lemma registry_all_destroy: "registry_all P rg \<Longrightarrow> registry_all P (asternet_client_destroy t rg)"
proof -
  assume all: "registry_all P rg"
  show ?thesis
  proof (cases "map_of (rg_map rg) t")
    case None
    with all show ?thesis by (simp add: asternet_client_destroy_def destroy_lookup_def)
  next
    case (Some h)
    let ?rg = "rg\<lparr>rg_map := AList.delete t (rg_map rg)\<rparr>"
    have "registry_all P ?rg" "h < length (rg_heap ?rg)"
      using all Some by (auto simp: registry_all_def delete_conv)
    with Some show ?thesis by (simp add: asternet_client_destroy_def destroy_lookup_def registry_all_mark)
  qed
qed

lemma acquire_client_good:
  assumes "registry_all P rg" and "acquire_client t rg = (Some (c, h), rg')"
  shows "P c \<and> registry_all P rg' \<and> h < length (rg_heap rg')"
proof -
  from assms(2) obtain rg1 where m: "map_of (rg_map rg) t = Some h" and l: "acquire_lock h rg = (Some c, rg')"
    by (auto simp: acquire_client_def acquire_lookup_def split: option.splits prod.splits if_splits)
  from m assms(1) have h: "h < length (rg_heap rg)" by (simp add: registry_all_def)
  from l have c: "hd_client (rg_heap rg ! h) = Some c"
    and rg': "rg' = rg\<lparr>rg_heap := (rg_heap rg)[h := (rg_heap rg ! h)\<lparr>hd_active := hd_active (rg_heap rg ! h) + 1\<rparr>]\<rparr>"
    by (auto simp: acquire_lock_def Let_def split: if_splits)
  have "P c" by (rule registry_all_nth [OF assms(1) h c])
  then show ?thesis using h c unfolding rg' by (auto intro: registry_all_heap [OF assms(1)])
qed

lemma acquire_client_refused: "acquire_client t rg = (None, rg') \<Longrightarrow> rg' = rg"
  by (auto simp: acquire_client_def acquire_lock_def Let_def split: option.splits prod.splits if_splits)

text \<open>One call under a lease.\<close>

lemma with_client_good:
  assumes all: "registry_all P rg" and run: "with_client t f (rg, w) = (r, rg', w')"
    and "Q None w" and step: "\<And>c x c' v. P c \<Longrightarrow> f c w = (x, c', v) \<Longrightarrow> P c' \<and> Q (Some x) v"
  shows "registry_all P rg' \<and> Q r w'"
proof -
  obtain a rg1 where a: "acquire_client t rg = (a, rg1)" by (rule prod.exhaust)
  show ?thesis
  proof (cases a)
    case None
    with a run all acquire_client_refused \<open>Q None w\<close> show ?thesis by (auto simp: with_client_def)
  next
    case (Some ch)
    obtain c h where ch: "ch = (c, h)" by (rule prod.exhaust)
    obtain x c' v where f: "f c w = (x, c', v)" by (rule prod_cases3)
    from acquire_client_good [OF all a [unfolded Some ch]]
    have g: "P c" "registry_all P rg1" "h < length (rg_heap rg1)" by simp_all
    from step [OF g(1) f] have "P c'" "Q (Some x) v" by simp_all
    moreover have "registry_all P (store_client h c' rg1)"
      using g(2) \<open>P c'\<close> unfolding store_client_def by (intro registry_all_heap) simp_all
    moreover have "h < length (rg_heap (store_client h c' rg1))" using g(3) by (simp add: store_client_def)
    moreover have "r = Some x" "rg' = release_client h (store_client h c' rg1)" "w' = v"
      using run a f by (simp_all add: with_client_def Some ch)
    ultimately show ?thesis using registry_all_mark(2) by blast
  qed
qed

section \<open>What every client keeps\<close>

text \<open>
  \<open>R\<close> follows the engines' calls, and nothing else counts for it: not the clock, the resolver's system
  calls, the engines' other operations, nor a route trace, which returns.
\<close>

definition engines_observed :: "'w client_env \<Rightarrow> (request list \<Rightarrow> 'w \<Rightarrow> 'w \<Rightarrow> bool) \<Rightarrow> bool" where
  "engines_observed env R \<longleftrightarrow>
     world_trace R
     \<and> (\<forall>i cfg q w. ec_testing_build cfg = ce_testing_build env \<longrightarrow> R [q] w (snd (snd (ce_http1 env i cfg q w))) \<and> R [q] w (snd (snd (ce_http2 env i cfg q w)))
        \<and> R [q] w (snd (snd (ce_quic env i cfg q w))) \<and> R [] w (ce_destroy env i cfg w))
     \<and> (\<forall>u. client_quiet env (R [] u))
     \<and> (\<forall>i w. R [] w (snd (ce_migrate_http1 env i w)) \<and> R [] w (snd (ce_migrate_http2 env i w))
        \<and> R [] w (snd (ce_migrate_quic env i w)) \<and> (\<forall>host. R [] w (snd (ce_prefetch_quic env i host w))))
     \<and> (case ce_trace env of None \<Rightarrow> True
        | Some te \<Rightarrow> (\<exists>T d. ticking te T d) \<and> (\<forall>u. \<exists>I. trace_discipline te I \<and> I 0 u \<and> (\<forall>w. I 0 w \<longrightarrow> R [] u w)))"

lemma engines_observedD:
  assumes "engines_observed env R"
  shows "world_trace R" "ec_testing_build cfg = ce_testing_build env \<Longrightarrow> R [q] w (snd (snd (ce_http1 env i cfg q w)))"
    "ec_testing_build cfg = ce_testing_build env \<Longrightarrow> R [q] w (snd (snd (ce_http2 env i cfg q w)))"
    "ec_testing_build cfg = ce_testing_build env \<Longrightarrow> R [q] w (snd (snd (ce_quic env i cfg q w)))" "client_quiet env (R [] u)"
    "R [] w (snd (ce_migrate_http1 env i w))" "R [] w (snd (ce_migrate_http2 env i w))"
    "R [] w (snd (ce_migrate_quic env i w))" "R [] w (snd (ce_prefetch_quic env i host w))" "R [] w w"
    "ec_testing_build cfg = ce_testing_build env \<Longrightarrow> R [] w (ce_destroy env i cfg w)"
  using assms world_trace.stays by (fastforce simp: engines_observed_def)+

lemma destroy_freed_quiet: "engines_observed env R \<Longrightarrow> R [] (snd st) (destroy_freed env h st)"
  using engines_observedD(10,11) [of env R]
  by (auto simp: destroy_freed_def client_engine_config_def split: option.splits)

definition quiet_handler :: "(request list \<Rightarrow> 'w \<Rightarrow> 'w \<Rightarrow> bool) \<Rightarrow> ('w \<Rightarrow> int \<times> 'w) option \<Rightarrow> bool" where
  "quiet_handler R mh \<longleftrightarrow> (case mh of None \<Rightarrow> True | Some handler \<Rightarrow> \<forall>w. R [] w (snd (handler w)))"

definition client_good :: "'w client_env \<Rightarrow> (request list \<Rightarrow> 'w \<Rightarrow> 'w \<Rightarrow> bool) \<Rightarrow> bool \<Rightarrow> 'w client \<Rightarrow> bool" where
  "client_good env R private cl \<longleftrightarrow>
     (\<exists>sel allow mh. observes env R sel \<and> (allow \<longrightarrow> private) \<and> quiet_handler R mh \<and> client_ok sel allow mh {} cl)"

lemma client_goodE:
  assumes "client_good env R private cl"
  obtains sel allow mh where "observes env R sel" "allow \<longrightarrow> private" "quiet_handler R mh"
    "client_ok sel allow mh {} cl"
  using assms unfolding client_good_def by blast

lemma client_goodI:
  assumes "observes env R sel" "allow \<longrightarrow> private" "quiet_handler R mh" "client_ok sel allow mh {} cl"
  shows "client_good env R private cl"
  using assms unfolding client_good_def by blast

lemma migration_handler_quiet:
  assumes "engines_observed env R"
  shows "R [] w (snd (migration_handler env i cfg w))"
proof -
  note D = engines_observedD [OF assms]
  obtain a u where a: "ce_migrate_http1 env i w = (a, u)" by (rule prod.exhaust)
  obtain b v where b: "ce_migrate_http2 env i u = (b, v)" by (rule prod.exhaust)
  have "R [] w u" "R [] u v" using D(6) [where i = i and w = w] D(7) [where i = i and w = u] a b by simp_all
  then have "R [] w v" by (rule world_trace.then_quiet [OF D(1)])
  moreover from this have "R [] w (snd (ce_migrate_quic env i v))" by (rule world_trace.then_quiet [OF D(1) _ D(8)])
  ultimately show ?thesis by (simp add: migration_handler_def a b case_prod_beta)
qed

lemma prefetch_handler_quiet:
  "engines_observed env R \<Longrightarrow> R [] w (snd (prefetch_handler env i cfg prober host w))"
  using engines_observedD(9,10) [of env R] by (simp add: prefetch_handler_def)

lemma new_pool_inv:
  "pool_inv (set_migration_handler mh (ConnectionPoolImpl n)) \<and> pool_held (set_migration_handler mh (ConnectionPoolImpl n)) = {}
     \<and> pl_migration_handler (set_migration_handler mh (ConnectionPoolImpl n)) = mh"
proof (intro conjI)
  show "pool_inv (set_migration_handler mh (ConnectionPoolImpl n))"
    by (rule pool_inv_cong [THEN iffD2, OF _ _ _ _ pool_inv_init]) (simp_all add: set_migration_handler_def)
qed (simp_all add: set_migration_handler_def pool_held_def ConnectionPoolImpl_def)

lemma new_client_good:
  assumes "engines_observed env R" and "cfg_allow_private_networks cfg \<noteq> 0 \<longrightarrow> private"
  shows "client_good env R private (new_client env i cfg)"
proof -
  let ?cl = "new_client env i cfg"
  note D = engines_observedD [OF assms(1)]
  have "R [] w (snd (ce_clock env w))" for w
    using client_quietD(1) [OF D(5) D(10)] by (metis prod.collapse)
  then have "observes env R (cl_selector ?cl)"
    using D(1-5)
    by (auto simp: observes_def client_engine_config_def logs_calls_def new_client_def Let_def ProtocolSelector_def step_engine_def
        split: engine_type.splits if_splits)
  moreover have "client_ok (cl_selector ?cl) (cfg_allow_private_networks cfg \<noteq> 0) (Some (migration_handler env i cfg)) {} ?cl"
    using new_pool_inv [of "Some (migration_handler env i cfg)" 128]
    by (simp add: client_ok_def new_client_def Let_def SmartDnsResolverImpl_def)
  moreover have "quiet_handler R (Some (migration_handler env i cfg))"
    by (simp add: quiet_handler_def migration_handler_quiet [OF assms(1)])
  ultimately show ?thesis by (intro client_goodI [OF _ assms(2)])
qed

lemma set_callback_good:
  assumes "client_good env R private cl"
  shows "client_good env R private (client_set_quality_callback cb cl)"
proof (rule client_goodE [OF assms])
  fix sel allow mh
  assume c: "observes env R sel" "allow \<longrightarrow> private" "quiet_handler R mh" and ok: "client_ok sel allow mh {} cl"
  then have "client_ok sel allow mh {} (cl\<lparr>cl_callback := cb\<rparr>)" by (simp add: client_ok_def)
  with ok publish_ok [OF this] have "client_ok sel allow mh {} (client_set_quality_callback cb cl)"
    by (cases cb) (simp_all add: client_set_quality_callback_def Let_def)
  with c show ?thesis by (rule client_goodI)
qed

lemma pool_handlers_quiet:
  assumes "\<And>w. R [] w w"
  shows "pool_migrate net p w = (r, p', w') \<Longrightarrow> quiet_handler R (pl_migration_handler p) \<Longrightarrow> R [] w w'"
    and "pool_prefetch host (set_prefetch_handler (Some h) p) w = (r, p', w') \<Longrightarrow> (\<And>w. R [] w (snd (h host w))) \<Longrightarrow> R [] w w'"
  using assms
  by (auto simp: pool_migrate_def pool_prefetch_def set_prefetch_handler_def quiet_handler_def Let_def case_prod_beta
      split: option.splits if_splits)

lemma network_change_good:
  assumes good: "client_good env R private cl" and obs: "engines_observed env R"
    and run: "client_on_network_change env active net (cl, w) = (cl', w')"
  shows "client_good env R private cl' \<and> R [] w w'"
proof (cases "is_active_client active cl \<or> cl_destroyed cl")
  case True
  with good run engines_observedD(10) [OF obs] show ?thesis by (auto simp: client_on_network_change_def)
next
  case False
  obtain now w1 where n: "ce_clock env w = (now, w1)" by (rule prod.exhaust)
  obtain pr note0 where pr: "prober_on_network_change 1 now (cl_network_epoch cl + 1) net (cl_prober cl) = (pr, note0)"
    by (rule prod.exhaust)
  let ?p1 = "pool_on_network_change (cl_network_epoch cl + 1) net (cl_pool cl)"
  obtain r p2 w2 where m: "pool_migrate net ?p1 w1 = (r, p2, w2)" by (rule prod_cases3)
  define cl1 where "cl1 = cl\<lparr>cl_network_epoch := cl_network_epoch cl + 1, cl_prober := pr, cl_last_quality := pr_snapshot pr,
      cl_resolver := dns_on_quality_change (pr_snapshot pr) (dns_on_network_change (cl_network_epoch cl + 1) (cl_resolver cl)),
      cl_pool := p2\<rparr>"
  have out: "w' = w2" "\<exists>q. cl' = publish_quality_change q cl1 \<or> cl' = cl1"
    using run False n pr m by (auto simp: client_on_network_change_def Let_def cl1_def split: if_splits)
  note D = engines_observedD [OF obs]
  have w1: "R [] w w1" by (rule client_quietD(1) [OF D(5) D(10) n])
  from good obtain sel allow mh where c: "observes env R sel" "allow \<longrightarrow> private"
    "quiet_handler R mh" "client_ok sel allow mh {} cl"
    by (rule client_goodE)
  have "pl_migration_handler ?p1 = mh" using c(4) by (simp add: client_ok_def pool_on_network_change_def)
  then have "R [] w1 w2" using pool_handlers_quiet(1) [where R = R, OF D(10) m] c(3) by simp
  then have w2: "R [] w w2" by (rule world_trace.then_quiet [OF D(1) w1])
  have "pool_inv p2" using migrate_inv [OF m network_change_inv] c(4) by (simp add: client_ok_def)
  moreover have "pool_held p2 = {}" "pl_migration_handler p2 = mh"
    using m c(4) by (auto simp: pool_migrate_def pool_on_network_change_def pool_held_def client_ok_def Let_def split: prod.splits)
  ultimately have "client_ok sel allow mh {} cl1"
    using c(4) by (simp add: client_ok_def cl1_def dns_on_quality_change_def dns_on_network_change_def)
  then have "client_ok sel allow mh {} cl'" using out(2) publish_ok by blast
  with client_goodI [OF c(1,2,3)] w2 out(1) show ?thesis by simp
qed

lemma prefetch_good:
  assumes good: "client_good env R private cl" and obs: "engines_observed env R"
    and run: "client_prefetch env host (cl, w) = (r, cl', w')"
  shows "client_good env R private cl' \<and> R [] w w'"
proof (cases "host = [] \<or> cl_destroyed cl")
  case True
  with good run engines_observedD(10) [OF obs] show ?thesis by (auto simp: client_prefetch_def split: if_splits)
next
  case False
  obtain res rs1 w1 where d: "resolve_with_metadata (ce_dns env) (cl_resolver cl) host (cl_network_epoch cl) 0 w = (res, rs1, w1)"
    by (rule prod_cases3)
  let ?p1 = "set_prefetch_handler (Some (prefetch_handler env (cl_id cl) (cl_config cl) (cl_prober cl))) (cl_pool cl)"
  obtain x p2 w2 where p: "pool_prefetch host ?p1 w1 = (x, p2, w2)" by (rule prod_cases3)
  have out: "cl' = cl\<lparr>cl_resolver := rs1\<rparr> \<and> w' = w1 \<or> cl' = cl\<lparr>cl_resolver := rs1, cl_pool := p2\<rparr> \<and> w' = w2"
    using run False d p by (auto simp: client_prefetch_def dns_prefetch_def Let_def split: if_splits)
  from good obtain sel allow mh where c: "observes env R sel" "allow \<longrightarrow> private"
    "quiet_handler R mh" "client_ok sel allow mh {} cl"
    by (rule client_goodE)
  have http: "rs_httpdns (cl_resolver cl) = None" using c(4) by (simp add: client_ok_def)
  note D = engines_observedD [OF obs]
  note rq = resolve_quiet [OF D(5) d D(10) http] and rc = resolve_config [OF d]
  have "R [] w1 w2"
    by (rule pool_handlers_quiet(2) [where R = R, OF D(10) p]) (rule prefetch_handler_quiet [OF obs])
  then have w2: "R [] w w2" by (rule world_trace.then_quiet [OF D(1) rq(1)])
  have "pool_inv (cl_pool cl)" using c(4) by (simp add: client_ok_def)
  then have "pool_inv ?p1" by (rule pool_inv_cong [THEN iffD2, rotated 4]) (simp_all add: set_prefetch_handler_def)
  then have "pool_inv p2" by (rule prefetch_inv [OF p])
  moreover have "pool_held p2 = {}" "pl_migration_handler p2 = mh"
    using p c(4) by (auto simp: pool_prefetch_def set_prefetch_handler_def pool_held_def client_ok_def Let_def split: if_splits prod.splits)
  ultimately have "client_ok sel allow mh {} cl'" using out c(4) rq(2) rc by (auto simp: client_ok_def)
  then have "client_good env R private cl'" by (rule client_goodI [OF c(1,2,3)])
  moreover have "R [] w w'" using rq(1) w2 out by auto
  ultimately show ?thesis ..
qed

section \<open>One request\<close>

definition c_body :: "c_request \<Rightarrow> string" where
  "c_body r = (if cr_body_len r > 0 then take (cr_body_len r) (the (cr_body r)) else [])"

text \<open>A request that a host declares to be safe to send twice, by its method or by an idempotency key.\<close>

definition c_replayable :: "c_request \<Rightarrow> bool" where
  "c_replayable r \<longleftrightarrow>
     (c_body r = [] \<and> is_idempotent_method (the (cr_method r)))
     \<or> (cr_idempotent r \<noteq> 0 \<and> abi_has_idempotency_key (cr_headers r) (cr_header_count r))"

definition engine_call_sound :: "address_parser \<Rightarrow> bool \<Rightarrow> c_request \<Rightarrow> request \<Rightarrow> bool" where
  "engine_call_sound parser private r q \<longleftrightarrow>
     (\<exists>allow. is_safe_ip parser (req_connect_host q) allow \<and> (allow \<longrightarrow> private))
     \<and> cr_host r = Some (req_host q) \<and> req_port q = cr_port r \<and> cr_method r = Some (req_method q) \<and> cr_path r = Some (req_path q)
     \<and> req_body q = c_body r
     \<and> valid_host (Some (req_host q)) \<and> valid_token (Some (req_method q)) \<and> valid_path (Some (req_path q))
     \<and> list_all header_ok (req_headers q) \<and> \<not> req_allow_insecure q"

lemma convert_headers_key:
  "convert_headers cs = Some hs \<Longrightarrow> has_idempotency_key hs \<Longrightarrow> list_ex idempotency_header cs"
proof (induction cs arbitrary: hs)
  case (Cons c cs)
  then obtain x t where x: "convert_header c = Some x" "convert_headers cs = Some t" "hs = x # t" by (auto split: option.splits)
  have "idempotency_header c" if "lower_header_name (h_name x) = ''idempotency-key''" "has_visible_char (h_value x)"
    using x(1) that
    by (cases "h_value x") (auto simp: convert_header_def idempotency_header_def lower_header_name_def has_visible_char_def
        valid_header_name_def split: if_splits option.splits)
  with x Cons show ?case by (auto simp: has_idempotency_key_def)
qed (simp add: has_idempotency_key_def)

lemma internal_request_fields:
  assumes "internal_request cl r = Some q"
  shows "req_body q = c_body r" "req_port q = cr_port r" "may_be_replayed q \<Longrightarrow> c_replayable r"
proof -
  let ?cs = "take (cr_header_count r) (case cr_headers r of None \<Rightarrow> [] | Some hs \<Rightarrow> hs)"
  obtain hs where q: "q = (base_request cl r)\<lparr>req_headers := hs\<rparr>" and hs: "convert_headers ?cs = Some hs"
    using assms by (auto simp: internal_request_def)
  show body: "req_body q = c_body r" and "req_port q = cr_port r"
    by (simp_all add: q base_request_def c_body_def default_request_def Let_def)
  have flags: "req_idempotent q \<longleftrightarrow> cr_idempotent r \<noteq> 0 \<or> (c_body r = [] \<and> is_idempotent_method (the (cr_method r)))"
    "req_retry_safe q \<longleftrightarrow> c_replayable r"
    using body by (simp_all add: q base_request_def c_replayable_def default_request_def Let_def)
  have "abi_has_idempotency_key (cr_headers r) (cr_header_count r)" if "has_idempotency_key hs"
    using convert_headers_key [OF hs that] by (simp add: abi_has_idempotency_key_def split: option.splits)
  then show "c_replayable r" if "may_be_replayed q"
    using that flags body base_request_fields(2) [of cl r]
    by (auto simp: may_be_replayed_def c_replayable_def is_idempotent_method_def q)
qed

lemma call_request_good:
  assumes good: "client_good env R private cl" and valid: "\<not> request_refused h (Some r)"
    and run: "client_call_request env active r b n info cl w = (x, cl', w')"
  shows "client_good env R private cl' \<and> (\<exists>new. R new w w'
    \<and> list_all (engine_call_sound (de_parser (ce_dns env)) private r) new \<and> length new \<le> (if c_replayable r then 12 else 1))"
proof (cases "internal_request cl r")
  case None
  then have "cl' = cl" "w' = w" using run by (simp_all add: client_call_request_def)
  moreover obtain sel where "observes env R sel" using good by (rule client_goodE)
  ultimately show ?thesis using good observesD(4) by (intro conjI exI [of _ "[]"]) auto
next
  case (Some q)
  obtain result resp out cl1 w1 where run1:
    "client_request_with_policy env active q (cr_protocol_policy r) default_response (cl, w) = (result, resp, out, cl1, w1)"
    by (rule prod_cases5)
  with run Some have out: "cl' = cl1" "w' = w1" by (simp_all add: client_call_request_def)
  from good obtain sel allow mh where c: "observes env R sel" "allow \<longrightarrow> private" "quiet_handler R mh"
    and ok: "client_ok sel allow mh {} cl" by (rule client_goodE)
  let ?e = "effective_request cl q (cr_protocol_policy r)" and ?parser = "de_parser (ce_dns env)"
  from client_request_log [OF c(1) ok run1] obtain new where new: "client_ok sel allow mh {} cl1" "R new w w1"
    "list_all (dialled ?parser allow ?e) new" "length new \<le> engine_call_limit ?e" by blast
  obtain hs where q: "q = (base_request cl r)\<lparr>req_headers := hs\<rparr>" and hs: "list_all header_ok hs"
    using Some convert_headers_ok by (auto simp: internal_request_def)
  obtain host meth path where parts: "cr_host r = Some host" "cr_method r = Some meth" "cr_path r = Some path"
    and ok_parts: "valid_host (Some host)" "valid_token (Some meth)" "valid_path (Some path)"
    using valid by (auto simp: request_refused_def)
  have "engine_call_sound ?parser private r e" if "dialled ?parser allow ?e e" for e
  proof -
    note f = dialled_fields [OF that] and g = effective_request_fields [of cl q "cr_protocol_policy r"]
    have "req_port e = req_port ?e" using that by (auto simp: dialled_def)
    with f g c(2) parts ok_parts hs internal_request_fields(1,2) [OF Some] show ?thesis
      by (auto simp: engine_call_sound_def q base_request_fields)
  qed
  with new(3) have "list_all (engine_call_sound ?parser private r) new" by (auto simp: list_all_iff)
  moreover have "length new \<le> (if c_replayable r then 12 else 1)"
    using new(4) internal_request_fields(3) [OF Some] effective_request_fields(9) [of cl q "cr_protocol_policy r"]
    by (auto simp: engine_call_limit_def split: if_splits)
  ultimately show ?thesis using new(1,2) out client_goodI [OF c] by auto
qed

section \<open>One call\<close>

fun segment_ok :: "address_parser \<Rightarrow> bool \<Rightarrow> abi_call \<Rightarrow> request list \<Rightarrow> bool" where
  "segment_ok parser private (Call_Request active h (Some r) b n info) new \<longleftrightarrow>
     list_all (engine_call_sound parser private r) new \<and> length new \<le> (if c_replayable r then 12 else 1)"
| "segment_ok parser private call new \<longleftrightarrow> new = []"

text \<open>A call that creates a client which may dial private addresses.\<close>

fun permits_private :: "abi_call \<Rightarrow> bool" where
  "permits_private (Call_Create i (Some cfg)) \<longleftrightarrow> cfg_struct_size cfg > 40 \<and> cfg_allow_private_networks cfg \<noteq> 0"
| "permits_private call \<longleftrightarrow> False"

lemma create_good:
  assumes "registry_all (client_good env R private) rg" and "engines_observed env R"
    and dial: "permits_private (Call_Create i config) \<Longrightarrow> private"
    and run: "asternet_client_create env i config rg = (token, err, rg')"
  shows "registry_all (client_good env R private) rg'"
proof (cases "rg' = rg")
  case True
  with assms(1) show ?thesis by simp
next
  case False
  with run obtain cfg r where cfg: "config = Some cfg" and size: "offset_allow_private \<le> cfg_struct_size cfg"
    and reg: "register_client (new_client env i (normalize_config cfg)) rg = (r, rg')"
    by (auto simp: asternet_client_create_def Let_def split: option.splits if_splits prod.splits)
  have "private" if "cfg_allow_private_networks (normalize_config cfg) \<noteq> 0"
  proof (rule dial)
    have v: "copied_int (min (cfg_struct_size cfg) 48 - 40) (cfg_allow_private_networks cfg) \<noteq> 0"
      using that by (simp add: normalize_config_def Let_def sizeof_client_config_def offset_allow_private_def)
    then have "cfg_struct_size cfg > 40" by (cases "cfg_struct_size cfg > 40") (simp_all add: min_def)
    moreover have "cfg_allow_private_networks cfg \<noteq> 0" using v by (auto simp: copied_int_def split: if_splits)
    ultimately show "permits_private (Call_Create i config)" by (simp add: cfg)
  qed
  then have "client_good env R private (new_client env i (normalize_config cfg))"
    by (intro new_client_good [OF assms(2)]) simp
  then show ?thesis by (rule registry_all_register [OF assms(1) _ reg])
qed

text \<open>What a call on a client leaves: good clients and its segment of the engines' calls.\<close>

lemma client_call_good:
  assumes all: "registry_all (client_good env R private) rg"
    and run: "with_client h f (rg, w) = (r, rg', w')" and stays: "R [] w w"
    and step: "\<And>c x c' v. client_good env R private c \<Longrightarrow> f c w = (x, c', v) \<Longrightarrow> client_good env R private c' \<and> R [] w v"
  shows "registry_all (client_good env R private) rg' \<and> R [] w w'"
  by (rule with_client_good [OF all run, where Q = "\<lambda>_ v. R [] w v"]) (use step stays in auto)

lemma trace_quiet:
  assumes "engines_observed env R"
  shows "\<exists>d s. client_trace_route env host port (cl, w) = Some (d, cl, s) \<and> R [] w s"
proof (cases "ce_trace env")
  case None
  then show ?thesis by (simp add: client_trace_route_def engines_observedD(10) [OF assms])
next
  case (Some te)
  have *: "(\<exists>T d. ticking te T d) \<and> (\<forall>u. \<exists>I. trace_discipline te I \<and> I 0 u \<and> (\<forall>w. I 0 w \<longrightarrow> R [] u w))"
    using assms by (simp add: engines_observed_def Some)
  then obtain T d where t: "ticking te T d" by blast
  from * obtain I where I: "trace_discipline te I" "I 0 w" and R: "\<forall>v. I 0 v \<longrightarrow> R [] w v" by blast
  from trace_route_done [OF I(1) t I(2)] R obtain r v where
    "trace_route te host port default_trace_config w = Some (r, v)" "R [] w v" by blast
  then show ?thesis
    by (simp add: client_trace_route_def Some trace_route_json_def engines_observedD(10) [OF assms])
qed

lemma request_good:
  assumes all: "registry_all (client_good env R private) rg"
    and stays: "\<And>w. R [] w w" and run: "asternet_client_request_sync env active h r b n info (rg, w) = (x, rg', w')"
  shows "registry_all (client_good env R private) rg'
    \<and> (\<exists>new. R new w w' \<and> segment_ok (de_parser (ce_dns env)) private (Call_Request active h r b n info) new)"
proof (cases "request_refused h r")
  case True
  with all run have "rg' = rg" "w' = w" by (simp_all add: asternet_client_request_sync_def Let_def)
  with all stays show ?thesis by (cases r) (auto intro!: exI [of _ "[]"])
next
  case False
  then obtain c where r: "r = Some c" by (cases r) (auto simp: request_refused_def)
  let ?ok = "\<lambda>v. \<exists>new. R new w v \<and> segment_ok (de_parser (ce_dns env)) private (Call_Request active h r b n info) new"
  obtain y rg1 w1 where y: "with_client h (client_call_request env active c b n (reset_response_info info)) (rg, w) = (y, rg1, w1)"
    by (rule prod_cases3)
  have "registry_all (client_good env R private) rg1 \<and> ?ok w1"
  proof (rule with_client_good [OF all y])
    show "?ok w" using stays by (auto simp: r intro!: exI [of _ "[]"])
  next
    fix cl z cl' v
    assume "client_good env R private cl" "client_call_request env active c b n (reset_response_info info) cl w = (z, cl', v)"
    from call_request_good [OF this(1) False [unfolded r] this(2)] show "client_good env R private cl' \<and> ?ok v" by (simp add: r)
  qed
  moreover have "rg' = rg1" "w' = w1" using run False y by (auto simp: asternet_client_request_sync_def r Let_def split: option.splits)
  ultimately show ?thesis by simp
qed

definition performed_well :: "'w client_env \<Rightarrow> (request list \<Rightarrow> 'w \<Rightarrow> 'w \<Rightarrow> bool) \<Rightarrow> bool \<Rightarrow> abi_call \<Rightarrow> 'w abi_state \<Rightarrow> bool" where
  "performed_well env R private call st \<longleftrightarrow>
     (\<exists>st' new. abi_perform env call st = Some st' \<and> registry_all (client_good env R private) (fst st')
        \<and> R new (snd st) (snd st') \<and> segment_ok (de_parser (ce_dns env)) private call new)"

lemma performed_quietly:
  assumes "abi_perform env call (rg, w) = Some (rg', w')" and "registry_all (client_good env R private) rg' \<and> R [] w w'"
    and "segment_ok (de_parser (ce_dns env)) private call []"
  shows "performed_well env R private call (rg, w)"
  using assms by (fastforce simp: performed_well_def)

lemma create_call_well:
  assumes "registry_all (client_good env R private) rg" and "engines_observed env R"
    and "permits_private (Call_Create i config) \<Longrightarrow> private"
  shows "performed_well env R private (Call_Create i config) (rg, w)"
proof -
  obtain token err rg' where run: "asternet_client_create env i config rg = (token, err, rg')" by (rule prod_cases3)
  show ?thesis
    by (rule performed_quietly [of _ _ _ _ rg' w]) (use create_good [OF assms run] run engines_observedD(10) [OF assms(2)] in simp_all)
qed

lemma prefetch_call_well:
  assumes all: "registry_all (client_good env R private) rg" and obs: "engines_observed env R"
  shows "performed_well env R private (Call_Prefetch h host) (rg, w)"
proof (cases "h = 0 \<or> \<not> valid_host host")
  case True
  show ?thesis by (rule performed_quietly [of _ _ _ _ rg w]) (use True all engines_observedD(10) [OF obs] in \<open>simp_all add: asternet_client_prefetch_def\<close>)
next
  case False
  obtain r rg' w' where run: "with_client h (\<lambda>c w. client_prefetch env (the host) (c, w)) (rg, w) = (r, rg', w')"
    by (rule prod_cases3)
  have "registry_all (client_good env R private) rg' \<and> R [] w w'"
    by (rule client_call_good [OF all run engines_observedD(10) [OF obs]]) (rule prefetch_good [OF _ obs])
  then show ?thesis
    by (intro performed_quietly [of _ _ _ _ rg' w']) (use run False in \<open>auto simp: asternet_client_prefetch_def split: option.splits\<close>)
qed

lemma network_change_call_well:
  assumes all: "registry_all (client_good env R private) rg" and obs: "engines_observed env R"
  shows "performed_well env R private (Call_Network_Change active h net) (rg, w)"
proof -
  obtain r rg' w' where run: "with_client h (\<lambda>c w. ((), client_on_network_change env active net (c, w))) (rg, w) = (r, rg', w')"
    by (rule prod_cases3)
  have "registry_all (client_good env R private) rg' \<and> R [] w w'"
    by (rule client_call_good [OF all run engines_observedD(10) [OF obs]]) (auto dest: network_change_good [OF _ obs])
  then show ?thesis
    by (intro performed_quietly [of _ _ _ _ rg' w']) (simp_all add: asternet_client_on_network_change_def run)
qed

lemma set_callback_call_well:
  assumes all: "registry_all (client_good env R private) rg" and obs: "engines_observed env R"
  shows "performed_well env R private (Call_Set_Quality_Callback h cb) (rg, w)"
proof -
  obtain r rg' w' where run: "with_client h (\<lambda>c w. ((), client_set_quality_callback cb c, w)) (rg, w) = (r, rg', w')"
    by (rule prod_cases3)
  have "registry_all (client_good env R private) rg' \<and> R [] w w'"
    by (rule client_call_good [OF all run engines_observedD(10) [OF obs]]) (auto intro: set_callback_good engines_observedD(10) [OF obs])
  then show ?thesis
    by (intro performed_quietly [of _ _ _ _ rg' w']) (simp_all add: asternet_client_set_quality_callback_def run)
qed

lemma dump_call_well:
  assumes all: "registry_all (client_good env R private) rg" and obs: "engines_observed env R"
  shows "performed_well env R private (Call_Dump active h b n) (rg, w)"
proof (cases "b = None \<or> n = 0")
  case True
  show ?thesis
    by (rule performed_quietly [of _ _ _ _ rg w]) (use True all engines_observedD(10) [OF obs] in \<open>auto simp: asternet_client_dump_diagnostics_def split: option.splits\<close>)
next
  case False
  obtain r rg' w' where run: "with_client h (\<lambda>c w. (dump_diag env active c, c, w)) (rg, w) = (r, rg', w')"
    by (rule prod_cases3)
  have "registry_all (client_good env R private) rg' \<and> R [] w w'"
    by (rule client_call_good [OF all run engines_observedD(10) [OF obs]]) (auto intro: engines_observedD(10) [OF obs])
  then show ?thesis
    by (intro performed_quietly [of _ _ _ _ rg' w'])
      (use run False in \<open>auto simp: asternet_client_dump_diagnostics_def split: option.splits\<close>)
qed

lemma trace_call_well:
  assumes all: "registry_all (client_good env R private) rg" and obs: "engines_observed env R"
  shows "performed_well env R private (Call_Trace h host port b n) (rg, w)"
proof (cases "b = None \<or> n = 0 \<or> \<not> valid_host host \<or> port = 0")
  case True
  show ?thesis
    by (rule performed_quietly [of _ _ _ _ rg w]) (use True all engines_observedD(10) [OF obs] in \<open>auto simp: asternet_client_trace_route_def split: option.splits\<close>)
next
  case False
  let ?f = "\<lambda>c w. case client_trace_route env (the host) port (c, w) of None \<Rightarrow> (None, c, w) | Some (d, s) \<Rightarrow> (Some d, s)"
  obtain r rg' w' where run: "with_client h ?f (rg, w) = (r, rg', w')" by (rule prod_cases3)
  have "registry_all (client_good env R private) rg' \<and> R [] w w' \<and> r \<noteq> Some None"
  proof (rule with_client_good [OF all run])
    fix c x c' v
    assume "client_good env R private c" and "?f c w = (x, c', v)"
    with trace_quiet [OF obs, of "the host" port c w] show "client_good env R private c' \<and> R [] w v \<and> Some x \<noteq> Some None"
      by auto
  qed (simp add: engines_observedD(10) [OF obs])
  then show ?thesis
    by (intro performed_quietly [of _ _ _ _ rg' w']) (use run False in \<open>auto simp: asternet_client_trace_route_def split: option.splits\<close>)
qed

lemma perform_good:
  assumes obs: "engines_observed env R" and all: "registry_all (client_good env R private) (fst st)"
    and dial: "permits_private call \<Longrightarrow> private"
  shows "performed_well env R private call st"
proof -
  obtain rg w where st: "st = (rg, w)" by (rule prod.exhaust)
  note all = all [unfolded st fst_conv]
  show ?thesis
  proof (cases call)
    case (Call_Create i config)
    with create_call_well [OF all obs] dial show ?thesis by (simp add: st)
  next
    case (Call_Destroy h)
    show ?thesis
      unfolding st by (rule performed_quietly [of _ _ _ _ "asternet_client_destroy h rg" "destroy_freed env h (rg, w)"])
        (use destroy_freed_quiet [OF obs, of "(rg, w)" h] in \<open>simp_all add: Call_Destroy registry_all_destroy [OF all]\<close>)
  next
    case (Call_Request active h r b n info)
    obtain x rg' w' where run: "asternet_client_request_sync env active h r b n info (rg, w) = (x, rg', w')" by (rule prod_cases3)
    from request_good [OF all engines_observedD(10) [OF obs] run] run show ?thesis by (auto simp: Call_Request st performed_well_def)
  qed (simp_all add: st network_change_call_well prefetch_call_well set_callback_call_well dump_call_well trace_call_well all obs)
qed

section \<open>Sessions are safe\<close>

lemma session_good:
  assumes obs: "engines_observed env R"
  shows "registry_all (client_good env R private) (fst st) \<Longrightarrow> (list_ex permits_private cs \<longrightarrow> private) \<Longrightarrow>
    \<exists>st' segs. abi_session env cs st = Some st' \<and> registry_all (client_good env R private) (fst st')
      \<and> R (concat segs) (snd st) (snd st') \<and> list_all2 (segment_ok (de_parser (ce_dns env)) private) cs segs"
proof (induction cs arbitrary: st)
  case Nil
  then show ?case using engines_observedD(10) [OF obs] by simp
next
  case (Cons c cs)
  have "performed_well env R private c st"
    by (rule perform_good [OF obs Cons.prems(1)]) (use Cons.prems(2) in auto)
  then obtain st1 new where
    c: "abi_perform env c st = Some st1" "registry_all (client_good env R private) (fst st1)"
    "R new (snd st) (snd st1)" "segment_ok (de_parser (ce_dns env)) private c new"
    unfolding performed_well_def by blast
  have "list_ex permits_private cs \<longrightarrow> private" using Cons.prems(2) by simp
  from Cons.IH [OF c(2) this] obtain st' segs where
    "abi_session env cs st1 = Some st'" "registry_all (client_good env R private) (fst st')"
    "R (concat segs) (snd st1) (snd st')" "list_all2 (segment_ok (de_parser (ce_dns env)) private) cs segs"
    by blast
  with c world_trace.follows [OF engines_observedD(1) [OF obs] c(3)] show ?case
    by (auto intro!: exI [of _ "new # segs"])
qed

definition clients_idle :: "'w client registry \<Rightarrow> bool" where
  "clients_idle rg \<longleftrightarrow> registry_all (\<lambda>cl. pool_inv (cl_pool cl) \<and> pool_held (cl_pool cl) = {}) rg"

lemma registry_all_mono: "registry_all P rg \<Longrightarrow> (\<And>c. P c \<Longrightarrow> Q c) \<Longrightarrow> registry_all Q rg"
  by (simp add: registry_all_def)

lemma abi_session_good:
  assumes "engines_observed env R"
  shows "\<exists>st segs. abi_session env cs (empty_registry, w) = Some st
    \<and> R (concat segs) w (snd st)
    \<and> list_all2 (segment_ok (de_parser (ce_dns env)) (list_ex permits_private cs)) cs segs
    \<and> clients_idle (fst st)"
proof -
  from session_good [OF assms, of "list_ex permits_private cs" "(empty_registry, w)" cs, unfolded fst_conv snd_conv, OF registry_all_empty]
  obtain st segs where s: "abi_session env cs (empty_registry, w) = Some st"
    "registry_all (client_good env R (list_ex permits_private cs)) (fst st)" "R (concat segs) w (snd st)"
    "list_all2 (segment_ok (de_parser (ce_dns env)) (list_ex permits_private cs)) cs segs" by blast
  have "clients_idle (fst st)"
    unfolding clients_idle_def by (rule registry_all_mono [OF s(2)]) (auto elim!: client_goodE simp: client_ok_def)
  with s show ?thesis by blast
qed

text \<open>
  Property C2. The whole library, from the C ABI to its engines: whatever a host calls in whatever order
  (valid handles or not, malformed arguments, several clients, destroyed ones), every call returns as the
  engines do, and the engines of all clients are called only by requests. Each such call carries exactly the host, port,
  method, path and body of the C struct, all well formed, headers that cannot break the message, checks
  of certificates, and an address that passes the address filter, for private ones only if some client
  was created with them allowed. A request reaches an engine at most once unless its method or an
  idempotency key declares it safe to repeat. Afterwards no client holds a lease of its pool.
\<close>

theorem abi_session_safe:
  assumes "engines_observed env R"
  shows "\<exists>st segs. abi_session env cs (empty_registry, w) = Some st
    \<and> R (concat segs) w (snd st)
    \<and> list_all2 (segment_ok (de_parser (ce_dns env)) (list_ex permits_private cs)) cs segs
    \<and> clients_idle (fst st)"
  by (rule abi_session_good [OF assms])

lemma log_env_engines: "engines_observed log_env (log_grows (\<lambda>w. w))"
  by (simp add: engines_observed_def call_log.world_trace_axioms log_grows_def client_quiet_def log_env_def log_engine_def)

lemma abi_session_safe_witness:
  "\<exists>st segs. abi_session log_env [Call_Create 0 (Some plain_config), Call_Request [] 3 (Some form_request) None 0 None] (empty_registry, []) = Some st
     \<and> snd st = concat segs \<and> length segs = 2 \<and> clients_idle (fst st)"
proof -
  let ?cs = "[Call_Create 0 (Some plain_config), Call_Request [] 3 (Some form_request) None 0 None]"
  from abi_session_safe [OF log_env_engines, of ?cs "[]"] obtain st segs where
    s: "abi_session log_env ?cs (empty_registry, []) = Some st" "log_grows (\<lambda>w. w) (concat segs) [] (snd st)" "clients_idle (fst st)"
    and l: "list_all2 (segment_ok (de_parser (ce_dns log_env)) (list_ex permits_private ?cs)) ?cs segs" by blast
  have "length segs = 2" using list_all2_lengthD [OF l] by simp
  with s show ?thesis by (auto simp: log_grows_def)
qed

end
