(* ===== verification/Http1_Receive.thy ===== *)
theory Http1_Receive
  imports Http1_Engine
begin

text \<open>
  Reception end to end: a well-formed response is received completely however the network cuts it
  into reads. The assumption about the TLS stream is the contract of \<open>SSL_read\<close>: while bytes are
  outstanding, a read of \<open>n > 0\<close> bytes returns between 1 and \<open>n\<close> of them, in order.
\<close>

section \<open>First occurrences\<close>

lemma find_sub_first: "find_sub p s = Some i \<Longrightarrow> j < i \<Longrightarrow> take (length p) (drop j s) \<noteq> p"
proof (induction s arbitrary: i j)
  case Nil
  then show ?case by (auto split: if_splits)
next
  case (Cons x xs)
  show ?case
  proof (cases "take (length p) (x # xs) = p")
    case True
    with Cons.prems show ?thesis by simp
  next
    case False
    with Cons.prems obtain i' where "find_sub p xs = Some i'" "i = Suc i'" by auto
    with Cons False show ?thesis by (cases j) auto
  qed
qed

lemma find_sub_unique:
  "take (length p) (drop i s) = p \<Longrightarrow> i + length p \<le> length s
    \<Longrightarrow> (\<And>j. j < i \<Longrightarrow> take (length p) (drop j s) \<noteq> p) \<Longrightarrow> find_sub p s = Some i"
proof (induction s arbitrary: i)
  case Nil
  then show ?case by simp
next
  case (Cons x xs)
  show ?case
  proof (cases i)
    case 0
    with Cons.prems show ?thesis by simp
  next
    case (Suc i')
    have "take (length p) (x # xs) \<noteq> p" using Cons.prems(3) [of 0] Suc by simp
    moreover have "find_sub p xs = Some i'"
    proof (rule Cons.IH)
      show "take (length p) (drop i' xs) = p" "i' + length p \<le> length xs" using Cons.prems Suc by simp_all
      show "j < i' \<Longrightarrow> take (length p) (drop j xs) \<noteq> p" for j using Cons.prems(3) [of "Suc j"] Suc by simp
    qed
    ultimately show ?thesis using Suc by simp
  qed
qed

lemma take_drop_take: "take k (drop j (take m s)) = take (min k (m - j)) (drop j s)"
  by (simp add: drop_take min.commute)

lemma find_sub_prefix:
  assumes "find_sub p s = Some i"
  shows "i + length p \<le> m \<Longrightarrow> find_sub p (take m s) = Some i"
    and "m < i + length p \<Longrightarrow> find_sub p (take m s) = None"
proof -
  note occ = find_sub_Some [OF assms]
  show "find_sub p (take m s) = Some i" if "i + length p \<le> m"
  proof (rule find_sub_unique)
    show "take (length p) (drop i (take m s)) = p"
      using occ that unfolding take_drop_take by (simp add: min_absorb1)
    show "i + length p \<le> length (take m s)" using occ that by simp
    show "take (length p) (drop j (take m s)) \<noteq> p" if "j < i" for j
      using find_sub_first [OF assms that] \<open>i + length p \<le> m\<close> that unfolding take_drop_take by (simp add: min_absorb1)
  qed
  show "find_sub p (take m s) = None" if "m < i + length p"
  proof (cases "find_sub p (take m s)")
    case (Some j)
    note occ' = find_sub_Some [OF Some]
    then have le: "j + length p \<le> m" by simp
    with that have "j < i" by simp
    moreover have "take (length p) (drop j s) = p"
      using occ' le unfolding take_drop_take by (simp add: min_absorb1)
    ultimately show ?thesis using find_sub_first [OF assms] by blast
  qed simp
qed

lemma find_sub_append: "find_sub p s = Some i \<Longrightarrow> find_sub p (s @ r) = Some i"
proof (rule find_sub_unique)
  assume s: "find_sub p s = Some i"
  note occ = find_sub_Some [OF s]
  show "take (length p) (drop i (s @ r)) = p" "i + length p \<le> length (s @ r)" using occ by simp_all
  show "take (length p) (drop j (s @ r)) \<noteq> p" if "j < i" for j
    using find_sub_first [OF s that] occ that by simp
qed

section \<open>The stream\<close>

inductive delivers :: "'w h1_env \<Rightarrow> 'w \<Rightarrow> string \<Rightarrow> bool" for env where
  delivered: "(\<And>n. 0 < n \<Longrightarrow> s \<noteq> [] \<Longrightarrow>
      (\<exists>d r w'. h1_read env n w = (d, w') \<and> d \<noteq> [] \<and> length d \<le> n \<and> s = d @ r \<and> delivers env w' r))
    \<Longrightarrow> delivers env w s"

inductive_cases delivers_elim: "delivers env w s"

lemma delivers_read:
  assumes "delivers env w s" and "0 < n" and "s \<noteq> []"
  obtains d r w' where "h1_read env n w = (d, w')" "d \<noteq> []" "length d \<le> n" "s = d @ r" "delivers env w' r"
  using assms by (elim delivers_elim) blast

text \<open>
  A reading loop that wants every proper prefix of the first \<open>k\<close> bytes, and stops from there on,
  stops with between \<open>k\<close> and \<open>k\<close> plus one read of the stream, whatever the cuts.
\<close>

lemma read_while_delivers:
  assumes "delivers env w s" and "buf @ s = T" and "k \<le> length T"
    and "\<And>m. m < k \<Longrightarrow> wanted (take m T) \<and> m \<le> limit \<and> 0 < amount (take m T) \<and> amount (take m T) \<le> most"
    and "\<And>m. k \<le> m \<Longrightarrow> m \<le> length T \<Longrightarrow> \<not> wanted (take m T) \<or> limit < m"
  shows "\<exists>m w'. read_while env limit wanted amount buf w = (take m T, w') \<and> k \<le> m \<and> m \<le> length T
    \<and> (m < k + most \<or> m = length buf) \<and> delivers env w' (drop m T)"
  using assms(1,2)
proof (induction "length s" arbitrary: s buf w rule: less_induct)
  case less
  have buf: "buf = take (length buf) T" "s = drop (length buf) T" using less.prems(2) by auto
  show ?case
  proof (cases "k \<le> length buf")
    case True
    have le: "length buf \<le> length T" using less.prems(2) by auto
    have "\<not> wanted buf \<or> limit < length buf" using assms(5) [OF True le] buf(1) by simp
    then have "read_while env limit wanted amount buf w = (buf, w)" by (subst read_while.simps) auto
    with True le buf less.prems(1) show ?thesis by metis
  next
    case False
    then have m: "length buf < k" by simp
    note want = assms(4) [OF m]
    have "s \<noteq> []" using m assms(3) less.prems(2) by auto
    with want delivers_read [OF less.prems(1), of "amount buf"] buf(1)
    obtain d r w' where d: "h1_read env (amount buf) w = (d, w')" "d \<noteq> []" "length d \<le> amount buf" "s = d @ r"
      "delivers env w' r" by metis
    have step: "read_while env limit wanted amount buf w = read_while env limit wanted amount (buf @ d) w'"
      using want buf(1) d by (subst read_while.simps) simp
    have len: "length (buf @ d) < k + most" using d(3) want m buf(1) by simp
    have "length r < length s" "(buf @ d) @ r = T" using d less.prems(2) by auto
    from less.hyps [OF this(1) d(5) this(2)] obtain m w'' where
      m: "read_while env limit wanted amount (buf @ d) w' = (take m T, w'')" "k \<le> m" "m \<le> length T"
        "m < k + most \<or> m = length (buf @ d)" "delivers env w'' (drop m T)"
      by blast
    with len step show ?thesis by auto
  qed
qed

section \<open>Heads\<close>

definition status_head :: "string \<Rightarrow> string \<Rightarrow> string \<Rightarrow> string" where
  "status_head version code rest = version @ '' '' @ code @ '' '' @ rest"

definition head_ok :: "string \<Rightarrow> string \<Rightarrow> string \<Rightarrow> bool" where
  "head_ok version code rest \<longleftrightarrow> CHR '' '' \<notin> set version \<and> code \<noteq> [] \<and> list_all isdigit code
     \<and> find_sub blank_line (status_head version code rest @ blank_line) = Some (length (status_head version code rest))
     \<and> length (status_head version code rest) + 4 + read_size \<le> kMaxResponseHeaders"

lemma find_space: "CHR '' '' \<notin> set v \<Longrightarrow> find_sub '' '' (v @ CHR '' '' # r) = Some (length v)"
  by (induction v) auto

lemma digit_plain:
  assumes "isdigit c"
  shows "\<not> isspace c" "c \<noteq> CHR ''-''" "c \<noteq> CHR ''+''" "c \<noteq> nul" "c \<noteq> CHR '' ''" "is_digit_of 10 c"
  using assms by (auto simp: isdigit_def isspace_def is_digit_of_def digit_value_def byte_def)

lemma atoi_digits:
  assumes "code \<noteq> []" and "list_all isdigit code"
  shows "atoi (code @ CHR '' '' # r) = int (number_value 10 code)"
proof -
  obtain c ds where code: "code = c # ds" using assms(1) by (cases code) auto
  have digits: "\<forall>x \<in> set (c # ds). is_digit_of 10 x" "\<forall>x \<in> set (c # ds). x \<noteq> nul"
    using assms(2) digit_plain(4,6) by (auto simp: code list_all_iff)
  have cut: "c_str ((c # ds) @ CHR '' '' # r) = (c # ds) @ c_str (CHR '' '' # r)"
    using digits(2) unfolding c_str_def by (subst takeWhile_append2) auto
  have tail: "c_str (CHR '' '' # r) = CHR '' '' # c_str r" by (simp add: c_str_def)
  have "\<not> is_digit_of 10 (CHR '' '')" by (simp add: is_digit_of_def digit_value_def char_eval)
  then have "takeWhile (is_digit_of 10) ((c # ds) @ c_str (CHR '' '' # r)) = c # ds"
    using digits(1) unfolding tail by (intro takeWhile_all_then) auto
  then show ?thesis
    unfolding atoi_def code cut
    using assms(2) digit_plain [of c] by (simp add: code skip_sign_def)
qed

lemma status_of_head:
  assumes "head_ok version code rest"
  shows "parse_status (status_head version code rest @ r) s = int (number_value 10 code)"
proof -
  from assms have ok: "CHR '' '' \<notin> set version" "code \<noteq> []" "list_all isdigit code" by (simp_all add: head_ok_def)
  have "CHR '' '' \<notin> set code" using ok(3) digit_plain(5) by (auto simp: list_all_iff)
  then show ?thesis
    unfolding parse_status_def status_head_def
    using find_space [OF ok(1), of "code @ '' '' @ rest @ r"] find_space [of code "rest @ r"] atoi_digits [OF ok(2,3)]
    by simp
qed

section \<open>Bodies\<close>

definition body_encodes :: "framing \<Rightarrow> nat \<Rightarrow> string \<Rightarrow> string \<Rightarrow> bool" where
  "body_encodes f max_body enc body \<longleftrightarrow> length body \<le> max_body \<and>
     (if fr_chunked f
      then length enc \<le> max_body + kMaxResponseHeaders
        \<and> (\<exists>cs ts. list_all chunk_ok cs \<and> list_all trailer_ok ts
            \<and> enc = encode_chunked cs ts \<and> body = concat (map snd cs))
      else fr_cl f \<noteq> npos \<and> fr_cl f = length body \<and> enc = body)"

lemma encoded_decodes:
  assumes "list_all chunk_ok cs" and "list_all trailer_ok ts"
  shows "decode_chunked (encode_chunked cs ts) = (kComplete, concat (map snd cs))"
  using decode_from_encoded [OF assms, of "[]" "[]"] by (simp add: decode_chunked_def)

lemma read_body_delivers:
  assumes enc: "body_encodes f (req_max_body req) enc body" and status: "\<not> no_body_status req status"
    and "delivers env w s" and "buf @ s = enc"
  shows "\<exists>w'. h1_read_body env req status f buf w = (Inr body, w')"
proof (cases "fr_chunked f")
  case True
  with enc obtain cs ts where c: "list_all chunk_ok cs" "list_all trailer_ok ts" "enc = encode_chunked cs ts"
    "body = concat (map snd cs)" "length enc \<le> req_max_body req + kMaxResponseHeaders" "length body \<le> req_max_body req"
    by (auto simp: body_encodes_def)
  have waits: "fst (decode_chunked (take m enc)) = kIncomplete" if "m < length enc" for m
    using decode_from_cut [OF c(1,2), of m "[]"] that by (simp add: decode_chunked_def c(3))
  note fully = encoded_decodes [OF c(1,2)]
  have "\<exists>m w'. read_while env (req_max_body req + kMaxResponseHeaders) (\<lambda>b. fst (decode_chunked b) = kIncomplete)
      (\<lambda>_. read_size) buf w = (take m enc, w') \<and> length enc \<le> m \<and> m \<le> length enc
      \<and> (m < length enc + read_size \<or> m = length buf) \<and> delivers env w' (drop m enc)"
    by (rule read_while_delivers [OF assms(3,4)])
      (use waits fully c in \<open>auto simp: read_size_def\<close>)
  then obtain w' where "read_while env (req_max_body req + kMaxResponseHeaders) (\<lambda>b. fst (decode_chunked b) = kIncomplete)
      (\<lambda>_. read_size) buf w = (enc, w')" by auto
  with True status c fully show ?thesis
    by (simp add: h1_read_body_def h1_chunked_body_def read_chunked_def)
next
  case False
  with enc have c: "fr_cl f \<noteq> npos" "fr_cl f = length body" "enc = body" "length body \<le> req_max_body req"
    by (simp_all add: body_encodes_def)
  have "\<exists>m w'. read_while env (length body) (\<lambda>b. length b < length body) (\<lambda>b. min (length body - length b) read_size) buf w
      = (take m body, w') \<and> length body \<le> m \<and> m \<le> length body
      \<and> (m < length body + read_size \<or> m = length buf) \<and> delivers env w' (drop m body)"
    by (rule read_while_delivers [OF assms(3)]) (use assms(4) c in \<open>auto simp: read_size_def\<close>)
  then obtain w' where "read_length env (length body) buf w = (body, w')" by (auto simp: read_length_def)
  with False status c show ?thesis by (simp add: h1_read_body_def h1_sized_body_def)
qed

section \<open>The property\<close>

definition quiet_clock :: "'w h1_env \<Rightarrow> bool" where
  "quiet_clock env \<longleftrightarrow> (\<forall>w s. delivers env w s \<longrightarrow> delivers env (snd (ne_now env w)) s)"

lemma await_delivers:
  assumes ok: "head_ok version code rest" and final: "\<not> interim (int (number_value 10 code))"
    and "delivers env w (status_head version code rest @ blank_line @ enc)" and "quiet_clock env"
  shows "\<exists>buf s ttfb w'. h1_await env t_start resp w =
      Some (Inr (status_head version code rest @ blank_line @ buf, length (status_head version code rest)),
        resp\<lparr>resp_ttfb_ms := ttfb, resp_http_status := int (number_value 10 code)\<rparr>, w')
    \<and> buf @ s = enc \<and> delivers env w' s"
proof -
  let ?H = "status_head version code rest"
  let ?T = "?H @ blank_line @ enc" and ?k = "length ?H + 4"
  have blank: "length blank_line = 4" by (simp add: blank_line_def crlf_def)
  have first: "find_sub blank_line (?H @ blank_line) = Some (length ?H)" using ok by (simp add: head_ok_def)
  have find: "find_sub blank_line ?T = Some (length ?H)" using find_sub_append [OF first, of enc] by simp
  have small: "?k + read_size \<le> kMaxResponseHeaders" using ok by (simp add: head_ok_def)
  have "\<exists>m w'. read_while env kMaxResponseHeaders (\<lambda>raw. find_sub blank_line raw = None) (\<lambda>_. read_size) [] w
      = (take m ?T, w') \<and> ?k \<le> m \<and> m \<le> length ?T \<and> (m < ?k + read_size \<or> m = length ([] :: string))
      \<and> delivers env w' (drop m ?T)"
  proof (rule read_while_delivers [OF assms(3)])
    show "[] @ ?T = ?T" "?k \<le> length ?T" using blank by simp_all
    show "find_sub blank_line (take m ?T) = None \<and> m \<le> kMaxResponseHeaders \<and> 0 < read_size \<and> read_size \<le> read_size"
      if "m < ?k" for m
      using find_sub_prefix(2) [OF find, of m] blank that small by (simp add: read_size_def)
    show "find_sub blank_line (take m ?T) \<noteq> None \<or> kMaxResponseHeaders < m" if "?k \<le> m" for m
      using find_sub_prefix(1) [OF find, of m] blank that by simp
  qed
  then obtain m w1 where rd: "h1_read_head env [] w = (take m ?T, w1)" and m: "?k \<le> m" "m \<le> length ?T"
    "m < ?k + read_size" and dl: "delivers env w1 (drop m ?T)"
    unfolding h1_read_head_def by auto
  define buf where "buf = take (m - ?k) enc"
  have raw: "take m ?T = ?H @ blank_line @ buf"
    using m(1) blank by (simp add: buf_def)
  have rest: "buf @ drop m ?T = enc"
    using m(1) blank by (simp add: buf_def)
  have he: "head_end (take m ?T) = Some (length ?H)"
    using find_sub_prefix(1) [OF find, of m] m small blank by (simp add: head_end_def)
  obtain ttfb w2 where e2: "elapsed_since env t_start w1 = (ttfb, w2)" by (rule prod.exhaust)
  have "w2 = snd (ne_now env w1)" using e2 by (auto simp: elapsed_since_def split: prod.splits)
  with assms(4) dl have dl2: "delivers env w2 (drop m ?T)" by (simp add: quiet_clock_def)
  have st: "parse_status (take m ?T) 0 = int (number_value 10 code)"
    unfolding raw by (rule status_of_head [OF ok])
  have "h1_skip_interim env (parse_status (take m ?T) 0) (take m ?T) (length ?H) w2
      = Some (Some (take m ?T, length ?H), int (number_value 10 code), w2)"
    using final unfolding st by (subst h1_skip_interim.simps) simp
  then have "h1_await env t_start resp w = Some (Inr (take m ?T, length ?H),
      resp\<lparr>resp_ttfb_ms := ttfb, resp_http_status := int (number_value 10 code)\<rparr>, w2)"
    by (simp add: h1_await_def rd he e2 del: take_append)
  with rest dl2 show ?thesis unfolding raw by blast
qed


text \<open>A peer that delivers a queue of fragments, each read returning the next one cut to size.\<close>

definition fragment_env :: "string list h1_env" where
  "fragment_env =
     \<lparr>ne_now = (\<lambda>w. (0, w)), ne_getaddrinfo = (\<lambda>_ _ w. ([], w)), ne_socket = (\<lambda>_ w. (-1, w)), ne_close = (\<lambda>_ w. w),
      ne_ctx_new = (\<lambda>w. (False, w)), ne_load_ca = (\<lambda>_ w. (False, w)), ne_default_paths = (\<lambda>w. (False, w)),
      ne_ctx_free = (\<lambda>w. w), ne_ssl_new = (\<lambda>w. (False, w)), ne_ssl_free = (\<lambda>w. w), ne_set_sni = (\<lambda>_ w. (True, w)),
      ne_set1_host = (\<lambda>_ w. (True, w)), h1_connect = (\<lambda>_ _ _ w. (True, w)), h1_handshake = (\<lambda>_ _ w. (True, w)),
      h1_write = (\<lambda>s w. (int (length s), w)),
      h1_read = (\<lambda>n w. case w of [] \<Rightarrow> ([], []) | f # fs \<Rightarrow>
        (take n f, if drop n f = [] then fs else drop n f # fs))\<rparr>"

lemma fragment_env_delivers:
  "list_all (\<lambda>f. f \<noteq> []) fs \<Longrightarrow> delivers fragment_env fs (concat fs)"
proof (induction "length (concat fs)" arbitrary: fs rule: less_induct)
  case less
  show ?case
  proof (rule delivered)
    fix n :: nat
    assume n: "0 < n" and "concat fs \<noteq> []"
    then obtain f gs where fs: "fs = f # gs" by (cases fs) auto
    let ?w' = "if drop n f = [] then gs else drop n f # gs"
    have ne: "f \<noteq> []" using less.prems fs by simp
    have "length (concat ?w') < length (concat fs)" using n ne fs by auto
    moreover have "list_all (\<lambda>f. f \<noteq> []) ?w'" using less.prems fs by auto
    ultimately have "delivers fragment_env ?w' (concat ?w')" by (rule less.hyps)
    moreover have "h1_read fragment_env n fs = (take n f, ?w')" by (simp add: fragment_env_def fs)
    moreover have "concat fs = take n f @ concat ?w'" by (simp add: fs)
    moreover have "take n f \<noteq> []" using n ne by simp
    ultimately show "\<exists>d r w'. h1_read fragment_env n fs = (d, w') \<and> d \<noteq> [] \<and> length d \<le> n \<and> concat fs = d @ r
        \<and> delivers fragment_env w' r"
      by (metis length_take min.cobounded2)
  qed
qed

definition demo_get :: request where
  "demo_get = default_request\<lparr>req_host := ''a.example''\<rparr>"

lemma demo_get_sent: "h1_send fragment_env demo_get fs = (None, fs)"
proof -
  have "h1_write_all fragment_env s fs = (True, fs)" if "length s \<le> 2 ^ 31 - 1" for s
    using that by (simp add: h1_write_all.simps [of _ s] h1_write_all.simps [of _ "[]"] fragment_env_def Let_def)
  moreover have "\<exists>s. request_text demo_get = Some s \<and> length s \<le> 2 ^ 31 - 1"
    by (simp add: request_text_def request_lines_def host_header_def demo_get_def default_request_def crlf_def)
  ultimately show ?thesis
    by (auto simp: h1_send_def request_line_unsafe_def demo_get_def default_request_def)
qed


end
