(* ===== verification/Http2_Engine.thy ===== *)
theory Http2_Engine
  imports Transport Engine_Interface
begin

text \<open>
  \<open>engine/http2_engine.cpp\<close>: one kept-alive TLS connection with an nghttp2 session, a request with
  its callback context \<open>H2Ctx\<close>, and the select-driven loop that exchanges bytes between the socket
  and the session.

  nghttp2 is not under \<open>src/\<close>. A call of \<open>nghttp2_session_send\<close> or \<open>nghttp2_session_mem_recv\<close>
  is an interaction: a tree of callback invocations, each continued by the value the callback
  returned, that ends with the result of the call and the session after it. The callbacks, and
  everything between them, are the code of the engine. The loops of the engine end by the clock and
  by what the network does, so they are \<open>partial_function\<close>s.
\<close>

section \<open>The environment\<close>

datatype 'a tls_io = IoDone 'a | IoClosed | IoWantRead | IoWantWrite | IoFailed

datatype connect_outcome = Connected | InProgress | ConnectFailed

record 'w h2_env = "'w net_env" +
  h2_fd_setsize :: int
  h2_numeric_addrinfo :: "string \<Rightarrow> string \<Rightarrow> 'w \<Rightarrow> string list \<times> 'w"
  h2_set_nonblock :: "int \<Rightarrow> 'w \<Rightarrow> bool \<times> 'w"
  h2_connect :: "int \<Rightarrow> string \<Rightarrow> 'w \<Rightarrow> connect_outcome \<times> 'w"
  h2_so_error :: "int \<Rightarrow> 'w \<Rightarrow> int \<times> 'w"
  h2_select :: "int \<Rightarrow> bool \<Rightarrow> bool \<Rightarrow> int \<Rightarrow> 'w \<Rightarrow> int \<times> 'w"
  h2_set_alpn :: "'w \<Rightarrow> bool \<times> 'w"
  h2_set_fd :: "int \<Rightarrow> 'w \<Rightarrow> bool \<times> 'w"
  h2_handshake :: "tls_setup \<Rightarrow> int \<Rightarrow> 'w \<Rightarrow> unit tls_io \<times> 'w"
  h2_alpn_selected :: "'w \<Rightarrow> string \<times> 'w"
  h2_write :: "string \<Rightarrow> 'w \<Rightarrow> nat tls_io \<times> 'w"
  h2_read :: "nat \<Rightarrow> 'w \<Rightarrow> string tls_io \<times> 'w"
  h2_callbacks_new :: "'w \<Rightarrow> bool \<times> 'w"

datatype h2_frame_type = FRAME_DATA | FRAME_HEADERS | FRAME_GOAWAY | FRAME_OTHER

datatype h2_headers_category = HCAT_RESPONSE | HCAT_OTHER

datatype 's nghttp2_call =
    Return int 's
  | SendCallback string "int \<Rightarrow> 's nghttp2_call"
  | DataRead nat "string \<Rightarrow> bool \<Rightarrow> 's nghttp2_call"
  | OnHeader int h2_frame_type h2_headers_category string string "int \<Rightarrow> 's nghttp2_call"
  | OnDataChunk int string "int \<Rightarrow> 's nghttp2_call"
  | OnFrameRecv h2_frame_type int bool "int \<Rightarrow> 's nghttp2_call"
  | OnStreamClose int nat "int \<Rightarrow> 's nghttp2_call"

record ('s, 'w) nghttp2 =
  ng_session_new :: "'w \<Rightarrow> 's option \<times> 'w"
  ng_submit_settings :: "'s \<Rightarrow> int \<times> 's"
  ng_submit_request :: "(string \<times> string) list \<Rightarrow> bool \<Rightarrow> 's \<Rightarrow> int \<times> 's"
  ng_send :: "'s \<Rightarrow> 's nghttp2_call"
  ng_mem_recv :: "string \<Rightarrow> 's \<Rightarrow> 's nghttp2_call"

text \<open>The library's result codes the code mentions.\<close>

definition NGHTTP2_NO_ERROR :: nat where [simp]: "NGHTTP2_NO_ERROR = 0"
definition NGHTTP2_ERR_NOMEM :: int where [simp]: "NGHTTP2_ERR_NOMEM = -901"
definition NGHTTP2_ERR_CALLBACK_FAILURE :: int where [simp]: "NGHTTP2_ERR_CALLBACK_FAILURE = -902"
definition NGHTTP2_ERR_TEMPORAL_CALLBACK_FAILURE :: int where [simp]: "NGHTTP2_ERR_TEMPORAL_CALLBACK_FAILURE = -521"

section \<open>The request context\<close>

record h2_ctx =
  hc_req_body :: string
  hc_req_method :: string
  hc_authority :: string
  hc_pending_data :: string
  hc_req_body_sent :: nat
  hc_resp_body :: string
  hc_http_status :: int
  hc_got_status :: bool
  hc_stream_closed :: bool
  hc_got_end_stream :: bool
  hc_response_body_allowed :: bool
  hc_forbidden_body_received :: bool
  hc_goaway_received :: bool
  hc_stream_id :: int
  hc_stream_error :: nat
  hc_response_header_bytes :: nat
  hc_max_response_body_bytes :: nat
  hc_body_limit_exceeded :: bool
  hc_deadline_ms :: int

definition new_h2_ctx :: "request \<Rightarrow> int \<Rightarrow> h2_ctx" where
  "new_h2_ctx req deadline_ms =
     \<lparr>hc_req_body = req_body req, hc_req_method = req_method req, hc_authority = [], hc_pending_data = [],
      hc_req_body_sent = 0, hc_resp_body = [], hc_http_status = 0, hc_got_status = False, hc_stream_closed = False,
      hc_got_end_stream = False, hc_response_body_allowed = (req_method req \<noteq> ''HEAD''),
      hc_forbidden_body_received = False, hc_goaway_received = False, hc_stream_id = 0,
      hc_stream_error = NGHTTP2_NO_ERROR, hc_response_header_bytes = 0,
      hc_max_response_body_bytes = req_max_body req, hc_body_limit_exceeded = False, hc_deadline_ms = deadline_ms\<rparr>"

section \<open>The callbacks\<close>

definition data_read_callback :: "nat \<Rightarrow> h2_ctx \<Rightarrow> string \<times> bool \<times> h2_ctx" where
  "data_read_callback len ctx =
     (let remain = length (hc_req_body ctx) - hc_req_body_sent ctx;
          n = (if remain < len then remain else len);
          sent = hc_req_body_sent ctx + n
      in (take n (drop (hc_req_body_sent ctx) (hc_req_body ctx)), length (hc_req_body ctx) \<le> sent,
          ctx\<lparr>hc_req_body_sent := sent\<rparr>))"

definition on_header_callback ::
  "int \<Rightarrow> h2_frame_type \<Rightarrow> h2_headers_category \<Rightarrow> string \<Rightarrow> string \<Rightarrow> h2_ctx \<Rightarrow> int \<times> h2_ctx" where
  "on_header_callback stream_id type cat name value ctx =
     (if stream_id \<noteq> hc_stream_id ctx then (0, ctx)
      else
        let ctx = ctx\<lparr>hc_response_header_bytes := hc_response_header_bytes ctx + length name + length value\<rparr> in
        if hc_response_header_bytes ctx > 64 * 1024 then (NGHTTP2_ERR_TEMPORAL_CALLBACK_FAILURE, ctx)
        else if type = FRAME_HEADERS \<and> cat = HCAT_RESPONSE \<and> name = '':status'' then
          let status = atoi (take 7 value); ctx = ctx\<lparr>hc_http_status := status\<rparr> in
          (0, if status \<ge> 100 \<and> status < 200 then ctx\<lparr>hc_response_body_allowed := False\<rparr>
              else ctx\<lparr>hc_got_status := True,
                       hc_response_body_allowed := (hc_req_method ctx \<noteq> ''HEAD'' \<and> status \<noteq> 204 \<and> status \<noteq> 304)\<rparr>)
        else (0, ctx))"

definition on_data_chunk_recv_callback :: "int \<Rightarrow> string \<Rightarrow> h2_ctx \<Rightarrow> int \<times> h2_ctx" where
  "on_data_chunk_recv_callback stream_id data ctx =
     (if stream_id \<noteq> hc_stream_id ctx then (0, ctx)
      else if \<not> hc_response_body_allowed ctx \<and> length data > 0
      then (NGHTTP2_ERR_TEMPORAL_CALLBACK_FAILURE, ctx\<lparr>hc_forbidden_body_received := True\<rparr>)
      else if length data > hc_max_response_body_bytes ctx
        \<or> length (hc_resp_body ctx) > hc_max_response_body_bytes ctx - length data
      then (NGHTTP2_ERR_TEMPORAL_CALLBACK_FAILURE, ctx\<lparr>hc_body_limit_exceeded := True\<rparr>)
      else (0, ctx\<lparr>hc_resp_body := hc_resp_body ctx @ data\<rparr>))"

definition on_stream_close_callback :: "int \<Rightarrow> nat \<Rightarrow> h2_ctx \<Rightarrow> int \<times> h2_ctx" where
  "on_stream_close_callback stream_id error_code ctx =
     (if stream_id \<noteq> hc_stream_id ctx then (0, ctx)
      else (0, ctx\<lparr>hc_stream_error := error_code, hc_stream_closed := True\<rparr>))"

definition on_frame_recv_callback :: "h2_frame_type \<Rightarrow> int \<Rightarrow> bool \<Rightarrow> h2_ctx \<Rightarrow> int \<times> h2_ctx" where
  "on_frame_recv_callback type stream_id end_stream ctx =
     (if type = FRAME_GOAWAY then (0, ctx\<lparr>hc_goaway_received := True\<rparr>)
      else if stream_id \<noteq> hc_stream_id ctx then (0, ctx)
      else if (type = FRAME_DATA \<or> type = FRAME_HEADERS) \<and> end_stream
      then (0, ctx\<lparr>hc_got_end_stream := True, hc_stream_error := NGHTTP2_NO_ERROR, hc_stream_closed := True\<rparr>)
      else (0, ctx))"

section \<open>Input and output\<close>

definition select_with_deadline ::
  "'w h2_env \<Rightarrow> int \<Rightarrow> bool \<Rightarrow> bool \<Rightarrow> int \<Rightarrow> 'w \<Rightarrow> int \<times> 'w" where
  "select_with_deadline env fd want_read want_write deadline_ms w =
     (let (now, w) = ne_now env w in
      if deadline_ms - now \<le> 0 then (0, w) else h2_select env fd want_read want_write (deadline_ms - now) w)"

text \<open>
  \<open>send_callback\<close>: the bytes that remain, the data drained from the TLS layer meanwhile and whether
  everything was written.
\<close>

partial_function (option) send_loop ::
  "'w h2_env \<Rightarrow> int \<Rightarrow> int \<Rightarrow> string \<Rightarrow> string \<Rightarrow> 'w \<Rightarrow> (bool \<times> string \<times> 'w) option" where
  "send_loop env fd deadline_ms data pending w =
     (if data = [] then Some (True, pending, w)
      else (case h2_write env data w of
        (IoDone n, w) \<Rightarrow> send_loop env fd deadline_ms (drop n data) pending w
      | (IoWantWrite, w) \<Rightarrow>
          (case select_with_deadline env fd False True deadline_ms w of
             (selected, w) \<Rightarrow> if selected \<le> 0 then Some (False, pending, w)
                             else send_loop env fd deadline_ms data pending w)
      | (IoWantRead, w) \<Rightarrow>
          (case select_with_deadline env fd True False deadline_ms w of
             (selected, w) \<Rightarrow>
               if selected \<le> 0 then Some (False, pending, w)
               else (case h2_read env 4096 w of
                  (IoDone d, w) \<Rightarrow> send_loop env fd deadline_ms data (pending @ d) w
                | (IoWantRead, w) \<Rightarrow> send_loop env fd deadline_ms data pending w
                | (IoWantWrite, w) \<Rightarrow> send_loop env fd deadline_ms data pending w
                | (_, w) \<Rightarrow> Some (False, pending, w)))
      | (_, w) \<Rightarrow> Some (False, pending, w)))"

definition send_callback ::
  "'w h2_env \<Rightarrow> int \<Rightarrow> string \<Rightarrow> h2_ctx \<Rightarrow> 'w \<Rightarrow> (int \<times> h2_ctx \<times> 'w) option" where
  "send_callback env fd data ctx w =
     map_option (\<lambda>(ok, pending, w).
         (if ok then int (length data) else NGHTTP2_ERR_CALLBACK_FAILURE, ctx\<lparr>hc_pending_data := pending\<rparr>, w))
       (send_loop env fd (hc_deadline_ms ctx) data (hc_pending_data ctx) w)"

text \<open>A library call with its callbacks.\<close>

primrec run_call ::
  "'w h2_env \<Rightarrow> int \<Rightarrow> 's nghttp2_call \<Rightarrow> h2_ctx \<Rightarrow> 'w \<Rightarrow> (int \<times> 's \<times> h2_ctx \<times> 'w) option" where
  "run_call env fd (Return r s) = (\<lambda>ctx w. Some (r, s, ctx, w))"
| "run_call env fd (SendCallback data k) = (\<lambda>ctx w.
     case send_callback env fd data ctx w of None \<Rightarrow> None | Some (r, ctx, w) \<Rightarrow> run_call env fd (k r) ctx w)"
| "run_call env fd (DataRead len k) = (\<lambda>ctx w.
     case data_read_callback len ctx of (d, eof, ctx) \<Rightarrow> run_call env fd (k d eof) ctx w)"
| "run_call env fd (OnHeader sid type cat name value k) = (\<lambda>ctx w.
     case on_header_callback sid type cat name value ctx of (r, ctx) \<Rightarrow> run_call env fd (k r) ctx w)"
| "run_call env fd (OnDataChunk sid data k) = (\<lambda>ctx w.
     case on_data_chunk_recv_callback sid data ctx of (r, ctx) \<Rightarrow> run_call env fd (k r) ctx w)"
| "run_call env fd (OnFrameRecv type sid end_stream k) = (\<lambda>ctx w.
     case on_frame_recv_callback type sid end_stream ctx of (r, ctx) \<Rightarrow> run_call env fd (k r) ctx w)"
| "run_call env fd (OnStreamClose sid err k) = (\<lambda>ctx w.
     case on_stream_close_callback sid err ctx of (r, ctx) \<Rightarrow> run_call env fd (k r) ctx w)"

section \<open>Connecting\<close>

fun h2_connect_first :: "'w h2_env \<Rightarrow> int \<Rightarrow> string list \<Rightarrow> 'w \<Rightarrow> int \<times> 'w" where
  "h2_connect_first env deadline_ms [] w = (-1, w)"
| "h2_connect_first env deadline_ms (addr # rest) w =
     (let (fd, w) = ne_socket env addr w in
      if fd < 0 then h2_connect_first env deadline_ms rest w
      else if fd \<ge> h2_fd_setsize env then h2_connect_first env deadline_ms rest (ne_close env fd w)
      else let (ok, w) = h2_set_nonblock env fd w in
      if \<not> ok then h2_connect_first env deadline_ms rest (ne_close env fd w)
      else (case h2_connect env fd addr w of
          (Connected, w) \<Rightarrow> (fd, w)
        | (InProgress, w) \<Rightarrow>
            let (selected, w) = select_with_deadline env fd False True deadline_ms w in
            if selected > 0 then
              (let (err, w) = h2_so_error env fd w in
               if err = 0 then (fd, w) else h2_connect_first env deadline_ms rest (ne_close env fd w))
            else h2_connect_first env deadline_ms rest (ne_close env fd w)
        | (ConnectFailed, w) \<Rightarrow> h2_connect_first env deadline_ms rest (ne_close env fd w)))"

definition connect_tcp :: "'w h2_env \<Rightarrow> string \<Rightarrow> nat \<Rightarrow> int \<Rightarrow> 'w \<Rightarrow> int \<times> 'w" where
  "connect_tcp env host port deadline_ms w =
     (let (addrs, w) = h2_numeric_addrinfo env (c_str host) (dec_digits port) w in
      if addrs = [] then (-1, w) else h2_connect_first env deadline_ms addrs w)"

text \<open>The handshake loop: its result code, waiting for the socket in between.\<close>

partial_function (option) handshake_loop ::
  "'w h2_env \<Rightarrow> tls_setup \<Rightarrow> int \<Rightarrow> int \<Rightarrow> 'w \<Rightarrow> (int \<times> 'w) option" where
  "handshake_loop env setup fd deadline_ms w =
     (case h2_handshake env setup fd w of
        (IoDone _, w) \<Rightarrow> Some (ASTERNET_OK, w)
      | (IoWantRead, w) \<Rightarrow>
          (case select_with_deadline env fd True False deadline_ms w of
             (selected, w) \<Rightarrow> if selected \<le> 0 then Some (if selected = 0 then ASTERNET_ERR_TIMEOUT else ASTERNET_ERR_TLS, w)
                             else handshake_loop env setup fd deadline_ms w)
      | (IoWantWrite, w) \<Rightarrow>
          (case select_with_deadline env fd False True deadline_ms w of
             (selected, w) \<Rightarrow> if selected \<le> 0 then Some (if selected = 0 then ASTERNET_ERR_TIMEOUT else ASTERNET_ERR_TLS, w)
                             else handshake_loop env setup fd deadline_ms w)
      | (_, w) \<Rightarrow> Some (ASTERNET_ERR_TLS, w))"

type_synonym ('s, 'w) h2_state = "(pooled_connection \<times> 's) option \<times> 'w"

text \<open>\<open>~PooledConnection\<close>: session, TLS and socket together.\<close>

definition h2_close_connection :: "'w h2_env \<Rightarrow> ('s, 'w) h2_state \<Rightarrow> ('s, 'w) h2_state" where
  "h2_close_connection env cw =
     (case cw of (None, w) \<Rightarrow> (None, w) | (Some (pc, s), w) \<Rightarrow> (None, close_tls env (pc_fd pc) w))"

text \<open>
  From the connected socket to the verified session with an nghttp2 session: the code, the time of
  the handshake and the session.
\<close>

definition h2_prepare_tls :: "'w h2_env \<Rightarrow> engine_config \<Rightarrow> request \<Rightarrow> int \<Rightarrow> 'w \<Rightarrow> int \<times> 'w" where
  "h2_prepare_tls env cfg req fd w =
     (let (ok, w) = ne_ctx_new env w in
      if \<not> ok then (ASTERNET_ERR_TLS, ne_close env fd w)
      else let (ok, w) = trust_ready env cfg req w in
      if \<not> ok then (ASTERNET_ERR_TLS, close_ctx env fd w)
      else let (ok, w) = h2_set_alpn env w in
      if \<not> ok then (ASTERNET_ERR_TLS, close_ctx env fd w)
      else let (ok, w) = ne_ssl_new env w in
      if \<not> ok then (ASTERNET_ERR_OUT_OF_MEMORY, close_ctx env fd w)
      else let (ok, w) = ne_set_sni env (c_str (req_host req)) w;
               (ok, w) = (if ok then h2_set_fd env fd w else (ok, w)) in
      if \<not> ok then (ASTERNET_ERR_TLS, close_tls env fd w)
      else let (ok, w) = (if \<not> allow_insecure cfg then ne_set1_host env (c_str (req_host req)) w else (True, w)) in
      if \<not> ok then (ASTERNET_ERR_TLS, close_tls env fd w)
      else (ASTERNET_OK, w))"

definition h2_start_session ::
  "'w h2_env \<Rightarrow> ('s, 'w) nghttp2 \<Rightarrow> engine_config \<Rightarrow> request \<Rightarrow> int \<Rightarrow> int \<Rightarrow> 'w \<Rightarrow> ((int + 's) \<times> int \<times> 'w) option" where
  "h2_start_session env lib cfg req fd deadline_ms w =
     (case h2_prepare_tls env cfg req fd w of
        (code, w) \<Rightarrow>
          if code \<noteq> ASTERNET_OK then Some (Inl code, -1, w)
          else (case ne_now env w of (tls_start, w) \<Rightarrow>
            (case handshake_loop env (tls_setup_of cfg req (Some ''h2'')) fd deadline_ms w of
               None \<Rightarrow> None
             | Some (code, w) \<Rightarrow>
                 if code \<noteq> ASTERNET_OK then
                   (case elapsed_since env tls_start (close_tls env fd w) of (tls_ms, w) \<Rightarrow> Some (Inl code, tls_ms, w))
                 else (case elapsed_since env tls_start w of (tls_ms, w) \<Rightarrow>
                   (case h2_callbacks_new env w of (ok, w) \<Rightarrow>
                     if \<not> ok then Some (Inl ASTERNET_ERR_OUT_OF_MEMORY, tls_ms, close_tls env fd w)
                     else (case ng_session_new lib w of
                         (None, w) \<Rightarrow> Some (Inl ASTERNET_ERR_OUT_OF_MEMORY, tls_ms, close_tls env fd w)
                       | (Some s, w) \<Rightarrow> Some (Inr s, tls_ms, w)))))))"

definition h2_ensure_connection ::
  "'w h2_env \<Rightarrow> ('s, 'w) nghttp2 \<Rightarrow> engine_config \<Rightarrow> request \<Rightarrow> response \<Rightarrow> int \<Rightarrow> ('s, 'w) h2_state
     \<Rightarrow> (int \<times> bool \<times> response \<times> ('s, 'w) h2_state) option"
where
  "h2_ensure_connection env lib cfg req resp deadline_ms cw =
     (if (case fst cw of Some (pc, s) \<Rightarrow> pc_fd pc \<ge> 0 \<and> same_origin cfg req pc | None \<Rightarrow> False)
      then Some (ASTERNET_OK, True, resp, cw)
      else
        let (_, w) = h2_close_connection env cw;
            (connect_start, w) = ne_now env w;
            (fd, w) = connect_tcp env (endpoint_of req) (req_port req) deadline_ms w;
            (connect_ms, w) = elapsed_since env connect_start w;
            resp = resp\<lparr>resp_connect_ms := connect_ms\<rparr> in
        if fd < 0 then Some (ASTERNET_ERR_CONNECT, False, resp, None, w)
        else (case h2_start_session env lib cfg req fd deadline_ms w of
            None \<Rightarrow> None
          | Some (Inl code, tls_ms, w) \<Rightarrow> Some (code, False, resp\<lparr>resp_tls_ms := tls_ms\<rparr>, None, w)
          | Some (Inr s, tls_ms, w) \<Rightarrow>
              Some (ASTERNET_OK, False, resp\<lparr>resp_tls_ms := tls_ms\<rparr>, Some (new_connection cfg req fd, s), w)))"

section \<open>The header list\<close>

definition h2_authority :: "request \<Rightarrow> string" where
  "h2_authority req =
     (if req_port req \<noteq> 443 then req_host req @ '':'' @ dec_digits (req_port req) else req_host req)"

definition nv :: "string \<Rightarrow> string \<Rightarrow> string \<times> string" where
  "nv n v = (c_str n, c_str v)"

text \<open>\<open>None\<close>: the header makes the request fail; \<open>Some []\<close>: it is dropped.\<close>

definition h2_custom_header :: "header \<Rightarrow> (string \<times> string) list option" where
  "h2_custom_header h =
     (if has_crlf (h_name h) \<or> has_crlf (h_value h) \<or> h_name h = [] \<or> hd (h_name h) = CHR '':'' then None
      else if \<not> list_all token_char (h_name h) then None
      else if lower (h_name h) = ''te'' \<and> trim_blanks (lower (h_value h)) \<noteq> ''trailers'' then None
      else if hop_by_hop (lower (h_name h)) then Some []
      else Some [nv (h_name h) (h_value h)])"

fun h2_custom_headers :: "header list \<Rightarrow> (string \<times> string) list option" where
  "h2_custom_headers [] = Some []"
| "h2_custom_headers (h # hs) =
     (case h2_custom_header h of None \<Rightarrow> None
      | Some ls \<Rightarrow> map_option ((@) ls) (h2_custom_headers hs))"

definition h2_pseudo_headers :: "request \<Rightarrow> (string \<times> string) list" where
  "h2_pseudo_headers req =
     [nv '':method'' (req_method req), nv '':scheme'' ''https'', nv '':authority'' (h2_authority req),
      nv '':path'' (req_path req), nv ''user-agent'' ''asternet/0.1'']"

definition h2_header_list :: "request \<Rightarrow> (string \<times> string) list option" where
  "h2_header_list req = map_option ((@) (h2_pseudo_headers req)) (h2_custom_headers (req_headers req))"

section \<open>The exchange loop\<close>

record ('s, 'w) h2_run =
  hr_session :: 's
  hr_ctx :: h2_ctx
  hr_ttfb :: "int option"
  hr_world :: 'w

text \<open>Reads until something other than "wants to write" comes back or the wait for it fails.\<close>

partial_function (option) h2_read_retry ::
  "'w h2_env \<Rightarrow> int \<Rightarrow> int \<Rightarrow> 'w \<Rightarrow> (string tls_io \<times> 'w) option" where
  "h2_read_retry env fd deadline_ms w =
     (case h2_read env 16384 w of
        (IoWantWrite, w) \<Rightarrow>
          (case select_with_deadline env fd False True deadline_ms w of
             (selected, w) \<Rightarrow> if selected > 0 then h2_read_retry env fd deadline_ms w else Some (IoWantWrite, w))
      | (r, w) \<Rightarrow> Some (r, w))"

text \<open>The sending phase: the session's output, then the bytes drained meanwhile.\<close>

definition h2_send_phase ::
  "'w h2_env \<Rightarrow> ('s, 'w) nghttp2 \<Rightarrow> int \<Rightarrow> ('s, 'w) h2_run \<Rightarrow> (int \<times> ('s, 'w) h2_run) option" where
  "h2_send_phase env lib fd run =
     (case run_call env fd (ng_send lib (hr_session run)) (hr_ctx run) (hr_world run) of
        None \<Rightarrow> None
      | Some (sr, s, ctx, w) \<Rightarrow>
          let run = run\<lparr>hr_session := s, hr_ctx := ctx, hr_world := w\<rparr> in
          if sr < 0 then Some (ASTERNET_ERR_PROTOCOL, run)
          else if hc_pending_data ctx = [] then Some (ASTERNET_OK, run)
          else (case run_call env fd (ng_mem_recv lib (hc_pending_data ctx) s) ctx w of
              None \<Rightarrow> None
            | Some (consumed, s, ctx, w) \<Rightarrow>
                if consumed < 0 then Some (ASTERNET_ERR_PROTOCOL, run\<lparr>hr_session := s, hr_ctx := ctx, hr_world := w\<rparr>)
                else Some (ASTERNET_OK, run\<lparr>hr_session := s,
                       hr_ctx := ctx\<lparr>hc_pending_data := drop (nat consumed) (hc_pending_data ctx)\<rparr>, hr_world := w\<rparr>)))"

text \<open>What a read of the socket leads to: \<open>Inl\<close> stops the loop with a code.\<close>

definition h2_received ::
  "'w h2_env \<Rightarrow> ('s, 'w) nghttp2 \<Rightarrow> int \<Rightarrow> int \<Rightarrow> string \<Rightarrow> ('s, 'w) h2_run \<Rightarrow> (int option \<times> ('s, 'w) h2_run) option" where
  "h2_received env lib fd t_start d run =
     (let (ttfb, w) = (case hr_ttfb run of
            Some t \<Rightarrow> (Some t, hr_world run)
          | None \<Rightarrow> (let (t, w) = elapsed_since env t_start (hr_world run) in (Some t, w))) in
      case run_call env fd (ng_mem_recv lib d (hr_session run)) (hr_ctx run) w of
        None \<Rightarrow> None
      | Some (consumed, s, ctx, w) \<Rightarrow>
          let run = run\<lparr>hr_session := s, hr_ctx := ctx, hr_ttfb := ttfb, hr_world := w\<rparr> in
          if consumed < 0 then Some (Some ASTERNET_ERR_PROTOCOL, run)
          else if consumed < int (length d)
          then Some (None, run\<lparr>hr_ctx := ctx\<lparr>hc_pending_data := hc_pending_data ctx @ drop (nat consumed) d\<rparr>\<rparr>)
          else Some (None, run))"

definition h2_receive_phase ::
  "'w h2_env \<Rightarrow> ('s, 'w) nghttp2 \<Rightarrow> int \<Rightarrow> int \<Rightarrow> int \<Rightarrow> ('s, 'w) h2_run \<Rightarrow> (int option \<times> ('s, 'w) h2_run) option" where
  "h2_receive_phase env lib fd t_start deadline_ms run =
     (let (now, w) = ne_now env (hr_world run) in
      if deadline_ms - now \<le> 0 then Some (Some ASTERNET_ERR_TIMEOUT, run\<lparr>hr_world := w\<rparr>)
      else
        let (sel, w) = h2_select env fd True False (deadline_ms - now) w; (now, w) = ne_now env w;
            run = run\<lparr>hr_world := w\<rparr> in
        if now \<ge> deadline_ms then Some (Some ASTERNET_ERR_TIMEOUT, run)
        else if sel \<le> 0 then Some (None, run)
        else (case h2_read_retry env fd deadline_ms w of
            None \<Rightarrow> None
          | Some (IoDone d, w) \<Rightarrow> h2_received env lib fd t_start d (run\<lparr>hr_world := w\<rparr>)
          | Some (IoWantRead, w) \<Rightarrow> Some (None, run\<lparr>hr_world := w\<rparr>)
          | Some (_, w) \<Rightarrow>
              Some (Some (if hc_stream_closed (hr_ctx run) then ASTERNET_OK else ASTERNET_ERR_PROTOCOL),
                    run\<lparr>hr_world := w\<rparr>)))"

partial_function (option) h2_loop ::
  "'w h2_env \<Rightarrow> ('s, 'w) nghttp2 \<Rightarrow> int \<Rightarrow> int \<Rightarrow> int \<Rightarrow> ('s, 'w) h2_run \<Rightarrow> (int \<times> ('s, 'w) h2_run) option" where
  "h2_loop env lib fd t_start deadline_ms run =
     (if hc_stream_closed (hr_ctx run) then Some (ASTERNET_OK, run)
      else (case h2_send_phase env lib fd run of
          None \<Rightarrow> None
        | Some (code, run) \<Rightarrow>
            if code \<noteq> ASTERNET_OK then Some (code, run)
            else if hc_stream_closed (hr_ctx run) then Some (ASTERNET_OK, run)
            else (case h2_receive_phase env lib fd t_start deadline_ms run of
                None \<Rightarrow> None
              | Some (Some code, run) \<Rightarrow> Some (code, run)
              | Some (None, run) \<Rightarrow> h2_loop env lib fd t_start deadline_ms run)))"

section \<open>The request\<close>

definition h2_classify :: "int \<Rightarrow> h2_ctx \<Rightarrow> int" where
  "h2_classify ret ctx =
     (if hc_body_limit_exceeded ctx then ASTERNET_ERR_BUFFER_TOO_SMALL
      else if hc_forbidden_body_received ctx then ASTERNET_ERR_PROTOCOL
      else if ret = ASTERNET_OK \<and> (\<not> hc_got_status ctx \<or> \<not> hc_got_end_stream ctx \<or> hc_stream_error ctx \<noteq> NGHTTP2_NO_ERROR)
      then ASTERNET_ERR_PROTOCOL else ret)"

definition h2_keep_connection :: "int \<Rightarrow> h2_ctx \<Rightarrow> bool" where
  "h2_keep_connection ret ctx \<longleftrightarrow>
     ret = ASTERNET_OK \<and> hc_got_status ctx \<and> hc_got_end_stream ctx \<and> hc_stream_error ctx = NGHTTP2_NO_ERROR
     \<and> \<not> hc_body_limit_exceeded ctx \<and> \<not> hc_forbidden_body_received ctx \<and> \<not> hc_goaway_received ctx"

definition h2_finish ::
  "'w h2_env \<Rightarrow> int \<Rightarrow> int \<Rightarrow> response \<Rightarrow> ('s, 'w) h2_state \<Rightarrow> int \<times> response \<times> ('s, 'w) h2_state" where
  "h2_finish env t_start code resp cw =
     (let (ms, w) = elapsed_since env t_start (snd cw) in
      (code, resp\<lparr>resp_total_ms := ms, resp_err_code := code\<rparr>, fst cw, w))"

definition h2_fail ::
  "'w h2_env \<Rightarrow> int \<Rightarrow> int \<Rightarrow> string \<Rightarrow> response \<Rightarrow> ('s, 'w) h2_state \<Rightarrow> int \<times> response \<times> ('s, 'w) h2_state" where
  "h2_fail env t_start code stage resp cw =
     h2_finish env t_start code (resp\<lparr>resp_failure_stage := stage\<rparr>) (h2_close_connection env cw)"

definition h2_failure_stage :: "int \<Rightarrow> string" where
  "h2_failure_stage ret =
     (if ret = ASTERNET_ERR_TIMEOUT then ''timeout'' else if ret = ASTERNET_ERR_TLS then ''tls''
      else if ret = ASTERNET_ERR_CONNECT then ''connect'' else ''protocol'')"

text \<open>The end of an exchange: classification, and whether the connection is kept.\<close>

definition h2_conclude ::
  "'w h2_env \<Rightarrow> int \<Rightarrow> int \<Rightarrow> response \<Rightarrow> pooled_connection \<Rightarrow> ('s, 'w) h2_run \<Rightarrow> int \<times> response \<times> ('s, 'w) h2_state" where
  "h2_conclude env t_start ret resp pc run =
     (let ctx = hr_ctx run; ret = h2_classify ret ctx;
          resp = resp\<lparr>resp_ttfb_ms := (case hr_ttfb run of None \<Rightarrow> resp_ttfb_ms resp | Some t \<Rightarrow> t),
                      resp_http_status := hc_http_status ctx, resp_body := hc_resp_body ctx,
                      resp_failure_stage := (if ret \<noteq> ASTERNET_OK then h2_failure_stage ret else resp_failure_stage resp)\<rparr>;
          cw = (Some (pc, hr_session run), hr_world run)
      in h2_finish env t_start ret resp (if h2_keep_connection ret ctx then cw else h2_close_connection env cw))"

text \<open>Settings on a new connection, the negotiated protocol, the header list, the stream.\<close>

definition h2_submit ::
  "'w h2_env \<Rightarrow> ('s, 'w) nghttp2 \<Rightarrow> request \<Rightarrow> bool \<Rightarrow> 's \<Rightarrow> 'w \<Rightarrow> ((int \<times> string) + int) \<times> 's \<times> 'w" where
  "h2_submit env lib req reused s w =
     (let (settings, s) = (if reused then (0, s) else ng_submit_settings lib s) in
      if settings \<noteq> 0
      then (Inl (if settings = NGHTTP2_ERR_NOMEM then ASTERNET_ERR_OUT_OF_MEMORY else ASTERNET_ERR_PROTOCOL, []), s, w)
      else let (alpn, w) = h2_alpn_selected env w in
      if alpn \<noteq> ''h2'' then (Inl (ASTERNET_ERR_PROTOCOL, ''protocol''), s, w)
      else (case h2_header_list req of
          None \<Rightarrow> (Inl (ASTERNET_ERR_PROTOCOL, ''header''), s, w)
        | Some nvs \<Rightarrow>
            let (stream_id, s) = ng_submit_request lib nvs (req_body req \<noteq> []) s in
            if stream_id < 0 then (Inl (ASTERNET_ERR_PROTOCOL, ''protocol''), s, w) else (Inr stream_id, s, w)))"

definition h2_exchange ::
  "'w h2_env \<Rightarrow> ('s, 'w) nghttp2 \<Rightarrow> int \<Rightarrow> int \<Rightarrow> request \<Rightarrow> bool \<Rightarrow> response \<Rightarrow> pooled_connection \<Rightarrow> 's \<Rightarrow> 'w
     \<Rightarrow> (int \<times> response \<times> ('s, 'w) h2_state) option"
where
  "h2_exchange env lib t_start deadline_ms req reused resp pc s w =
     (case h2_submit env lib req reused s w of
        (Inl (code, stage), s, w) \<Rightarrow> Some (h2_fail env t_start code stage resp (Some (pc, s), w))
      | (Inr stream_id, s, w) \<Rightarrow>
          let ctx = (new_h2_ctx req deadline_ms)\<lparr>hc_authority := h2_authority req, hc_stream_id := stream_id\<rparr>;
              run = \<lparr>hr_session = s, hr_ctx = ctx, hr_ttfb = None, hr_world = w\<rparr> in
          (case h2_loop env lib (pc_fd pc) t_start deadline_ms run of
             None \<Rightarrow> None
           | Some (ret, run) \<Rightarrow> Some (h2_conclude env t_start ret resp pc run)))"

definition http2_request ::
  "'w h2_env \<Rightarrow> ('s, 'w) nghttp2 \<Rightarrow> engine_config \<Rightarrow> request \<Rightarrow> ('s, 'w) h2_state
     \<Rightarrow> (int \<times> response \<times> ('s, 'w) h2_state) option"
where
  "http2_request env lib cfg req cw =
     (let resp = default_response\<lparr>resp_protocol := PROTOCOL_HTTP_2, resp_dns_ms := req_dns_ms req\<rparr>;
          (t_start, w) = ne_now env (snd cw);
          deadline_ms = t_start + req_timeout_ms req in
      if request_line_unsafe req
      then Some (h2_finish env t_start ASTERNET_ERR_PROTOCOL (resp\<lparr>resp_failure_stage := ''header''\<rparr>) (fst cw, w))
      else (case h2_ensure_connection env lib cfg req resp deadline_ms (fst cw, w) of
          None \<Rightarrow> None
        | Some (code, reused, resp, (Some (pc, s), w)) \<Rightarrow>
            if code \<noteq> ASTERNET_OK
            then Some (h2_finish env t_start code (resp\<lparr>resp_failure_stage :=
                   (if code = ASTERNET_ERR_CONNECT then ''connect'' else ''tls'')\<rparr>) (Some (pc, s), w))
            else h2_exchange env lib t_start deadline_ms req reused
                   (if reused then resp\<lparr>resp_connection_reused := True, resp_connect_ms := 0, resp_tls_ms := 0\<rparr>
                    else resp\<lparr>resp_connection_reused := False\<rparr>) pc s w
        | Some (code, reused, resp, (None, w)) \<Rightarrow>
            Some (h2_finish env t_start code (resp\<lparr>resp_failure_stage :=
              (if code = ASTERNET_ERR_CONNECT then ''connect'' else ''tls'')\<rparr>) (None, w))))"

definition http2_prefetch :: "string \<Rightarrow> int" where
  "http2_prefetch host = ASTERNET_ERR_UNSUPPORTED"

definition http2_migrate_connection :: "'w h2_env \<Rightarrow> ('s, 'w) h2_state \<Rightarrow> int \<times> ('s, 'w) h2_state" where
  "http2_migrate_connection env cw = (ASTERNET_OK, h2_close_connection env cw)"

definition http2_destroy :: "'w h2_env \<Rightarrow> ('s, 'w) h2_state \<Rightarrow> ('s, 'w) h2_state" where
  "http2_destroy env cw = h2_close_connection env cw"

section \<open>What the callbacks keep\<close>

text \<open>
  A condition on the context that every callback keeps (and the bookkeeping of the pending bytes) is
  kept by every interaction of the library, whatever callbacks it makes, and by the whole loop.
\<close>

definition callback_closed :: "(h2_ctx \<Rightarrow> bool) \<Rightarrow> bool" where
  "callback_closed P \<longleftrightarrow>
     (\<forall>ctx. P ctx \<longrightarrow>
        (\<forall>p. P (ctx\<lparr>hc_pending_data := p\<rparr>))
        \<and> (\<forall>n. P (snd (snd (data_read_callback n ctx))))
        \<and> (\<forall>sid type cat name value. P (snd (on_header_callback sid type cat name value ctx)))
        \<and> (\<forall>sid data. P (snd (on_data_chunk_recv_callback sid data ctx)))
        \<and> (\<forall>sid err. P (snd (on_stream_close_callback sid err ctx)))
        \<and> (\<forall>type sid fin. P (snd (on_frame_recv_callback type sid fin ctx))))"

lemma callback_closedD:
  assumes "callback_closed P" and "P ctx"
  shows "P (ctx\<lparr>hc_pending_data := p\<rparr>)" "P (snd (snd (data_read_callback n ctx)))"
    "P (snd (on_header_callback sid type cat name value ctx))" "P (snd (on_data_chunk_recv_callback sid data ctx))"
    "P (snd (on_stream_close_callback sid err ctx))" "P (snd (on_frame_recv_callback type sid fin ctx))"
  using assms unfolding callback_closed_def by simp_all

lemma send_callback_ctx:
  "send_callback env fd data ctx w = Some (r, ctx', w') \<Longrightarrow> \<exists>p. ctx' = ctx\<lparr>hc_pending_data := p\<rparr>"
  by (auto simp: send_callback_def)

lemma run_call_keeps:
  assumes closed: "callback_closed P"
  shows "run_call env fd call ctx w = Some (r, s, ctx', w') \<Longrightarrow> P ctx \<Longrightarrow> P ctx'"
proof (induction call arbitrary: ctx w)
  case (Return r s)
  then show ?case by simp
next
  case (SendCallback data k)
  then obtain v ctx1 w1 where "send_callback env fd data ctx w = Some (v, ctx1, w1)"
    and run: "run_call env fd (k v) ctx1 w1 = Some (r, s, ctx', w')"
    by (auto split: option.splits)
  with send_callback_ctx SendCallback.prems(2) callback_closedD(1) [OF closed] have "P ctx1" by metis
  with SendCallback.IH run show ?case by blast
next
  case (DataRead n k)
  obtain d eof ctx1 where e: "data_read_callback n ctx = (d, eof, ctx1)" by (rule prod_cases3)
  have "P ctx1" using callback_closedD(2) [OF closed DataRead.prems(2), of n] e by simp
  with DataRead.IH [of "k d" "k d eof" ctx1 w] DataRead.prems(1) e show ?case by simp
next
  case (OnHeader sid type cat name val k)
  obtain v ctx1 where e: "on_header_callback sid type cat name val ctx = (v, ctx1)" by (rule prod.exhaust)
  have "P ctx1" using callback_closedD(3) [OF closed OnHeader.prems(2), of sid type cat name val] e by simp
  with OnHeader.IH [of "k v" ctx1 w] OnHeader.prems(1) e show ?case by simp
next
  case (OnDataChunk sid data k)
  obtain v ctx1 where e: "on_data_chunk_recv_callback sid data ctx = (v, ctx1)" by (rule prod.exhaust)
  have "P ctx1" using callback_closedD(4) [OF closed OnDataChunk.prems(2), of sid data] e by simp
  with OnDataChunk.IH [of "k v" ctx1 w] OnDataChunk.prems(1) e show ?case by simp
next
  case (OnFrameRecv type sid fin k)
  obtain v ctx1 where e: "on_frame_recv_callback type sid fin ctx = (v, ctx1)" by (rule prod.exhaust)
  have "P ctx1" using callback_closedD(6) [OF closed OnFrameRecv.prems(2), of type sid fin] e by simp
  with OnFrameRecv.IH [of "k v" ctx1 w] OnFrameRecv.prems(1) e show ?case by simp
next
  case (OnStreamClose sid err k)
  obtain v ctx1 where e: "on_stream_close_callback sid err ctx = (v, ctx1)" by (rule prod.exhaust)
  have "P ctx1" using callback_closedD(5) [OF closed OnStreamClose.prems(2), of sid err] e by simp
  with OnStreamClose.IH [of "k v" ctx1 w] OnStreamClose.prems(1) e show ?case by simp
qed

definition lib_keeps :: "'w h2_env \<Rightarrow> ('s, 'w) nghttp2 \<Rightarrow> int \<Rightarrow> (h2_ctx \<Rightarrow> bool) \<Rightarrow> bool" where
  "lib_keeps env lib fd P \<longleftrightarrow>
     (\<forall>ctx p. P ctx \<longrightarrow> P (ctx\<lparr>hc_pending_data := p\<rparr>))
     \<and> (\<forall>call ctx w r s ctx' w'. call \<in> range (ng_send lib) \<union> range (case_prod (ng_mem_recv lib)) \<longrightarrow>
          run_call env fd call ctx w = Some (r, s, ctx', w') \<longrightarrow> P ctx \<longrightarrow> P ctx')"

lemma lib_keepsD:
  assumes "lib_keeps env lib fd P"
  shows "P ctx \<Longrightarrow> P (ctx\<lparr>hc_pending_data := p\<rparr>)"
    and "run_call env fd (ng_send lib s) ctx w = Some (r, s', ctx', w') \<Longrightarrow> P ctx \<Longrightarrow> P ctx'"
    and "run_call env fd (ng_mem_recv lib d s) ctx w = Some (r, s', ctx', w') \<Longrightarrow> P ctx \<Longrightarrow> P ctx'"
proof -
  have "ng_send lib s \<in> range (ng_send lib) \<union> range (case_prod (ng_mem_recv lib))" by simp
  moreover have "ng_mem_recv lib d s \<in> range (ng_send lib) \<union> range (case_prod (ng_mem_recv lib))"
    by (metis UNIV_I UnI2 case_prod_conv image_eqI)
  ultimately show "P ctx \<Longrightarrow> P (ctx\<lparr>hc_pending_data := p\<rparr>)"
    "run_call env fd (ng_send lib s) ctx w = Some (r, s', ctx', w') \<Longrightarrow> P ctx \<Longrightarrow> P ctx'"
    "run_call env fd (ng_mem_recv lib d s) ctx w = Some (r, s', ctx', w') \<Longrightarrow> P ctx \<Longrightarrow> P ctx'"
    using assms unfolding lib_keeps_def by blast+
qed

lemma callback_closed_lib: "callback_closed P \<Longrightarrow> lib_keeps env lib fd P"
  unfolding lib_keeps_def by (auto intro: callback_closedD(1) run_call_keeps)

lemma h2_send_phase_keeps:
  assumes "lib_keeps env lib fd P" and "h2_send_phase env lib fd run = Some (code, run')" and "P (hr_ctx run)"
  shows "P (hr_ctx run')"
proof -
  obtain sr s ctx w where 1: "run_call env fd (ng_send lib (hr_session run)) (hr_ctx run) (hr_world run) = Some (sr, s, ctx, w)"
    using assms(2) by (auto simp: h2_send_phase_def split: option.splits)
  have p1: "P ctx" by (rule lib_keepsD(2) [OF assms(1) 1 assms(3)])
  show ?thesis
  proof (cases "sr < 0 \<or> hc_pending_data ctx = []")
    case True
    with assms(2) 1 p1 show ?thesis by (auto simp: h2_send_phase_def Let_def split: if_splits)
  next
    case False
    then obtain n s2 ctx2 w2 where 2: "run_call env fd (ng_mem_recv lib (hc_pending_data ctx) s) ctx w = Some (n, s2, ctx2, w2)"
      using assms(2) 1 by (auto simp: h2_send_phase_def Let_def split: option.splits)
    have "P ctx2" by (rule lib_keepsD(3) [OF assms(1) 2 p1])
    with assms(2) 1 2 False lib_keepsD(1) [OF assms(1)] show ?thesis
      by (auto simp: h2_send_phase_def Let_def split: if_splits)
  qed
qed

lemma h2_received_keeps:
  assumes "lib_keeps env lib fd P" and "h2_received env lib fd t_start d run = Some (stop, run')" and "P (hr_ctx run)"
  shows "P (hr_ctx run')"
proof -
  obtain ttfb w where t: "(case hr_ttfb run of Some t \<Rightarrow> (Some t, hr_world run)
      | None \<Rightarrow> (let (t, w) = elapsed_since env t_start (hr_world run) in (Some t, w))) = (ttfb, w)"
    by (rule prod.exhaust)
  note run = assms(2) [unfolded h2_received_def t, unfolded Let_def prod.case]
  then obtain out where "run_call env fd (ng_mem_recv lib d (hr_session run)) (hr_ctx run) w = Some out"
    by (cases "run_call env fd (ng_mem_recv lib d (hr_session run)) (hr_ctx run) w") simp_all
  moreover obtain n s ctx w2 where "out = (n, s, ctx, w2)" by (rule prod_cases4)
  ultimately have 1: "run_call env fd (ng_mem_recv lib d (hr_session run)) (hr_ctx run) w = Some (n, s, ctx, w2)"
    by simp
  have "P ctx" by (rule lib_keepsD(3) [OF assms(1) 1 assms(3)])
  with run [unfolded 1 option.case prod.case] lib_keepsD(1) [OF assms(1)] show ?thesis
    by (auto split: if_splits)
qed

lemma h2_receive_phase_keeps:
  assumes "lib_keeps env lib fd P" and "h2_receive_phase env lib fd t_start deadline run = Some (stop, run')" and "P (hr_ctx run)"
  shows "P (hr_ctx run')"
proof -
  obtain now w where 1: "ne_now env (hr_world run) = (now, w)" by (rule prod.exhaust)
  obtain sel w1 where 2: "h2_select env fd True False (deadline - now) w = (sel, w1)" by (rule prod.exhaust)
  obtain now2 w2 where 3: "ne_now env w1 = (now2, w2)" by (rule prod.exhaust)
  note run = assms(2) [unfolded h2_receive_phase_def 1 2 3 Let_def prod.case]
  have same: "P (hr_ctx (run\<lparr>hr_world := v\<rparr>))" for v using assms(3) by simp
  show ?thesis
  proof (cases "deadline - now \<le> 0 \<or> deadline \<le> now2 \<or> sel \<le> 0")
    case True
    with run assms(3) show ?thesis by (auto split: if_splits)
  next
    case False
    then obtain io w3 where 4: "h2_read_retry env fd deadline w2 = Some (io, w3)"
      using run by (cases "h2_read_retry env fd deadline w2") auto
    show ?thesis
    proof (cases io)
      case (IoDone d)
      with run 4 False have "h2_received env lib fd t_start d (run\<lparr>hr_world := w3\<rparr>) = Some (stop, run')"
        by (auto split: if_splits)
      then show ?thesis by (rule h2_received_keeps [OF assms(1) _ same])
    qed (use run 4 False assms(3) in \<open>auto split: if_splits\<close>)
  qed
qed

lemma h2_loop_keeps:
  assumes "h2_loop env lib fd t_start deadline run = Some out"
  shows "lib_keeps env lib fd P \<Longrightarrow> P (hr_ctx run) \<Longrightarrow> P (hr_ctx (snd out))"
  using assms
proof (induct rule: h2_loop.raw_induct [rotated, consumes 1])
  case (1 f env lib fd t_start deadline run out)
  note hyps = 1
  show ?case
  proof (cases "hc_stream_closed (hr_ctx run)")
    case True
    with hyps(2,4) show ?thesis by auto
  next
    case False
    then obtain code run1 where s: "h2_send_phase env lib fd run = Some (code, run1)"
      using hyps(2) by (auto split: option.splits)
    have p1: "P (hr_ctx run1)" by (rule h2_send_phase_keeps [OF hyps(3) s hyps(4)])
    show ?thesis
    proof (cases "code \<noteq> ASTERNET_OK \<or> hc_stream_closed (hr_ctx run1)")
      case True
      with hyps(2) False s p1 show ?thesis by (auto split: if_splits)
    next
      case go: False
      then obtain stop run2 where r: "h2_receive_phase env lib fd t_start deadline run1 = Some (stop, run2)"
        using hyps(2) False s by (auto split: option.splits)
      have p2: "P (hr_ctx run2)" by (rule h2_receive_phase_keeps [OF hyps(3) r p1])
      show ?thesis
      proof (cases stop)
        case None
        with hyps(2) False s go r have "f env lib fd t_start deadline run2 = Some out" by simp
        from hyps(1) [OF this hyps(3) p2] show ?thesis .
      next
        case (Some c)
        with hyps(2) False s go r p2 show ?thesis by auto
      qed
    qed
  qed
qed

section \<open>Outcomes\<close>

definition h2_failed :: "int \<times> response \<times> ('s, 'w) h2_state \<Rightarrow> bool" where
  "h2_failed out \<longleftrightarrow> fst out \<noteq> ASTERNET_OK \<and> resp_err_code (fst (snd out)) = fst out
     \<and> resp_protocol (fst (snd out)) = PROTOCOL_HTTP_2"

lemma h2_finish_failed:
  "code \<noteq> ASTERNET_OK \<Longrightarrow> resp_protocol resp = PROTOCOL_HTTP_2 \<Longrightarrow> h2_failed (h2_finish env t_start code resp cw)"
  by (auto simp: h2_failed_def h2_finish_def split: prod.splits)

lemma h2_start_session_code:
  "h2_start_session env lib cfg req fd deadline w = Some (Inl code, tls_ms, w') \<Longrightarrow> code \<noteq> ASTERNET_OK"
  by (auto simp: h2_start_session_def split: prod.splits option.splits if_splits)

lemma h2_ensure_facts:
  assumes "h2_ensure_connection env lib cfg req resp deadline cw = Some (code, reused, resp', cw')"
  shows "resp_protocol resp' = resp_protocol resp" and "fst cw' = None \<Longrightarrow> code \<noteq> ASTERNET_OK"
    and "resp_failure_stage resp' = resp_failure_stage resp"
proof -
  have "resp_protocol resp' = resp_protocol resp \<and> (fst cw' = None \<longrightarrow> code \<noteq> ASTERNET_OK)
    \<and> resp_failure_stage resp' = resp_failure_stage resp"
    using assms unfolding h2_ensure_connection_def Let_def
    by (auto split: prod.splits option.splits sum.splits if_splits dest: h2_start_session_code)
  then show "resp_protocol resp' = resp_protocol resp" "fst cw' = None \<Longrightarrow> code \<noteq> ASTERNET_OK"
    "resp_failure_stage resp' = resp_failure_stage resp" by auto
qed

lemma h2_submit_code: "h2_submit env lib req reused s w = (Inl (code, stage), s', w') \<Longrightarrow> code \<noteq> ASTERNET_OK"
  by (auto simp: h2_submit_def Let_def split: prod.splits if_splits option.splits)

definition h2_start :: "request \<Rightarrow> int \<Rightarrow> int \<Rightarrow> 's \<Rightarrow> 'w \<Rightarrow> ('s, 'w) h2_run" where
  "h2_start req deadline_ms stream_id s w =
     \<lparr>hr_session = s, hr_ctx = (new_h2_ctx req deadline_ms)\<lparr>hc_authority := h2_authority req, hc_stream_id := stream_id\<rparr>,
      hr_ttfb = None, hr_world = w\<rparr>"

text \<open>A request fails before the exchange, or is concluded from the run of the exchange loop.\<close>

definition h2_concluded ::
  "'w h2_env \<Rightarrow> ('s, 'w) nghttp2 \<Rightarrow> request \<Rightarrow> pooled_connection \<Rightarrow> response \<Rightarrow> int \<Rightarrow> ('s, 'w) h2_run
     \<Rightarrow> int \<times> response \<times> ('s, 'w) h2_state \<Rightarrow> bool" where
  "h2_concluded env lib req pc resp code run out \<longleftrightarrow>
     resp_protocol resp = PROTOCOL_HTTP_2 \<and> resp_failure_stage resp = []
     \<and> (\<exists>t_start deadline_ms sid s w.
          h2_loop env lib (pc_fd pc) t_start deadline_ms (h2_start req deadline_ms sid s w) = Some (code, run)
          \<and> out = h2_conclude env t_start code resp pc run)"

lemma h2_exchange_outcome:
  assumes "h2_exchange env lib t_start deadline req reused resp pc s w = Some out"
    and "resp_protocol resp = PROTOCOL_HTTP_2" "resp_failure_stage resp = []"
  shows "h2_failed out \<or> (\<exists>code run. h2_concluded env lib req pc resp code run out)"
proof -
  obtain r s1 w1 where sub: "h2_submit env lib req reused s w = (r, s1, w1)" by (rule prod_cases3)
  note out = assms(1) [unfolded h2_exchange_def sub prod.case]
  show ?thesis
  proof (cases r)
    case (Inl f)
    obtain code stage where f: "f = (code, stage)" by (rule prod.exhaust)
    note neq = h2_submit_code [OF sub [unfolded Inl f]]
    have "h2_failed (h2_fail env t_start code stage resp (Some (pc, s1), w1))"
      unfolding h2_fail_def by (rule h2_finish_failed [OF neq]) (simp add: assms(2))
    with out Inl f have "h2_failed out" by simp
    then show ?thesis ..
  next
    case (Inr sid)
    then obtain res where loop: "h2_loop env lib (pc_fd pc) t_start deadline (h2_start req deadline sid s1 w1) = Some res"
      using out by (cases "h2_loop env lib (pc_fd pc) t_start deadline (h2_start req deadline sid s1 w1)")
        (simp_all add: h2_start_def Let_def)
    obtain code run where res: "res = (code, run)" by (rule prod.exhaust)
    from out Inr loop res have "out = h2_conclude env t_start code resp pc run"
      by (simp add: h2_start_def Let_def)
    with loop res assms(2,3) show ?thesis unfolding h2_concluded_def by blast
  qed
qed

lemma http2_outcome:
  assumes "http2_request env lib cfg req cw = Some out"
  shows "h2_failed out \<or> (\<exists>pc resp code run. h2_concluded env lib req pc resp code run out)"
proof -
  let ?resp = "default_response\<lparr>resp_protocol := PROTOCOL_HTTP_2, resp_dns_ms := req_dns_ms req\<rparr>"
  obtain t_start w where now: "ne_now env (snd cw) = (t_start, w)" by (rule prod.exhaust)
  let ?dl = "t_start + req_timeout_ms req"
  note run = assms [unfolded http2_request_def Let_def now prod.case]
  show ?thesis
  proof (cases "request_line_unsafe req")
    case True
    with run have "h2_failed out" by (auto intro!: h2_finish_failed)
    then show ?thesis ..
  next
    case False
    note run = run [unfolded if_not_P [OF False]]
    obtain ens where "h2_ensure_connection env lib cfg req ?resp ?dl (fst cw, w) = Some ens"
      using run by (cases "h2_ensure_connection env lib cfg req ?resp ?dl (fst cw, w)") simp_all
    moreover obtain code reused resp cw1 where "ens = (code, reused, resp, cw1)" by (rule prod_cases4)
    ultimately have ens: "h2_ensure_connection env lib cfg req ?resp ?dl (fst cw, w) = Some (code, reused, resp, cw1)"
      by simp
    note facts = h2_ensure_facts [OF ens]
    note run = run [unfolded ens option.case prod.case]
    show ?thesis
    proof (cases "fst cw1")
      case None
      with facts run have "h2_failed out" by (cases cw1) (auto intro!: h2_finish_failed)
      then show ?thesis ..
    next
      case (Some c)
      obtain pc s where c: "c = (pc, s)" by (rule prod.exhaust)
      obtain w1 where cw1: "cw1 = (Some (pc, s), w1)" using Some c by (cases cw1) simp
      show ?thesis
      proof (cases "code = ASTERNET_OK")
        case True
        let ?resp2 = "if reused then resp\<lparr>resp_connection_reused := True, resp_connect_ms := 0, resp_tls_ms := 0\<rparr>
          else resp\<lparr>resp_connection_reused := False\<rparr>"
        from True run cw1 have "h2_exchange env lib t_start ?dl req reused ?resp2 pc s w1 = Some out" by simp
        from h2_exchange_outcome [OF this] facts show ?thesis by auto
      next
        case False
        with run cw1 facts have "h2_failed out" by (auto intro!: h2_finish_failed)
        then show ?thesis ..
      qed
    qed
  qed
qed

section \<open>The context invariant\<close>

definition h2_ctx_inv :: "request \<Rightarrow> h2_ctx \<Rightarrow> bool" where
  "h2_ctx_inv req ctx \<longleftrightarrow>
     hc_req_body ctx = req_body req \<and> hc_req_method ctx = req_method req
     \<and> hc_max_response_body_bytes ctx = req_max_body req
     \<and> hc_req_body_sent ctx \<le> length (req_body req)
     \<and> length (hc_resp_body ctx) \<le> req_max_body req
     \<and> (hc_got_end_stream ctx \<longrightarrow> hc_stream_closed ctx)"

lemma h2_ctx_inv_closed: "callback_closed (h2_ctx_inv req)"
  unfolding callback_closed_def h2_ctx_inv_def
  by (auto simp: data_read_callback_def on_header_callback_def on_data_chunk_recv_callback_def
      on_stream_close_callback_def on_frame_recv_callback_def Let_def)

lemma h2_ctx_inv_start: "h2_ctx_inv req (hr_ctx (h2_start req deadline_ms sid s w))"
  by (simp add: h2_ctx_inv_def h2_start_def new_h2_ctx_def)

lemma h2_concluded_inv: "h2_concluded env lib req pc resp code run out \<Longrightarrow> h2_ctx_inv req (hr_ctx run)"
  using h2_loop_keeps [OF _ callback_closed_lib [OF h2_ctx_inv_closed] h2_ctx_inv_start]
  unfolding h2_concluded_def by fastforce

lemma h2_conclude_fields:
  assumes "h2_conclude env t_start code resp pc run = (ret, resp', cw')" and "resp_protocol resp = PROTOCOL_HTTP_2"
  shows "ret = h2_classify code (hr_ctx run)" "resp_err_code resp' = ret" "resp_protocol resp' = PROTOCOL_HTTP_2"
    "resp_body resp' = hc_resp_body (hr_ctx run)" "resp_http_status resp' = hc_http_status (hr_ctx run)"
    "resp_failure_stage resp' = (if ret \<noteq> ASTERNET_OK then h2_failure_stage ret else resp_failure_stage resp)"
    "fst cw' = (if h2_keep_connection ret (hr_ctx run) then Some (pc, hr_session run) else None)"
  using assms
  by (auto simp: h2_conclude_def h2_finish_def h2_close_connection_def Let_def split: prod.splits)

interpretation http2: network_engine PROTOCOL_HTTP_2 "http2_request env lib cfg"
  for env :: "'w h2_env" and lib :: "('s, 'w) nghttp2" and cfg
proof
  fix req cw ret resp and cw' :: "('s, 'w) h2_state"
  assume "http2_request env lib cfg req cw = Some (ret, resp, cw')"
  from http2_outcome [OF this] show "resp_err_code resp = ret \<and> resp_protocol resp = PROTOCOL_HTTP_2
    \<and> (ret = ASTERNET_OK \<longrightarrow> length (resp_body resp) \<le> req_max_body req)"
  proof
    assume "h2_failed (ret, resp, cw')"
    then show ?thesis by (simp add: h2_failed_def)
  next
    assume "\<exists>pc resp0 code run. h2_concluded env lib req pc resp0 code run (ret, resp, cw')"
    then obtain pc resp0 code run where c: "h2_concluded env lib req pc resp0 code run (ret, resp, cw')" by blast
    then obtain t_start where "h2_conclude env t_start code resp0 pc run = (ret, resp, cw')"
      and "resp_protocol resp0 = PROTOCOL_HTTP_2" unfolding h2_concluded_def by metis
    from h2_conclude_fields [OF this] h2_concluded_inv [OF c] show ?thesis
      by (simp add: h2_ctx_inv_def)
  qed
qed

section \<open>Properties\<close>


text \<open>
  nghttp2 documents that, once interim (1xx) header blocks have been received, the final header block
  is not reported in the category of a response any more. \<open>only_interim\<close> says of a call that every
  status it reports in that category is an interim one.
\<close>

primrec only_interim :: "'s nghttp2_call \<Rightarrow> bool" where
  "only_interim (Return r s) = True"
| "only_interim (SendCallback data k) = (\<forall>r. only_interim (k r))"
| "only_interim (DataRead len k) = (\<forall>d eof. only_interim (k d eof))"
| "only_interim (OnHeader sid type cat name val k) =
     ((type = FRAME_HEADERS \<and> cat = HCAT_RESPONSE \<and> name = '':status'' \<longrightarrow>
        100 \<le> atoi (take 7 val) \<and> atoi (take 7 val) < 200) \<and> (\<forall>r. only_interim (k r)))"
| "only_interim (OnDataChunk sid data k) = (\<forall>r. only_interim (k r))"
| "only_interim (OnFrameRecv type sid fin k) = (\<forall>r. only_interim (k r))"
| "only_interim (OnStreamClose sid err k) = (\<forall>r. only_interim (k r))"

lemma interim_no_status:
  "run_call env fd call ctx w = Some (r, s, ctx', w') \<Longrightarrow> only_interim call \<Longrightarrow> \<not> hc_got_status ctx \<Longrightarrow> \<not> hc_got_status ctx'"
proof (induction call arbitrary: ctx w)
  case (Return r s)
  then show ?case by simp
next
  case (SendCallback data k)
  then obtain v ctx1 w1 where sc: "send_callback env fd data ctx w = Some (v, ctx1, w1)"
    and run: "run_call env fd (k v) ctx1 w1 = Some (r, s, ctx', w')"
    by (auto split: option.splits)
  have "\<not> hc_got_status ctx1" using send_callback_ctx [OF sc] SendCallback.prems(3) by auto
  with SendCallback.IH [of "k v" ctx1 w1] SendCallback.prems(2) run show ?case by simp
next
  case (DataRead n k)
  obtain d eof ctx1 where e: "data_read_callback n ctx = (d, eof, ctx1)" by (rule prod_cases3)
  have "\<not> hc_got_status ctx1" using e DataRead.prems(3) by (auto simp: data_read_callback_def Let_def)
  with DataRead.IH [of "k d" "k d eof" ctx1 w] DataRead.prems(1,2) e show ?case by simp
next
  case (OnHeader sid type cat name val k)
  obtain v ctx1 where e: "on_header_callback sid type cat name val ctx = (v, ctx1)" by (rule prod.exhaust)
  have "\<not> hc_got_status ctx1"
    using e OnHeader.prems(2,3) by (auto simp: on_header_callback_def Let_def split: if_splits)
  with OnHeader.IH [of "k v" ctx1 w] OnHeader.prems(1,2) e show ?case by simp
next
  case (OnDataChunk sid data k)
  obtain v ctx1 where e: "on_data_chunk_recv_callback sid data ctx = (v, ctx1)" by (rule prod.exhaust)
  have "\<not> hc_got_status ctx1"
    using e OnDataChunk.prems(3) by (auto simp: on_data_chunk_recv_callback_def split: if_splits)
  with OnDataChunk.IH [of "k v" ctx1 w] OnDataChunk.prems(1,2) e show ?case by simp
next
  case (OnFrameRecv type sid fin k)
  obtain v ctx1 where e: "on_frame_recv_callback type sid fin ctx = (v, ctx1)" by (rule prod.exhaust)
  have "\<not> hc_got_status ctx1"
    using e OnFrameRecv.prems(3) by (auto simp: on_frame_recv_callback_def split: if_splits)
  with OnFrameRecv.IH [of "k v" ctx1 w] OnFrameRecv.prems(1,2) e show ?case by simp
next
  case (OnStreamClose sid err k)
  obtain v ctx1 where e: "on_stream_close_callback sid err ctx = (v, ctx1)" by (rule prod.exhaust)
  have "\<not> hc_got_status ctx1"
    using e OnStreamClose.prems(3) by (auto simp: on_stream_close_callback_def split: if_splits)
  with OnStreamClose.IH [of "k v" ctx1 w] OnStreamClose.prems(1,2) e show ?case by simp
qed

text \<open>
  A response that starts with an interim header block never succeeds over HTTP/2: where
  the library reports only interim statuses in the response category (as nghttp2 does once a 1xx
  block has come), the final status is ignored and the request does not return \<open>ASTERNET_OK\<close>,
  whatever else the server sends.
\<close>

theorem http2_interim_never_succeeds:
  assumes "\<And>s. only_interim (ng_send lib s)" and "\<And>d s. only_interim (ng_mem_recv lib d s)"
  shows "http2_request env lib cfg req cw \<noteq> Some (ASTERNET_OK, resp, cw')"
proof
  assume "http2_request env lib cfg req cw = Some (ASTERNET_OK, resp, cw')"
  from http2_outcome [OF this] obtain pc resp0 code run where
    c: "h2_concluded env lib req pc resp0 code run (ASTERNET_OK, resp, cw')"
    by (auto simp: h2_failed_def)
  then obtain t_start dl sid s w where loop: "h2_loop env lib (pc_fd pc) t_start dl (h2_start req dl sid s w) = Some (code, run)"
    and con: "h2_conclude env t_start code resp0 pc run = (ASTERNET_OK, resp, cw')"
    and p: "resp_protocol resp0 = PROTOCOL_HTTP_2"
    unfolding h2_concluded_def by metis
  have "lib_keeps env lib (pc_fd pc) (\<lambda>ctx. \<not> hc_got_status ctx)"
    unfolding lib_keeps_def using assms by (auto dest: interim_no_status)
  from h2_loop_keeps [OF loop this] have "\<not> hc_got_status (hr_ctx run)"
    by (simp add: h2_start_def new_h2_ctx_def)
  with h2_conclude_fields(1) [OF con p] show False
    by (auto simp: h2_classify_def split: if_splits)
qed

text \<open>A server that answers with the given interim or final blocks, over a quiet network.\<close>

definition demo_h2_env :: "(nat \<times> nat \<times> nat) h2_env" where
  "demo_h2_env =
     \<lparr>ne_now = (\<lambda>w. (0, w)), ne_getaddrinfo = (\<lambda>_ _ w. ([], w)),
      ne_socket = (\<lambda>_ (s, c, l). (3, (s + 1, c, l))), ne_close = (\<lambda>_ (s, c, l). (s - 1, c, l)),
      ne_ctx_new = (\<lambda>(s, c, l). (True, (s, c + 1, l))), ne_load_ca = (\<lambda>_ w. (True, w)),
      ne_default_paths = (\<lambda>w. (True, w)), ne_ctx_free = (\<lambda>(s, c, l). (s, c - 1, l)),
      ne_ssl_new = (\<lambda>(s, c, l). (True, (s, c, l + 1))), ne_ssl_free = (\<lambda>(s, c, l). (s, c, l - 1)),
      ne_set_sni = (\<lambda>_ w. (True, w)), ne_set1_host = (\<lambda>_ w. (True, w)),
      h2_fd_setsize = 1024, h2_numeric_addrinfo = (\<lambda>_ _ w. ([''peer''], w)), h2_set_nonblock = (\<lambda>_ w. (True, w)),
      h2_connect = (\<lambda>_ _ w. (Connected, w)), h2_so_error = (\<lambda>_ w. (0, w)), h2_select = (\<lambda>_ _ _ _ w. (1, w)),
      h2_set_alpn = (\<lambda>w. (True, w)), h2_set_fd = (\<lambda>_ w. (True, w)), h2_handshake = (\<lambda>_ _ w. (IoFailed, w)),
      h2_alpn_selected = (\<lambda>w. (''h2'', w)), h2_write = (\<lambda>d w. (IoDone (length d), w)),
      h2_read = (\<lambda>_ w. (IoDone ''frames'', w)), h2_callbacks_new = (\<lambda>w. (True, w))\<rparr>"

definition demo_h2_lib :: "string \<Rightarrow> (unit, nat \<times> nat \<times> nat) nghttp2" where
  "demo_h2_lib first_status =
     \<lparr>ng_session_new = (\<lambda>w. (Some (), w)), ng_submit_settings = (\<lambda>s. (0, s)),
      ng_submit_request = (\<lambda>_ _ s. (1, s)), ng_send = (\<lambda>s. SendCallback ''out'' (\<lambda>_. Return 0 s)),
      ng_mem_recv = (\<lambda>d s.
        OnHeader 1 FRAME_HEADERS HCAT_RESPONSE '':status'' first_status (\<lambda>_.
        OnHeader 1 FRAME_HEADERS HCAT_OTHER '':status'' ''200'' (\<lambda>_.
        OnFrameRecv FRAME_HEADERS 1 True (\<lambda>_. Return (int (length d)) s))))\<rparr>"

definition demo_pc :: "request \<Rightarrow> pooled_connection" where
  "demo_pc req =
     \<lparr>pc_fd = 3, pc_host = req_host req, pc_endpoint = endpoint_of req, pc_port = req_port req, pc_ca_cert_pem = [],
      pc_network_epoch = req_network_epoch req, pc_allow_insecure = False\<rparr>"

definition strict_config :: engine_config where
  "strict_config = \<lparr>ec_allow_insecure_tls_for_testing = False, ec_ca_cert_pem = [], ec_testing_build = False\<rparr>"

definition demo_h2_run :: "string \<Rightarrow> (int \<times> response \<times> (unit, nat \<times> nat \<times> nat) h2_state) option" where
  "demo_h2_run first_status =
     http2_request demo_h2_env (demo_h2_lib first_status) strict_config default_request
       (Some (demo_pc default_request, ()), (1, 1, 1))"

lemma demo_h2_send:
  "send_callback demo_h2_env 3 ''out'' ctx w = Some (3, ctx\<lparr>hc_pending_data := hc_pending_data ctx\<rparr>, w)"
  by (simp add: send_callback_def send_loop.simps demo_h2_env_def)

lemma demo_h2_reused:
  "h2_ensure_connection demo_h2_env lib strict_config default_request resp dl (Some (demo_pc default_request, ()), w)
     = Some (ASTERNET_OK, True, resp, (Some (demo_pc default_request, ()), w))"
  by (simp add: h2_ensure_connection_def demo_pc_def same_origin_def strict_config_def allow_insecure_def
      ca_bundle_of_def default_request_def)

theorem http2_interim_never_succeeds_witness:
  "demo_h2_run ''100'' \<noteq> Some (ASTERNET_OK, default_response, (None, (0, 0, 0)))"
  unfolding demo_h2_run_def
  by (rule http2_interim_never_succeeds)
    (simp_all add: demo_h2_lib_def atoi_def skip_sign_def c_str_def is_digit_of_def digit_value_def number_value_def
      char_eval)

lemma demo_h2_clock: "ne_now demo_h2_env w = (0, w)" "elapsed_since demo_h2_env 0 w = (0, w)"
  by (simp_all add: demo_h2_env_def elapsed_since_def)

lemma demo_h2_submit: "h2_submit demo_h2_env (demo_h2_lib st) default_request True s w = (Inr 1, s, w)"
  by (simp add: h2_submit_def demo_h2_env_def demo_h2_lib_def h2_header_list_def default_request_def)

definition demo_final :: "h2_ctx \<Rightarrow> h2_ctx" where
  "demo_final ctx = ctx\<lparr>hc_http_status := 204, hc_got_status := True, hc_response_body_allowed := False,
     hc_response_header_bytes := 20, hc_got_end_stream := True, hc_stream_closed := True\<rparr>"

lemma demo_h2_received:
  assumes "hr_ctx run = (new_h2_ctx default_request dl)\<lparr>hc_authority := a, hc_stream_id := 1\<rparr>"
  shows "h2_received demo_h2_env (demo_h2_lib ''204'') 3 0 ''frames'' (run\<lparr>hr_ttfb := None\<rparr>)
    = Some (None, run\<lparr>hr_ctx := demo_final (hr_ctx run), hr_ttfb := Some 0\<rparr>)"
proof -
  have status: "atoi (take 7 ''204'') = 204"
    by (simp add: atoi_def skip_sign_def c_str_def is_digit_of_def digit_value_def number_value_def char_eval)
  then show ?thesis
    using assms
    by (simp add: h2_received_def demo_h2_clock demo_h2_lib_def on_header_callback_def on_frame_recv_callback_def
        new_h2_ctx_def default_request_def demo_final_def)
qed

lemma demo_h2_success:
  "\<exists>resp. demo_h2_run ''204'' = Some (ASTERNET_OK, resp, (Some (demo_pc default_request, ()), (1, 1, 1)))"
proof -
  let ?lib = "demo_h2_lib ''204''"
  let ?run = "h2_start default_request 15000 1 () (1, 1, 1) :: (unit, nat \<times> nat \<times> nat) h2_run"
  have send: "h2_send_phase demo_h2_env ?lib 3 ?run = Some (ASTERNET_OK, ?run)"
    by (simp add: h2_send_phase_def demo_h2_lib_def demo_h2_send h2_start_def new_h2_ctx_def)
  have read: "h2_read_retry demo_h2_env 3 15000 (1, 1, 1) = Some (IoDone ''frames'', (1, 1, 1))"
    by (simp add: h2_read_retry.simps demo_h2_env_def)
  have same: "?run\<lparr>hr_world := (1, 1, 1)\<rparr> = ?run\<lparr>hr_ttfb := None\<rparr>" by (simp add: h2_start_def)
  have recv: "h2_receive_phase demo_h2_env ?lib 3 0 15000 ?run
      = Some (None, ?run\<lparr>hr_ctx := demo_final (hr_ctx ?run), hr_ttfb := Some 0\<rparr>)"
    using demo_h2_received [where run = ?run and dl = 15000 and a = "h2_authority default_request"] read same
    by (simp add: h2_receive_phase_def demo_h2_clock h2_start_def) (simp add: demo_h2_env_def)
  define r0 where "r0 = ?run"
  define r1 where "r1 = ?run\<lparr>hr_ctx := demo_final (hr_ctx ?run), hr_ttfb := Some 0\<rparr>"
  have closed: "\<not> hc_stream_closed (hr_ctx r0)" "hc_stream_closed (hr_ctx r1)"
    by (simp_all add: r0_def r1_def h2_start_def new_h2_ctx_def demo_final_def)
  have "h2_loop demo_h2_env ?lib 3 0 15000 r1 = Some (ASTERNET_OK, r1)"
    by (subst h2_loop.simps) (simp add: closed)
  then have loop: "h2_loop demo_h2_env ?lib 3 0 15000 r0 = Some (ASTERNET_OK, r1)"
    using send [folded r0_def] recv [folded r1_def, folded r0_def] by (subst h2_loop.simps) (simp add: closed)
  have "h2_exchange demo_h2_env ?lib 0 15000 default_request True resp (demo_pc default_request) () (1, 1, 1)
      = Some (h2_conclude demo_h2_env 0 ASTERNET_OK resp (demo_pc default_request) r1)" for resp
    using loop
    by (simp only: h2_exchange_def demo_h2_submit prod.case sum.case Let_def r0_def h2_start_def)
      (simp add: demo_pc_def)
  moreover have "\<exists>resp'. h2_conclude demo_h2_env 0 ASTERNET_OK resp (demo_pc default_request) r1
      = (ASTERNET_OK, resp', (Some (demo_pc default_request, ()), (1, 1, 1)))" for resp
    by (simp add: h2_conclude_def h2_finish_def demo_h2_clock r1_def h2_start_def new_h2_ctx_def demo_final_def
        h2_classify_def h2_keep_connection_def)
  moreover have "\<not> request_line_unsafe default_request" "req_timeout_ms default_request = 15000"
    by (simp_all add: request_line_unsafe_def default_request_def)
  ultimately show ?thesis
    unfolding demo_h2_run_def http2_request_def
    by (simp add: demo_h2_clock demo_h2_reused)
qed


end
