(* ===== verification/Http2_Wire.thy ===== *)
theory Http2_Wire
  imports Http2_Engine
begin

text \<open>
  The HTTP/2 engine on the wire: the send callback transmits exactly the bytes it is given and keeps
  every byte it drains meanwhile, the request body is uploaded completely whatever buffer sizes the
  library asks for. The resource discipline of the engine's calls is stated here.
\<close>

section \<open>Sending\<close>

text \<open>\<open>sent\<close> and \<open>got\<close> record what went out and came in; only writes and reads change them.\<close>

definition wire_log :: "'w h2_env \<Rightarrow> ('w \<Rightarrow> string) \<Rightarrow> ('w \<Rightarrow> string) \<Rightarrow> bool" where
  "wire_log env sent got \<longleftrightarrow>
     (\<forall>w. sent (snd (ne_now env w)) = sent w \<and> got (snd (ne_now env w)) = got w)
     \<and> (\<forall>fd r wr t w. sent (snd (h2_select env fd r wr t w)) = sent w \<and> got (snd (h2_select env fd r wr t w)) = got w)
     \<and> (\<forall>d w. got (snd (h2_write env d w)) = got w
          \<and> sent (snd (h2_write env d w)) =
              sent w @ (case fst (h2_write env d w) of IoDone n \<Rightarrow> take n d | _ \<Rightarrow> []))
     \<and> (\<forall>n w. sent (snd (h2_read env n w)) = sent w
          \<and> got (snd (h2_read env n w)) = got w @ (case fst (h2_read env n w) of IoDone d \<Rightarrow> d | _ \<Rightarrow> []))"

lemma wire_logD:
  assumes "wire_log env sent got"
  shows "h2_write env d w = (io, w') \<Longrightarrow> got w' = got w \<and> sent w' = sent w @ (case io of IoDone n \<Rightarrow> take n d | _ \<Rightarrow> [])"
    and "h2_read env n w = (rio, w') \<Longrightarrow> sent w' = sent w \<and> got w' = got w @ (case rio of IoDone b \<Rightarrow> b | _ \<Rightarrow> [])"
    and "select_with_deadline env fd r wr dl w = (k, w') \<Longrightarrow> sent w' = sent w \<and> got w' = got w"
proof -
  show "h2_write env d w = (io, w') \<Longrightarrow> got w' = got w \<and> sent w' = sent w @ (case io of IoDone n \<Rightarrow> take n d | _ \<Rightarrow> [])"
    using assms unfolding wire_log_def by (metis fst_conv snd_conv)
  show "h2_read env n w = (rio, w') \<Longrightarrow> sent w' = sent w \<and> got w' = got w @ (case rio of IoDone b \<Rightarrow> b | _ \<Rightarrow> [])"
    using assms unfolding wire_log_def by (metis fst_conv snd_conv)
  assume sel: "select_with_deadline env fd r wr dl w = (k, w')"
  obtain now w1 where n: "ne_now env w = (now, w1)" by (rule prod.exhaust)
  have 1: "sent w1 = sent w \<and> got w1 = got w" using assms n unfolding wire_log_def by (metis snd_conv)
  have 2: "sent (snd (h2_select env fd r wr (dl - now) w1)) = sent w1 \<and> got (snd (h2_select env fd r wr (dl - now) w1)) = got w1"
    using assms unfolding wire_log_def by blast
  have "w' = w1 \<or> w' = snd (h2_select env fd r wr (dl - now) w1)"
    using sel n by (auto simp: select_with_deadline_def split: if_splits)
  with 1 2 show "sent w' = sent w \<and> got w' = got w" by auto
qed

lemma send_loop_exact:
  assumes "send_loop env fd dl data pending w = Some out"
  shows "wire_log env sent got \<Longrightarrow>
    (\<exists>k. sent (snd (snd out)) = sent w @ take k data \<and> (fst out \<longrightarrow> length data \<le> k))
    \<and> (\<exists>d. fst (snd out) = pending @ d \<and> got (snd (snd out)) = got w @ d)"
  using assms
proof (induct rule: send_loop.raw_induct [rotated, consumes 1])
  case (1 f env fd dl data pending w out)
  note hyps = 1
  note log = wire_logD [OF hyps(3)]
  show ?case
  proof (cases "data = []")
    case True
    with hyps(2) show ?thesis by auto
  next
    case False
    obtain io w1 where wr: "h2_write env data w = (io, w1)" by (rule prod.exhaust)
    note l1 = log(1) [OF wr]
    note run = hyps(2) [unfolded if_not_P [OF False] wr prod.case]
    show ?thesis
    proof (cases io)
      case (IoDone n)
      from run IoDone have "f env fd dl (drop n data) pending w1 = Some out" by simp
      from hyps(1) [OF this hyps(3)] obtain k d where
        "sent (snd (snd out)) = sent w1 @ take k (drop n data)" "fst out \<longrightarrow> length (drop n data) \<le> k"
        "fst (snd out) = pending @ d" "got (snd (snd out)) = got w1 @ d" by blast
      with l1 IoDone show ?thesis
        by (intro conjI exI [of _ "n + k"] exI [of _ d]) (auto simp: take_add)
    next
      case IoWantWrite
      obtain sel w2 where s: "select_with_deadline env fd False True dl w1 = (sel, w2)" by (rule prod.exhaust)
      note l2 = log(3) [OF s]
      show ?thesis
      proof (cases "sel \<le> 0")
        case True
        with run IoWantWrite s l1 l2 show ?thesis by (intro conjI exI [of _ 0] exI [of _ "[]"]) auto
      next
        case False
        with run IoWantWrite s have "f env fd dl data pending w2 = Some out" by simp
        from hyps(1) [OF this hyps(3)] l1 l2 IoWantWrite show ?thesis by simp
      qed
    next
      case IoWantRead
      obtain sel w2 where s: "select_with_deadline env fd True False dl w1 = (sel, w2)" by (rule prod.exhaust)
      note l2 = log(3) [OF s]
      show ?thesis
      proof (cases "sel \<le> 0")
        case True
        with run IoWantRead s l1 l2 show ?thesis by (intro conjI exI [of _ 0] exI [of _ "[]"]) auto
      next
        case go: False
        obtain rio w3 where r: "h2_read env 4096 w2 = (rio, w3)" by (rule prod.exhaust)
        note l3 = log(2) [OF r]
        show ?thesis
        proof (cases rio)
          case (IoDone b)
          with run IoWantRead s go r have "f env fd dl data (pending @ b) w3 = Some out" by simp
          from hyps(1) [OF this hyps(3)] l1 l2 l3 IoWantRead IoDone show ?thesis by auto
        next
          case IoWantRead': IoWantRead
          with run IoWantRead s go r have "f env fd dl data pending w3 = Some out" by simp
          from hyps(1) [OF this hyps(3)] l1 l2 l3 IoWantRead IoWantRead' show ?thesis by simp
        next
          case IoWantWrite
          with run IoWantRead s go r have "f env fd dl data pending w3 = Some out" by simp
          from hyps(1) [OF this hyps(3)] l1 l2 l3 IoWantRead IoWantWrite show ?thesis by simp
        next
          case IoClosed
          with run IoWantRead s go r l1 l2 l3 show ?thesis by (intro conjI exI [of _ 0] exI [of _ "[]"]) auto
        next
          case IoFailed
          with run IoWantRead s go r l1 l2 l3 show ?thesis by (intro conjI exI [of _ 0] exI [of _ "[]"]) auto
        qed
      qed
    next
      case IoClosed
      with run l1 show ?thesis by (intro conjI exI [of _ 0] exI [of _ "[]"]) auto
    next
      case IoFailed
      with run l1 show ?thesis by (intro conjI exI [of _ 0] exI [of _ "[]"]) auto
    qed
  qed
qed

section \<open>Uploading the body\<close>

fun upload :: "nat list \<Rightarrow> h2_ctx \<Rightarrow> string \<times> h2_ctx" where
  "upload [] ctx = ([], ctx)"
| "upload (n # ns) ctx =
     (let (d, _, ctx) = data_read_callback n ctx; (ds, ctx) = upload ns ctx in (d @ ds, ctx))"

lemma data_read_step:
  assumes "data_read_callback n ctx = (d, eof, ctx')" and "hc_req_body_sent ctx \<le> length (hc_req_body ctx)"
  shows "d = take n (drop (hc_req_body_sent ctx) (hc_req_body ctx))" "hc_req_body ctx' = hc_req_body ctx"
    "hc_req_body_sent ctx' = min (hc_req_body_sent ctx + n) (length (hc_req_body ctx))"
    "eof \<longleftrightarrow> hc_req_body_sent ctx' = length (hc_req_body ctx)"
  using assms by (auto simp: data_read_callback_def Let_def min_def split: if_splits)

lemma upload_prefix:
  assumes "hc_req_body_sent ctx \<le> length (hc_req_body ctx)"
  shows "fst (upload ns ctx) = take (sum_list ns) (drop (hc_req_body_sent ctx) (hc_req_body ctx))
    \<and> hc_req_body (snd (upload ns ctx)) = hc_req_body ctx
    \<and> hc_req_body_sent (snd (upload ns ctx)) = min (hc_req_body_sent ctx + sum_list ns) (length (hc_req_body ctx))"
  using assms
proof (induction ns arbitrary: ctx)
  case Nil
  then show ?case by simp
next
  case (Cons n ns)
  obtain d eof ctx1 where e: "data_read_callback n ctx = (d, eof, ctx1)" by (rule prod_cases3)
  note step = data_read_step [OF e Cons.prems]
  obtain ds ctx2 where u: "upload ns ctx1 = (ds, ctx2)" by (rule prod.exhaust)
  from Cons.IH [of ctx1] step u have "ds = take (sum_list ns) (drop (hc_req_body_sent ctx1) (hc_req_body ctx))"
    "hc_req_body ctx2 = hc_req_body ctx"
    "hc_req_body_sent ctx2 = min (hc_req_body_sent ctx1 + sum_list ns) (length (hc_req_body ctx))"
    by simp_all
  with step e u show ?case
    by (simp add: take_add min_def add.commute)
qed

text \<open>
  Property C20. Whatever buffer sizes the library asks for, the chunks read from a request's body
  concatenate to the body without gap or repetition, and the end of the data is announced exactly
  with the last byte.
\<close>

theorem body_uploaded_exactly:
  "let ctx = new_h2_ctx req deadline_ms; (ds, ctx') = upload ns ctx; (d, eof, _) = data_read_callback n ctx' in
     ds = take (sum_list ns) (req_body req)
     \<and> (eof \<longleftrightarrow> length (req_body req) \<le> sum_list (ns @ [n]))
     \<and> ds @ d = take (sum_list (ns @ [n])) (req_body req)"
proof -
  let ?ctx = "new_h2_ctx req deadline_ms"
  obtain ds ctx' where u: "upload ns ?ctx = (ds, ctx')" by (rule prod.exhaust)
  obtain d eof ctx2 where e: "data_read_callback n ctx' = (d, eof, ctx2)" by (rule prod_cases3)
  have c: "hc_req_body ?ctx = req_body req" "hc_req_body_sent ?ctx = 0" by (simp_all add: new_h2_ctx_def)
  have up: "ds = take (sum_list ns) (req_body req)" "hc_req_body ctx' = req_body req"
    "hc_req_body_sent ctx' = min (sum_list ns) (length (req_body req))"
    using upload_prefix [of ?ctx ns] u c by simp_all
  have le: "hc_req_body_sent ctx' \<le> length (hc_req_body ctx')" using up by simp
  note step = data_read_step [OF e le]
  show ?thesis
    unfolding Let_def u e prod.case using step up by (auto simp: take_add min_def)
qed

text \<open>
  The send callback either hands exactly the given bytes to TLS, in order, and reports
  their number, or fails having sent a prefix of them; the bytes it has to drain in between are all
  appended to the pending data, so none of the server's bytes is lost.
\<close>

theorem send_callback_exact:
  assumes "wire_log env sent got" and "send_callback env fd data ctx w = Some (r, ctx', w')"
  shows "(r = int (length data) \<and> sent w' = sent w @ data \<or> r = NGHTTP2_ERR_CALLBACK_FAILURE \<and> (\<exists>k. sent w' = sent w @ take k data))
    \<and> (\<exists>d. ctx' = ctx\<lparr>hc_pending_data := hc_pending_data ctx @ d\<rparr> \<and> got w' = got w @ d)"
proof -
  from assms(2) obtain ok pending where
    run: "send_loop env fd (hc_deadline_ms ctx) data (hc_pending_data ctx) w = Some (ok, pending, w')"
    and r: "r = (if ok then int (length data) else NGHTTP2_ERR_CALLBACK_FAILURE)" "ctx' = ctx\<lparr>hc_pending_data := pending\<rparr>"
    by (auto simp: send_callback_def)
  from send_loop_exact [OF run assms(1)] obtain k d where
    k: "sent w' = sent w @ take k data" "ok \<longrightarrow> length data \<le> k" and d: "pending = hc_pending_data ctx @ d" "got w' = got w @ d"
    by auto
  from r k have "r = int (length data) \<and> sent w' = sent w @ data
      \<or> r = NGHTTP2_ERR_CALLBACK_FAILURE \<and> (\<exists>k. sent w' = sent w @ take k data)"
    by (cases ok) auto
  with r(2) d show ?thesis by blast
qed

text \<open>A socket that first asks to be read (a session ticket) and then takes two bytes at a time.\<close>

definition ticket_env :: "(string \<times> string \<times> nat) h2_env" where
  "ticket_env =
     \<lparr>ne_now = (\<lambda>w. (0, w)), ne_getaddrinfo = (\<lambda>_ _ w. ([], w)), ne_socket = (\<lambda>_ w. (-1, w)), ne_close = (\<lambda>_ w. w),
      ne_ctx_new = (\<lambda>w. (False, w)), ne_load_ca = (\<lambda>_ w. (True, w)), ne_default_paths = (\<lambda>w. (True, w)),
      ne_ctx_free = (\<lambda>w. w), ne_ssl_new = (\<lambda>w. (False, w)), ne_ssl_free = (\<lambda>w. w), ne_set_sni = (\<lambda>_ w. (True, w)),
      ne_set1_host = (\<lambda>_ w. (True, w)),
      h2_fd_setsize = 1024, h2_numeric_addrinfo = (\<lambda>_ _ w. ([], w)), h2_set_nonblock = (\<lambda>_ w. (True, w)),
      h2_connect = (\<lambda>_ _ w. (Connected, w)), h2_so_error = (\<lambda>_ w. (0, w)), h2_select = (\<lambda>_ _ _ _ w. (1, w)),
      h2_set_alpn = (\<lambda>w. (True, w)), h2_set_fd = (\<lambda>_ w. (True, w)), h2_handshake = (\<lambda>_ _ w. (IoFailed, w)),
      h2_alpn_selected = (\<lambda>w. (''h2'', w)),
      h2_write = (\<lambda>d (o', g, n). if n = 0 then (IoWantRead, (o', g, n)) else (IoDone 2, (o' @ take 2 d, g, n))),
      h2_read = (\<lambda>_ (o', g, n). (IoDone ''tk'', (o', g @ ''tk'', Suc n))),
      h2_callbacks_new = (\<lambda>w. (True, w))\<rparr>"

theorem send_callback_exact_witness:
  "let ctx = new_h2_ctx default_request 100 in
   \<exists>ctx' w'. send_callback ticket_env 3 ''abc'' ctx ([], [], 0) = Some (3, ctx', w')
    \<and> fst w' = ''abc'' \<and> hc_pending_data ctx' = ''tk''"
proof -
  let ?ctx = "new_h2_ctx default_request 100"
  have log: "wire_log ticket_env fst (fst \<circ> snd)"
    by (auto simp: wire_log_def ticket_env_def)
  have "send_loop ticket_env 3 100 [] ''tk'' (''abc'', ''tk'', 1) = Some (True, ''tk'', (''abc'', ''tk'', 1))"
    by (simp add: send_loop.simps)
  then have "send_loop ticket_env 3 100 ''c'' ''tk'' (''ab'', ''tk'', 1) = Some (True, ''tk'', (''abc'', ''tk'', 1))"
    by (subst send_loop.simps) (simp add: ticket_env_def)
  then have "send_loop ticket_env 3 100 ''abc'' ''tk'' ([], ''tk'', 1) = Some (True, ''tk'', (''abc'', ''tk'', 1))"
    by (subst send_loop.simps) (simp add: ticket_env_def)
  then have "send_loop ticket_env 3 100 ''abc'' [] ([], [], 0) = Some (True, ''tk'', (''abc'', ''tk'', 1))"
    by (subst send_loop.simps) (simp add: ticket_env_def select_with_deadline_def)
  then have run: "send_callback ticket_env 3 ''abc'' ?ctx ([], [], 0)
      = Some (3, ?ctx\<lparr>hc_pending_data := ''tk''\<rparr>, (''abc'', ''tk'', 1))"
    by (simp add: send_callback_def new_h2_ctx_def)
  have "hc_pending_data ?ctx = []" by (simp add: new_h2_ctx_def)
  with send_callback_exact [OF log run] run show ?thesis by (simp add: Let_def)
qed

section \<open>Resources and verification\<close>

definition h2_discipline :: "'w h2_env \<Rightarrow> ('s, 'w) nghttp2 \<Rightarrow> (string \<Rightarrow> bool) \<Rightarrow> 'w holding \<Rightarrow> bool" where
  "h2_discipline env lib may I \<longleftrightarrow> net_discipline env I \<and> lookups_within may (h2_numeric_addrinfo env)
     \<and> (\<forall>h p. call_keeps I (h2_numeric_addrinfo env h p))
     \<and> (\<forall>fd r wr t. call_keeps (\<lambda>s. I (Suc s)) (h2_select env fd r wr t))
     \<and> (\<forall>fd. call_keeps (\<lambda>s. I (Suc s)) (h2_set_nonblock env fd))
     \<and> (\<forall>fd a. may a \<longrightarrow> call_keeps (\<lambda>s. I (Suc s)) (h2_connect env fd a))
     \<and> (\<forall>fd. call_keeps (\<lambda>s. I (Suc s)) (h2_so_error env fd))
     \<and> call_keeps (\<lambda>s c. I s (Suc c)) (h2_set_alpn env)
     \<and> (\<forall>fd. call_keeps (\<lambda>s c l. I s c (Suc l)) (h2_set_fd env fd))
     \<and> (\<forall>t fd. strict_tls t \<longrightarrow> call_keeps (\<lambda>s c l. I (Suc s) (Suc c) (Suc l)) (h2_handshake env t fd))
     \<and> call_keeps (\<lambda>s c l. I (Suc s) (Suc c) (Suc l)) (h2_alpn_selected env)
     \<and> (\<forall>d. call_keeps (\<lambda>s c l. I (Suc s) (Suc c) (Suc l)) (h2_write env d))
     \<and> (\<forall>n. call_keeps (\<lambda>s c l. I (Suc s) (Suc c) (Suc l)) (h2_read env n))
     \<and> call_keeps (\<lambda>s c l. I (Suc s) (Suc c) (Suc l)) (h2_callbacks_new env)
     \<and> call_keeps (\<lambda>s c l. I (Suc s) (Suc c) (Suc l)) (ng_session_new lib)"

lemma h2_disciplineD:
  assumes "h2_discipline env lib may I"
  shows "net_discipline env I"
    and "I s c l w \<Longrightarrow> h2_numeric_addrinfo env h p w = (addrs, w') \<Longrightarrow> I s c l w'"
    and "I (Suc s) c l w \<Longrightarrow> h2_select env fd r wr t w = (k, w') \<Longrightarrow> I (Suc s) c l w'"
    and "I (Suc s) c l w \<Longrightarrow> h2_set_nonblock env fd w = (ok, w') \<Longrightarrow> I (Suc s) c l w'"
    and "may a \<Longrightarrow> I (Suc s) c l w \<Longrightarrow> h2_connect env fd a w = (res, w') \<Longrightarrow> I (Suc s) c l w'"
    and "I (Suc s) c l w \<Longrightarrow> h2_so_error env fd w = (e, w') \<Longrightarrow> I (Suc s) c l w'"
    and "I s (Suc c) l w \<Longrightarrow> h2_set_alpn env w = (ok, w') \<Longrightarrow> I s (Suc c) l w'"
    and "I s c (Suc l) w \<Longrightarrow> h2_set_fd env fd w = (ok, w') \<Longrightarrow> I s c (Suc l) w'"
    and "strict_tls tls \<Longrightarrow> I (Suc s) (Suc c) (Suc l) w \<Longrightarrow> h2_handshake env tls fd w = (hs, w') \<Longrightarrow> I (Suc s) (Suc c) (Suc l) w'"
    and "I (Suc s) (Suc c) (Suc l) w \<Longrightarrow> h2_alpn_selected env w = (al, w') \<Longrightarrow> I (Suc s) (Suc c) (Suc l) w'"
    and "I (Suc s) (Suc c) (Suc l) w \<Longrightarrow> h2_write env d w = (wio, w') \<Longrightarrow> I (Suc s) (Suc c) (Suc l) w'"
    and "I (Suc s) (Suc c) (Suc l) w \<Longrightarrow> h2_read env n w = (rio, w') \<Longrightarrow> I (Suc s) (Suc c) (Suc l) w'"
    and "I (Suc s) (Suc c) (Suc l) w \<Longrightarrow> h2_callbacks_new env w = (ok, w') \<Longrightarrow> I (Suc s) (Suc c) (Suc l) w'"
    and "I (Suc s) (Suc c) (Suc l) w \<Longrightarrow> ng_session_new lib w = (so, w') \<Longrightarrow> I (Suc s) (Suc c) (Suc l) w'"
    and "lookups_within may (h2_numeric_addrinfo env)"
proof -
  from assms have d: "net_discipline env I" "\<And>h p. call_keeps I (h2_numeric_addrinfo env h p)"
    "\<And>fd r wr t. call_keeps (\<lambda>s. I (Suc s)) (h2_select env fd r wr t)"
    "\<And>fd. call_keeps (\<lambda>s. I (Suc s)) (h2_set_nonblock env fd)"
    "\<And>fd a. may a \<Longrightarrow> call_keeps (\<lambda>s. I (Suc s)) (h2_connect env fd a)"
    "\<And>fd. call_keeps (\<lambda>s. I (Suc s)) (h2_so_error env fd)"
    "call_keeps (\<lambda>s c. I s (Suc c)) (h2_set_alpn env)"
    "\<And>fd. call_keeps (\<lambda>s c l. I s c (Suc l)) (h2_set_fd env fd)"
    "\<And>t fd. strict_tls t \<Longrightarrow> call_keeps (\<lambda>s c l. I (Suc s) (Suc c) (Suc l)) (h2_handshake env t fd)"
    "call_keeps (\<lambda>s c l. I (Suc s) (Suc c) (Suc l)) (h2_alpn_selected env)"
    "\<And>d. call_keeps (\<lambda>s c l. I (Suc s) (Suc c) (Suc l)) (h2_write env d)"
    "\<And>n. call_keeps (\<lambda>s c l. I (Suc s) (Suc c) (Suc l)) (h2_read env n)"
    "call_keeps (\<lambda>s c l. I (Suc s) (Suc c) (Suc l)) (h2_callbacks_new env)"
    "call_keeps (\<lambda>s c l. I (Suc s) (Suc c) (Suc l)) (ng_session_new lib)"
    "lookups_within may (h2_numeric_addrinfo env)"
    unfolding h2_discipline_def by simp_all
  show "net_discipline env I" "lookups_within may (h2_numeric_addrinfo env)" by (rule d(1), rule d(15))
  show "I s c l w \<Longrightarrow> h2_numeric_addrinfo env h p w = (addrs, w') \<Longrightarrow> I s c l w'" by (rule call_keepsD [OF d(2)])
  show "I (Suc s) c l w \<Longrightarrow> h2_select env fd r wr t w = (k, w') \<Longrightarrow> I (Suc s) c l w'" by (rule call_keepsD [OF d(3)])
  show "I (Suc s) c l w \<Longrightarrow> h2_set_nonblock env fd w = (ok, w') \<Longrightarrow> I (Suc s) c l w'" by (rule call_keepsD [OF d(4)])
  show "may a \<Longrightarrow> I (Suc s) c l w \<Longrightarrow> h2_connect env fd a w = (res, w') \<Longrightarrow> I (Suc s) c l w'" by (rule call_keepsD [OF d(5)])
  show "I (Suc s) c l w \<Longrightarrow> h2_so_error env fd w = (e, w') \<Longrightarrow> I (Suc s) c l w'" by (rule call_keepsD [OF d(6)])
  show "I s (Suc c) l w \<Longrightarrow> h2_set_alpn env w = (ok, w') \<Longrightarrow> I s (Suc c) l w'" by (rule call_keepsD [OF d(7)])
  show "I s c (Suc l) w \<Longrightarrow> h2_set_fd env fd w = (ok, w') \<Longrightarrow> I s c (Suc l) w'" by (rule call_keepsD [OF d(8)])
  show "strict_tls tls \<Longrightarrow> I (Suc s) (Suc c) (Suc l) w \<Longrightarrow> h2_handshake env tls fd w = (hs, w') \<Longrightarrow> I (Suc s) (Suc c) (Suc l) w'"
    by (rule call_keepsD [OF d(9)])
  show "I (Suc s) (Suc c) (Suc l) w \<Longrightarrow> h2_alpn_selected env w = (al, w') \<Longrightarrow> I (Suc s) (Suc c) (Suc l) w'"
    by (rule call_keepsD [OF d(10)])
  show "I (Suc s) (Suc c) (Suc l) w \<Longrightarrow> h2_write env d w = (wio, w') \<Longrightarrow> I (Suc s) (Suc c) (Suc l) w'"
    by (rule call_keepsD [OF d(11)])
  show "I (Suc s) (Suc c) (Suc l) w \<Longrightarrow> h2_read env n w = (rio, w') \<Longrightarrow> I (Suc s) (Suc c) (Suc l) w'"
    by (rule call_keepsD [OF d(12)])
  show "I (Suc s) (Suc c) (Suc l) w \<Longrightarrow> h2_callbacks_new env w = (ok, w') \<Longrightarrow> I (Suc s) (Suc c) (Suc l) w'"
    by (rule call_keepsD [OF d(13)])
  show "I (Suc s) (Suc c) (Suc l) w \<Longrightarrow> ng_session_new lib w = (so, w') \<Longrightarrow> I (Suc s) (Suc c) (Suc l) w'"
    by (rule call_keepsD [OF d(14)])
qed

lemma select_holds:
  assumes "h2_discipline env lib may I" and "I (Suc s) c l w" and "select_with_deadline env fd r wr dl w = (k, w')"
  shows "I (Suc s) c l w'"
proof -
  note d = h2_disciplineD [OF assms(1)]
  obtain now w1 where n: "ne_now env w = (now, w1)" by (rule prod.exhaust)
  note h1 = net_disciplineD(1) [OF d(1) assms(2) n]
  show ?thesis
    using assms(3) n h1 d(3) [OF h1] by (cases "dl - now \<le> 0") (simp_all add: select_with_deadline_def)
qed

lemma h2_connect_first_holds:
  assumes disc: "h2_discipline env lib may I" and "I s c l w" and "h2_connect_first env dl addrs w = (fd, w')"
    and "list_all may addrs"
  shows "if 0 \<le> fd then I (Suc s) c l w' else I s c l w'"
  using assms(2-4)
proof (induction addrs arbitrary: w)
  case Nil
  then show ?case by auto
next
  case (Cons a addrs)
  note d = h2_disciplineD [OF disc]
  have again: "if 0 \<le> fd then I (Suc s) c l w' else I s c l w'"
    if "I (Suc s) c l v" "h2_connect_first env dl addrs (ne_close env x v) = (fd, w')" for v x
    using Cons.IH [OF net_disciplineD(4) [OF d(1) that(1)] that(2)] Cons.prems(3) by simp
  obtain fd1 w1 where sock: "ne_socket env a w = (fd1, w1)" by (rule prod.exhaust)
  note held = net_disciplineD(3) [OF d(1) Cons.prems(1) sock]
  note run = Cons.prems(2) [unfolded h2_connect_first.simps sock Let_def prod.case]
  show ?case
  proof (cases "fd1 < 0")
    case True
    with run held Cons.IH [of w1] Cons.prems(3) show ?thesis by simp
  next
    case pos: False
    then have h1: "I (Suc s) c l w1" using held by simp
    note run = run [unfolded if_not_P [OF pos]]
    show ?thesis
    proof (cases "h2_fd_setsize env \<le> fd1")
      case True
      with run again [OF h1] show ?thesis by simp
    next
      case small: False
      obtain ok w2 where nb: "h2_set_nonblock env fd1 w1 = (ok, w2)" by (rule prod.exhaust)
      note h2 = d(4) [OF h1 nb]
      note run = run [unfolded if_not_P [OF small] nb prod.case]
      show ?thesis
      proof (cases ok)
        case False
        with run again [OF h2] show ?thesis by simp
      next
        case True
        obtain res w3 where cn: "h2_connect env fd1 a w2 = (res, w3)" by (rule prod.exhaust)
        have "may a" using Cons.prems(3) by simp
        note h3 = d(5) [OF this h2 cn]
        show ?thesis
        proof (cases res)
          case Connected
          with run True cn h3 pos show ?thesis by auto
        next
          case ConnectFailed
          with run True cn again [OF h3] show ?thesis by simp
        next
          case InProgress
          obtain sel w4 where s: "select_with_deadline env fd1 False True dl w3 = (sel, w4)" by (rule prod.exhaust)
          note h4 = select_holds [OF disc h3 s]
          obtain e w5 where so: "h2_so_error env fd1 w4 = (e, w5)" by (rule prod.exhaust)
          note h5 = d(6) [OF h4 so]
          from run True cn InProgress s so again [OF h4] again [OF h5] h5 pos show ?thesis
            by (auto split: if_splits)
        qed
      qed
    qed
  qed
qed

end
