(* ===== verification/Http2_Safety.thy ===== *)
theory Http2_Safety
  imports Http2_Wire
begin

text \<open>
  What a request over HTTP/2 does to the world: it keeps the resource discipline on every path, and it
  returns as time passes. Both follow from where the exchange can move the world: along any preorder
  that the clock, the waits, the writes and the reads move along.
\<close>

section \<open>Where the exchange moves the world\<close>

definition h2_moves :: "'w h2_env \<Rightarrow> ('w \<Rightarrow> 'w \<Rightarrow> bool) \<Rightarrow> bool" where
  "h2_moves env S \<longleftrightarrow>
     (\<forall>w. S w w) \<and> (\<forall>u v w. S u v \<longrightarrow> S v w \<longrightarrow> S u w)
     \<and> (\<forall>w. S w (snd (ne_now env w))) \<and> (\<forall>fd r wr t w. S w (snd (h2_select env fd r wr t w)))
     \<and> (\<forall>d w. S w (snd (h2_write env d w))) \<and> (\<forall>n w. S w (snd (h2_read env n w)))"

lemma h2_movesD:
  assumes "h2_moves env S"
  shows "S w w" "S u v \<Longrightarrow> S v w \<Longrightarrow> S u w"
    "S u v \<Longrightarrow> ne_now env v = (t, w) \<Longrightarrow> S u w"
    "S u v \<Longrightarrow> h2_select env fd r wr ms v = (k, w) \<Longrightarrow> S u w"
    "S u v \<Longrightarrow> h2_write env d v = (io, w) \<Longrightarrow> S u w"
    "S u v \<Longrightarrow> h2_read env n v = (rio, w) \<Longrightarrow> S u w"
  using assms unfolding h2_moves_def by (metis snd_conv)+

lemma select_moves:
  assumes "h2_moves env S" and "S u v" and "select_with_deadline env fd r wr dl v = (k, w)"
  shows "S u w"
proof -
  obtain now v1 where n: "ne_now env v = (now, v1)" by (rule prod.exhaust)
  note 1 = h2_movesD(3) [OF assms(1,2) n]
  from assms(3) n 1 h2_movesD(4) [OF assms(1) 1] show ?thesis
    by (cases "dl - now \<le> 0") (simp_all add: select_with_deadline_def)
qed

lemma elapsed_moves:
  "h2_moves env S \<Longrightarrow> S u v \<Longrightarrow> elapsed_since env t v = (ms, w) \<Longrightarrow> S u w"
  by (auto simp: elapsed_since_def split: prod.splits dest: h2_movesD(3))

lemma send_loop_moves:
  assumes "send_loop env fd dl data pending w = Some out"
  shows "h2_moves env S \<Longrightarrow> S u w \<Longrightarrow> S u (snd (snd out))"
  using assms
proof (induct rule: send_loop.raw_induct [rotated, consumes 1])
  case (1 f env fd dl data pending w out)
  note IH = 1(1) and run = 1(2) and m = 1(3)
  show ?case
  proof (cases "data = []")
    case True
    with run 1(4) show ?thesis by auto
  next
    case False
    obtain io w1 where wr: "h2_write env data w = (io, w1)" by (rule prod.exhaust)
    note s1 = h2_movesD(5) [OF m 1(4) wr]
    obtain k2 w2 where sel: "select_with_deadline env fd False True dl w1 = (k2, w2)" by (rule prod.exhaust)
    note s2 = select_moves [OF m s1 sel]
    obtain k3 w3 where sel3: "select_with_deadline env fd True False dl w1 = (k3, w3)" by (rule prod.exhaust)
    note s3 = select_moves [OF m s1 sel3]
    obtain rio w4 where rd: "h2_read env 4096 w3 = (rio, w4)" by (rule prod.exhaust)
    note s4 = h2_movesD(6) [OF m s3 rd]
    note run = run [unfolded if_not_P [OF False] wr prod.case sel sel3 rd]
    show ?thesis
    proof (cases io)
      case (IoDone n)
      with run have "f env fd dl (drop n data) pending w1 = Some out" by simp
      from IH [OF this m s1] show ?thesis .
    next
      case IoWantWrite
      with run s2 IH [OF _ m s2] show ?thesis by (auto split: if_splits)
    next
      case IoWantRead
      with run s3 s4 IH [OF _ m s4] show ?thesis by (auto split: if_splits tls_io.splits)
    qed (use run s1 in auto)
  qed
qed

lemma run_call_moves:
  assumes m: "h2_moves env S"
  shows "run_call env fd call ctx w = Some (r, s, ctx', w') \<Longrightarrow> S u w \<Longrightarrow> S u w'"
proof (induction call arbitrary: ctx w)
  case (SendCallback data k)
  then obtain v ctx1 w1 where c: "send_callback env fd data ctx w = Some (v, ctx1, w1)"
    and run: "run_call env fd (k v) ctx1 w1 = Some (r, s, ctx', w')"
    by (auto split: option.splits)
  from c obtain out where l: "send_loop env fd (hc_deadline_ms ctx) data (hc_pending_data ctx) w = Some out"
    and out: "w1 = snd (snd out)" by (auto simp: send_callback_def)
  have "S u w1" unfolding out by (rule send_loop_moves [OF l m SendCallback.prems(2)])
  from SendCallback.IH [OF _ run this] show ?case by simp
next
  case (DataRead n k)
  obtain d eof ctx1 where "data_read_callback n ctx = (d, eof, ctx1)" by (rule prod_cases3)
  with DataRead.IH [of "k d" "k d eof" ctx1 w] DataRead.prems show ?case by simp
next
  case (OnHeader sid type cat name val k)
  obtain v ctx1 where "on_header_callback sid type cat name val ctx = (v, ctx1)" by (rule prod.exhaust)
  with OnHeader.IH [of "k v" ctx1 w] OnHeader.prems show ?case by simp
next
  case (OnDataChunk sid data k)
  obtain v ctx1 where "on_data_chunk_recv_callback sid data ctx = (v, ctx1)" by (rule prod.exhaust)
  with OnDataChunk.IH [of "k v" ctx1 w] OnDataChunk.prems show ?case by simp
next
  case (OnFrameRecv type sid fin k)
  obtain v ctx1 where "on_frame_recv_callback type sid fin ctx = (v, ctx1)" by (rule prod.exhaust)
  with OnFrameRecv.IH [of "k v" ctx1 w] OnFrameRecv.prems show ?case by simp
next
  case (OnStreamClose sid err k)
  obtain v ctx1 where "on_stream_close_callback sid err ctx = (v, ctx1)" by (rule prod.exhaust)
  with OnStreamClose.IH [of "k v" ctx1 w] OnStreamClose.prems show ?case by simp
qed simp

section \<open>The exchange as a whole\<close>

lemma h2_send_phase_moves:
  assumes m: "h2_moves env S" and "h2_send_phase env lib fd run = Some (code, run')" and u: "S u (hr_world run)"
  shows "S u (hr_world run')"
proof -
  obtain sr s ctx w where 1: "run_call env fd (ng_send lib (hr_session run)) (hr_ctx run) (hr_world run) = Some (sr, s, ctx, w)"
    using assms(2) by (auto simp: h2_send_phase_def split: option.splits)
  note p1 = run_call_moves [OF m 1 u]
  show ?thesis
  proof (cases "sr < 0 \<or> hc_pending_data ctx = []")
    case True
    with assms(2) 1 p1 show ?thesis by (auto simp: h2_send_phase_def Let_def split: if_splits)
  next
    case False
    then obtain n s2 ctx2 w2 where 2: "run_call env fd (ng_mem_recv lib (hc_pending_data ctx) s) ctx w = Some (n, s2, ctx2, w2)"
      using assms(2) 1 by (auto simp: h2_send_phase_def Let_def split: option.splits)
    note run_call_moves [OF m 2 p1]
    with assms(2) 1 2 False show ?thesis by (auto simp: h2_send_phase_def Let_def split: if_splits)
  qed
qed

lemma h2_received_moves:
  assumes m: "h2_moves env S" and "h2_received env lib fd t_start d run = Some (stop, run')" and u: "S u (hr_world run)"
  shows "S u (hr_world run')"
proof -
  obtain ttfb w where t: "(case hr_ttfb run of Some t \<Rightarrow> (Some t, hr_world run)
      | None \<Rightarrow> (let (t, w) = elapsed_since env t_start (hr_world run) in (Some t, w))) = (ttfb, w)"
    by (rule prod.exhaust)
  have p: "S u w" using t u elapsed_moves [OF m u] by (auto split: option.splits prod.splits)
  note run = assms(2) [unfolded h2_received_def t, unfolded Let_def prod.case]
  then obtain out where "run_call env fd (ng_mem_recv lib d (hr_session run)) (hr_ctx run) w = Some out"
    by (cases "run_call env fd (ng_mem_recv lib d (hr_session run)) (hr_ctx run) w") simp_all
  moreover obtain n s ctx w2 where "out = (n, s, ctx, w2)" by (rule prod_cases4)
  ultimately have 1: "run_call env fd (ng_mem_recv lib d (hr_session run)) (hr_ctx run) w = Some (n, s, ctx, w2)" by simp
  from run [unfolded 1 option.case prod.case] run_call_moves [OF m 1 p] show ?thesis by (auto split: if_splits)
qed

lemma h2_read_retry_moves:
  assumes "h2_read_retry env fd dl w = Some out"
  shows "h2_moves env S \<Longrightarrow> S u w \<Longrightarrow> S u (snd out)"
  using assms
proof (induct rule: h2_read_retry.raw_induct [rotated, consumes 1])
  case (1 f env fd dl w out)
  note m = 1(3)
  obtain io w1 where rd: "h2_read env 16384 w = (io, w1)" by (rule prod.exhaust)
  note s1 = h2_movesD(6) [OF m 1(4) rd]
  obtain k w2 where sel: "select_with_deadline env fd False True dl w1 = (k, w2)" by (rule prod.exhaust)
  note s2 = select_moves [OF m s1 sel]
  from 1(2) rd sel s1 s2 1(1) [OF _ m s2] show ?case by (cases io) (auto split: if_splits)
qed

lemma h2_receive_phase_moves:
  assumes m: "h2_moves env S" and "h2_receive_phase env lib fd t_start deadline run = Some (stop, run')" and u: "S u (hr_world run)"
  shows "S u (hr_world run')"
proof -
  obtain now w where 1: "ne_now env (hr_world run) = (now, w)" by (rule prod.exhaust)
  note s1 = h2_movesD(3) [OF m u 1]
  obtain sel w1 where 2: "h2_select env fd True False (deadline - now) w = (sel, w1)" by (rule prod.exhaust)
  note s2 = h2_movesD(4) [OF m s1 2]
  obtain now2 w2 where 3: "ne_now env w1 = (now2, w2)" by (rule prod.exhaust)
  note s3 = h2_movesD(3) [OF m s2 3]
  note run = assms(2) [unfolded h2_receive_phase_def 1 2 3 Let_def prod.case]
  show ?thesis
  proof (cases "deadline - now \<le> 0 \<or> deadline \<le> now2 \<or> sel \<le> 0")
    case True
    with run s1 s3 show ?thesis by (auto split: if_splits)
  next
    case False
    then obtain io w3 where 4: "h2_read_retry env fd deadline w2 = Some (io, w3)"
      using run by (cases "h2_read_retry env fd deadline w2") auto
    have s4: "S u w3" using h2_read_retry_moves [OF 4 m s3] by simp
    show ?thesis
    proof (cases io)
      case (IoDone d)
      with run 4 False have "h2_received env lib fd t_start d (run\<lparr>hr_world := w3\<rparr>) = Some (stop, run')"
        by (auto split: if_splits)
      from h2_received_moves [OF m this] s4 show ?thesis by simp
    qed (use run 4 False s4 in \<open>auto split: if_splits\<close>)
  qed
qed

lemma h2_loop_moves:
  assumes "h2_loop env lib fd t_start deadline run = Some out"
  shows "h2_moves env S \<Longrightarrow> S u (hr_world run) \<Longrightarrow> S u (hr_world (snd out))"
  using assms
proof (induct rule: h2_loop.raw_induct [rotated, consumes 1])
  case (1 f env lib fd t_start deadline run out)
  note hyps = 1
  show ?case
  proof (cases "hc_stream_closed (hr_ctx run)")
    case True
    with hyps(2,4) show ?thesis by auto
  next
    case False
    then obtain code run1 where s: "h2_send_phase env lib fd run = Some (code, run1)"
      using hyps(2) by (auto split: option.splits)
    have p1: "S u (hr_world run1)" by (rule h2_send_phase_moves [OF hyps(3) s hyps(4)])
    show ?thesis
    proof (cases "code \<noteq> ASTERNET_OK \<or> hc_stream_closed (hr_ctx run1)")
      case True
      with hyps(2) False s p1 show ?thesis by (auto split: if_splits)
    next
      case go: False
      then obtain stop run2 where r: "h2_receive_phase env lib fd t_start deadline run1 = Some (stop, run2)"
        using hyps(2) False s by (auto split: option.splits)
      have p2: "S u (hr_world run2)" by (rule h2_receive_phase_moves [OF hyps(3) r p1])
      show ?thesis
      proof (cases stop)
        case None
        with hyps(2) False s go r have "f env lib fd t_start deadline run2 = Some out" by simp
        from hyps(1) [OF this hyps(3) p2] show ?thesis .
      next
        case (Some c)
        with hyps(2) False s go r p2 show ?thesis by auto
      qed
    qed
  qed
qed

section \<open>Resources\<close>

definition h2_live :: "'w holding \<Rightarrow> 'w \<Rightarrow> bool" where
  "h2_live I w \<longleftrightarrow> I (Suc 0) (Suc 0) (Suc 0) w"

lemma discipline_moves:
  assumes "h2_discipline env lib may I"
  shows "h2_moves env (\<lambda>w w'. h2_live I w \<longrightarrow> h2_live I w')"
proof -
  note d = h2_disciplineD [OF assms] and n = net_disciplineD [OF h2_disciplineD(1) [OF assms]]
  have "h2_live I w \<Longrightarrow> h2_live I (snd (ne_now env w))" "h2_live I w \<Longrightarrow> h2_live I (snd (h2_select env fd r wr t w))"
    "h2_live I w \<Longrightarrow> h2_live I (snd (h2_write env out w))" "h2_live I w \<Longrightarrow> h2_live I (snd (h2_read env m w))"
    for w fd r wr t out m
    unfolding h2_live_def
    using n(1) [OF _ prod.collapse [symmetric]] d(3) [OF _ prod.collapse [symmetric]]
      d(11) [OF _ prod.collapse [symmetric]] d(12) [OF _ prod.collapse [symmetric]] by auto
  then show ?thesis unfolding h2_moves_def by simp
qed

lemma connect_tcp_holds:
  assumes disc: "h2_discipline env lib may I" and "I s c l w" and "connect_tcp env host port dl w = (fd, w')"
    and may: "may (c_str host)"
  shows "if 0 \<le> fd then I (Suc s) c l w' else I s c l w'"
proof -
  obtain addrs w1 where g: "h2_numeric_addrinfo env (c_str host) (dec_digits port) w = (addrs, w1)" by (rule prod.exhaust)
  have "I s c l w1" by (rule h2_disciplineD(2) [OF disc assms(2) g])
  with assms(3) g h2_connect_first_holds [OF disc] lookups_withinD [OF h2_disciplineD(15) [OF disc] may g] show ?thesis
    by (cases "addrs = []") (auto simp: connect_tcp_def)
qed

lemma handshake_loop_holds:
  assumes "handshake_loop env setup fd dl w = Some out"
  shows "h2_discipline env lib may I \<Longrightarrow> strict_tls setup \<Longrightarrow> h2_live I w \<Longrightarrow> h2_live I (snd out)"
  using assms
proof (induct rule: handshake_loop.raw_induct [rotated, consumes 1])
  case (1 f env ts fd dl w out)
  note m = discipline_moves [OF 1(3)]
  obtain io w1 where h: "h2_handshake env ts fd w = (io, w1)" by (rule prod.exhaust)
  have s1: "h2_live I w1" using h2_disciplineD(9) [OF 1(3,4) _ h] 1(5) by (simp add: h2_live_def)
  have sel: "h2_live I w2" if "select_with_deadline env fd r wr dl w1 = (k, w2)" for r wr k w2
    using select_moves [OF m _ that, of w1] s1 by simp
  show ?case
  proof (cases io)
    case IoWantRead
    obtain k w2 where k: "select_with_deadline env fd True False dl w1 = (k, w2)" by (rule prod.exhaust)
    from 1(2) h IoWantRead k sel [OF k] 1(1) [OF _ 1(3,4) sel [OF k]] show ?thesis by (auto split: if_splits)
  next
    case IoWantWrite
    obtain k w2 where k: "select_with_deadline env fd False True dl w1 = (k, w2)" by (rule prod.exhaust)
    from 1(2) h IoWantWrite k sel [OF k] 1(1) [OF _ 1(3,4) sel [OF k]] show ?thesis by (auto split: if_splits)
  qed (use 1(2) h s1 in auto)
qed

text \<open>The session of a new connection, call by call; every failure gives back what it had acquired.\<close>

lemma h2_prepare_tls_holds:
  assumes disc: "h2_discipline env lib may I" and held: "I (Suc s) c l w"
    and run: "h2_prepare_tls env cfg req fd w = (code, w')"
  shows "if code = ASTERNET_OK then I (Suc s) (Suc c) (Suc l) w' else I s c l w'"
proof -
  note d = h2_disciplineD [OF disc] and n = net_disciplineD [OF h2_disciplineD(1) [OF disc]]
  note closed = close_ctx_holds [OF d(1)] close_tls_holds [OF d(1)]
  obtain ok1 w1 where e1: "ne_ctx_new env w = (ok1, w1)" by (rule prod.exhaust)
  note h1 = n(5) [OF held e1] and run = run [unfolded h2_prepare_tls_def Let_def e1 prod.case]
  show ?thesis
  proof (cases ok1)
    case False
    with run h1 n(4) show ?thesis by auto
  next
    case True
    then have h1: "I (Suc s) (Suc c) l w1" using h1 by simp
    obtain ok2 w2 where e2: "trust_ready env cfg req w1 = (ok2, w2)" by (rule prod.exhaust)
    note h2 = trust_ready_holds [OF d(1) h1 e2]
    obtain ok3 w3 where e3: "h2_set_alpn env w2 = (ok3, w3)" by (rule prod.exhaust)
    note h3 = d(7) [OF h2 e3]
    obtain ok4 w4 where e4: "ne_ssl_new env w3 = (ok4, w4)" by (rule prod.exhaust)
    note h4 = n(9) [OF h3 e4] and run = run [unfolded e2 prod.case e3 e4]
    show ?thesis
    proof (cases "ok2 \<and> ok3 \<and> ok4")
      case False
      with run True h4 closed(1) [OF h2] closed(1) [OF h3] closed(1) [of s c l w4] show ?thesis by (auto split: if_splits)
    next
      case oks: True
      then have h4: "I (Suc s) (Suc c) (Suc l) w4" using h4 by simp
      obtain ok5 w5 where e5: "ne_set_sni env (c_str (req_host req)) w4 = (ok5, w5)" by (rule prod.exhaust)
      note h5 = n(11) [OF h4 e5]
      obtain ok6 w6 where e6: "(if ok5 then h2_set_fd env fd w5 else (ok5, w5)) = (ok6, w6)" by (rule prod.exhaust)
      have h6: "I (Suc s) (Suc c) (Suc l) w6" using e6 h5 d(8) [OF h5] by (auto split: if_splits)
      obtain ok7 w7 where e7: "(if \<not> allow_insecure cfg then ne_set1_host env (c_str (req_host req)) w6 else (True, w6)) = (ok7, w7)"
        by (rule prod.exhaust)
      have h7: "I (Suc s) (Suc c) (Suc l) w7" using e7 h6 n(12) [OF h6] by (auto split: if_splits)
      from run [unfolded e5 prod.case e6 e7] True oks closed(2) [OF h6] closed(2) [OF h7] h7 show ?thesis
        by (auto split: if_splits)
    qed
  qed
qed

lemma h2_start_session_holds:
  assumes disc: "h2_discipline env lib may I" and strict: "\<not> ec_testing_build cfg" and held: "I (Suc 0) 0 0 w"
    and run: "h2_start_session env lib cfg req fd dl w = Some (r, tls_ms, w')"
  shows "case r of Inl e \<Rightarrow> I 0 0 0 w' | Inr ns \<Rightarrow> h2_live I w'"
proof -
  note d = h2_disciplineD [OF disc] and n = net_disciplineD [OF h2_disciplineD(1) [OF disc]]
  obtain code w1 where e1: "h2_prepare_tls env cfg req fd w = (code, w1)" by (rule prod.exhaust)
  note h1 = h2_prepare_tls_holds [OF disc held e1] and run = run [unfolded h2_start_session_def e1 prod.case]
  show ?thesis
  proof (cases "code = ASTERNET_OK")
    case False
    with run h1 show ?thesis by auto
  next
    case True
    then have h1: "I (Suc 0) (Suc 0) (Suc 0) w1" using h1 by simp
    obtain t0 w2 where e2: "ne_now env w1 = (t0, w2)" by (rule prod.exhaust)
    have h2: "h2_live I w2" using n(1) [OF h1 e2] by (simp add: h2_live_def)
    note run = run [unfolded e2 prod.case]
    obtain hs where hs: "handshake_loop env (tls_setup_of cfg req (Some ''h2'')) fd dl w2 = Some hs"
      using run True by (cases "handshake_loop env (tls_setup_of cfg req (Some ''h2'')) fd dl w2") simp_all
    obtain code3 w3 where code3: "hs = (code3, w3)" by (rule prod.exhaust)
    have h3: "I (Suc 0) (Suc 0) (Suc 0) w3"
      using handshake_loop_holds [OF hs disc production_tls_strict [OF strict] h2] by (simp add: code3 h2_live_def)
    have closing: "I 0 0 0 w5" if "elapsed_since env t0 (close_tls env fd w3) = (ms, w5)" for ms w5
      by (rule elapsed_holds [OF d(1) close_tls_holds [OF d(1) h3] that])
    obtain ms w4 where e4: "elapsed_since env t0 w3 = (ms, w4)" by (rule prod.exhaust)
    note h4 = elapsed_holds [OF d(1) h3 e4]
    obtain ok w5 where e5: "h2_callbacks_new env w4 = (ok, w5)" by (rule prod.exhaust)
    note h5 = d(13) [OF h4 e5]
    obtain so w6 where e6: "ng_session_new lib w5 = (so, w6)" by (rule prod.exhaust)
    note h6 = d(14) [OF h5 e6]
    note run = run [unfolded hs code3 option.case prod.case e4 e5 e6]
    show ?thesis
    proof (cases "code3 = ASTERNET_OK")
      case False
      with run True closing show ?thesis by (auto split: prod.splits)
    next
      case ok: True
      with run True close_tls_holds [OF d(1) h5] close_tls_holds [OF d(1) h6] h6 show ?thesis
        by (auto simp: h2_live_def split: if_splits option.splits)
    qed
  qed
qed

section \<open>The request\<close>

lemma h2_close_holds:
  assumes "h2_discipline env lib may I" and "holds_connection I cw" and "h2_close_connection env cw = (c, w')"
  shows "c = None \<and> I 0 0 0 w'"
proof (cases "fst cw")
  case None
  with assms(2,3) show ?thesis by (cases cw) (simp add: h2_close_connection_def)
next
  case (Some pc)
  with assms(2,3) close_tls_holds [OF h2_disciplineD(1) [OF assms(1)]] show ?thesis
    by (cases cw) (auto simp: h2_close_connection_def split: prod.splits)
qed

lemma h2_closed_holds:
  "h2_discipline env lib may I \<Longrightarrow> holds_connection I cw \<Longrightarrow> holds_connection I (h2_close_connection env cw)"
  using h2_close_holds by (metis holds_connection_simps(1) prod.collapse)

lemma h2_ensure_holds:
  assumes disc: "h2_discipline env lib may I" and strict: "\<not> ec_testing_build cfg"
    and held: "holds_connection I cw" and may: "may (c_str (endpoint_of req))"
    and run: "h2_ensure_connection env lib cfg req resp dl cw = Some (code, reused, resp', cw')"
  shows "holds_connection I cw'"
proof (cases "case fst cw of Some (pc, s) \<Rightarrow> pc_fd pc \<ge> 0 \<and> same_origin cfg req pc | None \<Rightarrow> False")
  case True
  with run held show ?thesis by (simp add: h2_ensure_connection_def)
next
  case False
  note d = h2_disciplineD [OF disc] and n = net_disciplineD [OF h2_disciplineD(1) [OF disc]]
  obtain c0 w1 where e1: "h2_close_connection env cw = (c0, w1)" by (rule prod.exhaust)
  have h1: "I 0 0 0 w1" using h2_close_holds [OF disc held e1] by simp
  obtain t0 w2 where e2: "ne_now env w1 = (t0, w2)" by (rule prod.exhaust)
  note h2 = n(1) [OF h1 e2]
  obtain fd w3 where e3: "connect_tcp env (endpoint_of req) (req_port req) dl w2 = (fd, w3)" by (rule prod.exhaust)
  note h3 = connect_tcp_holds [OF disc h2 e3 may]
  obtain ms w4 where e4: "elapsed_since env t0 w3 = (ms, w4)" by (rule prod.exhaust)
  note run = run [unfolded h2_ensure_connection_def if_not_P [OF False] Let_def e1 prod.case e2 e3 e4]
  show ?thesis
  proof (cases "fd < 0")
    case True
    then have "I 0 0 0 w3" using h3 by simp
    with elapsed_holds [OF d(1) _ e4] run True show ?thesis by auto
  next
    case pos: False
    then have "I (Suc 0) 0 0 w3" using h3 by simp
    with elapsed_holds [OF d(1) _ e4] have h4: "I (Suc 0) 0 0 w4" by blast
    obtain st where st: "h2_start_session env lib cfg req fd dl w4 = Some st"
      using run pos by (cases "h2_start_session env lib cfg req fd dl w4") simp_all
    obtain r tls_ms w5 where r: "st = (r, tls_ms, w5)" by (rule prod_cases3)
    from h2_start_session_holds [OF disc strict h4 st [unfolded r]] run pos st r show ?thesis
      by (cases r) (auto simp: h2_live_def)
  qed
qed

lemma h2_finish_holds:
  assumes "h2_discipline env lib may I" and "holds_connection I cw" and "h2_finish env t_start code resp cw = (ret, resp', cw')"
  shows "holds_connection I cw'"
proof -
  obtain ms w where e: "elapsed_since env t_start (snd cw) = (ms, w)" by (rule prod.exhaust)
  with assms(3) have cw': "cw' = (fst cw, w)" by (simp add: h2_finish_def)
  show ?thesis
    using assms(2) elapsed_holds [OF h2_disciplineD(1) [OF assms(1)] _ e] unfolding cw' holds_connection_def Let_def by simp
qed

lemma h2_exchange_holds:
  assumes disc: "h2_discipline env lib may I" and live: "h2_live I w"
    and run: "h2_exchange env lib t_start dl req reused resp pc s w = Some (ret, resp', cw')"
  shows "holds_connection I cw'"
proof -
  obtain r s1 w1 where sub: "h2_submit env lib req reused s w = (r, s1, w1)" by (rule prod_cases3)
  have "w1 = w \<or> w1 = snd (h2_alpn_selected env w)"
    using sub by (auto simp: h2_submit_def Let_def split: prod.splits if_splits option.splits)
  then have w1: "h2_live I w1"
    using live h2_disciplineD(10) [OF disc _ prod.collapse [symmetric]] by (auto simp: h2_live_def)
  note run = run [unfolded h2_exchange_def sub prod.case]
  show ?thesis
  proof (cases r)
    case (Inl f)
    have "holds_connection I (h2_close_connection env (Some (pc, s1), w1))"
      by (rule h2_closed_holds [OF disc]) (use w1 in \<open>simp add: h2_live_def\<close>)
    from h2_finish_holds [OF disc this] run Inl show ?thesis by (cases f) (auto simp: h2_fail_def)
  next
    case (Inr sid)
    then obtain out where loop: "h2_loop env lib (pc_fd pc) t_start dl (h2_start req dl sid s1 w1) = Some out"
      using run by (cases "h2_loop env lib (pc_fd pc) t_start dl (h2_start req dl sid s1 w1)") (simp_all add: h2_start_def Let_def)
    obtain code run' where out: "out = (code, run')" by (rule prod.exhaust)
    have "h2_live I (hr_world run')"
      using h2_loop_moves [OF loop discipline_moves [OF disc], of w1] w1 by (simp add: out h2_start_def)
    then have held: "holds_connection I (Some (pc, hr_session run'), hr_world run')" by (simp add: h2_live_def)
    from run Inr loop out have c: "h2_conclude env t_start code resp pc run' = (ret, resp', cw')"
      by (simp add: h2_start_def Let_def)
    let ?next = "if h2_keep_connection (h2_classify code (hr_ctx run')) (hr_ctx run') then (Some (pc, hr_session run'), hr_world run')
        else h2_close_connection env (Some (pc, hr_session run'), hr_world run')"
    have "holds_connection I ?next" using held h2_closed_holds [OF disc held] by simp
    then show ?thesis by (rule h2_finish_holds [OF disc _ c [unfolded h2_conclude_def Let_def]])
  qed
qed

lemma http2_holds:
  assumes disc: "h2_discipline env lib may I" and strict: "\<not> ec_testing_build cfg"
    and held: "holds_connection I cw" and may: "may (c_str (endpoint_of req))"
    and run: "http2_request env lib cfg req cw = Some (ret, resp, cw')"
  shows "holds_connection I cw'"
proof -
  let ?resp = "default_response\<lparr>resp_protocol := PROTOCOL_HTTP_2, resp_dns_ms := req_dns_ms req\<rparr>"
  obtain t_start w where now: "ne_now env (snd cw) = (t_start, w)" by (rule prod.exhaust)
  let ?dl = "t_start + req_timeout_ms req"
  have held1: "holds_connection I (fst cw, w)"
    using held net_disciplineD(1) [OF h2_disciplineD(1) [OF disc] _ now] by (simp add: holds_connection_def Let_def)
  note run = run [unfolded http2_request_def Let_def now prod.case]
  show ?thesis
  proof (cases "request_line_unsafe req")
    case True
    with run h2_finish_holds [OF disc held1] show ?thesis by simp
  next
    case False
    note run = run [unfolded if_not_P [OF False]]
    obtain ens where "h2_ensure_connection env lib cfg req ?resp ?dl (fst cw, w) = Some ens"
      using run by (cases "h2_ensure_connection env lib cfg req ?resp ?dl (fst cw, w)") simp_all
    moreover obtain code reused resp1 c v where "ens = (code, reused, resp1, c, v)" by (rule prod_cases5)
    ultimately have ens: "h2_ensure_connection env lib cfg req ?resp ?dl (fst cw, w) = Some (code, reused, resp1, c, v)" by simp
    note held2 = h2_ensure_holds [OF disc strict held1 may ens]
    note run = run [unfolded ens option.case prod.case]
    show ?thesis
    proof (cases c)
      case None
      with run h2_finish_holds [OF disc held2] show ?thesis by simp
    next
      case (Some ps)
      obtain pc s where ps: "ps = (pc, s)" by (rule prod.exhaust)
      have "h2_live I v" using held2 by (simp add: Some h2_live_def)
      with run Some ps h2_finish_holds [OF disc held2] h2_exchange_holds [OF disc] show ?thesis
        by (auto split: if_splits)
    qed
  qed
qed

section \<open>Returning\<close>

text \<open>
  \<open>T\<close> is the true time in ticks, \<open>K\<close> of them to a millisecond. The clock shows it, nothing turns it
  back, a wait in \<open>select\<close> takes at least a tick, and a successful write takes some of the bytes.
\<close>

definition h2_ticking :: "'w h2_env \<Rightarrow> ('w \<Rightarrow> nat) \<Rightarrow> nat \<Rightarrow> bool" where
  "h2_ticking env T K \<longleftrightarrow>
     0 < K \<and> (\<forall>w. fst (ne_now env w) = int (T w div K)) \<and> h2_moves env (\<lambda>w w'. T w \<le> T w')
     \<and> (\<forall>fd r wr t w. T w < T (snd (h2_select env fd r wr t w)))
     \<and> (\<forall>setup fd w. T w \<le> T (snd (h2_handshake env setup fd w)))
     \<and> (\<forall>d w n. d \<noteq> [] \<longrightarrow> fst (h2_write env d w) = IoDone n \<longrightarrow> 0 < n)"

lemma h2_tickingD:
  assumes "h2_ticking env T K"
  shows "0 < K" "ne_now env w = (t, w') \<Longrightarrow> t = int (T w div K)" "h2_moves env (\<lambda>w w'. T w \<le> T w')"
    "h2_select env fd r wr ms w = (k, w') \<Longrightarrow> T w < T w'" "h2_handshake env ts fd w = (hs, w') \<Longrightarrow> T w \<le> T w'"
    "d \<noteq> [] \<Longrightarrow> h2_write env d w = (IoDone n, w') \<Longrightarrow> 0 < n"
  using assms unfolding h2_ticking_def by (metis fst_conv snd_conv)+

lemma select_ticks:
  assumes tick: "h2_ticking env T K" and run: "select_with_deadline env fd r wr dl w = (k, w')"
  shows "T w \<le> T w'" and "0 < k \<Longrightarrow> ticks_left T K dl w' < ticks_left T K dl w"
proof -
  note t = h2_tickingD [OF tick]
  show "T w \<le> T w'" by (rule select_moves [OF t(3) order_refl run])
  assume k: "0 < k"
  obtain now w1 where n: "ne_now env w = (now, w1)" by (rule prod.exhaust)
  have now: "now = int (T w div K)" "T w \<le> T w1"
    using t(2) [OF n] h2_movesD(3) [OF t(3) order_refl n] by simp_all
  with run k n have "int (T w div K) < dl" and sel: "h2_select env fd r wr (dl - now) w1 = (k, w')"
    by (auto simp: select_with_deadline_def split: if_splits)
  with now t(4) [OF sel] before_deadline [OF t(1), of T w dl w'] show "ticks_left T K dl w' < ticks_left T K dl w" by simp
qed

lemma send_loop_returns:
  assumes tick: "h2_ticking env T K"
  shows "send_loop env fd dl data pending w \<noteq> None"
proof (induction "(ticks_left T K dl w, length data)" arbitrary: data pending w
    rule: wf_induct_rule [OF wf_lex_prod [OF wf_less_than wf_less_than]])
  case 1
  note t = h2_tickingD [OF tick]
  have fewer: "send_loop env fd dl d p v \<noteq> None" if "ticks_left T K dl v < ticks_left T K dl w" for d p v
    using that by (intro 1) simp
  have shorter: "send_loop env fd dl d p v \<noteq> None" if "T w \<le> T v" "length d < length data" for d p v
    using ticks_left_mono [where T = T, OF that(1), of K dl] that(2) by (intro 1) auto
  obtain io w1 where wr: "h2_write env data w = (io, w1)" by (rule prod.exhaust)
  note m1 = h2_movesD(5) [OF t(3) order_refl wr]
  obtain k2 w2 where s2: "select_with_deadline env fd False True dl w1 = (k2, w2)" by (rule prod.exhaust)
  obtain k3 w3 where s3: "select_with_deadline env fd True False dl w1 = (k3, w3)" by (rule prod.exhaust)
  obtain rio w4 where rd: "h2_read env 4096 w3 = (rio, w4)" by (rule prod.exhaust)
  note m4 = h2_movesD(6) [OF t(3) order_refl rd]
  have l2: "0 < k2 \<Longrightarrow> ticks_left T K dl w2 < ticks_left T K dl w"
    using select_ticks(2) [OF tick s2] ticks_left_mono [where T = T, OF m1, of K dl] by simp
  have l4: "0 < k3 \<Longrightarrow> ticks_left T K dl w4 < ticks_left T K dl w"
    using select_ticks(2) [OF tick s3] ticks_left_mono [where T = T, OF m1, of K dl] ticks_left_mono [where T = T, OF m4, of K dl] by simp
  show ?case
  proof (cases "data = []")
    case True
    then show ?thesis by (subst send_loop.simps) simp
  next
    case False
    have "length (drop n data) < length data" if "io = IoDone n" for n
      using t(6) [OF False] wr that False by simp
    with False wr s2 s3 rd fewer [OF l2] fewer [OF l4] shorter [OF m1] show ?thesis
      by (subst send_loop.simps) (cases io; cases rio; auto)
  qed
qed

lemma run_call_returns:
  assumes tick: "h2_ticking env T K"
  shows "run_call env fd call ctx w \<noteq> None"
proof (induction call arbitrary: ctx w)
  case (SendCallback data k)
  then show ?case using send_loop_returns [OF tick] by (auto simp: send_callback_def split: option.splits)
next
  case (DataRead n k)
  then show ?case by (auto split: prod.splits) (metis rangeI)
qed (auto split: prod.splits simp del: not_None_eq)

lemma read_retry_returns:
  assumes tick: "h2_ticking env T K"
  shows "h2_read_retry env fd dl w \<noteq> None"
proof (induction "ticks_left T K dl w" arbitrary: w rule: less_induct)
  case less
  note t = h2_tickingD [OF tick]
  obtain io w1 where rd: "h2_read env 16384 w = (io, w1)" by (rule prod.exhaust)
  note m1 = h2_movesD(6) [OF t(3) order_refl rd]
  obtain k w2 where s: "select_with_deadline env fd False True dl w1 = (k, w2)" by (rule prod.exhaust)
  have "0 < k \<Longrightarrow> h2_read_retry env fd dl w2 \<noteq> None"
    using select_ticks(2) [OF tick s] ticks_left_mono [where T = T, OF m1, of K dl] by (intro less) simp
  with rd s show ?case by (subst h2_read_retry.simps) (cases io; simp)
qed

lemma handshake_loop_returns:
  assumes tick: "h2_ticking env T K"
  shows "handshake_loop env ts fd dl w \<noteq> None"
proof (induction "ticks_left T K dl w" arbitrary: w rule: less_induct)
  case less
  obtain io w1 where h: "h2_handshake env ts fd w = (io, w1)" by (rule prod.exhaust)
  note m1 = h2_tickingD(5) [OF tick h]
  obtain k w2 where s: "select_with_deadline env fd False True dl w1 = (k, w2)" by (rule prod.exhaust)
  obtain k' w3 where s': "select_with_deadline env fd True False dl w1 = (k', w3)" by (rule prod.exhaust)
  have "0 < k \<Longrightarrow> handshake_loop env ts fd dl w2 \<noteq> None"
    using select_ticks(2) [OF tick s] ticks_left_mono [where T = T, OF m1, of K dl] by (intro less) simp
  moreover have "0 < k' \<Longrightarrow> handshake_loop env ts fd dl w3 \<noteq> None"
    using select_ticks(2) [OF tick s'] ticks_left_mono [where T = T, OF m1, of K dl] by (intro less) simp
  ultimately show ?case using h s s' by (subst handshake_loop.simps) (cases io; simp)
qed

lemma h2_phases_return:
  assumes tick: "h2_ticking env T K"
  shows "h2_send_phase env lib fd run \<noteq> None" and "h2_received env lib fd t_start d run \<noteq> None"
    and "h2_receive_phase env lib fd t_start dl run \<noteq> None"
proof -
  note call = run_call_returns [OF tick, where fd = fd]
  show "h2_send_phase env lib fd run \<noteq> None"
    using call unfolding h2_send_phase_def Let_def by (auto simp del: not_None_eq split: option.splits)
  have rec: "h2_received env lib fd t_start d run \<noteq> None" for d run
    using call unfolding h2_received_def Let_def by (auto simp del: not_None_eq split: option.splits prod.splits)
  then show "h2_received env lib fd t_start d run \<noteq> None" .
  show "h2_receive_phase env lib fd t_start dl run \<noteq> None"
    using rec read_retry_returns [OF tick, of fd dl]
    unfolding h2_receive_phase_def Let_def by (auto simp del: not_None_eq split: option.splits prod.splits tls_io.splits)
qed

lemma receive_phase_ticks:
  assumes tick: "h2_ticking env T K" and run: "h2_receive_phase env lib fd t_start dl run = Some (None, run')"
  shows "ticks_left T K dl (hr_world run') < ticks_left T K dl (hr_world run)"
proof -
  note t = h2_tickingD [OF tick]
  obtain now w where 1: "ne_now env (hr_world run) = (now, w)" by (rule prod.exhaust)
  obtain sel w1 where 2: "h2_select env fd True False (dl - now) w = (sel, w1)" by (rule prod.exhaust)
  obtain now2 w2 where 3: "ne_now env w1 = (now2, w2)" by (rule prod.exhaust)
  note unf = run [unfolded h2_receive_phase_def 1 2 3 Let_def prod.case]
  have "now < dl" using unf by (cases "now < dl") simp_all
  with t(2) [OF 1] have before: "int (T (hr_world run) div K) < dl" by simp
  have up: "T (hr_world run) < T w1" using h2_movesD(3) [OF t(3) order_refl 1] t(4) [OF 2] by simp
  have "T w1 \<le> T (hr_world run')"
  proof -
    note s2 = h2_movesD(3) [OF t(3) order_refl 3]
    have "run' = run\<lparr>hr_world := w2\<rparr> \<or> (\<exists>io w3. h2_read_retry env fd dl w2 = Some (io, w3)
        \<and> (run' = run\<lparr>hr_world := w3\<rparr> \<or> (\<exists>d. h2_received env lib fd t_start d (run\<lparr>hr_world := w3\<rparr>) = Some (None, run'))))"
      using unf by (auto split: if_splits option.splits prod.splits tls_io.splits)
    then show ?thesis
    proof (elim disjE exE conjE)
      fix io w3 d
      assume r: "h2_read_retry env fd dl w2 = Some (io, w3)"
        and d: "h2_received env lib fd t_start d (run\<lparr>hr_world := w3\<rparr>) = Some (None, run')"
      have "T w1 \<le> T w3" using h2_read_retry_moves [OF r t(3) s2] by simp
      with h2_received_moves [OF t(3) d, of w1] show ?thesis by simp
    next
      fix io w3
      assume r: "h2_read_retry env fd dl w2 = Some (io, w3)" and "run' = run\<lparr>hr_world := w3\<rparr>"
      with h2_read_retry_moves [OF r t(3) s2] show ?thesis by simp
    qed (use s2 in simp)
  qed
  with up have "T (hr_world run) < T (hr_world run')" by simp
  then show ?thesis by (rule before_deadline [where T = T, OF t(1) before])
qed

lemma h2_loop_returns:
  assumes tick: "h2_ticking env T K"
  shows "h2_loop env lib fd t_start dl run \<noteq> None"
proof (induction "ticks_left T K dl (hr_world run)" arbitrary: run rule: less_induct)
  case less
  obtain code run1 where s: "h2_send_phase env lib fd run = Some (code, run1)"
    using h2_phases_return(1) [OF tick, of lib fd run] by auto
  obtain stop run2 where r: "h2_receive_phase env lib fd t_start dl run1 = Some (stop, run2)"
    using h2_phases_return(3) [OF tick, of lib fd t_start dl run1] by auto
  have "T (hr_world run) \<le> T (hr_world run1)"
    by (rule h2_send_phase_moves [OF h2_tickingD(3) [OF tick] s order_refl])
  then have "h2_loop env lib fd t_start dl run2 \<noteq> None" if "stop = None"
    using receive_phase_ticks [OF tick r [unfolded that]] ticks_left_mono [where T = T and K = K and dl = dl]
    by (intro less) (meson less_le_trans)
  with s r show ?case by (subst h2_loop.simps) (cases stop; simp)
qed

lemma http2_request_returns:
  assumes tick: "h2_ticking env T K"
  shows "http2_request env lib cfg req cw \<noteq> None"
proof -
  have "h2_start_session env lib cfg req fd dl w \<noteq> None" for fd dl w
    using handshake_loop_returns [OF tick]
    unfolding h2_start_session_def by (auto simp del: not_None_eq split: option.splits prod.splits)
  then have ensure: "h2_ensure_connection env lib cfg req resp dl cw \<noteq> None" for resp dl cw
    unfolding h2_ensure_connection_def Let_def by (auto simp del: not_None_eq split: option.splits prod.splits sum.splits)
  have "h2_exchange env lib t_start dl req reused resp pc s w \<noteq> None" for t_start dl reused resp pc s w
    using h2_loop_returns [OF tick, of lib]
    unfolding h2_exchange_def Let_def by (auto simp del: not_None_eq split: option.splits prod.splits sum.splits)
  with ensure show ?thesis
    unfolding http2_request_def Let_def by (auto simp del: not_None_eq split: option.splits prod.splits sum.splits)
qed

text \<open>
  Property C18. A request over HTTP/2 returns as time passes, whatever the peer and nghttp2 do: every
  loop waits in \<open>select\<close> against the deadline. It ends with exactly the sockets, TLS contexts and sessions
  of the connection it keeps (or none), on every path; it connects only to the addresses its endpoint
  stands for, and in a production build every handshake is asked to verify the peer for the request's
  host. Destroying the engine gives the rest back.
\<close>

theorem http2_clean:
  assumes "h2_discipline env lib may I" and "h2_ticking env T K" and "\<not> ec_testing_build cfg"
    and "holds_connection I cw" and "may (c_str (endpoint_of req))"
  shows "\<exists>ret resp cw'. http2_request env lib cfg req cw = Some (ret, resp, cw') \<and> holds_connection I cw'
    \<and> holds_connection I (http2_destroy env cw') \<and> fst (http2_destroy env cw') = None"
proof -
  obtain ret resp cw' where run: "http2_request env lib cfg req cw = Some (ret, resp, cw')"
    using http2_request_returns [OF assms(2), of lib cfg req cw] by (metis option.exhaust prod_cases3)
  have held: "holds_connection I cw'" by (rule http2_holds [OF assms(1,3,4,5) run])
  then have "holds_connection I (http2_destroy env cw')"
    unfolding http2_destroy_def by (rule h2_closed_holds [OF assms(1)])
  moreover have "fst (http2_destroy env cw') = None"
    by (auto simp: http2_destroy_def h2_close_connection_def split: prod.splits option.splits)
  ultimately show ?thesis using run held by blast
qed

text \<open>A server that accepts and stays silent; the world counts time and what is held.\<close>

definition silent_h2_env :: "(nat \<times> nat \<times> nat \<times> nat) h2_env" where
  "silent_h2_env =
     \<lparr>ne_now = (\<lambda>(t, h). (int t, t, h)), ne_getaddrinfo = (\<lambda>_ _ w. ([], w)),
      ne_socket = (\<lambda>_ (t, s, c, l). (3, (t, s + 1, c, l))), ne_close = (\<lambda>_ (t, s, c, l). (t, s - 1, c, l)),
      ne_ctx_new = (\<lambda>(t, s, c, l). (True, (t, s, c + 1, l))), ne_load_ca = (\<lambda>_ w. (True, w)),
      ne_default_paths = (\<lambda>w. (True, w)), ne_ctx_free = (\<lambda>(t, s, c, l). (t, s, c - 1, l)),
      ne_ssl_new = (\<lambda>(t, s, c, l). (True, (t, s, c, l + 1))), ne_ssl_free = (\<lambda>(t, s, c, l). (t, s, c, l - 1)),
      ne_set_sni = (\<lambda>_ w. (True, w)), ne_set1_host = (\<lambda>_ w. (True, w)),
      h2_fd_setsize = 1024, h2_numeric_addrinfo = (\<lambda>h _ w. ([h], w)), h2_set_nonblock = (\<lambda>_ w. (True, w)),
      h2_connect = (\<lambda>_ _ w. (Connected, w)), h2_so_error = (\<lambda>_ w. (0, w)), h2_select = (\<lambda>_ _ _ ms (t, h). (1, t + 10, h)),
      h2_set_alpn = (\<lambda>w. (True, w)), h2_set_fd = (\<lambda>_ w. (True, w)), h2_handshake = (\<lambda>_ _ w. (IoWantRead, w)),
      h2_alpn_selected = (\<lambda>w. (''h2'', w)), h2_write = (\<lambda>d w. (IoDone (length d), w)),
      h2_read = (\<lambda>_ w. (IoWantRead, w)), h2_callbacks_new = (\<lambda>w. (True, w))\<rparr>"

definition silent_h2_lib :: "(unit, nat \<times> nat \<times> nat \<times> nat) nghttp2" where
  "silent_h2_lib =
     \<lparr>ng_session_new = (\<lambda>w. (Some (), w)), ng_submit_settings = (\<lambda>s. (0, s)), ng_submit_request = (\<lambda>_ _ s. (1, s)),
      ng_send = (\<lambda>s. Return 0 s), ng_mem_recv = (\<lambda>d s. Return (int (length d)) s)\<rparr>"

definition held_at :: "(nat \<times> nat \<times> nat \<times> nat) holding" where
  "held_at s c l w \<longleftrightarrow> snd w = (s, c, l)"

lemma silent_h2_laws:
  "h2_discipline silent_h2_env silent_h2_lib (\<lambda>a. a = ''peer'') held_at" "h2_ticking silent_h2_env fst 1"
  by (auto simp: h2_discipline_def net_discipline_def lookups_within_def call_keeps_def call_gains_def call_releases_def
      h2_ticking_def h2_moves_def silent_h2_env_def silent_h2_lib_def held_at_def)

lemma http2_clean_witness:
  "\<exists>ret resp cw'. http2_request silent_h2_env silent_h2_lib strict_config (default_request\<lparr>req_host := ''peer''\<rparr>) (None, (0, 0, 0, 0))
      = Some (ret, resp, cw') \<and> snd (snd (http2_destroy silent_h2_env cw')) = (0, 0, 0)"
proof -
  let ?req = "default_request\<lparr>req_host := ''peer''\<rparr>"
  have "holds_connection held_at (None :: (pooled_connection \<times> unit) option, (0, 0, 0, 0))" by (simp add: held_at_def)
  moreover have "c_str (endpoint_of ?req) = ''peer''"
    by (simp add: endpoint_of_def default_request_def c_str_def char_eval)
  ultimately obtain ret resp cw' where
    run: "http2_request silent_h2_env silent_h2_lib strict_config ?req (None, (0, 0, 0, 0)) = Some (ret, resp, cw')"
    and d: "holds_connection held_at (http2_destroy silent_h2_env cw')" "fst (http2_destroy silent_h2_env cw') = None"
    using http2_clean [OF silent_h2_laws, of strict_config "(None, (0, 0, 0, 0))" ?req] by (auto simp: strict_config_def)
  from d have "snd (snd (http2_destroy silent_h2_env cw')) = (0, 0, 0)"
    by (cases "http2_destroy silent_h2_env cw'") (simp add: held_at_def)
  with run show ?thesis by blast
qed

end
