(* ===== verification/Event_Loop.thy ===== *)
theory Event_Loop
  imports Prelude
begin

text \<open>
  \<open>platform/event_loop.cpp\<close>: the loop that drives the QUIC engine, in its epoll and its kqueue
  implementation. The state of a loop is its callback table, its one timer callback and the system
  calls it has made; a wait of the kernel is given as the list of events it returned. An empty
  \<open>std::function\<close> is \<open>None\<close>.

  The interface both implement is a locale: what can be called for a descriptor, and which timer is
  armed, after each operation.
\<close>

section \<open>State and system calls\<close>

record io_events =
  io_readable :: bool
  io_writable :: bool

definition no_events :: io_events where
  "no_events = \<lparr>io_readable = False, io_writable = False\<rparr>"

datatype kevent_filter = EVFILT_READ | EVFILT_WRITE

datatype kevent_change = EV_ADD int kevent_filter | EV_DELETE int kevent_filter | EV_TIMER nat

datatype loop_syscall =
    EPOLL_CTL_ADD int io_events | EPOLL_CTL_MOD int io_events | EPOLL_CTL_DEL int
  | TIMERFD_SETTIME nat nat
  | KEVENT "kevent_change list"

record 'cb event_loop =
  el_timer_fd :: int
  el_cbs :: "int \<rightharpoonup> 'cb option"
  el_timer_cb :: "'cb option"
  el_calls :: "loop_syscall list"

definition syscall :: "loop_syscall \<Rightarrow> 'cb event_loop \<Rightarrow> 'cb event_loop" where
  "syscall c l = l\<lparr>el_calls := el_calls l @ [c]\<rparr>"

lemma syscall_simps [simp]:
  "el_timer_fd (syscall c l) = el_timer_fd l" "el_cbs (syscall c l) = el_cbs l"
  "el_timer_cb (syscall c l) = el_timer_cb l"
  by (simp_all add: syscall_def)

section \<open>The epoll implementation\<close>

definition epoll_add_fd :: "int \<Rightarrow> io_events \<Rightarrow> 'cb option \<Rightarrow> 'cb event_loop \<Rightarrow> 'cb event_loop" where
  "epoll_add_fd fd events cb l = syscall (EPOLL_CTL_ADD fd events) (l\<lparr>el_cbs := (el_cbs l)(fd \<mapsto> cb)\<rparr>)"

definition epoll_mod_fd :: "int \<Rightarrow> io_events \<Rightarrow> 'cb event_loop \<Rightarrow> 'cb event_loop" where
  "epoll_mod_fd fd events l = syscall (EPOLL_CTL_MOD fd events) l"

definition epoll_remove_fd :: "int \<Rightarrow> 'cb event_loop \<Rightarrow> 'cb event_loop" where
  "epoll_remove_fd fd l = (let l = syscall (EPOLL_CTL_DEL fd) l in l\<lparr>el_cbs := (el_cbs l)(fd := None)\<rparr>)"

definition epoll_schedule_timer :: "nat \<Rightarrow> 'cb option \<Rightarrow> 'cb event_loop \<Rightarrow> 'cb event_loop" where
  "epoll_schedule_timer delay_ms cb l =
     syscall (TIMERFD_SETTIME (delay_ms div 1000) (delay_ms mod 1000 * 1000000)) (l\<lparr>el_timer_cb := cb\<rparr>)"

record epoll_event =
  ee_fd :: int
  ee_in :: bool
  ee_out :: bool
  ee_err :: bool
  ee_hup :: bool

definition ready_of :: "epoll_event \<Rightarrow> io_events" where
  "ready_of e = \<lparr>io_readable = (ee_in e \<or> ee_err e \<or> ee_hup e), io_writable = ee_out e\<rparr>"

text \<open>
  The events of one wait, in order. A callback works on the whole state of its owner, which the
  loop is a field of: \<open>get\<close> and \<open>upd\<close> are that field's selector and update.
\<close>

fun epoll_dispatch ::
  "('st \<Rightarrow> 'cb event_loop) \<Rightarrow> (('cb event_loop \<Rightarrow> 'cb event_loop) \<Rightarrow> 'st \<Rightarrow> 'st)
     \<Rightarrow> ('cb \<Rightarrow> io_events \<Rightarrow> 'st \<Rightarrow> 'st option) \<Rightarrow> epoll_event list \<Rightarrow> 'st \<Rightarrow> 'st option"
where
  "epoll_dispatch get upd run [] st = Some st"
| "epoll_dispatch get upd run (e # es) st =
     (if ee_fd e = el_timer_fd (get st) then
        (case el_timer_cb (get st) of
           None \<Rightarrow> epoll_dispatch get upd run es st
         | Some cb \<Rightarrow>
             (case run cb no_events (upd (\<lambda>l. l\<lparr>el_timer_cb := None\<rparr>) st) of
                None \<Rightarrow> None | Some st \<Rightarrow> epoll_dispatch get upd run es st))
      else
        (case el_cbs (get st) (ee_fd e) of
           Some (Some cb) \<Rightarrow>
             (case run cb (ready_of e) st of
                None \<Rightarrow> None | Some st \<Rightarrow> epoll_dispatch get upd run es st)
         | _ \<Rightarrow> epoll_dispatch get upd run es st))"

text \<open>One round: the result tells whether there were events.\<close>

definition epoll_poll_once ::
  "('st \<Rightarrow> 'cb event_loop) \<Rightarrow> (('cb event_loop \<Rightarrow> 'cb event_loop) \<Rightarrow> 'st \<Rightarrow> 'st)
     \<Rightarrow> ('cb \<Rightarrow> io_events \<Rightarrow> 'st \<Rightarrow> 'st option) \<Rightarrow> epoll_event list \<Rightarrow> 'st \<Rightarrow> (bool \<times> 'st) option"
where
  "epoll_poll_once get upd run events st =
     (if events = [] then Some (False, st) else map_option (Pair True) (epoll_dispatch get upd run events st))"

section \<open>The kqueue implementation\<close>

definition kq_changes :: "int \<Rightarrow> io_events \<Rightarrow> kevent_change list" where
  "kq_changes fd events =
     (if io_readable events then [EV_ADD fd EVFILT_READ] else [])
     @ (if io_writable events then [EV_ADD fd EVFILT_WRITE] else [])"

definition kq_add_fd :: "int \<Rightarrow> io_events \<Rightarrow> 'cb option \<Rightarrow> 'cb event_loop \<Rightarrow> 'cb event_loop" where
  "kq_add_fd fd events cb l =
     (let l = l\<lparr>el_cbs := (el_cbs l)(fd \<mapsto> cb)\<rparr>; changes = kq_changes fd events in
      if length changes > 0 then syscall (KEVENT changes) l else l)"

text \<open>\<open>fd_cbs_[fd]\<close> makes an empty entry where there is none.\<close>

definition kq_mod_fd :: "int \<Rightarrow> io_events \<Rightarrow> 'cb event_loop \<Rightarrow> 'cb event_loop" where
  "kq_mod_fd fd events l =
     (let l = syscall (KEVENT [EV_DELETE fd EVFILT_READ, EV_DELETE fd EVFILT_WRITE]) l;
          cb = (case el_cbs l fd of Some cb \<Rightarrow> cb | None \<Rightarrow> None)
      in kq_add_fd fd events cb l)"

definition kq_remove_fd :: "int \<Rightarrow> 'cb event_loop \<Rightarrow> 'cb event_loop" where
  "kq_remove_fd fd l =
     (let l = syscall (KEVENT [EV_DELETE fd EVFILT_READ, EV_DELETE fd EVFILT_WRITE]) l
      in l\<lparr>el_cbs := (el_cbs l)(fd := None)\<rparr>)"

definition kq_schedule_timer :: "nat \<Rightarrow> 'cb option \<Rightarrow> 'cb event_loop \<Rightarrow> 'cb event_loop" where
  "kq_schedule_timer delay_ms cb l = syscall (KEVENT [EV_TIMER delay_ms]) (l\<lparr>el_timer_cb := cb\<rparr>)"

datatype kevent = KTimer | KReady int kevent_filter

definition kq_ready_of :: "kevent_filter \<Rightarrow> io_events" where
  "kq_ready_of flt = \<lparr>io_readable = (flt = EVFILT_READ), io_writable = (flt = EVFILT_WRITE)\<rparr>"

fun kq_dispatch ::
  "('st \<Rightarrow> 'cb event_loop) \<Rightarrow> (('cb event_loop \<Rightarrow> 'cb event_loop) \<Rightarrow> 'st \<Rightarrow> 'st)
     \<Rightarrow> ('cb \<Rightarrow> io_events \<Rightarrow> 'st \<Rightarrow> 'st option) \<Rightarrow> kevent list \<Rightarrow> 'st \<Rightarrow> 'st option"
where
  "kq_dispatch get upd run [] st = Some st"
| "kq_dispatch get upd run (KTimer # es) st =
     (case el_timer_cb (get st) of
        None \<Rightarrow> kq_dispatch get upd run es st
      | Some cb \<Rightarrow>
          (case run cb no_events (upd (\<lambda>l. l\<lparr>el_timer_cb := None\<rparr>) st) of
             None \<Rightarrow> None | Some st \<Rightarrow> kq_dispatch get upd run es st))"
| "kq_dispatch get upd run (KReady fd flt # es) st =
     (case el_cbs (get st) fd of
        Some (Some cb) \<Rightarrow>
          (case run cb (kq_ready_of flt) st of None \<Rightarrow> None | Some st \<Rightarrow> kq_dispatch get upd run es st)
      | _ \<Rightarrow> kq_dispatch get upd run es st)"

definition kq_poll_once ::
  "('st \<Rightarrow> 'cb event_loop) \<Rightarrow> (('cb event_loop \<Rightarrow> 'cb event_loop) \<Rightarrow> 'st \<Rightarrow> 'st)
     \<Rightarrow> ('cb \<Rightarrow> io_events \<Rightarrow> 'st \<Rightarrow> 'st option) \<Rightarrow> kevent list \<Rightarrow> 'st \<Rightarrow> (bool \<times> 'st) option"
where
  "kq_poll_once get upd run events st =
     (if events = [] then Some (False, st) else map_option (Pair True) (kq_dispatch get upd run events st))"

section \<open>The interface\<close>

text \<open>What a wait can call: the callback of a descriptor, empty entries left out.\<close>

definition callable :: "'cb event_loop \<Rightarrow> int \<rightharpoonup> 'cb" where
  "callable l fd = (case el_cbs l fd of Some cb \<Rightarrow> cb | None \<Rightarrow> None)"

datatype 'cb loop_op =
    AddFd int io_events "'cb option" | ModFd int io_events | RemoveFd int | ScheduleTimer nat "'cb option"

fun loop_op_spec :: "'cb loop_op \<Rightarrow> (int \<rightharpoonup> 'cb) \<times> 'cb option \<Rightarrow> (int \<rightharpoonup> 'cb) \<times> 'cb option" where
  "loop_op_spec (AddFd fd events cb) (m, t) = (m(fd := cb), t)"
| "loop_op_spec (ModFd fd events) (m, t) = (m, t)"
| "loop_op_spec (RemoveFd fd) (m, t) = (m(fd := None), t)"
| "loop_op_spec (ScheduleTimer delay_ms cb) (m, t) = (m, cb)"

locale event_loop =
  fixes add_fd :: "int \<Rightarrow> io_events \<Rightarrow> 'cb option \<Rightarrow> 'l \<Rightarrow> 'l"
    and mod_fd :: "int \<Rightarrow> io_events \<Rightarrow> 'l \<Rightarrow> 'l"
    and remove_fd :: "int \<Rightarrow> 'l \<Rightarrow> 'l"
    and schedule_timer :: "nat \<Rightarrow> 'cb option \<Rightarrow> 'l \<Rightarrow> 'l"
    and watched :: "'l \<Rightarrow> int \<rightharpoonup> 'cb"
    and armed :: "'l \<Rightarrow> 'cb option"
  assumes add: "watched (add_fd fd events cb l) = (watched l)(fd := cb)" "armed (add_fd fd events cb l) = armed l"
    and modify: "watched (mod_fd fd events l) = watched l" "armed (mod_fd fd events l) = armed l"
    and remove: "watched (remove_fd fd l) = (watched l)(fd := None)" "armed (remove_fd fd l) = armed l"
    and schedule: "watched (schedule_timer delay cb l) = watched l" "armed (schedule_timer delay cb l) = cb"
begin

fun apply_op :: "'cb loop_op \<Rightarrow> 'l \<Rightarrow> 'l" where
  "apply_op (AddFd fd events cb) l = add_fd fd events cb l"
| "apply_op (ModFd fd events) l = mod_fd fd events l"
| "apply_op (RemoveFd fd) l = remove_fd fd l"
| "apply_op (ScheduleTimer delay_ms cb) l = schedule_timer delay_ms cb l"

lemma refines_op: "(watched (apply_op op l), armed (apply_op op l)) = loop_op_spec op (watched l, armed l)"
  by (cases op) (simp_all add: add modify remove schedule)

lemma refines_ops: "(watched (fold apply_op ops l), armed (fold apply_op ops l)) = fold loop_op_spec ops (watched l, armed l)"
  by (induction ops arbitrary: l) (simp_all add: refines_op)

end

text \<open>The two implementations, operation by operation.\<close>

fun epoll_op :: "'cb loop_op \<Rightarrow> 'cb event_loop \<Rightarrow> 'cb event_loop" where
  "epoll_op (AddFd fd events cb) l = epoll_add_fd fd events cb l"
| "epoll_op (ModFd fd events) l = epoll_mod_fd fd events l"
| "epoll_op (RemoveFd fd) l = epoll_remove_fd fd l"
| "epoll_op (ScheduleTimer delay_ms cb) l = epoll_schedule_timer delay_ms cb l"

fun kq_op :: "'cb loop_op \<Rightarrow> 'cb event_loop \<Rightarrow> 'cb event_loop" where
  "kq_op (AddFd fd events cb) l = kq_add_fd fd events cb l"
| "kq_op (ModFd fd events) l = kq_mod_fd fd events l"
| "kq_op (RemoveFd fd) l = kq_remove_fd fd l"
| "kq_op (ScheduleTimer delay_ms cb) l = kq_schedule_timer delay_ms cb l"

interpretation epoll: event_loop epoll_add_fd epoll_mod_fd epoll_remove_fd epoll_schedule_timer callable el_timer_cb
  by unfold_locales
    (simp_all add: epoll_add_fd_def epoll_mod_fd_def epoll_remove_fd_def epoll_schedule_timer_def callable_def Let_def fun_eq_iff)

interpretation kqueue: event_loop kq_add_fd kq_mod_fd kq_remove_fd kq_schedule_timer callable el_timer_cb
  by unfold_locales
    (auto simp: kq_add_fd_def kq_mod_fd_def kq_remove_fd_def kq_schedule_timer_def callable_def Let_def fun_eq_iff
      split: option.splits)

lemma epoll_op_apply: "epoll_op = epoll.apply_op"
proof (intro ext)
  fix op :: "'a loop_op" and l
  show "epoll_op op l = epoll.apply_op op l" by (cases op) simp_all
qed

lemma kq_op_apply: "kq_op = kqueue.apply_op"
proof (intro ext)
  fix op :: "'a loop_op" and l
  show "kq_op op l = kqueue.apply_op op l" by (cases op) simp_all
qed

text \<open>
  The two implementations of the event loop refine one specification: after any
  sequence of registrations, changes, removals and timers, both call the same callback for every
  descriptor and have the same timer armed, namely the ones the specification gives. (A change of a
  descriptor that was never registered leaves an empty entry behind under kqueue, which nothing
  calls.)
\<close>

theorem event_loops_refine:
  "(callable (fold epoll_op ops l), el_timer_cb (fold epoll_op ops l)) = fold loop_op_spec ops (callable l, el_timer_cb l)
   \<and> (callable (fold kq_op ops l), el_timer_cb (fold kq_op ops l)) = fold loop_op_spec ops (callable l, el_timer_cb l)"
  unfolding epoll_op_apply kq_op_apply by (rule conjI [OF epoll.refines_ops kqueue.refines_ops])

section \<open>Dispatch\<close>

text \<open>A condition that every callback and the disarming of the timer keep is kept by a round.\<close>

lemma epoll_dispatch_keeps:
  assumes "\<And>cb ev st st'. run cb ev st = Some st' \<Longrightarrow> P st \<Longrightarrow> P st'"
    and "\<And>st. P st \<Longrightarrow> P (upd (\<lambda>l. l\<lparr>el_timer_cb := None\<rparr>) st)"
  shows "epoll_dispatch get upd run es st = Some st' \<Longrightarrow> P st \<Longrightarrow> P st'"
proof (induction es arbitrary: st)
  case (Cons e es)
  from Cons.prems(1) consider
      (skip) "epoll_dispatch get upd run es st = Some st'"
    | (timer) cb st1 where "run cb no_events (upd (\<lambda>l. l\<lparr>el_timer_cb := None\<rparr>) st) = Some st1"
        "epoll_dispatch get upd run es st1 = Some st'"
    | (fd) cb st1 where "run cb (ready_of e) st = Some st1" "epoll_dispatch get upd run es st1 = Some st'"
    by (auto split: if_splits option.splits)
  then show ?case
    by cases (use Cons.IH Cons.prems(2) assms in blast)+
qed simp

lemma epoll_poll_once_keeps:
  assumes "epoll_poll_once get upd run es st = Some (b, st')" and "P st"
    and "\<And>cb ev st st'. run cb ev st = Some st' \<Longrightarrow> P st \<Longrightarrow> P st'"
    and "\<And>st. P st \<Longrightarrow> P (upd (\<lambda>l. l\<lparr>el_timer_cb := None\<rparr>) st)"
  shows "P st'"
  using assms(1,2) epoll_dispatch_keeps [of run P upd get es st st', OF assms(3,4)]
  by (auto simp: epoll_poll_once_def split: if_splits)

end
