(* ===== verification/Quic_Engine.thy ===== *)
theory Quic_Engine
  imports Transport Engine_Interface Event_Loop
begin

text \<open>
  \<open>engine/quic_engine.cpp\<close>: one HTTP/3 request at a time over XQUIC, driven by the event loop.

  XQUIC is not under \<open>src/\<close>. A call of one of its entry points is an interaction: a tree of the
  callbacks it makes, each continued by what the callback returned, that ends with the result of
  the call and the library's state. A callback that calls the library back (to open a stream, send
  or receive) works on the library's state at that point, which the tree hands over and takes back;
  those inner calls answer at once, their packets leave with the interaction around them.
  The callbacks, the socket handler, the timer handler and everything else are the engine's code.
\<close>

section \<open>The environment\<close>

datatype udp_recv = RecvInterrupted | RecvWouldBlock | RecvFailed | Received string string

datatype udp_send = SendInterrupted | SendWouldBlock | SendFailed | SentBytes nat

record 'w quic_env = "'w net_env" +
  qe_getaddrinfo :: "string \<Rightarrow> string \<Rightarrow> 'w \<Rightarrow> string list \<times> 'w"
  qe_udp_socket :: "string \<Rightarrow> 'w \<Rightarrow> int \<times> 'w"
  qe_set_nonblock :: "int \<Rightarrow> 'w \<Rightarrow> bool \<times> 'w"
  qe_connect :: "int \<Rightarrow> string \<Rightarrow> 'w \<Rightarrow> bool \<times> 'w"
  qe_recvfrom :: "int \<Rightarrow> nat \<Rightarrow> 'w \<Rightarrow> udp_recv \<times> 'w"
  qe_getsockname :: "int \<Rightarrow> 'w \<Rightarrow> string option \<times> 'w"
  qe_send :: "int \<Rightarrow> string \<Rightarrow> 'w \<Rightarrow> udp_send \<times> 'w"
  qe_epoll_wait :: "int \<Rightarrow> 'w \<Rightarrow> epoll_event list \<times> 'w"

datatype write_result = SocketError | SocketAgain | SocketSent nat

record notify_flags =
  nf_header :: bool
  nf_body :: bool
  nf_trailer :: bool
  nf_empty_fin :: bool

datatype ('r, 's) xq_call =
    XqReturn 'r 's
  | WriteSocket string "write_result \<Rightarrow> ('r, 's) xq_call"
  | SetEventTimer nat "('r, 's) xq_call"
  | CertVerify "string list" "int \<Rightarrow> ('r, 's) xq_call"
  | H3ConnCreate nat "('r, 's) xq_call"
  | HandshakeFinished 's "'s \<Rightarrow> ('r, 's) xq_call"
  | H3ConnClose int "('r, 's) xq_call"
  | ReadNotify notify_flags 's "bool \<Rightarrow> 's \<Rightarrow> ('r, 's) xq_call"
  | WriteNotify 's "'s \<Rightarrow> ('r, 's) xq_call"
  | ClosingNotify int "('r, 's) xq_call"
  | CloseNotify int "('r, 's) xq_call"

datatype body_sent = BodyAgain | BodyAccepted int

datatype body_read = ReadAgain | ReadFailed | ReadData string bool

record conn_stats =
  cs_conn_err :: int
  cs_send_count :: nat
  cs_recv_count :: nat
  cs_lost_count :: nat
  cs_srtt :: nat

record ('s, 'w) xquic =
  xq_default_config :: "'w \<Rightarrow> bool \<times> 'w"
  xq_engine_create :: "'w \<Rightarrow> 's option \<times> 'w"
  xq_h3_ctx_init :: "'s \<Rightarrow> bool \<times> 's"
  xq_h3_connect :: "bool \<Rightarrow> string \<Rightarrow> string \<Rightarrow> 's \<Rightarrow> (nat option, 's) xq_call"
  xq_packet_process :: "string \<Rightarrow> string \<Rightarrow> string \<Rightarrow> 's \<Rightarrow> (unit, 's) xq_call"
  xq_finish_recv :: "'s \<Rightarrow> (unit, 's) xq_call"
  xq_main_logic :: "'s \<Rightarrow> (unit, 's) xq_call"
  xq_continue_send :: "nat \<Rightarrow> 's \<Rightarrow> (bool, 's) xq_call"
  xq_conn_get_stats :: "nat \<Rightarrow> 's \<Rightarrow> conn_stats"
  xq_engine_destroy :: "'s \<Rightarrow> (unit, 's) xq_call"
  xq_request_create :: "nat \<Rightarrow> 's \<Rightarrow> bool \<times> 's"
  xq_send_headers :: "(string \<times> string) list \<Rightarrow> bool \<Rightarrow> 's \<Rightarrow> bool \<times> 's"
  xq_send_body :: "string \<Rightarrow> 's \<Rightarrow> body_sent \<times> 's"
  xq_recv_headers :: "'s \<Rightarrow> ((string option \<times> string) list \<times> bool) option \<times> 's"
  xq_recv_body :: "nat \<Rightarrow> 's \<Rightarrow> body_read \<times> 's"

section \<open>The request context\<close>

record quic_context =
  qc_host :: string
  qc_authority :: string
  qc_path :: string
  qc_method :: string
  qc_body :: string
  qc_ca_cert_pem :: string
  qc_headers :: "header list"
  qc_port :: nat
  qc_allow_insecure :: bool
  qc_response_body :: string
  qc_sock_fd :: int
  qc_http_status :: int
  qc_stream_error :: int
  qc_conn_error :: int
  qc_packets :: "nat \<times> nat \<times> nat"
  qc_srtt_us :: nat
  qc_start_ms :: int
  qc_tls_start_ms :: int
  qc_tls_ms :: int
  qc_ttfb_ms :: int
  qc_request_body_sent :: nat
  qc_max_response_body_bytes :: nat
  qc_generation :: nat
  qc_cid :: nat
  qc_h3_request :: bool
  qc_finished :: bool
  qc_failed :: bool
  qc_got_status :: bool
  qc_response_fin :: bool
  qc_body_limit_exceeded :: bool
  qc_tls_failed :: bool
  qc_cleanup_started :: bool
  qc_waiting_writable :: bool
  qc_peer_addr :: string
  qc_local_addr :: string
  qc_got_local :: bool

definition quic_authority :: "request \<Rightarrow> string" where
  "quic_authority req =
     (if req_port req \<noteq> 443 then req_host req @ '':'' @ dec_digits (req_port req) else req_host req)"

definition new_context :: "engine_config \<Rightarrow> request \<Rightarrow> int \<Rightarrow> nat \<Rightarrow> int \<Rightarrow> string \<Rightarrow> quic_context" where
  "new_context cfg req start_ms generation fd addr =
     \<lparr>qc_host = req_host req, qc_authority = quic_authority req, qc_path = req_path req, qc_method = req_method req,
      qc_body = req_body req, qc_ca_cert_pem = ca_bundle_of cfg req, qc_headers = req_headers req,
      qc_port = req_port req, qc_allow_insecure = req_allow_insecure req, qc_response_body = [], qc_sock_fd = fd,
      qc_http_status = 0, qc_stream_error = 0, qc_conn_error = 0, qc_packets = (0, 0, 0), qc_srtt_us = 0,
      qc_start_ms = start_ms, qc_tls_start_ms = 0, qc_tls_ms = -1, qc_ttfb_ms = -1, qc_request_body_sent = 0,
      qc_max_response_body_bytes = req_max_body req, qc_generation = generation, qc_cid = 0, qc_h3_request = False,
      qc_finished = False, qc_failed = False, qc_got_status = False, qc_response_fin = False,
      qc_body_limit_exceeded = False, qc_tls_failed = False, qc_cleanup_started = False,
      qc_waiting_writable = False, qc_peer_addr = addr, qc_local_addr = [], qc_got_local = False\<rparr>"

datatype loop_cb = SocketReady | EngineTimer nat

record ('s, 'w) quic_state =
  qs_loop :: "loop_cb event_loop"
  qs_engine :: "'s option"
  qs_initialized :: bool
  qs_cur :: "quic_context option"
  qs_generation :: nat
  qs_world :: 'w

definition mark_failed :: "quic_context \<Rightarrow> quic_context" where
  "mark_failed ctx = ctx\<lparr>qc_failed := True\<rparr>"

definition complete_response_if_ready :: "quic_context \<Rightarrow> quic_context" where
  "complete_response_if_ready ctx =
     (if \<not> qc_response_fin ctx then ctx
      else if \<not> qc_got_status ctx then mark_failed ctx
      else if \<not> qc_failed ctx then ctx\<lparr>qc_finished := True\<rparr> else ctx)"

text \<open>A callback's guard: the current request, unless its cleanup has started.\<close>

definition live_request :: "('s, 'w) quic_state \<Rightarrow> quic_context option" where
  "live_request st =
     (case qs_cur st of None \<Rightarrow> None | Some ctx \<Rightarrow> if qc_cleanup_started ctx then None else Some ctx)"

abbreviation set_ctx :: "quic_context \<Rightarrow> ('s, 'w) quic_state \<Rightarrow> ('s, 'w) quic_state" where
  "set_ctx ctx st \<equiv> st\<lparr>qs_cur := Some ctx\<rparr>"

section \<open>Callbacks of the transport\<close>

partial_function (option) send_retry :: "'w quic_env \<Rightarrow> int \<Rightarrow> string \<Rightarrow> 'w \<Rightarrow> (udp_send \<times> 'w) option" where
  "send_retry env fd buf w =
     (case qe_send env fd buf w of
        (SendInterrupted, w) \<Rightarrow> send_retry env fd buf w
      | (r, w) \<Rightarrow> Some (r, w))"

definition write_socket_cb ::
  "'w quic_env \<Rightarrow> string \<Rightarrow> ('s, 'w) quic_state \<Rightarrow> (write_result \<times> ('s, 'w) quic_state) option" where
  "write_socket_cb env buf st =
     (case live_request st of
        None \<Rightarrow> Some (SocketError, st)
      | Some ctx \<Rightarrow>
          (case send_retry env (qc_sock_fd ctx) buf (qs_world st) of
             None \<Rightarrow> None
           | Some (r, w) \<Rightarrow>
               let st = st\<lparr>qs_world := w\<rparr> in
               (case r of
                  SendWouldBlock \<Rightarrow>
                    Some (SocketAgain,
                      if qc_waiting_writable ctx then st
                      else (set_ctx (ctx\<lparr>qc_waiting_writable := True\<rparr>) st)
                        \<lparr>qs_loop := epoll_mod_fd (qc_sock_fd ctx) \<lparr>io_readable = True, io_writable = True\<rparr> (qs_loop st)\<rparr>)
                | SentBytes n \<Rightarrow> Some (SocketSent n, st)
                | _ \<Rightarrow> Some (SocketError, st))))"

text \<open>XQUIC counts microseconds in 64 bits, the loop milliseconds, rounded up.\<close>

definition timer_delay_ms :: "nat \<Rightarrow> nat" where
  "timer_delay_ms wake_after = max 1 ((wake_after + 999) mod 2 ^ 64 div 1000)"

definition set_event_timer_cb :: "nat \<Rightarrow> ('s, 'w) quic_state \<Rightarrow> ('s, 'w) quic_state" where
  "set_event_timer_cb wake_after st =
     (case qs_cur st of
        None \<Rightarrow> st
      | Some ctx \<Rightarrow>
          st\<lparr>qs_loop := epoll_schedule_timer (timer_delay_ms wake_after) (Some (EngineTimer (qc_generation ctx))) (qs_loop st)\<rparr>)"

definition cert_verify_cb ::
  "x509_lib \<Rightarrow> engine_config \<Rightarrow> string list \<Rightarrow> ('s, 'w) quic_state \<Rightarrow> int \<times> ('s, 'w) quic_state" where
  "cert_verify_cb x509 cfg certs st =
     (if allow_insecure cfg then (0, st)
      else (case qs_cur st of
          None \<Rightarrow> (-1, st)
        | Some ctx \<Rightarrow>
            if verify_certificate_chain x509 (qc_ca_cert_pem ctx) (qc_host ctx) certs then (0, st)
            else (-1, set_ctx (ctx\<lparr>qc_tls_failed := True\<rparr>) st)))"

section \<open>Callbacks of the HTTP/3 connection\<close>

definition h3_conn_create_notify_cb :: "nat \<Rightarrow> ('s, 'w) quic_state \<Rightarrow> ('s, 'w) quic_state" where
  "h3_conn_create_notify_cb cid st =
     (case qs_cur st of None \<Rightarrow> st | Some ctx \<Rightarrow> set_ctx (ctx\<lparr>qc_cid := cid\<rparr>) st)"

text \<open>The body goes out in as many pieces as the library takes.\<close>

function send_body_loop :: "('s, 'w) xquic \<Rightarrow> quic_context \<Rightarrow> 's \<Rightarrow> quic_context \<times> 's" where
  "send_body_loop xq ctx s =
     (if qc_request_body_sent ctx < length (qc_body ctx) then
        (case xq_send_body xq (drop (qc_request_body_sent ctx) (qc_body ctx)) s of
           (BodyAgain, s) \<Rightarrow> (ctx, s)
         | (BodyAccepted n, s) \<Rightarrow>
             if n \<le> 0 \<or> int (length (qc_body ctx) - qc_request_body_sent ctx) < n then (mark_failed ctx, s)
             else send_body_loop xq (ctx\<lparr>qc_request_body_sent := qc_request_body_sent ctx + nat n\<rparr>) s)
      else (ctx, s))"
  by pat_completeness auto
termination
  by (relation "measure (\<lambda>(xq, ctx, s). length (qc_body ctx) - qc_request_body_sent ctx)") auto

declare send_body_loop.simps [simp del]

definition send_pending_body :: "('s, 'w) xquic \<Rightarrow> 's \<Rightarrow> ('s, 'w) quic_state \<Rightarrow> 's \<times> ('s, 'w) quic_state" where
  "send_pending_body xq s st =
     (case live_request st of
        None \<Rightarrow> (s, st)
      | Some ctx \<Rightarrow>
          if qs_engine st = None \<or> \<not> qc_h3_request ctx \<or> qc_body ctx = [] then (s, st)
          else (case send_body_loop xq ctx s of (ctx, s) \<Rightarrow> (s, set_ctx ctx st)))"

definition h3_request_headers :: "quic_context \<Rightarrow> (string \<times> string) list" where
  "h3_request_headers ctx =
     [('':method'', qc_method ctx), ('':scheme'', ''https''), ('':authority'', qc_authority ctx),
      ('':path'', qc_path ctx), (''user-agent'', ''asternet/0.1'')]
     @ map (\<lambda>h. (c_str (h_name h), h_value h)) (qc_headers ctx)"

definition h3_conn_handshake_finished_cb ::
  "'w quic_env \<Rightarrow> ('s, 'w) xquic \<Rightarrow> 's \<Rightarrow> ('s, 'w) quic_state \<Rightarrow> 's \<times> ('s, 'w) quic_state" where
  "h3_conn_handshake_finished_cb env xq s st =
     (case live_request st of
        None \<Rightarrow> (s, st)
      | Some ctx \<Rightarrow>
          if qs_engine st = None then (s, st)
          else
            let (ctx, w) =
                  (if qc_tls_ms ctx < 0 then
                     (let (ms, w) = elapsed_since env (if qc_tls_start_ms ctx > 0 then qc_tls_start_ms ctx else qc_start_ms ctx)
                            (qs_world st)
                      in (ctx\<lparr>qc_tls_ms := ms\<rparr>, w))
                   else (ctx, qs_world st));
                st = set_ctx ctx (st\<lparr>qs_world := w\<rparr>) in
            if qc_h3_request ctx then (s, st)
            else
              let (created, s) = xq_request_create xq (qc_cid ctx) s in
              if \<not> created then (s, set_ctx (mark_failed ctx) st)
              else
                let ctx = ctx\<lparr>qc_h3_request := True\<rparr>;
                    (sent, s) = xq_send_headers xq (h3_request_headers ctx) (qc_body ctx = []) s in
                if \<not> sent then (s, set_ctx (mark_failed ctx) st)
                else if qc_body ctx \<noteq> [] then send_pending_body xq s (set_ctx ctx st)
                else (s, set_ctx ctx st))"

definition closed_early :: "int \<Rightarrow> ('s, 'w) quic_state \<Rightarrow> ('s, 'w) quic_state" where
  "closed_early err st =
     (case live_request st of
        None \<Rightarrow> st
      | Some ctx \<Rightarrow>
          if qc_finished ctx then st else set_ctx (mark_failed (ctx\<lparr>qc_stream_error := err\<rparr>)) st)"

definition h3_conn_close_notify_cb :: "int \<Rightarrow> ('s, 'w) quic_state \<Rightarrow> ('s, 'w) quic_state" where
  "h3_conn_close_notify_cb err st = closed_early err st"

section \<open>Callbacks of the HTTP/3 request\<close>

definition parse_http_status :: "string option \<times> string \<Rightarrow> int option" where
  "parse_http_status h =
     (if fst h \<noteq> Some '':status'' \<or> length (snd h) \<noteq> 3 \<or> \<not> list_all isdigit (snd h) then None
      else let parsed = dec_value (snd h) in
        if parsed < 100 \<or> parsed > 599 then None else Some (int parsed))"

text \<open>
  The scan for \<open>:status\<close>: the context with the last status seen, and whether the header block is
  acceptable; \<open>found_status\<close> as it goes.
\<close>

fun scan_status :: "(string option \<times> string) list \<Rightarrow> bool \<Rightarrow> quic_context \<Rightarrow> bool \<times> quic_context" where
  "scan_status [] found ctx = (if found then (True, ctx) else (False, mark_failed ctx))"
| "scan_status (h # hs) found ctx =
     (if fst h \<noteq> Some '':status'' then scan_status hs found ctx
      else if found then (False, mark_failed ctx)
      else (case parse_http_status h of
          None \<Rightarrow> (False, mark_failed ctx)
        | Some status \<Rightarrow> scan_status hs True (ctx\<lparr>qc_http_status := status\<rparr>)))"

definition fin_received :: "quic_context \<Rightarrow> quic_context" where
  "fin_received ctx = complete_response_if_ready (ctx\<lparr>qc_response_fin := True\<rparr>)"

definition consume_headers ::
  "'w quic_env \<Rightarrow> ('s, 'w) xquic \<Rightarrow> bool \<Rightarrow> quic_context \<Rightarrow> 's \<Rightarrow> 'w \<Rightarrow> bool \<times> quic_context \<times> 's \<times> 'w" where
  "consume_headers env xq is_initial ctx s w =
     (case xq_recv_headers xq s of
        (None, s) \<Rightarrow> (False, mark_failed ctx, s, w)
      | (Some (headers, fin), s) \<Rightarrow>
          let (ok, ctx) = (if is_initial then scan_status headers False ctx else (True, ctx)) in
          if \<not> ok then (False, ctx, s, w)
          else
            let (ctx, w) =
                  (if is_initial then
                     (let ctx = ctx\<lparr>qc_got_status := True\<rparr> in
                      if qc_ttfb_ms ctx < 0
                      then (let (ms, w) = elapsed_since env (qc_start_ms ctx) w in (ctx\<lparr>qc_ttfb_ms := ms\<rparr>, w))
                      else (ctx, w))
                   else (ctx, w))
            in (True, if fin then fin_received ctx else ctx, s, w))"

text \<open>
  The body loop: whether it went well, whether the end of the body was seen. Every piece kept is
  not empty and fits the limit, so the loop ends.
\<close>

function recv_body_loop :: "('s, 'w) xquic \<Rightarrow> quic_context \<Rightarrow> 's \<Rightarrow> bool \<times> bool \<times> quic_context \<times> 's" where
  "recv_body_loop xq ctx s =
     (case xq_recv_body xq 8192 s of
        (ReadAgain, s) \<Rightarrow> (True, False, ctx, s)
      | (ReadFailed, s) \<Rightarrow> (False, False, mark_failed ctx, s)
      | (ReadData d fin, s) \<Rightarrow>
          if d \<noteq> [] \<and> (length d > qc_max_response_body_bytes ctx
             \<or> length (qc_response_body ctx) > qc_max_response_body_bytes ctx - length d)
          then (False, False, mark_failed (ctx\<lparr>qc_body_limit_exceeded := True\<rparr>), s)
          else
            if fin then (True, True, ctx\<lparr>qc_response_body := qc_response_body ctx @ d\<rparr>, s)
            else if d = [] then (True, False, ctx, s)
            else recv_body_loop xq (ctx\<lparr>qc_response_body := qc_response_body ctx @ d\<rparr>) s)"
  by pat_completeness auto
termination
  by (relation "measure (\<lambda>(xq, ctx, s). qc_max_response_body_bytes ctx - length (qc_response_body ctx))")
    (auto simp: neq_Nil_conv)

declare recv_body_loop.simps [simp del]

text \<open>The three stages of a read notification: \<open>False\<close> is \<open>XQC_ERROR\<close>.\<close>

definition read_body_stage :: "('s, 'w) xquic \<Rightarrow> quic_context \<Rightarrow> 's \<Rightarrow> bool \<times> quic_context \<times> 's" where
  "read_body_stage xq ctx s =
     (case recv_body_loop xq ctx s of
        (ok, body_fin, ctx, s) \<Rightarrow>
          if \<not> ok then (False, ctx, s)
          else if qc_failed ctx then (False, ctx, s)
          else (True, if body_fin then fin_received ctx else ctx, s))"

definition read_stages ::
  "'w quic_env \<Rightarrow> ('s, 'w) xquic \<Rightarrow> notify_flags \<Rightarrow> quic_context \<Rightarrow> 's \<Rightarrow> 'w
     \<Rightarrow> bool \<times> quic_context \<times> 's \<times> 'w" where
  "read_stages env xq flags ctx s w =
     (let (ok, ctx, s, w) = (if nf_header flags then consume_headers env xq True ctx s w else (True, ctx, s, w)) in
      if \<not> ok then (False, ctx, s, w)
      else let (ok, ctx, s) = (if nf_body flags then read_body_stage xq ctx s else (True, ctx, s)) in
      if \<not> ok then (False, ctx, s, w)
      else let (ok, ctx, s, w) = (if nf_trailer flags then consume_headers env xq False ctx s w else (True, ctx, s, w)) in
      if \<not> ok then (False, ctx, s, w)
      else (True, if nf_empty_fin flags then fin_received ctx else ctx, s, w))"

definition h3_request_read_notify_cb ::
  "'w quic_env \<Rightarrow> ('s, 'w) xquic \<Rightarrow> notify_flags \<Rightarrow> 's \<Rightarrow> ('s, 'w) quic_state \<Rightarrow> bool \<times> 's \<times> ('s, 'w) quic_state" where
  "h3_request_read_notify_cb env xq flags s st =
     (case live_request st of
        None \<Rightarrow> (True, s, st)
      | Some ctx \<Rightarrow>
          (case read_stages env xq flags ctx s (qs_world st) of
             (ok, ctx, s, w) \<Rightarrow> (ok, s, set_ctx ctx (st\<lparr>qs_world := w\<rparr>))))"

definition h3_request_write_notify_cb ::
  "('s, 'w) xquic \<Rightarrow> 's \<Rightarrow> ('s, 'w) quic_state \<Rightarrow> 's \<times> ('s, 'w) quic_state" where
  "h3_request_write_notify_cb xq s st = send_pending_body xq s st"

definition h3_request_closing_notify_cb :: "int \<Rightarrow> ('s, 'w) quic_state \<Rightarrow> ('s, 'w) quic_state" where
  "h3_request_closing_notify_cb err st = closed_early err st"

definition h3_request_close_notify_cb :: "int \<Rightarrow> ('s, 'w) quic_state \<Rightarrow> ('s, 'w) quic_state" where
  "h3_request_close_notify_cb stream_err st =
     (case live_request st of
        None \<Rightarrow> st
      | Some ctx \<Rightarrow>
          let ctx = ctx\<lparr>qc_stream_error := stream_err\<rparr> in
          set_ctx (if stream_err \<noteq> 0 \<or> \<not> qc_response_fin ctx \<or> \<not> qc_got_status ctx then mark_failed ctx
                   else complete_response_if_ready ctx) st)"

section \<open>A library call with its callbacks\<close>

text \<open>
  What the callbacks share: the environment, the certificate library, the configuration and XQUIC.
\<close>

record ('s, 'w) quic_setting =
  qx_env :: "'w quic_env"
  qx_x509 :: x509_lib
  qx_cfg :: engine_config
  qx_lib :: "('s, 'w) xquic"

primrec run_xq ::
  "('s, 'w) quic_setting \<Rightarrow> ('r, 's) xq_call \<Rightarrow> ('s, 'w) quic_state \<Rightarrow> ('r \<times> 's \<times> ('s, 'w) quic_state) option" where
  "run_xq x (XqReturn r s) = (\<lambda>st. Some (r, s, st))"
| "run_xq x (WriteSocket buf k) = (\<lambda>st.
     case write_socket_cb (qx_env x) buf st of None \<Rightarrow> None | Some (r, st) \<Rightarrow> run_xq x (k r) st)"
| "run_xq x (SetEventTimer wake_after k) = (\<lambda>st. run_xq x k (set_event_timer_cb wake_after st))"
| "run_xq x (CertVerify certs k) = (\<lambda>st.
     case cert_verify_cb (qx_x509 x) (qx_cfg x) certs st of (r, st) \<Rightarrow> run_xq x (k r) st)"
| "run_xq x (H3ConnCreate cid k) = (\<lambda>st. run_xq x k (h3_conn_create_notify_cb cid st))"
| "run_xq x (HandshakeFinished s k) = (\<lambda>st.
     case h3_conn_handshake_finished_cb (qx_env x) (qx_lib x) s st of (s, st) \<Rightarrow> run_xq x (k s) st)"
| "run_xq x (H3ConnClose err k) = (\<lambda>st. run_xq x k (h3_conn_close_notify_cb err st))"
| "run_xq x (ReadNotify flags s k) = (\<lambda>st.
     case h3_request_read_notify_cb (qx_env x) (qx_lib x) flags s st of (ok, s, st) \<Rightarrow> run_xq x (k ok s) st)"
| "run_xq x (WriteNotify s k) = (\<lambda>st.
     case h3_request_write_notify_cb (qx_lib x) s st of (s, st) \<Rightarrow> run_xq x (k s) st)"
| "run_xq x (ClosingNotify err k) = (\<lambda>st. run_xq x k (h3_request_closing_notify_cb err st))"
| "run_xq x (CloseNotify err k) = (\<lambda>st. run_xq x k (h3_request_close_notify_cb err st))"

text \<open>A call on the engine's own handle: the library's state is the engine's after it.\<close>

definition engine_call ::
  "('s, 'w) quic_setting \<Rightarrow> ('s \<Rightarrow> ('r, 's) xq_call) \<Rightarrow> 's \<Rightarrow> ('s, 'w) quic_state \<Rightarrow> ('r \<times> ('s, 'w) quic_state) option" where
  "engine_call x f s st =
     (case run_xq x (f s) st of None \<Rightarrow> None | Some (r, s, st) \<Rightarrow> Some (r, st\<lparr>qs_engine := Some s\<rparr>))"

section \<open>The handlers of the event loop\<close>

text \<open>
  The receive loop of the socket handler: whether any packet was processed. Each turn reads one
  datagram; the first one looks up the local address.
\<close>

partial_function (option) recv_loop ::
  "('s, 'w) quic_setting \<Rightarrow> bool \<Rightarrow> ('s, 'w) quic_state \<Rightarrow> (bool \<times> ('s, 'w) quic_state) option" where
  "recv_loop setting any st =
     (case (qs_cur st, qs_engine st) of
        (Some ctx, Some s) \<Rightarrow>
          (case qe_recvfrom (qx_env setting) (qc_sock_fd ctx) 65535 (qs_world st) of
             (RecvInterrupted, w) \<Rightarrow> recv_loop setting any (st\<lparr>qs_world := w\<rparr>)
           | (RecvWouldBlock, w) \<Rightarrow> Some (any, st\<lparr>qs_world := w\<rparr>)
           | (RecvFailed, w) \<Rightarrow> Some (any, set_ctx (mark_failed ctx) (st\<lparr>qs_world := w\<rparr>))
           | (Received d peer, w) \<Rightarrow>
               if d = [] then recv_loop setting any (st\<lparr>qs_world := w\<rparr>)
               else
                 (case (if qc_got_local ctx then (Some (qc_local_addr ctx), w)
                        else qe_getsockname (qx_env setting) (qc_sock_fd ctx) w) of
                    (None, w) \<Rightarrow> Some (any, set_ctx (mark_failed ctx) (st\<lparr>qs_world := w\<rparr>))
                  | (Some local, w) \<Rightarrow>
                      (case engine_call setting (xq_packet_process (qx_lib setting) d local peer) s
                              (set_ctx (ctx\<lparr>qc_local_addr := local, qc_got_local := True\<rparr>) (st\<lparr>qs_world := w\<rparr>)) of
                         None \<Rightarrow> None
                       | Some (_, st) \<Rightarrow> recv_loop setting True st)))
      | _ \<Rightarrow> Some (any, st))"

text \<open>A writable socket continues the blocked sending first: \<open>False\<close> ends the handler.\<close>

definition on_writable ::
  "('s, 'w) quic_setting \<Rightarrow> quic_context \<Rightarrow> 's \<Rightarrow> ('s, 'w) quic_state \<Rightarrow> (bool \<times> ('s, 'w) quic_state) option" where
  "on_writable x ctx s st =
     (let st = (set_ctx (ctx\<lparr>qc_waiting_writable := False\<rparr>) st)
            \<lparr>qs_loop := epoll_mod_fd (qc_sock_fd ctx) \<lparr>io_readable = True, io_writable = False\<rparr> (qs_loop st)\<rparr> in
      case engine_call x (xq_continue_send (qx_lib x) (qc_cid ctx)) s st of
        None \<Rightarrow> None
      | Some (True, st) \<Rightarrow> Some (True, st)
      | Some (False, st) \<Rightarrow> Some (False, st\<lparr>qs_cur := map_option mark_failed (qs_cur st)\<rparr>))"

definition on_readable :: "('s, 'w) quic_setting \<Rightarrow> ('s, 'w) quic_state \<Rightarrow> ('s, 'w) quic_state option" where
  "on_readable x st =
     (case recv_loop x False st of
        None \<Rightarrow> None
      | Some (any, st) \<Rightarrow>
          (case (live_request st, qs_engine st) of
             (Some ctx, Some s) \<Rightarrow>
               if any then map_option snd (engine_call x (xq_finish_recv (qx_lib x)) s st) else Some st
           | _ \<Rightarrow> Some st))"

definition on_socket :: "('s, 'w) quic_setting \<Rightarrow> io_events \<Rightarrow> ('s, 'w) quic_state \<Rightarrow> ('s, 'w) quic_state option" where
  "on_socket x events st =
     (case (live_request st, qs_engine st) of
        (Some ctx, Some s) \<Rightarrow>
          (case (if io_writable events then on_writable x ctx s st else Some (True, st)) of
             None \<Rightarrow> None
           | Some (go_on, st) \<Rightarrow>
               if \<not> go_on then Some st
               else if \<not> io_readable events then Some st
               else on_readable x st)
      | _ \<Rightarrow> Some st)"

definition on_timer :: "('s, 'w) quic_setting \<Rightarrow> nat \<Rightarrow> ('s, 'w) quic_state \<Rightarrow> ('s, 'w) quic_state option" where
  "on_timer x generation st =
     (case (live_request st, qs_engine st) of
        (Some ctx, Some s) \<Rightarrow>
          if qc_generation ctx = generation then map_option snd (engine_call x (xq_main_logic (qx_lib x)) s st)
          else Some st
      | _ \<Rightarrow> Some st)"

fun run_loop_cb ::
  "('s, 'w) quic_setting \<Rightarrow> loop_cb \<Rightarrow> io_events \<Rightarrow> ('s, 'w) quic_state \<Rightarrow> ('s, 'w) quic_state option" where
  "run_loop_cb x SocketReady events st = on_socket x events st"
| "run_loop_cb x (EngineTimer generation) events st = on_timer x generation st"

section \<open>The request\<close>

definition release_engine :: "('s, 'w) quic_setting \<Rightarrow> ('s, 'w) quic_state \<Rightarrow> ('s, 'w) quic_state option" where
  "release_engine x st =
     (case qs_engine st of
        None \<Rightarrow> Some st
      | Some s \<Rightarrow> map_option (\<lambda>(_, _, st). st) (run_xq x (xq_engine_destroy (qx_lib x) s) (st\<lparr>qs_engine := None\<rparr>)))"

text \<open>\<open>init_engine\<close>: whether the engine is ready.\<close>

definition init_engine :: "('s, 'w) quic_setting \<Rightarrow> ('s, 'w) quic_state \<Rightarrow> (bool \<times> ('s, 'w) quic_state) option" where
  "init_engine x st =
     (if qs_initialized st then Some (True, st)
      else
        let (ok, w) = xq_default_config (qx_lib x) (qs_world st) in
        if \<not> ok then Some (False, st\<lparr>qs_world := w\<rparr>)
        else
          let (engine, w) = xq_engine_create (qx_lib x) w; st = st\<lparr>qs_engine := engine, qs_world := w\<rparr> in
          (case engine of
             None \<Rightarrow> Some (False, st)
           | Some s \<Rightarrow>
               let (ok, s) = xq_h3_ctx_init (qx_lib x) s; st = st\<lparr>qs_engine := Some s\<rparr> in
               if ok then Some (True, st\<lparr>qs_initialized := True\<rparr>)
               else map_option (Pair False) (release_engine x st)))"

definition fail_early ::
  "('s, 'w) quic_setting \<Rightarrow> int \<Rightarrow> int \<Rightarrow> response \<Rightarrow> ('s, 'w) quic_state \<Rightarrow> int \<times> response \<times> ('s, 'w) quic_state" where
  "fail_early x start_ms err resp st =
     (let (ms, w) = elapsed_since (qx_env x) start_ms (qs_world st) in
      (err, resp\<lparr>resp_err_code := err, resp_total_ms := ms\<rparr>, st\<lparr>qs_world := w\<rparr>))"

text \<open>Resolution, socket and connect: the code of an early failure, or the socket and its peer.\<close>

definition open_socket ::
  "('s, 'w) quic_setting \<Rightarrow> request \<Rightarrow> response \<Rightarrow> 'w \<Rightarrow> (int + int \<times> string) \<times> response \<times> 'w" where
  "open_socket x req resp w =
     (let env = qx_env x;
          (dns_start, w) = ne_now env w;
          (addrs, w) = qe_getaddrinfo env (c_str (endpoint_of req)) (dec_digits (req_port req)) w in
      case addrs of
        [] \<Rightarrow> (Inl ASTERNET_ERR_DNS, resp, w)
      | addr # _ \<Rightarrow>
          let (dns_ms, w) = (if req_dns_ms req \<ge> 0 then (req_dns_ms req, w) else elapsed_since env dns_start w);
              resp = resp\<lparr>resp_dns_ms := dns_ms\<rparr>;
              (connect_start, w) = ne_now env w;
              (fd, w) = qe_udp_socket env addr w in
          if fd < 0 then (Inl ASTERNET_ERR_INTERNAL, resp, w)
          else let (ok, w) = qe_set_nonblock env fd w in
          if \<not> ok then (Inl ASTERNET_ERR_INTERNAL, resp, ne_close env fd w)
          else let (ok, w) = qe_connect env fd addr w in
          if \<not> ok then (Inl ASTERNET_ERR_CONNECT, resp, ne_close env fd w)
          else let (connect_ms, w) = elapsed_since env connect_start w in
            (Inr (fd, addr), resp\<lparr>resp_connect_ms := connect_ms\<rparr>, w))"

text \<open>The wait: \<open>True\<close> when the time is up.\<close>

definition poll_timeout_ms :: "int \<Rightarrow> int" where
  "poll_timeout_ms remaining_ms = (if remaining_ms > 100 then 100 else remaining_ms)"

partial_function (option) quic_wait ::
  "('s, 'w) quic_setting \<Rightarrow> int \<Rightarrow> int \<Rightarrow> ('s, 'w) quic_state \<Rightarrow> (bool \<times> ('s, 'w) quic_state) option" where
  "quic_wait setting start_ms timeout_ms st =
     (case qs_cur st of
        None \<Rightarrow> Some (False, st)
      | Some ctx \<Rightarrow>
          if qc_finished ctx \<or> qc_failed ctx then Some (False, st)
          else (case elapsed_since (qx_env setting) start_ms (qs_world st) of
              (elapsed_ms, w) \<Rightarrow>
                if elapsed_ms \<ge> timeout_ms then Some (True, st\<lparr>qs_world := w\<rparr>)
                else (case qe_epoll_wait (qx_env setting) (poll_timeout_ms (timeout_ms - elapsed_ms)) w of
                    (events, w) \<Rightarrow>
                      (case epoll_poll_once qs_loop qs_loop_update (run_loop_cb setting) events (st\<lparr>qs_world := w\<rparr>) of
                         None \<Rightarrow> None
                       | Some (_, st) \<Rightarrow> quic_wait setting start_ms timeout_ms st))))"

definition collect_stats :: "('s, 'w) xquic \<Rightarrow> 's \<Rightarrow> quic_context \<Rightarrow> quic_context" where
  "collect_stats xq s ctx =
     (let stats = xq_conn_get_stats xq (qc_cid ctx) s in
      ctx\<lparr>qc_conn_error := cs_conn_err stats,
          qc_packets := (cs_send_count stats, cs_recv_count stats, cs_lost_count stats),
          qc_srtt_us := cs_srtt stats,
          qc_stream_error := (if qc_stream_error ctx = 0 \<and> cs_conn_err stats \<noteq> 0 then cs_conn_err stats
                              else qc_stream_error ctx)\<rparr>)"

definition response_complete :: "quic_context \<Rightarrow> bool" where
  "response_complete ctx \<longleftrightarrow> qc_finished ctx \<and> qc_got_status ctx \<and> qc_response_fin ctx \<and> \<not> qc_failed ctx"

definition quic_result :: "bool \<Rightarrow> quic_context \<Rightarrow> response \<Rightarrow> int \<times> response" where
  "quic_result timed_out ctx resp =
     (if response_complete ctx
      then (ASTERNET_OK, resp\<lparr>resp_err_code := ASTERNET_OK, resp_body := qc_response_body ctx\<rparr>)
      else if qc_tls_failed ctx then (ASTERNET_ERR_TLS, resp\<lparr>resp_err_code := ASTERNET_ERR_TLS\<rparr>)
      else if qc_body_limit_exceeded ctx
      then (ASTERNET_ERR_BUFFER_TOO_SMALL,
            resp\<lparr>resp_err_code := ASTERNET_ERR_BUFFER_TOO_SMALL, resp_failure_stage := ''body''\<rparr>)
      else if timed_out then (ASTERNET_ERR_TIMEOUT, resp\<lparr>resp_err_code := ASTERNET_ERR_TIMEOUT\<rparr>)
      else (ASTERNET_ERR_PROTOCOL, resp\<lparr>resp_err_code := ASTERNET_ERR_PROTOCOL\<rparr>))"

text \<open>The result is collected, then the engine, the socket and the context are released.\<close>

definition conclude_request ::
  "('s, 'w) quic_setting \<Rightarrow> int \<Rightarrow> int \<Rightarrow> response \<Rightarrow> bool \<Rightarrow> quic_context \<Rightarrow> ('s, 'w) quic_state
     \<Rightarrow> (int \<times> response \<times> ('s, 'w) quic_state) option" where
  "conclude_request x start_ms fd resp timed_out ctx st =
     (let ctx = (case qs_engine st of None \<Rightarrow> ctx | Some s \<Rightarrow> collect_stats (qx_lib x) s ctx);
          (total_ms, w) = elapsed_since (qx_env x) start_ms (qs_world st);
          resp = resp\<lparr>resp_http_status := qc_http_status ctx, resp_tls_ms := qc_tls_ms ctx,
                      resp_ttfb_ms := qc_ttfb_ms ctx, resp_total_ms := total_ms\<rparr>;
          (ret, resp) = quic_result timed_out ctx resp;
          st = st\<lparr>qs_cur := Some (ctx\<lparr>qc_cleanup_started := True\<rparr>), qs_initialized := False, qs_world := w\<rparr> in
      map_option (\<lambda>st. (ret, resp,
          st\<lparr>qs_loop := epoll_remove_fd fd (qs_loop st), qs_world := ne_close (qx_env x) fd (qs_world st), qs_cur := None\<rparr>))
        (release_engine x st))"

definition effective_timeout_ms :: "request \<Rightarrow> int" where
  "effective_timeout_ms req = (if req_timeout_ms req > 0 then req_timeout_ms req else 15000)"

text \<open>
  From the connected socket on. (The engine has a handle here, and a request in flight keeps its
  context until it is concluded: the \<open>None\<close> branches for them are never taken.)
\<close>

definition quic_exchange ::
  "('s, 'w) quic_setting \<Rightarrow> request \<Rightarrow> int \<Rightarrow> int \<Rightarrow> string \<Rightarrow> response \<Rightarrow> 's \<Rightarrow> ('s, 'w) quic_state
     \<Rightarrow> (int \<times> response \<times> ('s, 'w) quic_state) option" where
  "quic_exchange x req start_ms fd addr resp s st =
     (let generation = qs_generation st + 1;
          ctx = new_context (qx_cfg x) req start_ms generation fd addr;
          (tls_start, w) = ne_now (qx_env x) (qs_world st);
          st = st\<lparr>qs_generation := generation, qs_cur := Some (ctx\<lparr>qc_tls_start_ms := tls_start\<rparr>),
                  qs_loop := epoll_add_fd fd \<lparr>io_readable = True, io_writable = False\<rparr> (Some SocketReady) (qs_loop st),
                  qs_world := w\<rparr> in
      case engine_call x (xq_h3_connect (qx_lib x) (\<not> allow_insecure (qx_cfg x)) (c_str (req_host req)) addr) s st of
        None \<Rightarrow> None
      | Some (None, st) \<Rightarrow>
          Some (fail_early x start_ms ASTERNET_ERR_CONNECT resp
            (st\<lparr>qs_loop := epoll_remove_fd fd (qs_loop st), qs_world := ne_close (qx_env x) fd (qs_world st), qs_cur := None\<rparr>))
      | Some (Some cid, st) \<Rightarrow>
          (case quic_wait x start_ms (effective_timeout_ms req)
                  (st\<lparr>qs_cur := map_option (\<lambda>ctx. ctx\<lparr>qc_cid := cid\<rparr>) (qs_cur st)\<rparr>) of
             None \<Rightarrow> None
           | Some (timed_out, st) \<Rightarrow>
               (case qs_cur st of
                  None \<Rightarrow> None
                | Some ctx \<Rightarrow> conclude_request x start_ms fd resp timed_out ctx st)))"

definition quic_request ::
  "('s, 'w) quic_setting \<Rightarrow> request \<Rightarrow> ('s, 'w) quic_state \<Rightarrow> (int \<times> response \<times> ('s, 'w) quic_state) option" where
  "quic_request x req st =
     (let (start_ms, w) = ne_now (qx_env x) (qs_world st);
          resp = default_response\<lparr>resp_protocol := PROTOCOL_HTTP_3, resp_dns_ms := req_dns_ms req\<rparr> in
      case init_engine x (st\<lparr>qs_world := w\<rparr>) of
        None \<Rightarrow> None
      | Some (ready, st) \<Rightarrow>
          if \<not> ready then Some (fail_early x start_ms ASTERNET_ERR_INTERNAL resp st)
          else (case open_socket x req resp (qs_world st) of
              (Inl err, resp, w) \<Rightarrow> Some (fail_early x start_ms err resp (st\<lparr>qs_world := w\<rparr>))
            | (Inr (fd, addr), resp, w) \<Rightarrow>
                (case qs_engine st of
                   None \<Rightarrow> None
                 | Some s \<Rightarrow> quic_exchange x req start_ms fd addr resp s (st\<lparr>qs_world := w\<rparr>))))"

definition quic_prefetch :: "string \<Rightarrow> int" where
  "quic_prefetch host = ASTERNET_ERR_UNSUPPORTED"

definition quic_migrate_connection :: "('s, 'w) quic_state \<Rightarrow> int \<times> ('s, 'w) quic_state" where
  "quic_migrate_connection st = (ASTERNET_ERR_UNSUPPORTED, st)"

text \<open>\<open>~QuicEngine\<close>; the handle is still set while the engine is destroyed.\<close>

definition quic_destroy :: "('s, 'w) quic_setting \<Rightarrow> ('s, 'w) quic_state \<Rightarrow> 'w option" where
  "quic_destroy x st =
     (let w = (case qs_cur st of None \<Rightarrow> qs_world st
                | Some ctx \<Rightarrow> if qc_sock_fd ctx \<ge> 0 then ne_close (qx_env x) (qc_sock_fd ctx) (qs_world st) else qs_world st)
      in case qs_engine st of
           None \<Rightarrow> Some w
         | Some s \<Rightarrow> map_option (\<lambda>(_, _, st). qs_world st) (run_xq x (xq_engine_destroy (qx_lib x) s) (st\<lparr>qs_world := w\<rparr>)))"

end
