(* ===== verification/Quic_Safety.thy ===== *)
theory Quic_Safety
  imports Quic_Engine
begin

text \<open>
  The QUIC engine under every behaviour of XQUIC, the network and the clock: an invariant of the
  request context and of the engine's state that each callback and each handler keeps, and what a
  request that returns has therefore done.
\<close>

section \<open>A request in flight\<close>

text \<open>
  What holds of the context from its creation to its end, whatever XQUIC calls back and in
  whatever order.
\<close>

definition ctx_ok :: "('s, 'w) quic_setting \<Rightarrow> request \<Rightarrow> int \<Rightarrow> nat \<Rightarrow> quic_context \<Rightarrow> bool" where
  "ctx_ok x req fd g ctx \<longleftrightarrow>
     qc_sock_fd ctx = fd \<and> qc_generation ctx = g \<and> qc_host ctx = req_host req
     \<and> qc_ca_cert_pem ctx = ca_bundle_of (qx_cfg x) req \<and> qc_body ctx = req_body req
     \<and> qc_max_response_body_bytes ctx = req_max_body req
     \<and> length (qc_response_body ctx) \<le> req_max_body req
     \<and> qc_request_body_sent ctx \<le> length (req_body req)
     \<and> (qc_finished ctx \<longrightarrow> qc_got_status ctx \<and> qc_response_fin ctx)
     \<and> (qc_got_status ctx \<longrightarrow> 100 \<le> qc_http_status ctx \<and> qc_http_status ctx \<le> 599)
     \<and> (qc_body_limit_exceeded ctx \<longrightarrow> qc_failed ctx)"

lemma new_context_ok: "ctx_ok x req fd g (new_context (qx_cfg x) req start_ms g fd addr)"
  by (simp add: ctx_ok_def new_context_def)

lemma ctx_ok_update:
  assumes "ctx_ok x req fd g ctx"
  shows "ctx_ok x req fd g (mark_failed ctx)" "ctx_ok x req fd g (ctx\<lparr>qc_waiting_writable := b\<rparr>)"
    "ctx_ok x req fd g (ctx\<lparr>qc_tls_failed := b\<rparr>)" "ctx_ok x req fd g (ctx\<lparr>qc_cid := n\<rparr>)"
    "ctx_ok x req fd g (ctx\<lparr>qc_tls_ms := i\<rparr>)" "ctx_ok x req fd g (ctx\<lparr>qc_h3_request := b\<rparr>)"
    "ctx_ok x req fd g (ctx\<lparr>qc_stream_error := i\<rparr>)"
    "ctx_ok x req fd g (ctx\<lparr>qc_local_addr := a, qc_got_local := b\<rparr>)"
    "ctx_ok x req fd g (ctx\<lparr>qc_tls_start_ms := i\<rparr>)" "ctx_ok x req fd g (ctx\<lparr>qc_ttfb_ms := i\<rparr>)"
    "ctx_ok x req fd g (ctx\<lparr>qc_cleanup_started := b\<rparr>)" "ctx_ok x req fd g (fin_received ctx)"
    "ctx_ok x req fd g (complete_response_if_ready ctx)" "ctx_ok x req fd g (collect_stats xq s ctx)"
    "ctx_ok x req fd g (mark_failed (ctx\<lparr>qc_body_limit_exceeded := b\<rparr>))"
  using assms unfolding ctx_ok_def mark_failed_def fin_received_def complete_response_if_ready_def collect_stats_def Let_def
  by auto

lemma send_body_loop_ok:
  "ctx_ok x req fd g ctx \<Longrightarrow> send_body_loop xq ctx s = (ctx', s') \<Longrightarrow> ctx_ok x req fd g ctx'"
proof (induction xq ctx s arbitrary: ctx' s' rule: send_body_loop.induct)
  case (1 xq ctx s)
  show ?case
  proof (cases "qc_request_body_sent ctx < length (qc_body ctx)")
    case False
    with 1(2,3) show ?thesis by (simp add: send_body_loop.simps)
  next
    case more: True
    obtain r s1 where r: "xq_send_body xq (drop (qc_request_body_sent ctx) (qc_body ctx)) s = (r, s1)"
      by (rule prod.exhaust)
    show ?thesis
    proof (cases r)
      case BodyAgain
      with 1(2,3) more r show ?thesis by (simp add: send_body_loop.simps)
    next
      case (BodyAccepted n)
      show ?thesis
      proof (cases "n \<le> 0 \<or> int (length (qc_body ctx) - qc_request_body_sent ctx) < n")
        case True
        with 1(2,3) more r BodyAccepted ctx_ok_update(1) show ?thesis by (subst (asm) send_body_loop.simps) auto
      next
        case False
        let ?ctx = "ctx\<lparr>qc_request_body_sent := qc_request_body_sent ctx + nat n\<rparr>"
        have "send_body_loop xq ?ctx s1 = (ctx', s')"
          using 1(3) more r BodyAccepted False by (subst (asm) send_body_loop.simps) simp
        moreover have "ctx_ok x req fd g ?ctx" using 1(2) False by (auto simp: ctx_ok_def)
        ultimately show ?thesis using 1(1) [OF more r [symmetric] BodyAccepted False] by blast
      qed
    qed
  qed
qed

lemma parse_http_status_range: "parse_http_status h = Some n \<Longrightarrow> 100 \<le> n \<and> n \<le> 599"
  by (auto simp: parse_http_status_def Let_def split: if_splits)

text \<open>A header block that is accepted leaves a status in range behind.\<close>

lemma scan_status_ok:
  "scan_status hs found ctx = (ok, ctx') \<Longrightarrow> ctx_ok x req fd g ctx
     \<Longrightarrow> (found \<Longrightarrow> 100 \<le> qc_http_status ctx \<and> qc_http_status ctx \<le> 599)
     \<Longrightarrow> ctx_ok x req fd g ctx' \<and> (ok \<longrightarrow> 100 \<le> qc_http_status ctx' \<and> qc_http_status ctx' \<le> 599)"
proof (induction hs found ctx rule: scan_status.induct)
  case (1 found ctx)
  then show ?case using ctx_ok_update(1) by (auto split: if_splits)
next
  case (2 h hs found ctx)
  show ?case
  proof (cases "fst h \<noteq> Some '':status'' \<or> found")
    case True
    with 2 ctx_ok_update(1) show ?thesis by (auto split: if_splits)
  next
    case False
    show ?thesis
    proof (cases "parse_http_status h")
      case None
      with False 2 ctx_ok_update(1) show ?thesis by auto
    next
      case (Some n)
      note range = parse_http_status_range [OF Some]
      have "ctx_ok x req fd g (ctx\<lparr>qc_http_status := n\<rparr>)" using 2(4) range by (simp add: ctx_ok_def)
      with False Some 2(2,3) range show ?thesis by simp
    qed
  qed
qed

lemma consume_headers_ok:
  assumes "ctx_ok x req fd g ctx" and "consume_headers env xq init ctx s w = (ok, ctx', s', w')"
  shows "ctx_ok x req fd g ctx'"
proof -
  obtain r s1 where r: "xq_recv_headers xq s = (r, s1)" by (rule prod.exhaust)
  show ?thesis
  proof (cases r)
    case None
    with assms r ctx_ok_update(1) show ?thesis by (auto simp: consume_headers_def)
  next
    case (Some hf)
    obtain headers fin where hf: "hf = (headers, fin)" by (rule prod.exhaust)
    obtain good ctx1 where scan: "(if init then scan_status headers False ctx else (True, ctx)) = (good, ctx1)"
      by (rule prod.exhaust)
    have ctx1: "ctx_ok x req fd g ctx1"
      "init \<Longrightarrow> good \<Longrightarrow> 100 \<le> qc_http_status ctx1 \<and> qc_http_status ctx1 \<le> 599"
      using scan assms(1) scan_status_ok [of headers False ctx good ctx1 x req fd g] by (auto split: if_splits)
    note run = assms(2) [unfolded consume_headers_def r Some hf prod.case option.case scan, unfolded Let_def prod.case]
    show ?thesis
    proof (cases "good \<and> init")
      case False
      with run ctx1 ctx_ok_update(12) show ?thesis by (auto split: if_splits)
    next
      case True
      have "ctx_ok x req fd g (ctx1\<lparr>qc_got_status := True\<rparr>)" using ctx1 True by (simp add: ctx_ok_def)
      from ctx_ok_update(10,12) [OF this] ctx_ok_update(12) [OF ctx_ok_update(10) [OF this]] this True run
      show ?thesis by (auto split: if_splits prod.splits)
    qed
  qed
qed

lemma recv_body_loop_ok:
  "ctx_ok x req fd g ctx \<Longrightarrow> recv_body_loop xq ctx s = (ok, fin, ctx', s') \<Longrightarrow> ctx_ok x req fd g ctx'"
proof (induction xq ctx s arbitrary: ok fin ctx' s' rule: recv_body_loop.induct)
  case (1 xq ctx s)
  obtain r s1 where r: "xq_recv_body xq 8192 s = (r, s1)" by (rule prod.exhaust)
  show ?case
  proof (cases r)
    case ReadAgain
    with 1(2,3) r show ?thesis by (subst (asm) recv_body_loop.simps) auto
  next
    case ReadFailed
    with 1(2,3) r ctx_ok_update(1) show ?thesis by (subst (asm) recv_body_loop.simps) auto
  next
    case (ReadData d last)
    let ?over = "d \<noteq> [] \<and> (length d > qc_max_response_body_bytes ctx
      \<or> length (qc_response_body ctx) > qc_max_response_body_bytes ctx - length d)"
    let ?ctx = "ctx\<lparr>qc_response_body := qc_response_body ctx @ d\<rparr>"
    note run = 1(3) [unfolded recv_body_loop.simps [of xq ctx] r ReadData prod.case body_read.case]
    show ?thesis
    proof (cases ?over)
      case True
      with run 1(2) ctx_ok_update(15) show ?thesis by auto
    next
      case fits: False
      note run = run [unfolded if_not_P [OF fits]]
      have ok1: "ctx_ok x req fd g ?ctx" using 1(2) fits by (auto simp: ctx_ok_def)
      show ?thesis
      proof (cases "last \<or> d = []")
        case True
        with run ok1 1(2) show ?thesis by (auto split: if_splits)
      next
        case False
        with run have "recv_body_loop xq ?ctx s1 = (ok, fin, ctx', s')" by simp
        with 1(1) [OF r [symmetric] ReadData fits] False ok1 show ?thesis by simp
      qed
    qed
  qed
qed

lemma read_body_stage_ok:
  assumes "ctx_ok x req fd g ctx" and "read_body_stage xq ctx s = (ok, ctx', s')"
  shows "ctx_ok x req fd g ctx'"
proof -
  obtain good fin ctx1 s1 where l: "recv_body_loop xq ctx s = (good, fin, ctx1, s1)" by (rule prod_cases4)
  from recv_body_loop_ok [OF assms(1) l] assms(2) l ctx_ok_update(12) show ?thesis
    by (auto simp: read_body_stage_def split: if_splits)
qed

lemma read_stages_ok:
  assumes "ctx_ok x req fd g ctx" and "read_stages env xq flags ctx s w = (ok, ctx', s', w')"
  shows "ctx_ok x req fd g ctx'"
proof -
  obtain ok1 ctx1 s1 w1 where 1: "(if nf_header flags then consume_headers env xq True ctx s w else (True, ctx, s, w))
    = (ok1, ctx1, s1, w1)" by (rule prod_cases4)
  have c1: "ctx_ok x req fd g ctx1" using 1 assms(1) consume_headers_ok by (auto split: if_splits)
  obtain ok2 ctx2 s2 where 2: "(if nf_body flags then read_body_stage xq ctx1 s1 else (True, ctx1, s1)) = (ok2, ctx2, s2)"
    by (rule prod_cases3)
  have c2: "ctx_ok x req fd g ctx2" using 2 c1 read_body_stage_ok by (auto split: if_splits)
  obtain ok3 ctx3 s3 w3 where 3: "(if nf_trailer flags then consume_headers env xq False ctx2 s2 w1 else (True, ctx2, s2, w1))
    = (ok3, ctx3, s3, w3)" by (rule prod_cases4)
  have c3: "ctx_ok x req fd g ctx3" using 3 c2 consume_headers_ok by (auto split: if_splits)
  note run = assms(2) [unfolded read_stages_def 1, unfolded Let_def prod.case 2, unfolded prod.case 3, unfolded prod.case]
  from run c1 c2 c3 ctx_ok_update(12) show ?thesis by (auto split: if_splits)
qed

section \<open>The state of the engine while a request is in flight\<close>

text \<open>
  \<open>L\<close> is a condition on the event loop and \<open>Q\<close> one on the world that the calls of the exchange keep.
\<close>

definition in_flight ::
  "('s, 'w) quic_setting \<Rightarrow> request \<Rightarrow> int \<Rightarrow> nat \<Rightarrow> (loop_cb event_loop \<Rightarrow> bool) \<Rightarrow> ('w \<Rightarrow> bool) \<Rightarrow> ('s, 'w) quic_state \<Rightarrow> bool" where
  "in_flight x req fd g L Q st \<longleftrightarrow>
     (\<exists>ctx. qs_cur st = Some ctx \<and> ctx_ok x req fd g ctx)
     \<and> L (qs_loop st) \<and> qs_generation st = g \<and> Q (qs_world st)"

lemma in_flightD:
  assumes "in_flight x req fd g L Q st"
  shows "L (qs_loop st)" "L (qs_loop st)" "qs_generation st = g" "Q (qs_world st)"
    "qs_cur st \<noteq> None" "qs_cur st = Some ctx \<Longrightarrow> ctx_ok x req fd g ctx" "live_request st = Some ctx \<Longrightarrow> ctx_ok x req fd g ctx"
  using assms by (auto simp: in_flight_def live_request_def split: if_splits)

text \<open>The four kinds of steps of the state.\<close>

lemma in_flight_step:
  assumes "in_flight x req fd g L Q st"
  shows "ctx_ok x req fd g ctx \<Longrightarrow> in_flight x req fd g L Q (set_ctx ctx st)"
    "Q w \<Longrightarrow> in_flight x req fd g L Q (st\<lparr>qs_world := w\<rparr>)"
    "in_flight x req fd g L Q (st\<lparr>qs_engine := e\<rparr>)" "in_flight x req fd g L Q (st\<lparr>qs_initialized := b\<rparr>)"
    "L l \<Longrightarrow> in_flight x req fd g L Q (st\<lparr>qs_loop := l\<rparr>)"
  using assms by (auto simp: in_flight_def)

definition loop_quiet :: "nat \<Rightarrow> (loop_cb event_loop \<Rightarrow> bool) \<Rightarrow> bool" where
  "loop_quiet g L \<longleftrightarrow>
     (\<forall>l. L l \<longrightarrow> (\<forall>fd events. L (epoll_mod_fd fd events l))
        \<and> (\<forall>d. L (epoll_schedule_timer d (Some (EngineTimer g)) l)) \<and> L (l\<lparr>el_timer_cb := None\<rparr>))"

lemma loop_quietD:
  assumes "loop_quiet g L" and "L l"
  shows "L (epoll_mod_fd fd events l)" "L (epoll_schedule_timer d (Some (EngineTimer g)) l)" "L (l\<lparr>el_timer_cb := None\<rparr>)"
  using assms unfolding loop_quiet_def by simp_all

definition quic_quiet :: "'w quic_env \<Rightarrow> ('w \<Rightarrow> bool) \<Rightarrow> bool" where
  "quic_quiet env Q \<longleftrightarrow>
     (\<forall>w. Q w \<longrightarrow> Q (snd (ne_now env w)) \<and> (\<forall>fd n. Q (snd (qe_recvfrom env fd n w)))
        \<and> (\<forall>fd. Q (snd (qe_getsockname env fd w))) \<and> (\<forall>fd buf. Q (snd (qe_send env fd buf w)))
        \<and> (\<forall>t. Q (snd (qe_epoll_wait env t w))))"

lemma quic_quietD:
  assumes "quic_quiet env Q" and "Q w"
  shows "ne_now env w = (i, w') \<Longrightarrow> Q w'" "qe_recvfrom env fd n w = (r, w') \<Longrightarrow> Q w'"
    "qe_getsockname env fd w = (a, w') \<Longrightarrow> Q w'" "qe_send env fd buf w = (u, w') \<Longrightarrow> Q w'"
    "qe_epoll_wait env t w = (es, w') \<Longrightarrow> Q w'"
  using assms unfolding quic_quiet_def by (metis snd_conv)+

lemma elapsed_quiet: "quic_quiet env Q \<Longrightarrow> Q w \<Longrightarrow> elapsed_since env t w = (ms, w') \<Longrightarrow> Q w'"
  using quic_quietD(1) by (fastforce simp: elapsed_since_def split: prod.splits)

lemma send_retry_quiet:
  assumes "send_retry env fd buf w = Some out"
  shows "quic_quiet env Q \<Longrightarrow> Q w \<Longrightarrow> Q (snd out)"
  using assms
proof (induct rule: send_retry.raw_induct [rotated, consumes 1])
  case (1 f env fd buf w out)
  obtain r w1 where s: "qe_send env fd buf w = (r, w1)" by (rule prod.exhaust)
  from 1(2) s 1(1) [OF _ 1(3)] quic_quietD(4) [OF 1(3,4) s] show ?case by (cases r) auto
qed

lemma consume_headers_quiet:
  assumes "quic_quiet env Q" and "Q w" and "consume_headers env xq init ctx s w = (ok, ctx', s', w')"
  shows "Q w'"
  using assms(3) assms(2) elapsed_quiet [OF assms(1,2)]
  unfolding consume_headers_def Let_def by (auto split: prod.splits option.splits if_splits)

lemma read_stages_quiet:
  assumes "quic_quiet env Q" and "Q w" and "read_stages env xq flags ctx s w = (ok, ctx', s', w')"
  shows "Q w'"
proof -
  obtain ok1 ctx1 s1 w1 where 1: "(if nf_header flags then consume_headers env xq True ctx s w else (True, ctx, s, w))
    = (ok1, ctx1, s1, w1)" by (rule prod_cases4)
  have c1: "Q w1" using 1 assms(2) consume_headers_quiet [OF assms(1,2)] by (auto split: if_splits)
  obtain ok2 ctx2 s2 where 2: "(if nf_body flags then read_body_stage xq ctx1 s1 else (True, ctx1, s1)) = (ok2, ctx2, s2)"
    by (rule prod_cases3)
  obtain ok3 ctx3 s3 w3 where 3: "(if nf_trailer flags then consume_headers env xq False ctx2 s2 w1 else (True, ctx2, s2, w1))
    = (ok3, ctx3, s3, w3)" by (rule prod_cases4)
  have c3: "Q w3" using 3 c1 consume_headers_quiet [OF assms(1) c1] by (auto split: if_splits)
  note run = assms(3) [unfolded read_stages_def 1, unfolded Let_def prod.case 2, unfolded prod.case 3, unfolded prod.case]
  from run c1 c3 show ?thesis by (auto split: if_splits)
qed

lemma write_socket_in_flight:
  assumes quiet: "quic_quiet (qx_env x) Q" and loop: "loop_quiet g L"
    and "in_flight x req fd g L Q st" and "write_socket_cb (qx_env x) buf st = Some (r, st')"
  shows "in_flight x req fd g L Q st'"
proof (cases "live_request st")
  case None
  with assms(3,4) show ?thesis by (simp add: write_socket_cb_def)
next
  case (Some ctx)
  note ok = in_flightD(7) [OF assms(3) Some]
  obtain out where s: "send_retry (qx_env x) (qc_sock_fd ctx) buf (qs_world st) = Some out"
    using assms(4) Some by (cases "send_retry (qx_env x) (qc_sock_fd ctx) buf (qs_world st)") (simp_all add: write_socket_cb_def)
  obtain u w where out: "out = (u, w)" by (rule prod.exhaust)
  have "Q w" using send_retry_quiet [OF s quiet in_flightD(4) [OF assms(3)]] out by simp
  note st1 = in_flight_step(2) [OF assms(3) this]
  note st2 = in_flight_step(1) [OF st1 ctx_ok_update(2) [OF ok, of True]]
  note st3 = in_flight_step(5) [OF st2 loop_quietD(1) [OF loop in_flightD(1) [OF assms(3)]]]
  from assms(4) Some s out st1 st3 show ?thesis
    by (auto simp: write_socket_cb_def Let_def split: udp_send.splits if_splits)
qed

lemma set_event_timer_in_flight:
  "loop_quiet g L \<Longrightarrow> in_flight x req fd g L Q st \<Longrightarrow> in_flight x req fd g L Q (set_event_timer_cb n st)"
  by (auto simp: set_event_timer_cb_def in_flight_def ctx_ok_def loop_quietD(2))

lemma cert_verify_in_flight:
  "in_flight x req fd g L Q st \<Longrightarrow> cert_verify_cb lib cfg certs st = (r, st') \<Longrightarrow> in_flight x req fd g L Q st'"
  by (auto simp: cert_verify_cb_def split: if_splits option.splits intro!: in_flight_step(1) ctx_ok_update(3) dest: in_flightD(6))

lemma closed_early_in_flight:
  "in_flight x req fd g L Q st \<Longrightarrow> in_flight x req fd g L Q (closed_early err st)"
  by (auto simp: closed_early_def split: option.splits intro!: in_flight_step(1) ctx_ok_update(1,7) dest: in_flightD(7))

lemma conn_create_in_flight:
  "in_flight x req fd g L Q st \<Longrightarrow> in_flight x req fd g L Q (h3_conn_create_notify_cb cid st)"
  by (auto simp: h3_conn_create_notify_cb_def split: option.splits intro!: in_flight_step(1) ctx_ok_update(4) dest: in_flightD(6))

lemma close_notify_in_flight:
  "in_flight x req fd g L Q st \<Longrightarrow> in_flight x req fd g L Q (h3_request_close_notify_cb err st)"
  by (auto simp: h3_request_close_notify_cb_def Let_def split: option.splits
    intro!: in_flight_step(1) ctx_ok_update(1,7,13) dest: in_flightD(7))

lemma send_pending_body_in_flight:
  assumes "in_flight x req fd g L Q st" and "send_pending_body xq s st = (s', st')"
  shows "in_flight x req fd g L Q st'"
proof (cases "live_request st")
  case None
  with assms show ?thesis by (simp add: send_pending_body_def)
next
  case (Some ctx)
  obtain ctx1 s1 where l: "send_body_loop xq ctx s = (ctx1, s1)" by (rule prod.exhaust)
  note ok = send_body_loop_ok [OF in_flightD(7) [OF assms(1) Some] l]
  from assms(2) Some l in_flight_step(1) [OF assms(1) ok] assms(1) show ?thesis
    by (auto simp: send_pending_body_def split: if_splits)
qed

lemma handshake_finished_in_flight:
  assumes quiet: "quic_quiet (qx_env x) Q"
    and st: "in_flight x req fd g L Q st" and run: "h3_conn_handshake_finished_cb (qx_env x) xq s st = (s', st')"
  shows "in_flight x req fd g L Q st'"
proof (cases "live_request st")
  case None
  with st run show ?thesis by (simp add: h3_conn_handshake_finished_cb_def)
next
  case (Some ctx)
  note ok = in_flightD(7) [OF st Some]
  note run = run [unfolded h3_conn_handshake_finished_cb_def Some option.case]
  show ?thesis
  proof (cases "qs_engine st = None")
    case True
    with run st show ?thesis by simp
  next
    case False
    note run = run [unfolded if_not_P [OF False]]
    let ?start = "if qc_tls_start_ms ctx > 0 then qc_tls_start_ms ctx else qc_start_ms ctx"
    obtain ctx1 w where t: "(if qc_tls_ms ctx < 0 then (let (ms, w) = elapsed_since (qx_env x) ?start (qs_world st)
        in (ctx\<lparr>qc_tls_ms := ms\<rparr>, w)) else (ctx, qs_world st)) = (ctx1, w)" by (rule prod.exhaust)
    have "Q w" using t in_flightD(4) [OF st] elapsed_quiet [OF quiet in_flightD(4) [OF st]]
      by (auto split: if_splits prod.splits)
    note st1 = in_flight_step(2) [OF st this]
    have ok1: "ctx_ok x req fd g ctx1" using t ok ctx_ok_update(5) [OF ok] by (auto split: if_splits prod.splits)
    note run = run [unfolded t, unfolded Let_def prod.case]
    note st2 = in_flight_step(1) [OF st1 ok1]
    obtain created s1 where c: "xq_request_create xq (qc_cid ctx1) s = (created, s1)" by (rule prod.exhaust)
    let ?ctx = "ctx1\<lparr>qc_h3_request := True\<rparr>"
    obtain sent s2 where h: "xq_send_headers xq (h3_request_headers ?ctx) (qc_body ?ctx = []) s1 = (sent, s2)" by (rule prod.exhaust)
    note okh = ctx_ok_update(6) [OF ok1, of True]
    note st3 = in_flight_step(1) [OF st2 okh]
    show ?thesis
    proof (cases "qc_h3_request ctx1 \<or> \<not> created \<or> \<not> sent")
      case True
      with run c h st2 in_flight_step(1) [OF st2 ctx_ok_update(1) [OF ok1]] in_flight_step(1) [OF st3 ctx_ok_update(1) [OF okh]]
      show ?thesis by (auto split: if_splits)
    next
      case False
      with run c h send_pending_body_in_flight [OF st3] st3 show ?thesis by (auto split: if_splits)
    qed
  qed
qed

lemma read_notify_in_flight:
  assumes quiet: "quic_quiet (qx_env x) Q" and st: "in_flight x req fd g L Q st"
    and run: "h3_request_read_notify_cb (qx_env x) xq flags s st = (ok, s', st')"
  shows "in_flight x req fd g L Q st'"
proof (cases "live_request st")
  case None
  with st run show ?thesis by (simp add: h3_request_read_notify_cb_def)
next
  case (Some ctx)
  obtain good ctx1 s1 w where r: "read_stages (qx_env x) xq flags ctx s (qs_world st) = (good, ctx1, s1, w)"
    by (rule prod_cases4)
  have "Q w" by (rule read_stages_quiet [OF quiet in_flightD(4) [OF st] r])
  from in_flight_step(1) [OF in_flight_step(2) [OF st this] read_stages_ok [OF in_flightD(7) [OF st Some] r]] run Some r
  show ?thesis by (simp add: h3_request_read_notify_cb_def)
qed

text \<open>So a library call keeps the request in flight, whatever it calls back.\<close>

lemma run_xq_in_flight:
  assumes quiet: "quic_quiet (qx_env x) Q" and loop: "loop_quiet g L"
  shows "run_xq x call st = Some (r, s, st') \<Longrightarrow> in_flight x req fd g L Q st \<Longrightarrow> in_flight x req fd g L Q st'"
proof (induction call arbitrary: st)
  case (WriteSocket buf k)
  then obtain v st1 where w: "write_socket_cb (qx_env x) buf st = Some (v, st1)" and go: "run_xq x (k v) st1 = Some (r, s, st')"
    by (auto split: option.splits)
  show ?case using WriteSocket.IH [OF _ go write_socket_in_flight [OF quiet loop WriteSocket.prems(2) w]] by simp
next
  case (CertVerify certs k)
  obtain v st1 where c: "cert_verify_cb (qx_x509 x) (qx_cfg x) certs st = (v, st1)" by (rule prod.exhaust)
  with CertVerify.prems(1) have go: "run_xq x (k v) st1 = Some (r, s, st')" by simp
  show ?case using CertVerify.IH [OF _ go cert_verify_in_flight [OF CertVerify.prems(2) c]] by simp
next
  case (HandshakeFinished s0 k)
  obtain s1 st1 where c: "h3_conn_handshake_finished_cb (qx_env x) (qx_lib x) s0 st = (s1, st1)" by (rule prod.exhaust)
  with HandshakeFinished.prems(1) have go: "run_xq x (k s1) st1 = Some (r, s, st')" by simp
  show ?case using HandshakeFinished.IH [OF _ go handshake_finished_in_flight [OF quiet HandshakeFinished.prems(2) c]] by simp
next
  case (ReadNotify flags s0 k)
  obtain ok s1 st1 where c: "h3_request_read_notify_cb (qx_env x) (qx_lib x) flags s0 st = (ok, s1, st1)"
    by (rule prod_cases3)
  with ReadNotify.prems(1) have go: "run_xq x (k ok s1) st1 = Some (r, s, st')" by simp
  have inf: "in_flight x req fd g L Q st1" by (rule read_notify_in_flight [OF quiet ReadNotify.prems(2) c])
  show ?case by (rule ReadNotify.IH [OF rangeI [of k ok] rangeI [of "k ok" s1] go inf])
next
  case (WriteNotify s0 k)
  obtain s1 st1 where c: "send_pending_body (qx_lib x) s0 st = (s1, st1)" by (rule prod.exhaust)
  with WriteNotify.prems(1) have go: "run_xq x (k s1) st1 = Some (r, s, st')" by (simp add: h3_request_write_notify_cb_def)
  show ?case using WriteNotify.IH [OF _ go send_pending_body_in_flight [OF WriteNotify.prems(2) c]] by simp
qed (simp_all add: set_event_timer_in_flight [OF loop] conn_create_in_flight h3_conn_close_notify_cb_def
    h3_request_closing_notify_cb_def closed_early_in_flight close_notify_in_flight)

lemma engine_call_in_flight:
  assumes "quic_quiet (qx_env x) Q" "loop_quiet g L"
    and "engine_call x f s st = Some (r, st')" and "in_flight x req fd g L Q st"
  shows "in_flight x req fd g L Q st'"
proof -
  obtain out where o: "run_xq x (f s) st = Some out"
    using assms(3) by (cases "run_xq x (f s) st") (simp_all add: engine_call_def)
  obtain r1 s1 st1 where out: "out = (r1, s1, st1)" by (rule prod_cases3)
  from run_xq_in_flight [OF assms(1,2) o [unfolded out] assms(4)] assms(3) o out in_flight_step(3) show ?thesis
    by (auto simp: engine_call_def)
qed

lemma recv_loop_in_flight:
  assumes "recv_loop x any st = Some out"
  shows "quic_quiet (qx_env x) Q \<Longrightarrow> loop_quiet g L \<Longrightarrow> in_flight x req fd g L Q st \<Longrightarrow> in_flight x req fd g L Q (snd out)"
  using assms
proof (induct rule: recv_loop.raw_induct [rotated, consumes 1])
  case (1 f x any st out)
  note quiet = 1(3) and loop = 1(4) and st = 1(5)
  obtain ctx where cur: "qs_cur st = Some ctx" using in_flightD(5) [OF st] by auto
  note ok = in_flightD(6) [OF st cur]
  show ?case
  proof (cases "qs_engine st")
    case None
    with 1(2) cur st show ?thesis by auto
  next
    case (Some s)
    obtain r w where r: "qe_recvfrom (qx_env x) (qc_sock_fd ctx) 65535 (qs_world st) = (r, w)" by (rule prod.exhaust)
    have w: "Q w" by (rule quic_quietD(2) [OF quiet in_flightD(4) [OF st] r])
    note st1 = in_flight_step(2) [OF st w]
    show ?thesis
    proof (cases r)
      case (Received d peer)
      show ?thesis
      proof (cases "d = []")
        case True
        with 1(2) cur Some r Received have "f x any (st\<lparr>qs_world := w\<rparr>) = Some out" by simp
        from 1(1) [OF this quiet loop st1] show ?thesis .
      next
        case False
        obtain a w1 where a: "(if qc_got_local ctx then (Some (qc_local_addr ctx), w)
            else qe_getsockname (qx_env x) (qc_sock_fd ctx) w) = (a, w1)" by (rule prod.exhaust)
        have "Q w1" using a w quic_quietD(3) [OF quiet w] by (auto split: if_splits)
        note st2 = in_flight_step(2) [OF st this]
        show ?thesis
        proof (cases a)
          case None
          with 1(2) cur Some r Received False a in_flight_step(1) [OF st2 ctx_ok_update(1) [OF ok]] show ?thesis by auto
        next
          case (Some local)
          let ?st = "set_ctx (ctx\<lparr>qc_local_addr := local, qc_got_local := True\<rparr>) (st\<lparr>qs_world := w1\<rparr>)"
          note run = 1(2) [unfolded cur \<open>qs_engine st = Some s\<close> prod.case option.case r Received udp_recv.case
            if_not_P [OF False] a Some]
          obtain u where e: "engine_call x (xq_packet_process (qx_lib x) d local peer) s ?st = Some u"
            using run by (cases "engine_call x (xq_packet_process (qx_lib x) d local peer) s ?st") simp_all
          obtain v st3 where u: "u = (v, st3)" by (rule prod.exhaust)
          have "in_flight x req fd g L Q st3"
            by (rule engine_call_in_flight [OF quiet loop e [unfolded u] in_flight_step(1) [OF st2 ctx_ok_update(8) [OF ok]]])
          moreover have "f x True st3 = Some out" using run e u by simp
          ultimately show ?thesis using 1(1) [OF _ quiet loop] by blast
        qed
      qed
    next
      case RecvInterrupted
      with 1(2) cur Some r have "f x any (st\<lparr>qs_world := w\<rparr>) = Some out" by simp
      from 1(1) [OF this quiet loop st1] show ?thesis .
    qed (use 1(2) cur Some r st1 in_flight_step(1) [OF st1 ctx_ok_update(1) [OF ok]] in \<open>auto\<close>)
  qed
qed

lemma on_writable_in_flight:
  assumes quiet: "quic_quiet (qx_env x) Q" and loop: "loop_quiet g L" and st: "in_flight x req fd g L Q st"
    and cur: "qs_cur st = Some ctx" and run: "on_writable x ctx s st = Some (b, st')"
  shows "in_flight x req fd g L Q st'"
proof -
  let ?st = "(set_ctx (ctx\<lparr>qc_waiting_writable := False\<rparr>) st)
    \<lparr>qs_loop := epoll_mod_fd (qc_sock_fd ctx) \<lparr>io_readable = True, io_writable = False\<rparr> (qs_loop st)\<rparr>"
  have st1: "in_flight x req fd g L Q ?st"
    by (rule in_flight_step(5) [OF in_flight_step(1) [OF st ctx_ok_update(2) [OF in_flightD(6) [OF st cur]]]
          loop_quietD(1) [OF loop in_flightD(1) [OF st]]])
  note run = run [unfolded on_writable_def Let_def]
  obtain u where e: "engine_call x (xq_continue_send (qx_lib x) (qc_cid ctx)) s ?st = Some u"
    using run by (cases "engine_call x (xq_continue_send (qx_lib x) (qc_cid ctx)) s ?st") simp_all
  obtain v st3 where u: "u = (v, st3)" by (rule prod.exhaust)
  have st3: "in_flight x req fd g L Q st3" by (rule engine_call_in_flight [OF quiet loop e [unfolded u] st1])
  obtain ctx3 where c3: "qs_cur st3 = Some ctx3" using in_flightD(5) [OF st3] by auto
  from run e u st3 in_flight_step(1) [OF st3 ctx_ok_update(1) [OF in_flightD(6) [OF st3 c3]]] c3 show ?thesis
    by (auto split: bool.splits)
qed

lemma on_readable_in_flight:
  assumes quiet: "quic_quiet (qx_env x) Q" and loop: "loop_quiet g L" and st: "in_flight x req fd g L Q st"
    and run: "on_readable x st = Some st'"
  shows "in_flight x req fd g L Q st'"
proof -
  obtain u where r: "recv_loop x False st = Some u" using run by (cases "recv_loop x False st") (simp_all add: on_readable_def)
  obtain any st1 where u: "u = (any, st1)" by (rule prod.exhaust)
  have st1: "in_flight x req fd g L Q st1" using recv_loop_in_flight [OF r quiet loop st] u by simp
  note run = run [unfolded on_readable_def r u option.case prod.case]
  show ?thesis
  proof (cases "any \<and> live_request st1 \<noteq> None \<and> qs_engine st1 \<noteq> None")
    case True
    then obtain ctx s where "live_request st1 = Some ctx" "qs_engine st1 = Some s" any by auto
    with run have "map_option snd (engine_call x (xq_finish_recv (qx_lib x)) s st1) = Some st'" by simp
    then obtain v where "engine_call x (xq_finish_recv (qx_lib x)) s st1 = Some (v, st')" by auto
    from engine_call_in_flight [OF quiet loop this st1] show ?thesis .
  next
    case False
    with run st1 show ?thesis by (auto split: option.splits if_splits)
  qed
qed

lemma on_socket_in_flight:
  assumes quiet: "quic_quiet (qx_env x) Q" and loop: "loop_quiet g L" and st: "in_flight x req fd g L Q st"
    and run: "on_socket x events st = Some st'"
  shows "in_flight x req fd g L Q st'"
proof (cases "live_request st = None \<or> qs_engine st = None")
  case True
  with run st show ?thesis by (auto simp: on_socket_def split: option.splits)
next
  case False
  then obtain ctx s where live: "live_request st = Some ctx" and eng: "qs_engine st = Some s" by auto
  then have cur: "qs_cur st = Some ctx" by (auto simp: live_request_def split: option.splits if_splits)
  note run = run [unfolded on_socket_def live eng prod.case option.case]
  let ?first = "if io_writable events then on_writable x ctx s st else Some (True, st)"
  obtain u where w: "?first = Some u" using run by (cases ?first) simp_all
  obtain go st1 where u: "u = (go, st1)" by (rule prod.exhaust)
  have st1: "in_flight x req fd g L Q st1"
    using w u st on_writable_in_flight [OF quiet loop st cur, of s go st1] by (auto split: if_splits)
  from run w u st1 on_readable_in_flight [OF quiet loop st1] show ?thesis by (auto split: if_splits)
qed

lemma on_timer_in_flight:
  assumes quiet: "quic_quiet (qx_env x) Q" and loop: "loop_quiet g L" and st: "in_flight x req fd g L Q st"
    and run: "on_timer x h st = Some st'"
  shows "in_flight x req fd g L Q st'"
proof (cases "\<exists>ctx s. live_request st = Some ctx \<and> qs_engine st = Some s \<and> qc_generation ctx = h")
  case True
  then obtain ctx s where "live_request st = Some ctx" "qs_engine st = Some s" "qc_generation ctx = h" by blast
  with run have "map_option snd (engine_call x (xq_main_logic (qx_lib x)) s st) = Some st'" by (simp add: on_timer_def)
  then obtain v where "engine_call x (xq_main_logic (qx_lib x)) s st = Some (v, st')" by auto
  from engine_call_in_flight [OF quiet loop this st] show ?thesis .
next
  case False
  with run st show ?thesis by (auto simp: on_timer_def split: option.splits if_splits)
qed

lemma poll_in_flight:
  assumes quiet: "quic_quiet (qx_env x) Q" and loop: "loop_quiet g L" and st: "in_flight x req fd g L Q st"
    and run: "epoll_poll_once qs_loop qs_loop_update (run_loop_cb x) events st = Some (b, st')"
  shows "in_flight x req fd g L Q st'"
proof (rule epoll_poll_once_keeps [where P = "in_flight x req fd g L Q", OF run st])
  fix cb ev st st'
  assume "run_loop_cb x cb ev st = Some st'" and "in_flight x req fd g L Q st"
  then show "in_flight x req fd g L Q st'"
    by (cases cb) (auto intro: on_socket_in_flight [OF quiet loop] on_timer_in_flight [OF quiet loop])
next
  fix st
  assume "in_flight x req fd g L Q st"
  then show "in_flight x req fd g L Q (qs_loop_update (\<lambda>l. l\<lparr>el_timer_cb := None\<rparr>) st)"
    using loop_quietD(3) [OF loop] by (auto simp: in_flight_def)
qed

lemma quic_wait_in_flight:
  assumes "quic_wait x start timeout st = Some out"
  shows "quic_quiet (qx_env x) Q \<Longrightarrow> loop_quiet g L \<Longrightarrow> in_flight x req fd g L Q st \<Longrightarrow> in_flight x req fd g L Q (snd out)"
  using assms
proof (induct rule: quic_wait.raw_induct [rotated, consumes 1])
  case (1 f x start timeout st out)
  note quiet = 1(3) and loop = 1(4) and st = 1(5)
  obtain ctx where cur: "qs_cur st = Some ctx" using in_flightD(5) [OF st] by auto
  obtain ms w where t: "elapsed_since (qx_env x) start (qs_world st) = (ms, w)" by (rule prod.exhaust)
  have w: "Q w" by (rule elapsed_quiet [OF quiet in_flightD(4) [OF st] t])
  show ?case
  proof (cases "qc_finished ctx \<or> qc_failed ctx \<or> timeout \<le> ms")
    case True
    with 1(2) cur t st in_flight_step(2) [OF st w] show ?thesis by (auto split: if_splits)
  next
    case False
    obtain events w1 where p: "qe_epoll_wait (qx_env x) (poll_timeout_ms (timeout - ms)) w = (events, w1)" by (rule prod.exhaust)
    note st1 = in_flight_step(2) [OF st quic_quietD(5) [OF quiet w p]]
    let ?poll = "epoll_poll_once qs_loop qs_loop_update (run_loop_cb x) events (st\<lparr>qs_world := w1\<rparr>)"
    obtain u where e: "?poll = Some u" using 1(2) cur t False p by (cases ?poll) auto
    obtain b st2 where u: "u = (b, st2)" by (rule prod.exhaust)
    note st2 = poll_in_flight [OF quiet loop st1 e [unfolded u]]
    have "f x start timeout st2 = Some out" using 1(2) cur t False p e u by simp
    from 1(1) [OF this quiet loop st2] show ?thesis .
  qed
qed

section \<open>What a request that returns has done\<close>

lemma release_engine_in_flight:
  assumes "quic_quiet (qx_env x) Q" "loop_quiet g L" and "release_engine x st = Some st'" and "in_flight x req fd g L Q st"
  shows "in_flight x req fd g L Q st'"
proof (cases "qs_engine st")
  case None
  with assms(3,4) show ?thesis by (simp add: release_engine_def)
next
  case (Some s)
  then obtain r s1 where "run_xq x (xq_engine_destroy (qx_lib x) s) (st\<lparr>qs_engine := None\<rparr>) = Some (r, s1, st')"
    using assms(3) by (auto simp: release_engine_def)
  from run_xq_in_flight [OF assms(1,2) this in_flight_step(3) [OF assms(4)]] show ?thesis .
qed

lemma quic_result_facts:
  assumes "quic_result timed_out ctx resp = (ret, resp')"
  shows "resp_err_code resp' = ret" "resp_protocol resp' = resp_protocol resp" "resp_http_status resp' = resp_http_status resp"
    "ret = ASTERNET_OK \<Longrightarrow> response_complete ctx \<and> resp_body resp' = qc_response_body ctx"
  using assms by (auto simp: quic_result_def split: if_splits)

lemma fail_early_facts:
  assumes "fail_early x start err resp st = (ret, resp', st')" and "quic_quiet (qx_env x) Q" and "Q (qs_world st)"
  shows "ret = err" "resp_err_code resp' = err" "resp_protocol resp' = resp_protocol resp" "qs_cur st' = qs_cur st"
    "qs_loop st' = qs_loop st" "qs_generation st' = qs_generation st" "Q (qs_world st')"
  using assms elapsed_quiet by (fastforce simp: fail_early_def split: prod.splits)+

lemma conclude_facts:
  assumes quiet: "quic_quiet (qx_env x) Q" and loop: "loop_quiet g L" and st: "in_flight x req fd g L Q st"
    and cur: "qs_cur st = Some ctx"
    and run: "conclude_request x start fd resp timed_out ctx st = Some (ret, resp', st')"
  shows "resp_err_code resp' = ret" "resp_protocol resp' = resp_protocol resp"
    "ret = ASTERNET_OK \<Longrightarrow> 100 \<le> resp_http_status resp' \<and> resp_http_status resp' \<le> 599 \<and> length (resp_body resp') \<le> req_max_body req"
    "qs_cur st' = None" "qs_generation st' = g" "\<exists>l. L l \<and> qs_loop st' = epoll_remove_fd fd l"
    "\<exists>w. Q w \<and> qs_world st' = ne_close (qx_env x) fd w"
proof -
  let ?ctx = "case qs_engine st of None \<Rightarrow> ctx | Some s \<Rightarrow> collect_stats (qx_lib x) s ctx"
  have ok: "ctx_ok x req fd g ?ctx"
    using in_flightD(6) [OF st cur] ctx_ok_update(14) by (auto split: option.splits)
  obtain total w where t: "elapsed_since (qx_env x) start (qs_world st) = (total, w)" by (rule prod.exhaust)
  let ?resp = "resp\<lparr>resp_http_status := qc_http_status ?ctx, resp_tls_ms := qc_tls_ms ?ctx,
    resp_ttfb_ms := qc_ttfb_ms ?ctx, resp_total_ms := total\<rparr>"
  obtain ret1 resp1 where r: "quic_result timed_out ?ctx ?resp = (ret1, resp1)" by (rule prod.exhaust)
  let ?st = "st\<lparr>qs_cur := Some (?ctx\<lparr>qc_cleanup_started := True\<rparr>), qs_initialized := False, qs_world := w\<rparr>"
  have "in_flight x req fd g L Q (set_ctx (?ctx\<lparr>qc_cleanup_started := True\<rparr>) st)"
    by (rule in_flight_step(1) [OF st ctx_ok_update(11) [OF ok]])
  from in_flight_step(2) [OF in_flight_step(4) [OF this] elapsed_quiet [OF quiet in_flightD(4) [OF st] t]]
  have st1: "in_flight x req fd g L Q ?st" by simp
  note run = run [unfolded conclude_request_def Let_def t prod.case r]
  obtain st2 where rel: "release_engine x ?st = Some st2" using run by (cases "release_engine x ?st") simp_all
  note st2 = release_engine_in_flight [OF quiet loop rel st1]
  have out: "ret = ret1" "resp' = resp1"
    "st' = st2\<lparr>qs_loop := epoll_remove_fd fd (qs_loop st2), qs_world := ne_close (qx_env x) fd (qs_world st2), qs_cur := None\<rparr>"
    using run rel by simp_all
  note facts = quic_result_facts [OF r]
  show "resp_err_code resp' = ret" "resp_protocol resp' = resp_protocol resp" using facts out by simp_all
  show "100 \<le> resp_http_status resp' \<and> resp_http_status resp' \<le> 599 \<and> length (resp_body resp') \<le> req_max_body req"
    if "ret = ASTERNET_OK"
    using facts(3,4) out that ok unfolding response_complete_def ctx_ok_def by simp
  show "qs_cur st' = None" "qs_generation st' = g" "\<exists>l. L l \<and> qs_loop st' = epoll_remove_fd fd l"
    "\<exists>w. Q w \<and> qs_world st' = ne_close (qx_env x) fd w"
    using out in_flightD(1,3,4) [OF st2] by auto
qed

lemma exchange_facts:
  assumes quiet: "quic_quiet (qx_env x) Q" and loop: "loop_quiet (qs_generation st + 1) L"
    and l: "L (epoll_add_fd fd \<lparr>io_readable = True, io_writable = False\<rparr> (Some SocketReady) (qs_loop st))" and w: "Q (qs_world st)"
    and closed: "\<And>w. Q w \<Longrightarrow> Q' (ne_close (qx_env x) fd w)" and quiet': "quic_quiet (qx_env x) Q'"
    and run: "quic_exchange x req start fd addr resp s st = Some (ret, resp', st')"
  shows "resp_err_code resp' = ret" "resp_protocol resp' = resp_protocol resp"
    "ret = ASTERNET_OK \<Longrightarrow> 100 \<le> resp_http_status resp' \<and> resp_http_status resp' \<le> 599 \<and> length (resp_body resp') \<le> req_max_body req"
    "qs_cur st' = None" "qs_generation st' = qs_generation st + 1" "\<exists>l. L l \<and> qs_loop st' = epoll_remove_fd fd l" "Q' (qs_world st')"
proof -
  let ?g = "qs_generation st + 1"
  let ?ctx = "new_context (qx_cfg x) req start ?g fd addr"
  obtain t0 w0 where now: "ne_now (qx_env x) (qs_world st) = (t0, w0)" by (rule prod.exhaust)
  let ?st = "st\<lparr>qs_generation := ?g, qs_cur := Some (?ctx\<lparr>qc_tls_start_ms := t0\<rparr>),
    qs_loop := epoll_add_fd fd \<lparr>io_readable = True, io_writable = False\<rparr> (Some SocketReady) (qs_loop st), qs_world := w0\<rparr>"
  have st1: "in_flight x req fd ?g L Q ?st"
    using ctx_ok_update(9) [OF new_context_ok] l quic_quietD(1) [OF quiet w now] by (auto simp: in_flight_def)
  note run = run [unfolded quic_exchange_def Let_def now prod.case]
  let ?connect = "engine_call x (xq_h3_connect (qx_lib x) (\<not> allow_insecure (qx_cfg x)) (c_str (req_host req)) addr) s ?st"
  obtain u where c: "?connect = Some u" using run by (cases ?connect) simp_all
  obtain cid st2 where u: "u = (cid, st2)" by (rule prod.exhaust)
  note st2 = engine_call_in_flight [OF quiet loop c [unfolded u] st1]
  note run = run [unfolded c u option.case prod.case]
  have "resp_err_code resp' = ret \<and> resp_protocol resp' = resp_protocol resp
    \<and> (ret = ASTERNET_OK \<longrightarrow> 100 \<le> resp_http_status resp' \<and> resp_http_status resp' \<le> 599 \<and> length (resp_body resp') \<le> req_max_body req)
    \<and> qs_cur st' = None \<and> qs_generation st' = ?g \<and> (\<exists>l. L l \<and> qs_loop st' = epoll_remove_fd fd l) \<and> Q' (qs_world st')"
  proof (cases cid)
    case None
    let ?st2 = "st2\<lparr>qs_loop := epoll_remove_fd fd (qs_loop st2), qs_world := ne_close (qx_env x) fd (qs_world st2), qs_cur := None\<rparr>"
    have "fail_early x start ASTERNET_ERR_CONNECT resp ?st2 = (ret, resp', st')" using run None by simp
    note f = fail_early_facts [OF this quiet']
    have "Q' (qs_world ?st2)" using closed [OF in_flightD(4) [OF st2]] by simp
    from f [OF this] in_flightD(1,3) [OF st2] show ?thesis by auto
  next
    case (Some n)
    let ?st2 = "st2\<lparr>qs_cur := map_option (\<lambda>ctx. ctx\<lparr>qc_cid := n\<rparr>) (qs_cur st2)\<rparr>"
    obtain ctx2 where c2: "qs_cur st2 = Some ctx2" using in_flightD(5) [OF st2] by auto
    have st3: "in_flight x req fd ?g L Q ?st2"
      using in_flight_step(1) [OF st2 ctx_ok_update(4) [OF in_flightD(6) [OF st2 c2]], of n] c2 by simp
    note run = run [unfolded Some option.case]
    let ?wait = "quic_wait x start (effective_timeout_ms req) ?st2"
    obtain v where wt: "?wait = Some v" using run by (cases ?wait) simp_all
    obtain timed_out st4 where v: "v = (timed_out, st4)" by (rule prod.exhaust)
    have st4: "in_flight x req fd ?g L Q st4" using quic_wait_in_flight [OF wt quiet loop st3] v by simp
    obtain ctx4 where c4: "qs_cur st4 = Some ctx4" using in_flightD(5) [OF st4] by auto
    note run = run [unfolded wt v option.case prod.case c4]
    note f = conclude_facts [OF quiet loop st4 c4 run]
    from f(7) closed have "Q' (qs_world st')" by auto
    with f(1-6) show ?thesis by blast
  qed
  then show "resp_err_code resp' = ret" "resp_protocol resp' = resp_protocol resp"
    "ret = ASTERNET_OK \<Longrightarrow> 100 \<le> resp_http_status resp' \<and> resp_http_status resp' \<le> 599 \<and> length (resp_body resp') \<le> req_max_body req"
    "qs_cur st' = None" "qs_generation st' = ?g" "\<exists>l. L l \<and> qs_loop st' = epoll_remove_fd fd l" "Q' (qs_world st')" by auto
qed

text \<open>A request fails before it has a socket, or its exchange runs.\<close>

lemma quic_request_cases:
  assumes "quic_request x req st = Some out"
  obtains (early) start err resp st1 where "err \<noteq> ASTERNET_OK" "resp_protocol resp = PROTOCOL_HTTP_3"
      "out = fail_early x start err resp st1"
      "\<exists>w b st0. ne_now (qx_env x) (qs_world st) = (start, w) \<and> init_engine x (st\<lparr>qs_world := w\<rparr>) = Some (b, st0)
        \<and> (st1 = st0 \<or> (\<exists>resp0 e w1. open_socket x req resp0 (qs_world st0) = (Inl e, resp, w1) \<and> st1 = st0\<lparr>qs_world := w1\<rparr>))"
  | (exchange) start w b st0 resp0 fd addr resp w1 s where "ne_now (qx_env x) (qs_world st) = (start, w)"
      "init_engine x (st\<lparr>qs_world := w\<rparr>) = Some (b, st0)" "open_socket x req resp0 (qs_world st0) = (Inr (fd, addr), resp, w1)"
      "resp_protocol resp = PROTOCOL_HTTP_3"
      "quic_exchange x req start fd addr resp s (st0\<lparr>qs_world := w1\<rparr>) = Some out"
proof -
  let ?resp = "default_response\<lparr>resp_protocol := PROTOCOL_HTTP_3, resp_dns_ms := req_dns_ms req\<rparr>"
  obtain start w where now: "ne_now (qx_env x) (qs_world st) = (start, w)" by (rule prod.exhaust)
  note run = assms [unfolded quic_request_def Let_def now prod.case]
  obtain u where i: "init_engine x (st\<lparr>qs_world := w\<rparr>) = Some u"
    using run by (cases "init_engine x (st\<lparr>qs_world := w\<rparr>)") simp_all
  obtain ready st0 where u: "u = (ready, st0)" by (rule prod.exhaust)
  note run = run [unfolded i u option.case prod.case]
  show thesis
  proof (cases ready)
    case False
    with run have "out = fail_early x start ASTERNET_ERR_INTERNAL ?resp st0" by simp
    with now i u show thesis by (intro early [of ASTERNET_ERR_INTERNAL ?resp start st0]) auto
  next
    case True
    obtain r resp w1 where o: "open_socket x req ?resp (qs_world st0) = (r, resp, w1)" by (rule prod_cases3)
    note run = run [unfolded o prod.case]
    have proto: "resp_protocol resp = PROTOCOL_HTTP_3"
      using o by (auto simp: open_socket_def Let_def split: prod.splits list.splits if_splits)
    show thesis
    proof (cases r)
      case (Inl err)
      have "err \<noteq> ASTERNET_OK"
        using o Inl by (auto simp: open_socket_def Let_def split: prod.splits list.splits if_splits)
      with run True Inl proto now i u o show thesis
        by (intro early [of err resp start "st0\<lparr>qs_world := w1\<rparr>"]) auto
    next
      case (Inr sock)
      obtain fd addr where sock: "sock = (fd, addr)" by (rule prod.exhaust)
      obtain s where "qs_engine st0 = Some s" using run True Inr sock by (cases "qs_engine st0") auto
      with run True Inr sock now i u o proto show thesis by (intro exchange) auto
    qed
  qed
qed

text \<open>No condition on the loop or the world at all.\<close>

lemma quiet_True: "quic_quiet env (\<lambda>_. True)" "loop_quiet g (\<lambda>_. True)"
  by (simp_all add: quic_quiet_def loop_quiet_def)

lemma quic_outcome:
  assumes "quic_request x req st = Some (ret, resp, st')"
  shows "resp_err_code resp = ret \<and> resp_protocol resp = PROTOCOL_HTTP_3
    \<and> (ret = ASTERNET_OK \<longrightarrow> 100 \<le> resp_http_status resp \<and> resp_http_status resp \<le> 599
        \<and> length (resp_body resp) \<le> req_max_body req)"
  using assms
proof (cases rule: quic_request_cases)
  case (early start err resp1 st1)
  from fail_early_facts(1-3) [OF early(3) [symmetric] quiet_True(1) TrueI] early(1,2) show ?thesis by simp
next
  case (exchange start w b st0 resp0 fd addr resp1 w1 s)
  from exchange_facts(1-3) [OF quiet_True TrueI TrueI TrueI quiet_True(1) exchange(5)] exchange(4) show ?thesis by auto
qed

text \<open>The engine keeps the contract of the engines.\<close>

interpretation http3: network_engine PROTOCOL_HTTP_3 "quic_request x"
  by unfold_locales (use quic_outcome in blast)

section \<open>A concrete exchange\<close>

text \<open>
  A network that connects, and a library that completes the handshake and delivers a header block
  with the given \<open>:status\<close> and the end of the stream while it connects. The world counts the open
  sockets.
\<close>

definition demo_quic_env :: "nat quic_env" where
  "demo_quic_env =
     \<lparr>ne_now = (\<lambda>w. (5, w)), ne_getaddrinfo = (\<lambda>_ _ w. ([], w)), ne_socket = (\<lambda>_ w. (-1, w)), ne_close = (\<lambda>_ w. w - 1),
      ne_ctx_new = (\<lambda>w. (True, w)), ne_load_ca = (\<lambda>_ w. (True, w)), ne_default_paths = (\<lambda>w. (True, w)),
      ne_ctx_free = (\<lambda>w. w), ne_ssl_new = (\<lambda>w. (True, w)), ne_ssl_free = (\<lambda>w. w), ne_set_sni = (\<lambda>_ w. (True, w)),
      ne_set1_host = (\<lambda>_ w. (True, w)),
      qe_getaddrinfo = (\<lambda>_ _ w. ([''peer''], w)), qe_udp_socket = (\<lambda>_ w. (7, w + 1)), qe_set_nonblock = (\<lambda>_ w. (True, w)),
      qe_connect = (\<lambda>_ _ w. (True, w)), qe_recvfrom = (\<lambda>_ _ w. (RecvWouldBlock, w)), qe_getsockname = (\<lambda>_ w. (None, w)),
      qe_send = (\<lambda>_ d w. (SentBytes (length d), w)), qe_epoll_wait = (\<lambda>_ w. ([], w))\<rparr>"

definition demo_xquic :: "string \<Rightarrow> (unit, nat) xquic" where
  "demo_xquic status =
     \<lparr>xq_default_config = (\<lambda>w. (True, w)), xq_engine_create = (\<lambda>w. (Some (), w)), xq_h3_ctx_init = (\<lambda>s. (True, s)),
      xq_h3_connect = (\<lambda>_ _ _ s. SetEventTimer 1500 (WriteSocket ''initial'' (\<lambda>_. HandshakeFinished s (\<lambda>s.
          ReadNotify \<lparr>nf_header = True, nf_body = False, nf_trailer = False, nf_empty_fin = False\<rparr> s
            (\<lambda>_ s. XqReturn (Some 1) s))))),
      xq_packet_process = (\<lambda>_ _ _ s. XqReturn () s), xq_finish_recv = XqReturn (), xq_main_logic = XqReturn (),
      xq_continue_send = (\<lambda>_ s. XqReturn True s),
      xq_conn_get_stats = (\<lambda>_ _. \<lparr>cs_conn_err = 0, cs_send_count = 1, cs_recv_count = 1, cs_lost_count = 0, cs_srtt = 9\<rparr>),
      xq_engine_destroy = (\<lambda>s. H3ConnClose 0 (XqReturn () s)),
      xq_request_create = (\<lambda>_ s. (True, s)), xq_send_headers = (\<lambda>_ _ s. (True, s)),
      xq_send_body = (\<lambda>d s. (BodyAccepted (int (length d)), s)),
      xq_recv_headers = (\<lambda>s. (Some ([(Some '':status'', status)], True), s)),
      xq_recv_body = (\<lambda>_ s. (ReadAgain, s))\<rparr>"

definition demo_quic :: "string \<Rightarrow> (unit, nat) quic_setting" where
  "demo_quic status =
     \<lparr>qx_env = demo_quic_env,
      qx_x509 = \<lparr>xl_ctx_new = True, xl_bio_ok = (\<lambda>_. True), xl_pem_blocks = (\<lambda>_. []), xl_store_add = (\<lambda>_. True),
                 xl_default_paths = True, xl_stack_new = True, xl_parse_der = (\<lambda>_. True), xl_stack_push = (\<lambda>_. True),
                 xl_store_ctx = (\<lambda>_ _. True), xl_verify = (\<lambda>_ host leaf _. host = leaf)\<rparr>,
      qx_cfg = \<lparr>ec_allow_insecure_tls_for_testing = False, ec_ca_cert_pem = [], ec_testing_build = False\<rparr>,
      qx_lib = demo_xquic status\<rparr>"

definition demo_quic_state :: "(unit, nat) quic_state" where
  "demo_quic_state =
     \<lparr>qs_loop = \<lparr>el_timer_fd = 4, el_cbs = Map.empty, el_timer_cb = None, el_calls = []\<rparr>, qs_engine = None,
      qs_initialized = False, qs_cur = None, qs_generation = 0, qs_world = 0\<rparr>"

lemma demo_quic_run:
  "\<exists>resp st. quic_request (demo_quic ''204'') default_request demo_quic_state = Some (ASTERNET_OK, resp, st)
    \<and> resp_http_status resp = 204 \<and> el_timer_cb (qs_loop st) = Some (EngineTimer 1)"
proof -
  have status: "parse_http_status (Some '':status'', ''204'') = Some 204"
    by (simp add: parse_http_status_def dec_value_def char_eval)
  show ?thesis
    by (simp add: quic_request_def init_engine_def open_socket_def quic_exchange_def conclude_request_def engine_call_def
        release_engine_def demo_quic_def demo_quic_env_def demo_xquic_def demo_quic_state_def default_request_def
        set_event_timer_cb_def write_socket_cb_def live_request_def new_context_def send_retry.simps
        h3_conn_handshake_finished_cb_def elapsed_since_def h3_request_read_notify_cb_def read_stages_def
        consume_headers_def status fin_received_def complete_response_if_ready_def quic_wait.simps
        collect_stats_def quic_result_def response_complete_def h3_conn_close_notify_cb_def closed_early_def
        epoll_add_fd_def epoll_schedule_timer_def epoll_remove_fd_def)
qed

text \<open>
  Property C11. A QUIC request that returns reports the code it stores in the response, and a
  success has a status from 100 to 599 and a body within the limit of the request, whatever XQUIC calls
  back, in whatever order, and whatever arrives.
\<close>

theorem quic_success_sound:
  assumes "quic_request x req st = Some (ret, resp, st')"
  shows "resp_err_code resp = ret \<and> resp_protocol resp = PROTOCOL_HTTP_3
    \<and> (ret = ASTERNET_OK \<longrightarrow> 100 \<le> resp_http_status resp \<and> resp_http_status resp \<le> 599
        \<and> length (resp_body resp) \<le> req_max_body req)"
  by (rule quic_outcome [OF assms])

theorem quic_success_sound_witness:
  "\<exists>resp st. quic_request (demo_quic ''204'') default_request demo_quic_state = Some (ASTERNET_OK, resp, st)
    \<and> resp_err_code resp = ASTERNET_OK \<and> resp_http_status resp \<le> 599"
  using demo_quic_run quic_success_sound by blast

section \<open>Resources\<close>

text \<open>\<open>I n\<close> says that \<open>n\<close> sockets are open.\<close>

definition quic_discipline :: "('s, 'w) quic_setting \<Rightarrow> (string \<Rightarrow> bool) \<Rightarrow> (nat \<Rightarrow> 'w \<Rightarrow> bool) \<Rightarrow> bool" where
  "quic_discipline x may I \<longleftrightarrow>
     (\<forall>n. quic_quiet (qx_env x) (I n)) \<and> lookups_within may (qe_getaddrinfo (qx_env x))
     \<and> (\<forall>n w. I n w \<longrightarrow>
          (\<forall>h p. I n (snd (qe_getaddrinfo (qx_env x) h p w))) \<and> (\<forall>fd. I n (snd (qe_set_nonblock (qx_env x) fd w)))
          \<and> (\<forall>fd a. may a \<longrightarrow> I n (snd (qe_connect (qx_env x) fd a w)))
          \<and> (\<forall>a. I (if fst (qe_udp_socket (qx_env x) a w) < 0 then n else Suc n) (snd (qe_udp_socket (qx_env x) a w)))
          \<and> I n (snd (xq_default_config (qx_lib x) w)) \<and> I n (snd (xq_engine_create (qx_lib x) w)))
     \<and> (\<forall>n w fd. I (Suc n) w \<longrightarrow> I n (ne_close (qx_env x) fd w))"

lemma quic_disciplineD:
  assumes "quic_discipline x may I"
  shows "quic_quiet (qx_env x) (I n)" "I (Suc n) w \<Longrightarrow> I n (ne_close (qx_env x) fd w)"
    and "I n w \<Longrightarrow> qe_getaddrinfo (qx_env x) h p w = (as, w') \<Longrightarrow> I n w'"
    "I n w \<Longrightarrow> qe_set_nonblock (qx_env x) fd w = (b, w') \<Longrightarrow> I n w'"
    "may a \<Longrightarrow> I n w \<Longrightarrow> qe_connect (qx_env x) fd a w = (b, w') \<Longrightarrow> I n w'"
    "I n w \<Longrightarrow> qe_udp_socket (qx_env x) a w = (f, w') \<Longrightarrow> I (if f < 0 then n else Suc n) w'"
    "I n w \<Longrightarrow> xq_default_config (qx_lib x) w = (b, w') \<Longrightarrow> I n w'"
    "I n w \<Longrightarrow> xq_engine_create (qx_lib x) w = (e, w') \<Longrightarrow> I n w'"
    "lookups_within may (qe_getaddrinfo (qx_env x))"
  using assms unfolding quic_discipline_def by (metis fst_conv snd_conv)+

text \<open>With no request at hand, the callbacks do nothing.\<close>

lemma live_request_idle [simp]: "qs_cur st = None \<Longrightarrow> live_request st = None"
  by (simp add: live_request_def)

lemma run_xq_idle: "run_xq x call st = Some (r, s, st') \<Longrightarrow> qs_cur st = None \<Longrightarrow> st' = st"
proof (induction call arbitrary: st)
  case (CertVerify certs k)
  then show ?case by (auto simp: cert_verify_cb_def split: if_splits)
next
  case (ReadNotify flags s0 k)
  then have "run_xq x (k True s0) st = Some (r, s, st')" by (simp add: h3_request_read_notify_cb_def)
  then show ?case by (rule ReadNotify.IH [OF rangeI [of k True] rangeI [of "k True" s0] _ ReadNotify.prems(2)])
qed (auto simp: write_socket_cb_def set_event_timer_cb_def h3_conn_create_notify_cb_def h3_conn_handshake_finished_cb_def
    h3_conn_close_notify_cb_def closed_early_def h3_request_write_notify_cb_def send_pending_body_def
    h3_request_closing_notify_cb_def h3_request_close_notify_cb_def split: option.splits)

lemma init_engine_idle:
  assumes disc: "quic_discipline x may I" and idle: "qs_cur st = None" and w: "I n (qs_world st)"
    and run: "init_engine x st = Some (b, st')"
  shows "qs_cur st' = None \<and> qs_loop st' = qs_loop st \<and> qs_generation st' = qs_generation st \<and> I n (qs_world st')"
proof (cases "qs_initialized st")
  case True
  with run idle w show ?thesis by (simp add: init_engine_def)
next
  case False
  note d = quic_disciplineD [OF disc]
  obtain ok w1 where c: "xq_default_config (qx_lib x) (qs_world st) = (ok, w1)" by (rule prod.exhaust)
  note w1 = d(7) [OF w c]
  obtain e w2 where e: "xq_engine_create (qx_lib x) w1 = (e, w2)" by (rule prod.exhaust)
  note w2 = d(8) [OF w1 e]
  note run = run [unfolded init_engine_def if_not_P [OF False] c Let_def prod.case e]
  show ?thesis
  proof (cases "ok \<and> e \<noteq> None")
    case False
    with run idle w1 w2 show ?thesis by (auto split: if_splits)
  next
    case True
    then obtain s where s: "e = Some s" by auto
    obtain good s1 where h: "xq_h3_ctx_init (qx_lib x) s = (good, s1)" by (rule prod.exhaust)
    show ?thesis
    proof (cases good)
      case True
      with run \<open>ok \<and> e \<noteq> None\<close> s h idle w2 show ?thesis by auto
    next
      case False
      with run \<open>ok \<and> e \<noteq> None\<close> s h have "release_engine x (st\<lparr>qs_world := w2, qs_engine := Some s1\<rparr>) = Some st'"
        by auto
      then obtain r s2 where "run_xq x (xq_engine_destroy (qx_lib x) s1) (st\<lparr>qs_world := w2, qs_engine := None\<rparr>) = Some (r, s2, st')"
        by (auto simp: release_engine_def)
      from run_xq_idle [OF this] idle w2 show ?thesis by simp
    qed
  qed
qed

lemma open_socket_sockets:
  assumes disc: "quic_discipline x may I" and w: "I n w" and may: "may (c_str (endpoint_of req))"
    and run: "open_socket x req resp w = (r, resp', w')"
  shows "case r of Inl e \<Rightarrow> I n w' | Inr _ \<Rightarrow> I (Suc n) w'"
proof -
  note d = quic_disciplineD [OF disc] and q = quic_quietD [OF quic_disciplineD(1) [OF disc]]
  obtain t1 w1 where 1: "ne_now (qx_env x) w = (t1, w1)" by (rule prod.exhaust)
  note h1 = q(1) [OF w 1]
  obtain as w2 where 2: "qe_getaddrinfo (qx_env x) (c_str (endpoint_of req)) (dec_digits (req_port req)) w1 = (as, w2)"
    by (rule prod.exhaust)
  note h2 = d(3) [OF h1 2] and within = lookups_withinD [OF d(9) may 2]
  note run = run [unfolded open_socket_def Let_def 1 prod.case 2]
  show ?thesis
  proof (cases as)
    case Nil
    with run h2 show ?thesis by auto
  next
    case (Cons a rest)
    let ?dns = "if req_dns_ms req \<ge> 0 then (req_dns_ms req, w2) else elapsed_since (qx_env x) t1 w2"
    obtain t3 w3 where 3: "?dns = (t3, w3)" by (rule prod.exhaust)
    have h3: "I n w3" using 3 h2 elapsed_quiet [OF d(1) h2] by (auto split: if_splits)
    obtain t4 w4 where 4: "ne_now (qx_env x) w3 = (t4, w4)" by (rule prod.exhaust)
    note h4 = q(1) [OF h3 4]
    obtain fd w5 where 5: "qe_udp_socket (qx_env x) a w4 = (fd, w5)" by (rule prod.exhaust)
    note h5 = d(6) [OF h4 5]
    note run = run [unfolded Cons list.case 3 prod.case 4 5]
    show ?thesis
    proof (cases "fd < 0")
      case True
      with run h5 show ?thesis by auto
    next
      case False
      then have h5: "I (Suc n) w5" using h5 by simp
      obtain ok w6 where 6: "qe_set_nonblock (qx_env x) fd w5 = (ok, w6)" by (rule prod.exhaust)
      note h6 = d(4) [OF h5 6]
      obtain ok2 w7 where 7: "qe_connect (qx_env x) fd a w6 = (ok2, w7)" by (rule prod.exhaust)
      have "may a" using within Cons by simp
      note h7 = d(5) [OF this h6 7]
      obtain t8 w8 where 8: "elapsed_since (qx_env x) t4 w7 = (t8, w8)" by (rule prod.exhaust)
      note h8 = elapsed_quiet [OF d(1) h7 8]
      from run False 6 7 8 d(2) [OF h6] d(2) [OF h7] h8 show ?thesis by (auto split: if_splits)
    qed
  qed
qed

text \<open>No timer of a later request is armed.\<close>

definition timers_past :: "('s, 'w) quic_state \<Rightarrow> bool" where
  "timers_past st \<longleftrightarrow> (\<forall>h. el_timer_cb (qs_loop st) = Some (EngineTimer h) \<longrightarrow> h \<le> qs_generation st)"

definition exchange_loop :: "(int \<rightharpoonup> loop_cb) \<Rightarrow> int \<Rightarrow> nat \<Rightarrow> loop_cb event_loop \<Rightarrow> bool" where
  "exchange_loop m fd g l \<longleftrightarrow>
     callable l = m(fd \<mapsto> SocketReady) \<and> (\<forall>h. el_timer_cb l = Some (EngineTimer h) \<longrightarrow> h \<le> g)"

lemma exchange_loop_quiet: "loop_quiet g (exchange_loop m fd g)"
  by (auto simp: loop_quiet_def exchange_loop_def epoll.modify epoll.schedule) (simp_all add: callable_def fun_eq_iff)

lemma quic_releases_lemma:
  assumes disc: "quic_discipline x may I" and idle: "qs_cur st = None" and w: "I n (qs_world st)" and past: "timers_past st"
    and may: "may (c_str (endpoint_of req))" and run: "quic_request x req st = Some (ret, resp, st')"
  shows "I n (qs_world st') \<and> qs_cur st' = None \<and> callable (qs_loop st') \<subseteq>\<^sub>m callable (qs_loop st) \<and> timers_past st'"
  using run
proof (cases rule: quic_request_cases)
  case (early start err resp1 st1)
  from early(4) obtain v b st0 where now: "ne_now (qx_env x) (qs_world st) = (start, v)"
    and init: "init_engine x (st\<lparr>qs_world := v\<rparr>) = Some (b, st0)"
    and st1: "st1 = st0 \<or> (\<exists>resp0 e w1. open_socket x req resp0 (qs_world st0) = (Inl e, resp1, w1) \<and> st1 = st0\<lparr>qs_world := w1\<rparr>)"
    by blast
  have v: "I n v" by (rule quic_quietD(1) [OF quic_disciplineD(1) [OF disc] w now])
  have i: "qs_cur st0 = None \<and> qs_loop st0 = qs_loop st \<and> qs_generation st0 = qs_generation st \<and> I n (qs_world st0)"
    using init_engine_idle [OF disc _ _ init, of n] idle v by simp
  have "I n (qs_world st1)" using st1 i open_socket_sockets [OF disc, of n "qs_world st0" req _ "Inl _"] may by fastforce
  from fail_early_facts(4-7) [OF early(3) [symmetric] quic_disciplineD(1) [OF disc] this] st1 i past
  show ?thesis by (auto simp: timers_past_def)
next
  case (exchange start v b st0 resp0 fd addr resp1 w1 s)
  have v: "I n v" by (rule quic_quietD(1) [OF quic_disciplineD(1) [OF disc] w exchange(1)])
  have i: "qs_cur st0 = None" "qs_loop st0 = qs_loop st" "qs_generation st0 = qs_generation st" "I n (qs_world st0)"
    using init_engine_idle [OF disc _ _ exchange(2), of n] idle v by simp_all
  have w1: "I (Suc n) w1" using open_socket_sockets [OF disc i(4) may exchange(3)] by simp
  let ?st = "st0\<lparr>qs_world := w1\<rparr>"
  let ?L = "exchange_loop (callable (qs_loop st)) fd (qs_generation st + 1)"
  have l: "?L (epoll_add_fd fd \<lparr>io_readable = True, io_writable = False\<rparr> (Some SocketReady) (qs_loop ?st))"
    using past i by (auto simp: exchange_loop_def epoll.add timers_past_def dest: le_SucI)
  note f = exchange_facts [where L = ?L and Q = "I (Suc n)" and Q' = "I n",
      OF quic_disciplineD(1) [OF disc] _ l _ quic_disciplineD(2) [OF disc] quic_disciplineD(1) [OF disc] exchange(5)]
  have q: "loop_quiet (qs_generation ?st + 1) ?L" using exchange_loop_quiet i by simp
  have w1': "I (Suc n) (qs_world ?st)" using w1 by simp
  note f = f [OF q w1']
  obtain l where "?L l" "qs_loop st' = epoll_remove_fd fd l" using f(6) by blast
  then have "callable (qs_loop st') \<subseteq>\<^sub>m callable (qs_loop st)"
    and "\<forall>h. el_timer_cb (qs_loop st') = Some (EngineTimer h) \<longrightarrow> h \<le> qs_generation st + 1"
    by (auto simp: exchange_loop_def epoll.remove map_le_def)
  with f(4,5,7) i show ?thesis by (simp add: timers_past_def)
qed

text \<open>
  Property C12. A QUIC request that returns has released what it took: the number of open sockets is
  what it was, no request context is left, the event loop calls nothing it did not call before, and
  every timer still armed belongs to this or an earlier request. So the next request, whose
  generation is higher, is never driven by a left-over timer. Its socket was connected only to an
  address that the request's endpoint stands for.
\<close>

theorem quic_releases:
  assumes "quic_discipline x may I" and "qs_cur st = None" and "I n (qs_world st)" and "timers_past st"
    and "may (c_str (endpoint_of req))" and "quic_request x req st = Some (ret, resp, st')"
  shows "I n (qs_world st') \<and> qs_cur st' = None \<and> callable (qs_loop st') \<subseteq>\<^sub>m callable (qs_loop st) \<and> timers_past st'"
  by (rule quic_releases_lemma [OF assms])

lemma demo_quic_discipline: "quic_discipline (demo_quic status) (\<lambda>_. True) (\<lambda>n w. w = n)"
  by (simp add: quic_discipline_def lookups_within_def quic_quiet_def demo_quic_def demo_quic_env_def demo_xquic_def)

theorem quic_releases_witness:
  "\<exists>resp st. quic_request (demo_quic ''204'') default_request demo_quic_state = Some (ASTERNET_OK, resp, st)
    \<and> qs_world st = 0 \<and> qs_cur st = None"
proof -
  obtain resp st where run: "quic_request (demo_quic ''204'') default_request demo_quic_state = Some (ASTERNET_OK, resp, st)"
    using demo_quic_run by blast
  from quic_releases [OF demo_quic_discipline _ _ _ _ run, of 0] run show ?thesis
    by (simp add: demo_quic_state_def timers_past_def)
qed



end
