(* ===== verification/Quic_Returns.thy ===== *)
theory Quic_Returns
  imports Quic_Safety
begin

text \<open>
  A QUIC request returns: the wait ends by the clock, the sending and the receiving loop end because
  the network interrupts and delivers only so often, and every call of XQUIC makes finitely many
  callbacks.
\<close>

section \<open>Time and traffic\<close>

text \<open>
  \<open>T\<close> is the true time in ticks, \<open>K\<close> of them to a millisecond; \<open>left\<close> bounds the datagrams that will
  still be delivered and the calls that will still be interrupted. No call turns back the time or brings
  back traffic, and a wait takes at least a tick.
\<close>

definition later :: "('w \<Rightarrow> nat) \<Rightarrow> ('w \<Rightarrow> nat) \<Rightarrow> 'w \<Rightarrow> 'w \<Rightarrow> bool" where
  "later T left u w \<longleftrightarrow> T u \<le> T w \<and> left w \<le> left u"

definition quic_ticking :: "'w quic_env \<Rightarrow> ('w \<Rightarrow> nat) \<Rightarrow> nat \<Rightarrow> ('w \<Rightarrow> nat) \<Rightarrow> bool" where
  "quic_ticking env T K left \<longleftrightarrow>
     0 < K \<and> (\<forall>w. fst (ne_now env w) = int (T w div K)) \<and> (\<forall>u. quic_quiet env (later T left u))
     \<and> (\<forall>t w. T w < T (snd (qe_epoll_wait env t w)))
     \<and> (\<forall>fd buf w. fst (qe_send env fd buf w) = SendInterrupted \<longrightarrow> left (snd (qe_send env fd buf w)) < left w)
     \<and> (\<forall>fd n w. fst (qe_recvfrom env fd n w) \<notin> {RecvWouldBlock, RecvFailed}
          \<longrightarrow> left (snd (qe_recvfrom env fd n w)) < left w)"

lemma quic_tickingD:
  assumes "quic_ticking env T K left"
  shows "0 < K" "ne_now env w = (t, w') \<Longrightarrow> t = int (T w div K)" "quic_quiet env (later T left u)"
    "qe_epoll_wait env ms w = (es, w') \<Longrightarrow> T w < T w'" "qe_send env fd buf w = (SendInterrupted, w') \<Longrightarrow> left w' < left w"
    "qe_recvfrom env fd n w = (r, w') \<Longrightarrow> r \<noteq> RecvWouldBlock \<Longrightarrow> r \<noteq> RecvFailed \<Longrightarrow> left w' < left w"
  using assms unfolding quic_ticking_def by (metis fst_conv snd_conv, metis fst_conv snd_conv, metis fst_conv snd_conv,
    metis fst_conv snd_conv, metis fst_conv snd_conv, metis fst_conv snd_conv empty_iff insert_iff)

lemma later_refl: "later T left w w"
  by (simp add: later_def)

section \<open>A call of the library\<close>

lemma send_retry_returns:
  assumes tick: "quic_ticking env T K left"
  shows "send_retry env fd buf w \<noteq> None"
proof (induction "left w" arbitrary: w rule: less_induct)
  case less
  obtain r w1 where s: "qe_send env fd buf w = (r, w1)" by (rule prod.exhaust)
  have "send_retry env fd buf w1 \<noteq> None" if "r = SendInterrupted"
    by (rule less) (rule quic_tickingD(5) [OF tick s [unfolded that]])
  with s show ?case by (subst send_retry.simps) (cases r; simp)
qed

lemma write_socket_returns:
  assumes "quic_ticking env T K left"
  shows "write_socket_cb env buf st \<noteq> None"
  using send_retry_returns [OF assms]
  by (auto simp: write_socket_cb_def Let_def simp del: not_None_eq split: option.splits udp_send.splits)

lemma run_xq_returns:
  assumes tick: "quic_ticking (qx_env x) T K left"
  shows "run_xq x call st \<noteq> None"
proof (induction call arbitrary: st)
  case (WriteSocket buf k)
  then show ?case using write_socket_returns [OF tick, of buf st] by (auto simp del: not_None_eq split: option.splits)
next
  case (ReadNotify flags s k)
  obtain ok s1 st1 where c: "h3_request_read_notify_cb (qx_env x) (qx_lib x) flags s st = (ok, s1, st1)" by (rule prod_cases3)
  from ReadNotify.IH [OF rangeI [of k ok] rangeI [of "k ok" s1]] c show ?case by simp
qed (auto simp del: not_None_eq split: prod.splits)

lemma engine_call_returns:
  assumes "quic_ticking (qx_env x) T K left"
  shows "engine_call x f s st \<noteq> None"
  using run_xq_returns [OF assms] by (auto simp: engine_call_def simp del: not_None_eq split: option.splits)

section \<open>The handlers\<close>

abbreviation flying :: "('s, 'w) quic_setting \<Rightarrow> request \<Rightarrow> int \<Rightarrow> nat \<Rightarrow> ('w \<Rightarrow> bool) \<Rightarrow> ('s, 'w) quic_state \<Rightarrow> bool" where
  "flying x req fd g Q \<equiv> in_flight x req fd g (\<lambda>_. True) Q"

lemma flying_weaken: "flying x req fd g Q st \<Longrightarrow> (Q (qs_world st) \<Longrightarrow> Q' (qs_world st)) \<Longrightarrow> flying x req fd g Q' st"
  by (simp add: in_flight_def)

lemma recv_loop_returns:
  assumes tick: "quic_ticking (qx_env x) T K left"
  shows "flying x req fd g (\<lambda>_. True) st \<Longrightarrow> recv_loop x any st \<noteq> None"
proof (induction "left (qs_world st)" arbitrary: st any rule: less_induct)
  case less
  note t = quic_tickingD [OF tick]
  obtain ctx where cur: "qs_cur st = Some ctx" using in_flightD(5) [OF less.prems] by auto
  note ok = in_flightD(6) [OF less.prems cur]
  show ?case
  proof (cases "qs_engine st")
    case None
    with cur show ?thesis by (subst recv_loop.simps) simp
  next
    case (Some s)
    obtain r w where r: "qe_recvfrom (qx_env x) (qc_sock_fd ctx) 65535 (qs_world st) = (r, w)" by (rule prod.exhaust)
    have step: "flying x req fd g (later T left w) (st\<lparr>qs_world := v\<rparr>)" if "later T left w v" for v
      using in_flight_step(2) [OF flying_weaken [OF less.prems, where Q' = "\<lambda>_. True"], of v] that by (simp add: in_flight_def)
    have again: "recv_loop x a st' \<noteq> None" if "r \<noteq> RecvWouldBlock" "r \<noteq> RecvFailed" "flying x req fd g (later T left w) st'" for a st'
    proof (rule less.hyps)
      show "left (qs_world st') < left (qs_world st)"
        using t(6) [OF r that(1,2)] in_flightD(4) [OF that(3)] by (simp add: later_def)
      show "flying x req fd g (\<lambda>_. True) st'" by (rule flying_weaken [OF that(3)]) simp
    qed
    note unf = recv_loop.simps [of x any st, unfolded cur Some prod.case option.case r]
    show ?thesis
    proof (cases r)
      case RecvInterrupted
      with again [OF _ _ step [OF later_refl]] show ?thesis by (subst unf) simp
    next
      case (Received d peer)
      obtain a w1 where a: "(if qc_got_local ctx then (Some (qc_local_addr ctx), w)
          else qe_getsockname (qx_env x) (qc_sock_fd ctx) w) = (a, w1)" by (rule prod.exhaust)
      have w1: "later T left w w1" using a later_refl quic_quietD(3) [OF t(3) later_refl] by (auto split: if_splits)
      have "recv_loop x True st3 \<noteq> None"
        if "engine_call x (xq_packet_process (qx_lib x) d local peer) s
          (set_ctx (ctx\<lparr>qc_local_addr := local, qc_got_local := True\<rparr>) (st\<lparr>qs_world := w1\<rparr>)) = Some (v, st3)" for v st3 local
        by (rule again) (use Received engine_call_in_flight [OF t(3) quiet_True(2) that
            in_flight_step(1) [OF step [OF w1] ctx_ok_update(8) [OF ok]]] in simp_all)
      with Received again [OF _ _ step [OF later_refl]] a engine_call_returns [OF tick, of "xq_packet_process (qx_lib x) d _ peer"] show ?thesis
        by (subst unf) (auto simp del: not_None_eq split: option.splits)
    qed (simp_all add: unf)
  qed
qed

lemma on_socket_returns:
  assumes tick: "quic_ticking (qx_env x) T K left" and st: "flying x req fd g (\<lambda>_. True) st"
  shows "on_socket x events st \<noteq> None"
proof -
  have readable: "on_readable x st' \<noteq> None" if "flying x req fd g (\<lambda>_. True) st'" for st'
    using recv_loop_returns [OF tick that, of False] engine_call_returns [OF tick, of "xq_finish_recv (qx_lib x)"]
    unfolding on_readable_def by (auto simp del: not_None_eq split: option.splits)
  have writable: "on_writable x ctx s st \<noteq> None" for ctx s
    using engine_call_returns [OF tick, of "xq_continue_send (qx_lib x) (qc_cid ctx)"]
    unfolding on_writable_def Let_def by (auto simp del: not_None_eq split: option.splits bool.splits)
  have "flying x req fd g (\<lambda>_. True) st1" if "live_request st = Some ctx" "on_writable x ctx s st = Some (b, st1)" for ctx s b st1
    using that(1) by (intro on_writable_in_flight [OF quiet_True st _ that(2)]) (auto simp: live_request_def split: option.splits if_splits)
  with st readable writable show ?thesis
    unfolding on_socket_def by (auto simp del: not_None_eq split: option.splits)
qed

lemma run_loop_cb_returns:
  assumes tick: "quic_ticking (qx_env x) T K left" and st: "flying x req fd g (\<lambda>_. True) st"
  shows "run_loop_cb x cb events st \<noteq> None"
proof (cases cb)
  case SocketReady
  then show ?thesis using on_socket_returns [OF assms] by simp
next
  case (EngineTimer h)
  then show ?thesis
    using engine_call_returns [OF tick, of "xq_main_logic (qx_lib x)"]
    by (auto simp: on_timer_def simp del: not_None_eq split: option.splits)
qed

section \<open>The wait\<close>

lemma dispatch_returns:
  assumes returns: "\<And>cb ev st. P st \<Longrightarrow> run cb ev st \<noteq> None"
    and keeps: "\<And>cb ev st st'. run cb ev st = Some st' \<Longrightarrow> P st \<Longrightarrow> P st'"
    and disarm: "\<And>st. P st \<Longrightarrow> P (upd (\<lambda>l. l\<lparr>el_timer_cb := None\<rparr>) st)"
  shows "P st \<Longrightarrow> epoll_dispatch get upd run es st \<noteq> None"
proof (induction es arbitrary: st)
  case (Cons e es)
  have after: "(case run cb ev v of None \<Rightarrow> None | Some st \<Rightarrow> epoll_dispatch get upd run es st) \<noteq> None" if "P v" for cb ev v
    using returns [OF that, of cb ev] keeps [OF _ that, of cb ev] Cons.IH by (auto simp del: not_None_eq split: option.splits)
  show ?case
    using after [OF Cons.prems] after [OF disarm [OF Cons.prems]] Cons.IH [OF Cons.prems]
    by (auto simp del: not_None_eq split: option.splits)
qed simp

lemma poll_returns:
  fixes x :: "('s, 'w) quic_setting"
  assumes tick: "quic_ticking (qx_env x) T K left" and st: "flying x req fd g (\<lambda>_. True) st"
  shows "epoll_poll_once qs_loop qs_loop_update (run_loop_cb x) events st \<noteq> None"
proof -
  have "epoll_dispatch qs_loop qs_loop_update (run_loop_cb x) events st \<noteq> None"
  proof (rule dispatch_returns [where P = "flying x req fd g (\<lambda>_. True)", OF _ _ _ st])
    fix cb ev and st st' :: "('s, 'w) quic_state"
    assume "run_loop_cb x cb ev st = Some st'" and "flying x req fd g (\<lambda>_. True) st"
    then show "flying x req fd g (\<lambda>_. True) st'"
      by (cases cb) (auto intro: on_socket_in_flight [OF quiet_True] on_timer_in_flight [OF quiet_True])
  next
    fix cb ev and st :: "('s, 'w) quic_state"
    assume "flying x req fd g (\<lambda>_. True) st"
    then show "run_loop_cb x cb ev st \<noteq> None" by (rule run_loop_cb_returns [OF tick])
  qed (auto simp: in_flight_def)
  then show ?thesis by (auto simp: epoll_poll_once_def)
qed

lemma quic_wait_returns:
  assumes tick: "quic_ticking (qx_env x) T K left"
  shows "flying x req fd g (\<lambda>_. True) st \<Longrightarrow> quic_wait x start timeout st \<noteq> None"
proof (induction "ticks_left T K (start + timeout) (qs_world st)" arbitrary: st rule: less_induct)
  case less
  note t = quic_tickingD [OF tick]
  obtain ctx where cur: "qs_cur st = Some ctx" using in_flightD(5) [OF less.prems] by auto
  obtain now w where n: "ne_now (qx_env x) (qs_world st) = (now, w)" by (rule prod.exhaust)
  then have ms: "elapsed_since (qx_env x) start (qs_world st) = (now - start, w)" by (simp add: elapsed_since_def)
  obtain events w1 where p: "qe_epoll_wait (qx_env x) (poll_timeout_ms (timeout - (now - start))) w = (events, w1)"
    by (rule prod.exhaust)
  let ?st = "st\<lparr>qs_world := w1\<rparr>"
  have st1: "flying x req fd g (later T left w1) ?st"
    using less.prems by (simp add: in_flight_def later_refl)
  note unf = quic_wait.simps [of x start timeout st, unfolded cur option.case ms prod.case p]
  show ?case
  proof (cases "qc_finished ctx \<or> qc_failed ctx \<or> timeout \<le> now - start")
    case True
    then show ?thesis by (subst unf) auto
  next
    case False
    have "quic_wait x start timeout st2 \<noteq> None"
      if "epoll_poll_once qs_loop qs_loop_update (run_loop_cb x) events ?st = Some (b, st2)" for b st2
    proof (rule less.hyps)
      have st2: "flying x req fd g (later T left w1) st2" by (rule poll_in_flight [OF t(3) quiet_True(2) st1 that])
      then show "flying x req fd g (\<lambda>_. True) st2" by (rule flying_weaken) simp
      have "T (qs_world st) \<le> T w" using quic_quietD(1) [OF t(3) later_refl n] by (simp add: later_def)
      then have "T (qs_world st) < T (qs_world st2)"
        using t(4) [OF p] in_flightD(4) [OF st2] by (simp add: later_def)
      moreover have "int (T (qs_world st) div K) < start + timeout" using t(2) [OF n] False by simp
      ultimately show "ticks_left T K (start + timeout) (qs_world st2) < ticks_left T K (start + timeout) (qs_world st)"
        by (intro before_deadline [where T = T, OF t(1)])
    qed
    moreover have "epoll_poll_once qs_loop qs_loop_update (run_loop_cb x) events ?st \<noteq> None"
      by (rule poll_returns [OF tick flying_weaken [OF st1]]) simp
    ultimately show ?thesis using False by (subst unf) (auto simp del: not_None_eq split: option.splits)
  qed
qed

section \<open>The request\<close>

lemma conclude_returns:
  assumes "quic_ticking (qx_env x) T K left"
  shows "conclude_request x start fd resp timed_out ctx st \<noteq> None"
proof -
  have "release_engine x st \<noteq> None" for st
    using run_xq_returns [OF assms] by (auto simp: release_engine_def simp del: not_None_eq split: option.splits)
  then show ?thesis
    by (auto simp: conclude_request_def Let_def simp del: not_None_eq split: prod.splits option.splits)
qed

lemma quic_exchange_returns:
  assumes tick: "quic_ticking (qx_env x) T K left"
  shows "quic_exchange x req start fd addr resp s st \<noteq> None"
proof -
  let ?g = "qs_generation st + 1"
  let ?ctx = "new_context (qx_cfg x) req start ?g fd addr"
  obtain t0 w0 where now: "ne_now (qx_env x) (qs_world st) = (t0, w0)" by (rule prod.exhaust)
  let ?st = "st\<lparr>qs_generation := ?g, qs_cur := Some (?ctx\<lparr>qc_tls_start_ms := t0\<rparr>),
    qs_loop := epoll_add_fd fd \<lparr>io_readable = True, io_writable = False\<rparr> (Some SocketReady) (qs_loop st), qs_world := w0\<rparr>"
  have st1: "flying x req fd ?g (\<lambda>_. True) ?st"
    using ctx_ok_update(9) [OF new_context_ok] by (auto simp: in_flight_def)
  let ?connect = "engine_call x (xq_h3_connect (qx_lib x) (\<not> allow_insecure (qx_cfg x)) (c_str (req_host req)) addr) s ?st"
  obtain cid st2 where c: "?connect = Some (cid, st2)" using engine_call_returns [OF tick] by (metis option.exhaust prod.exhaust)
  have st2: "flying x req fd ?g (\<lambda>_. True) st2" by (rule engine_call_in_flight [OF quiet_True c st1])
  note unf = quic_exchange_def [of x req start fd addr resp s st, unfolded now Let_def prod.case c option.case]
  show ?thesis
  proof (cases cid)
    case None
    then show ?thesis by (simp add: unf)
  next
    case (Some n)
    let ?st2 = "st2\<lparr>qs_cur := map_option (\<lambda>ctx. ctx\<lparr>qc_cid := n\<rparr>) (qs_cur st2)\<rparr>"
    obtain ctx2 where c2: "qs_cur st2 = Some ctx2" using in_flightD(5) [OF st2] by auto
    have st3: "flying x req fd ?g (\<lambda>_. True) ?st2"
      using in_flight_step(1) [OF st2 ctx_ok_update(4) [OF in_flightD(6) [OF st2 c2]], of n] c2 by simp
    obtain timed_out st4 where wt: "quic_wait x start (effective_timeout_ms req) ?st2 = Some (timed_out, st4)"
      using quic_wait_returns [OF tick st3] by (metis option.exhaust prod.exhaust)
    have "flying x req fd ?g (\<lambda>_. True) st4" using quic_wait_in_flight [OF wt quiet_True st3] by simp
    then obtain ctx4 where "qs_cur st4 = Some ctx4" using in_flightD(5) by blast
    with Some wt conclude_returns [OF tick] show ?thesis by (simp add: unf)
  qed
qed

text \<open>Between requests an engine that counts as initialized has its handle.\<close>

definition engine_ready :: "('s, 'w) quic_state \<Rightarrow> bool" where
  "engine_ready st \<longleftrightarrow> (qs_initialized st \<longrightarrow> qs_engine st \<noteq> None)"

lemma init_engine_ready:
  assumes tick: "quic_ticking (qx_env x) T K left" and "engine_ready st"
  shows "init_engine x st \<noteq> None" and "init_engine x st = Some (True, st') \<Longrightarrow> qs_engine st' \<noteq> None"
proof -
  have "release_engine x st \<noteq> None" for st
    using run_xq_returns [OF tick] by (auto simp: release_engine_def simp del: not_None_eq split: option.splits)
  then show "init_engine x st \<noteq> None"
    by (auto simp: init_engine_def Let_def simp del: not_None_eq split: prod.splits option.splits)
  show "qs_engine st' \<noteq> None" if "init_engine x st = Some (True, st')"
    using that assms(2) by (auto simp: init_engine_def Let_def engine_ready_def split: if_splits prod.splits option.splits)
qed

lemma quic_request_returns:
  assumes tick: "quic_ticking (qx_env x) T K left" and ready: "engine_ready st"
  shows "quic_request x req st \<noteq> None"
proof -
  let ?resp = "default_response\<lparr>resp_protocol := PROTOCOL_HTTP_3, resp_dns_ms := req_dns_ms req\<rparr>"
  obtain start w where now: "ne_now (qx_env x) (qs_world st) = (start, w)" by (rule prod.exhaust)
  have ready: "engine_ready (st\<lparr>qs_world := w\<rparr>)" using ready by (simp add: engine_ready_def)
  obtain b st0 where i: "init_engine x (st\<lparr>qs_world := w\<rparr>) = Some (b, st0)"
    using init_engine_ready(1) [OF tick ready] by auto
  obtain r resp w1 where o: "open_socket x req ?resp (qs_world st0) = (r, resp, w1)" by (rule prod_cases3)
  note unf = quic_request_def [of x req st, unfolded now Let_def prod.case i option.case o]
  show ?thesis
  proof (cases "b \<and> (\<exists>sock. r = Inr sock)")
    case True
    then obtain fd addr s where "r = Inr (fd, addr)" "qs_engine st0 = Some s"
      using init_engine_ready(2) [OF tick ready] i by (cases "qs_engine st0") auto
    with True quic_exchange_returns [OF tick] show ?thesis by (simp add: unf)
  next
    case False
    then show ?thesis by (cases r) (auto simp: unf simp del: not_None_eq)
  qed
qed

section \<open>From request to request\<close>

lemma run_xq_initialized:
  "run_xq x call st = Some (r, s, st') \<Longrightarrow> qs_initialized st' = qs_initialized st"
proof (induction call arbitrary: st)
  case (WriteSocket buf k)
  then obtain v st1 where w: "write_socket_cb (qx_env x) buf st = Some (v, st1)" and go: "run_xq x (k v) st1 = Some (r, s, st')"
    by (auto split: option.splits)
  from w have "qs_initialized st1 = qs_initialized st"
    by (auto simp: write_socket_cb_def Let_def split: option.splits udp_send.splits if_splits)
  with WriteSocket.IH [OF rangeI go] show ?case by simp
next
  case (CertVerify certs k)
  obtain v st1 where c: "cert_verify_cb (qx_x509 x) (qx_cfg x) certs st = (v, st1)" by (rule prod.exhaust)
  then have "qs_initialized st1 = qs_initialized st" by (auto simp: cert_verify_cb_def split: if_splits option.splits)
  with c CertVerify.IH [of "k v" st1] CertVerify.prems show ?case by simp
next
  case (HandshakeFinished s0 k)
  obtain s1 st1 where c: "h3_conn_handshake_finished_cb (qx_env x) (qx_lib x) s0 st = (s1, st1)" by (rule prod.exhaust)
  then have "qs_initialized st1 = qs_initialized st"
    by (auto simp: h3_conn_handshake_finished_cb_def send_pending_body_def Let_def split: option.splits prod.splits if_splits)
  with c HandshakeFinished.IH [of "k s1" st1] HandshakeFinished.prems show ?case by simp
next
  case (ReadNotify flags s0 k)
  obtain ok s1 st1 where c: "h3_request_read_notify_cb (qx_env x) (qx_lib x) flags s0 st = (ok, s1, st1)" by (rule prod_cases3)
  then have "qs_initialized st1 = qs_initialized st"
    by (auto simp: h3_request_read_notify_cb_def split: option.splits prod.splits)
  with c ReadNotify.IH [OF rangeI [of k ok] rangeI [of "k ok" s1], of st1] ReadNotify.prems show ?case by simp
next
  case (WriteNotify s0 k)
  obtain s1 st1 where c: "send_pending_body (qx_lib x) s0 st = (s1, st1)" by (rule prod.exhaust)
  then have "qs_initialized st1 = qs_initialized st"
    by (auto simp: send_pending_body_def split: option.splits prod.splits if_splits)
  with c WriteNotify.IH [of "k s1" st1] WriteNotify.prems show ?case by (simp add: h3_request_write_notify_cb_def)
qed (auto simp: set_event_timer_cb_def h3_conn_create_notify_cb_def h3_conn_close_notify_cb_def closed_early_def
    h3_request_closing_notify_cb_def h3_request_close_notify_cb_def Let_def split: option.splits)

lemma release_engine_idle: "release_engine x st = Some st' \<Longrightarrow> \<not> qs_initialized st \<Longrightarrow> \<not> qs_initialized st'"
  by (auto simp: release_engine_def split: option.splits dest: run_xq_initialized)

lemma conclude_ready: "conclude_request x start fd resp timed_out ctx st = Some (ret, resp', st') \<Longrightarrow> engine_ready st'"
  by (auto simp: conclude_request_def Let_def engine_ready_def split: prod.splits option.splits dest!: release_engine_idle)

lemma fail_early_ready: "fail_early x start err resp st = (ret, resp', st') \<Longrightarrow> engine_ready st \<Longrightarrow> engine_ready st'"
  by (auto simp: fail_early_def engine_ready_def split: prod.splits)

lemma quic_request_ready:
  assumes ready: "engine_ready st" and run: "quic_request x req st = Some (ret, resp, st')"
  shows "engine_ready st'"
  using run
proof (cases rule: quic_request_cases)
  case (early start err resp1 st1)
  then obtain w b st0 where i: "init_engine x (st\<lparr>qs_world := w\<rparr>) = Some (b, st0)"
    and st1: "st1 = st0 \<or> (\<exists>w1. st1 = st0\<lparr>qs_world := w1\<rparr>)" by blast
  have "engine_ready st0"
    using i ready by (auto simp: init_engine_def Let_def engine_ready_def split: if_splits prod.splits option.splits dest!: release_engine_idle)
  then have "engine_ready st1" using st1 by (auto simp: engine_ready_def)
  with fail_early_ready early(3) show ?thesis by metis
next
  case (exchange start w b st0 resp0 fd addr resp1 w1 s)
  then show ?thesis
    by (auto simp: quic_exchange_def Let_def engine_call_def split: prod.splits option.splits
        intro: conclude_ready fail_early_ready) (auto simp: fail_early_def engine_ready_def split: prod.splits)
qed

text \<open>
  Property C19. A QUIC request returns as time passes, whatever XQUIC calls back, as long as the network
  delivers finitely many datagrams and interrupts finitely many calls; and it leaves the engine ready
  for the next one.
\<close>

theorem quic_returns:
  assumes "quic_ticking (qx_env x) T K left" and "engine_ready st"
  shows "\<exists>ret resp st'. quic_request x req st = Some (ret, resp, st') \<and> engine_ready st'"
proof -
  obtain ret resp st' where "quic_request x req st = Some (ret, resp, st')"
    using quic_request_returns [OF assms, of req] by (metis option.exhaust prod_cases3)
  with quic_request_ready [OF assms(2)] show ?thesis by blast
qed

text \<open>The exchange of before over a network where time passes.\<close>

definition slow_quic_env :: "nat quic_env" where
  "slow_quic_env = demo_quic_env\<lparr>ne_now := (\<lambda>w. (int w, w)), ne_close := (\<lambda>_ w. w), qe_udp_socket := (\<lambda>_ w. (7, w)),
     qe_epoll_wait := (\<lambda>_ w. ([], w + 10))\<rparr>"

lemma slow_quic_ticking: "quic_ticking slow_quic_env id 1 (\<lambda>_. 0)"
  by (auto simp: quic_ticking_def quic_quiet_def later_def slow_quic_env_def demo_quic_env_def)

lemma quic_returns_witness:
  "\<exists>ret resp st'. quic_request ((demo_quic ''204'')\<lparr>qx_env := slow_quic_env\<rparr>) default_request demo_quic_state = Some (ret, resp, st')
    \<and> engine_ready st'"
proof -
  have "quic_ticking (qx_env ((demo_quic ''204'')\<lparr>qx_env := slow_quic_env\<rparr>)) id 1 (\<lambda>_. 0)" using slow_quic_ticking by simp
  moreover have "engine_ready demo_quic_state" by (simp add: engine_ready_def demo_quic_state_def)
  ultimately show ?thesis by (rule quic_returns)
qed

text \<open>
  The bound on the traffic is needed: the receiving loop looks neither at the clock nor at the state of
  the request, so datagrams that keep coming (empty ones, here) keep it from its deadline.
\<close>

lemma recv_loop_starves:
  assumes flood: "\<And>w. qe_recvfrom (qx_env x) fd 65535 w = (Received [] peer, w)"
    and st: "qs_cur st = Some ctx" "qc_sock_fd ctx = fd" "qs_engine st = Some s"
  shows "recv_loop x any st = None"
proof (rule ccontr)
  assume "recv_loop x any st \<noteq> None"
  then obtain out where "recv_loop x any st = Some out" by blast
  then have "(\<And>w. qe_recvfrom (qx_env x) fd 65535 w = (Received [] peer, w)) \<Longrightarrow> qs_cur st = Some ctx \<Longrightarrow> qc_sock_fd ctx = fd
    \<Longrightarrow> qs_engine st = Some s \<Longrightarrow> False"
  proof (induct rule: recv_loop.raw_induct [rotated, consumes 1])
    case (1 f x any st out)
    have "f x any st = Some out" using 1(2) unfolding 1(4,6) prod.case option.case 1(5) 1(3) by simp
    from 1(1) [OF this 1(3,4,5,6)] show ?case .
  qed
  with assms show False by blast
qed

end
