(* ===== verification/Event_Kernel.thy ===== *)
theory Event_Kernel
  imports Event_Loop
begin

text \<open>
  What the system calls of the event loops make the kernel do. The kernel is a parameter: a function of
  its state for each call, with the descriptors it watches and the delay of the armed timer as
  observations. What is used of it is documented behaviour: \<open>epoll_ctl\<close> adds a new descriptor and changes
  a known one; setting a \<open>timerfd\<close> to a delay other than zero arms it; \<open>kevent\<close> applies its changes in
  order and, without room for events, stops at the first that fails.
\<close>

section \<open>New loops\<close>

definition timer_events :: io_events where
  "timer_events = \<lparr>io_readable = True, io_writable = False\<rparr>"

definition EpollEventLoop :: "int \<Rightarrow> 'cb event_loop" where
  "EpollEventLoop timer_fd =
     (let l = \<lparr>el_timer_fd = timer_fd, el_cbs = Map.empty, el_timer_cb = None, el_calls = []\<rparr>
      in if timer_fd \<ge> 0 then syscall (EPOLL_CTL_ADD timer_fd timer_events) l else l)"

text \<open>The kqueue loop has no descriptor for its timer.\<close>

definition KqueueEventLoop :: "'cb event_loop" where
  "KqueueEventLoop = \<lparr>el_timer_fd = -1, el_cbs = Map.empty, el_timer_cb = None, el_calls = []\<rparr>"

section \<open>The kernel\<close>

definition epoll_laws :: "(loop_syscall \<Rightarrow> 'k \<Rightarrow> 'k) \<Rightarrow> ('k \<Rightarrow> int \<rightharpoonup> io_events) \<Rightarrow> ('k \<Rightarrow> nat option) \<Rightarrow> bool" where
  "epoll_laws kern watch delay \<longleftrightarrow>
     (\<forall>k fd ev. watch k fd = None \<longrightarrow>
        watch (kern (EPOLL_CTL_ADD fd ev) k) = (watch k)(fd \<mapsto> ev) \<and> delay (kern (EPOLL_CTL_ADD fd ev) k) = delay k)
     \<and> (\<forall>k fd ev. watch k fd \<noteq> None \<longrightarrow>
        watch (kern (EPOLL_CTL_MOD fd ev) k) = (watch k)(fd \<mapsto> ev) \<and> delay (kern (EPOLL_CTL_MOD fd ev) k) = delay k)
     \<and> (\<forall>k fd. watch (kern (EPOLL_CTL_DEL fd) k) = (watch k)(fd := None) \<and> delay (kern (EPOLL_CTL_DEL fd) k) = delay k)
     \<and> (\<forall>k s n. 0 < s \<or> 0 < n \<longrightarrow>
        watch (kern (TIMERFD_SETTIME s n) k) = watch k \<and> delay (kern (TIMERFD_SETTIME s n) k) = Some (s * 1000 + n div 1000000))"

lemma epoll_lawsD:
  assumes "epoll_laws kern watch delay"
  shows "watch k fd = None \<Longrightarrow> watch (kern (EPOLL_CTL_ADD fd ev) k) = (watch k)(fd \<mapsto> ev)"
    "watch k fd = None \<Longrightarrow> delay (kern (EPOLL_CTL_ADD fd ev) k) = delay k"
    "watch k fd \<noteq> None \<Longrightarrow> watch (kern (EPOLL_CTL_MOD fd ev) k) = (watch k)(fd \<mapsto> ev)"
    "watch k fd \<noteq> None \<Longrightarrow> delay (kern (EPOLL_CTL_MOD fd ev) k) = delay k"
    "watch (kern (EPOLL_CTL_DEL fd) k) = (watch k)(fd := None)" "delay (kern (EPOLL_CTL_DEL fd) k) = delay k"
    "0 < s \<or> 0 < n \<Longrightarrow> watch (kern (TIMERFD_SETTIME s n) k) = watch k"
    "0 < s \<or> 0 < n \<Longrightarrow> delay (kern (TIMERFD_SETTIME s n) k) = Some (s * 1000 + n div 1000000)"
  using assms unfolding epoll_laws_def by blast+

text \<open>A list of changes on the registered filters and the timer.\<close>

type_synonym kq_filters = "(int \<times> kevent_filter) set \<times> nat option"

fun kevent_changes :: "kevent_change list \<Rightarrow> kq_filters \<Rightarrow> kq_filters" where
  "kevent_changes [] k = k"
| "kevent_changes (EV_ADD fd flt # cs) (s, t) = kevent_changes cs (insert (fd, flt) s, t)"
| "kevent_changes (EV_DELETE fd flt # cs) (s, t) =
     (if (fd, flt) \<in> s then kevent_changes cs (s - {(fd, flt)}, t) else (s, t))"
| "kevent_changes (EV_TIMER d # cs) (s, t) = kevent_changes cs (s, Some d)"

definition kqueue_laws :: "(loop_syscall \<Rightarrow> 'k \<Rightarrow> 'k) \<Rightarrow> ('k \<Rightarrow> kq_filters) \<Rightarrow> bool" where
  "kqueue_laws kern filters \<longleftrightarrow> (\<forall>k cs. filters (kern (KEVENT cs) k) = kevent_changes cs (filters k))"

section \<open>What the loops are meant to watch\<close>

fun interest_spec :: "'cb loop_op \<Rightarrow> (int \<rightharpoonup> io_events) \<times> nat option \<Rightarrow> (int \<rightharpoonup> io_events) \<times> nat option" where
  "interest_spec (AddFd fd events cb) (m, t) = (m(fd \<mapsto> events), t)"
| "interest_spec (ModFd fd events) (m, t) = (m(fd \<mapsto> events), t)"
| "interest_spec (RemoveFd fd) (m, t) = (m(fd := None), t)"
| "interest_spec (ScheduleTimer delay_ms cb) (m, t) = (m, Some delay_ms)"

text \<open>
  How the QUIC engine uses a loop: it adds a descriptor once, changes only what it added, always waits
  for reading, and rounds its timers up to at least a millisecond.
\<close>

fun op_allowed :: "'cb loop_op \<Rightarrow> (int \<rightharpoonup> io_events) \<Rightarrow> bool" where
  "op_allowed (AddFd fd events cb) m \<longleftrightarrow> m fd = None \<and> io_readable events"
| "op_allowed (ModFd fd events) m \<longleftrightarrow> m fd \<noteq> None \<and> io_readable events"
| "op_allowed (RemoveFd fd) m \<longleftrightarrow> True"
| "op_allowed (ScheduleTimer delay_ms cb) m \<longleftrightarrow> 0 < delay_ms"

fun ops_allowed :: "'cb loop_op list \<Rightarrow> (int \<rightharpoonup> io_events) \<times> nat option \<Rightarrow> bool" where
  "ops_allowed [] s \<longleftrightarrow> True"
| "ops_allowed (c # cs) s \<longleftrightarrow> op_allowed c (fst s) \<and> ops_allowed cs (interest_spec c s)"

section \<open>The epoll loop\<close>

lemma epoll_op_kernel:
  assumes laws: "epoll_laws kern watch delay" and allowed: "op_allowed c (fst s)"
    and k: "(watch (fold kern (el_calls l) k0), delay (fold kern (el_calls l) k0)) = s"
  shows "(watch (fold kern (el_calls (epoll_op c l)) k0), delay (fold kern (el_calls (epoll_op c l)) k0)) = interest_spec c s"
proof -
  let ?k = "fold kern (el_calls l) k0"
  have s: "s = (watch ?k, delay ?k)" using k by simp
  note law = epoll_lawsD [OF laws]
  show ?thesis
  proof (cases c)
    case (ScheduleTimer d cb)
    with allowed have "0 < d div 1000 \<or> 0 < d mod 1000 * 1000000"
      by (cases "d mod 1000 = 0") auto
    with ScheduleTimer law(7,8) show ?thesis by (simp add: s epoll_schedule_timer_def syscall_def)
  qed (use allowed law(1-6) in \<open>simp_all add: s epoll_add_fd_def epoll_mod_fd_def epoll_remove_fd_def syscall_def Let_def\<close>)
qed

lemma epoll_ops_kernel:
  assumes "epoll_laws kern watch delay"
  shows "ops_allowed cs s \<Longrightarrow> (watch (fold kern (el_calls l) k0), delay (fold kern (el_calls l) k0)) = s \<Longrightarrow>
    (watch (fold kern (el_calls (fold epoll_op cs l)) k0), delay (fold kern (el_calls (fold epoll_op cs l)) k0)) = fold interest_spec cs s"
proof (induction cs arbitrary: l s)
  case (Cons c cs)
  from Cons.prems(1) have "op_allowed c (fst s)" "ops_allowed cs (interest_spec c s)" by simp_all
  with Cons.IH epoll_op_kernel [OF assms this(1) Cons.prems(2)] show ?case by simp
qed simp

section \<open>The kqueue loop\<close>

definition filters_of :: "(int \<rightharpoonup> io_events) \<Rightarrow> (int \<times> kevent_filter) set" where
  "filters_of m =
     {(fd, EVFILT_READ) | fd. \<exists>ev. m fd = Some ev \<and> io_readable ev} \<union> {(fd, EVFILT_WRITE) | fd. \<exists>ev. m fd = Some ev \<and> io_writable ev}"

lemma filters_of_simps [simp]:
  "(fd, EVFILT_READ) \<in> filters_of m \<longleftrightarrow> (\<exists>ev. m fd = Some ev \<and> io_readable ev)"
  "(fd, EVFILT_WRITE) \<in> filters_of m \<longleftrightarrow> (\<exists>ev. m fd = Some ev \<and> io_writable ev)"
  by (auto simp: filters_of_def)

lemma filters_eqI:
  "(\<And>fd. (fd, EVFILT_READ) \<in> s \<longleftrightarrow> (fd, EVFILT_READ) \<in> t) \<Longrightarrow> (\<And>fd. (fd, EVFILT_WRITE) \<in> s \<longleftrightarrow> (fd, EVFILT_WRITE) \<in> t) \<Longrightarrow> s = t"
  for s t :: "(int \<times> kevent_filter) set"
proof (rule set_eqI)
  assume r: "\<And>fd. (fd, EVFILT_READ) \<in> s \<longleftrightarrow> (fd, EVFILT_READ) \<in> t" and w: "\<And>fd. (fd, EVFILT_WRITE) \<in> s \<longleftrightarrow> (fd, EVFILT_WRITE) \<in> t"
  fix x :: "int \<times> kevent_filter"
  obtain fd flt where x: "x = (fd, flt)" by (rule prod.exhaust)
  show "x \<in> s \<longleftrightarrow> x \<in> t" unfolding x using r [of fd] w [of fd] by (cases flt) simp_all
qed

definition reads_all :: "(int \<rightharpoonup> io_events) \<Rightarrow> bool" where
  "reads_all m \<longleftrightarrow> (\<forall>fd ev. m fd = Some ev \<longrightarrow> io_readable ev)"

text \<open>Both filters are deleted: where only writing was not watched, it is the last change that fails.\<close>

lemma kevent_delete_both:
  "reads_all m \<Longrightarrow>
     kevent_changes [EV_DELETE fd EVFILT_READ, EV_DELETE fd EVFILT_WRITE] (filters_of m, t) = (filters_of (m(fd := None)), t)"
  by (auto simp: reads_all_def intro!: filters_eqI split: if_splits)

lemma kevent_add:
  "m fd = None \<Longrightarrow> kevent_changes (kq_changes fd events) (filters_of m, t) = (filters_of (m(fd \<mapsto> events)), t)"
  by (auto simp: kq_changes_def intro!: filters_eqI split: if_splits)

lemma kq_add_fd_kernel:
  assumes laws: "kqueue_laws kern filters" and "m fd = None" and "io_readable events"
    and k: "filters (fold kern (el_calls l) k0) = (filters_of m, t)"
  shows "filters (fold kern (el_calls (kq_add_fd fd events cb l)) k0) = (filters_of (m(fd \<mapsto> events)), t)"
proof -
  have "kq_changes fd events \<noteq> []" using assms(3) by (simp add: kq_changes_def)
  then show ?thesis
    using laws kevent_add [where m = m and fd = fd and events = events and t = t, OF assms(2)] k by (simp add: kq_add_fd_def syscall_def kqueue_laws_def Let_def)
qed

lemma kq_op_kernel:
  assumes laws: "kqueue_laws kern filters" and allowed: "op_allowed c m" and all: "reads_all m"
    and k: "filters (fold kern (el_calls l) k0) = (filters_of m, t)"
  shows "filters (fold kern (el_calls (kq_op c l)) k0) = apfst filters_of (interest_spec c (m, t)) \<and> reads_all (fst (interest_spec c (m, t)))"
proof (cases c)
  case (AddFd fd events cb)
  with kq_add_fd_kernel [OF laws _ _ k] allowed all show ?thesis by (auto simp: reads_all_def)
next
  case (ModFd fd events)
  let ?l = "syscall (KEVENT [EV_DELETE fd EVFILT_READ, EV_DELETE fd EVFILT_WRITE]) l"
  have "filters (fold kern (el_calls ?l) k0) = (filters_of (m(fd := None)), t)"
    using laws k kevent_delete_both [OF all] by (simp add: syscall_def kqueue_laws_def del: kevent_changes.simps)
  from kq_add_fd_kernel [OF laws _ _ this, of fd events] allowed ModFd
  have "filters (fold kern (el_calls (kq_add_fd fd events cb ?l)) k0) = (filters_of (m(fd \<mapsto> events)), t)" for cb
    by (simp only: fun_upd_upd fun_upd_same op_allowed.simps simp_thms)
  with allowed ModFd all show ?thesis by (auto simp: kq_mod_fd_def Let_def reads_all_def)
next
  case (RemoveFd fd)
  with laws k kevent_delete_both [OF all] all show ?thesis
    by (auto simp: kq_remove_fd_def syscall_def kqueue_laws_def reads_all_def Let_def simp del: kevent_changes.simps)
next
  case (ScheduleTimer d cb)
  with laws k all show ?thesis by (simp add: kq_schedule_timer_def syscall_def kqueue_laws_def)
qed

lemma kq_ops_kernel:
  assumes "kqueue_laws kern filters"
  shows "ops_allowed cs (m, t) \<Longrightarrow> reads_all m \<Longrightarrow> filters (fold kern (el_calls l) k0) = (filters_of m, t) \<Longrightarrow>
    filters (fold kern (el_calls (fold kq_op cs l)) k0) = apfst filters_of (fold interest_spec cs (m, t))"
proof (induction cs arbitrary: l m t)
  case (Cons c cs)
  obtain m' t' where i: "interest_spec c (m, t) = (m', t')" by (rule prod.exhaust)
  have "op_allowed c m" "ops_allowed cs (m', t')" using Cons.prems(1) by (simp_all add: i)
  with Cons.IH [of m' t' "kq_op c l"] kq_op_kernel [OF assms this(1) Cons.prems(2,3)] show ?case by (simp add: i)
qed simp

section \<open>The two loops make the kernel watch the same\<close>

text \<open>The descriptor of the timer is the loop's own.\<close>

fun op_avoids :: "int \<Rightarrow> 'cb loop_op \<Rightarrow> bool" where
  "op_avoids t (AddFd fd events cb) \<longleftrightarrow> fd \<noteq> t"
| "op_avoids t (ModFd fd events) \<longleftrightarrow> fd \<noteq> t"
| "op_avoids t (RemoveFd fd) \<longleftrightarrow> fd \<noteq> t"
| "op_avoids t (ScheduleTimer delay_ms cb) \<longleftrightarrow> True"

lemma op_beside:
  assumes "op_avoids t c"
  shows "op_allowed c m \<Longrightarrow> op_allowed c (m(t \<mapsto> e))" "interest_spec c (m(t \<mapsto> e), d) = apfst (\<lambda>m. m(t \<mapsto> e)) (interest_spec c (m, d))"
  using assms by (cases c; simp add: fun_upd_twist)+

lemma ops_beside:
  "list_all (op_avoids t) cs \<Longrightarrow> ops_allowed cs (m, d) \<Longrightarrow>
     ops_allowed cs (m(t \<mapsto> e), d) \<and> fold interest_spec cs (m(t \<mapsto> e), d) = apfst (\<lambda>m. m(t \<mapsto> e)) (fold interest_spec cs (m, d))"
proof (induction cs arbitrary: m d)
  case (Cons c cs)
  obtain m' d' where i: "interest_spec c (m, d) = (m', d')" by (rule prod.exhaust)
  with Cons op_beside(1) [of t c m e] op_beside(2) [of t c m e d] show ?case by (simp del: fun_upd_apply)
qed simp

text \<open>
  Property C26. Used as the QUIC engine uses them (a descriptor is added once, only added ones are
  changed, reading is always waited for, delays are positive), both event loops make the kernel watch
  exactly the descriptors and directions that were asked for last (epoll also its timer's), with the
  timer armed for the last delay, and call the same callbacks for them: the epoll and the kqueue
  implementation refine one specification down to their system calls.
\<close>

theorem event_loops_watch:
  assumes "epoll_laws kern watch delay" and "kqueue_laws qkern filters"
    and "ops_allowed cs (Map.empty, None)" and "list_all (op_avoids t) cs" and "0 \<le> t"
    and "watch k = Map.empty" and "delay k = None" and "filters q = ({}, None)"
  shows "(watch (fold kern (el_calls (fold epoll_op cs (EpollEventLoop t))) k), delay (fold kern (el_calls (fold epoll_op cs (EpollEventLoop t))) k))
      = apfst (\<lambda>m. m(t \<mapsto> timer_events)) (fold interest_spec cs (Map.empty, None))
    \<and> filters (fold qkern (el_calls (fold kq_op cs KqueueEventLoop)) q) = apfst filters_of (fold interest_spec cs (Map.empty, None))
    \<and> callable (fold kq_op cs KqueueEventLoop) = callable (fold epoll_op cs (EpollEventLoop t))
    \<and> el_timer_cb (fold kq_op cs KqueueEventLoop) = el_timer_cb (fold epoll_op cs (EpollEventLoop t))"
proof -
  have "filters_of Map.empty = {}" by (simp add: filters_of_def)
  then have kq: "filters (fold qkern (el_calls (fold kq_op cs KqueueEventLoop)) q) = apfst filters_of (fold interest_spec cs (Map.empty, None))"
    using kq_ops_kernel [OF assms(2,3)] assms(8) by (simp add: reads_all_def KqueueEventLoop_def)
  have "(callable KqueueEventLoop, el_timer_cb KqueueEventLoop) = (callable (EpollEventLoop t), el_timer_cb (EpollEventLoop t))"
    by (simp add: KqueueEventLoop_def EpollEventLoop_def callable_def fun_eq_iff Let_def)
  then have cbs: "(callable (fold kq_op cs KqueueEventLoop), el_timer_cb (fold kq_op cs KqueueEventLoop))
      = (callable (fold epoll_op cs (EpollEventLoop t)), el_timer_cb (fold epoll_op cs (EpollEventLoop t)))"
    unfolding epoll_op_apply kq_op_apply epoll.refines_ops kqueue.refines_ops by (rule arg_cong)
  have start: "(watch (fold kern (el_calls (EpollEventLoop t)) k), delay (fold kern (el_calls (EpollEventLoop t)) k))
      = (Map.empty(t \<mapsto> timer_events), None)"
    using assms(5-7) epoll_lawsD(1,2) [OF assms(1), of k t] by (simp add: EpollEventLoop_def syscall_def)
  note beside = ops_beside [OF assms(4,3), of timer_events]
  show ?thesis using epoll_ops_kernel [OF assms(1) conjunct1 [OF beside] start] beside kq cbs by simp
qed

text \<open>A kernel as documented.\<close>

fun demo_epoll_kernel :: "loop_syscall \<Rightarrow> (int \<rightharpoonup> io_events) \<times> nat option \<Rightarrow> (int \<rightharpoonup> io_events) \<times> nat option" where
  "demo_epoll_kernel (EPOLL_CTL_ADD fd ev) (m, t) = (if m fd = None then m(fd \<mapsto> ev) else m, t)"
| "demo_epoll_kernel (EPOLL_CTL_MOD fd ev) (m, t) = (if m fd = None then m else m(fd \<mapsto> ev), t)"
| "demo_epoll_kernel (EPOLL_CTL_DEL fd) (m, t) = (m(fd := None), t)"
| "demo_epoll_kernel (TIMERFD_SETTIME s n) (m, t) = (m, if s = 0 \<and> n = 0 then None else Some (s * 1000 + n div 1000000))"
| "demo_epoll_kernel (KEVENT cs) k = k"

fun demo_kqueue_kernel :: "loop_syscall \<Rightarrow> kq_filters \<Rightarrow> kq_filters" where
  "demo_kqueue_kernel (KEVENT cs) k = kevent_changes cs k"
| "demo_kqueue_kernel c k = k"

lemma demo_kernel_laws: "epoll_laws demo_epoll_kernel fst snd" "kqueue_laws demo_kqueue_kernel id"
  by (auto simp: epoll_laws_def kqueue_laws_def)

definition demo_loop_ops :: "unit loop_op list" where
  "demo_loop_ops =
     [AddFd 5 \<lparr>io_readable = True, io_writable = False\<rparr> (Some ()), ModFd 5 \<lparr>io_readable = True, io_writable = True\<rparr>,
      ScheduleTimer 1500 (Some ())]"

lemma event_loops_watch_witness:
  "snd (fold demo_epoll_kernel (el_calls (fold epoll_op demo_loop_ops (EpollEventLoop 4))) (Map.empty, None)) = Some 1500
   \<and> snd (fold demo_kqueue_kernel (el_calls (fold kq_op demo_loop_ops KqueueEventLoop)) ({}, None)) = Some 1500"
proof -
  have "ops_allowed demo_loop_ops (Map.empty, None)" "list_all (op_avoids 4) demo_loop_ops" by (simp_all add: demo_loop_ops_def)
  moreover have "snd (fold interest_spec demo_loop_ops (Map.empty, None)) = Some 1500" by (simp add: demo_loop_ops_def)
  ultimately show ?thesis
    using event_loops_watch [OF demo_kernel_laws, of demo_loop_ops 4 "(Map.empty, None)" "({}, None)"] by auto
qed

text \<open>
  Outside of this discipline: a descriptor that waits for writing only stays watched under kqueue after
  it was removed, since the failing deletion of the other filter comes first and ends the call.
\<close>

lemma kq_write_only_stays:
  assumes laws: "kqueue_laws kern filters" and "el_calls l = []" and "filters q = ({}, None)"
  shows "filters (fold kern (el_calls (fold kq_op [AddFd fd \<lparr>io_readable = False, io_writable = True\<rparr> cb, RemoveFd fd] l)) q)
    = ({(fd, EVFILT_WRITE)}, None)"
  using assms
  by (simp add: kq_add_fd_def kq_remove_fd_def kq_changes_def syscall_def kqueue_laws_def Let_def)

section \<open>The blocking loop\<close>

text \<open>
  \<open>run\<close> and \<open>stop\<close>, which are the same in both implementations; the engine polls by itself and uses neither.
  A round is one \<open>poll_once(100)\<close> together with what other threads do meanwhile: both may call \<open>stop\<close>.
\<close>

record 'st running =
  rl_running :: bool
  rl_state :: 'st

definition loop_stop :: "'st running \<Rightarrow> 'st running" where
  "loop_stop r = r\<lparr>rl_running := False\<rparr>"

partial_function (option) run_rounds :: "('st running \<Rightarrow> 'st running) \<Rightarrow> 'st running \<Rightarrow> 'st running option" where
  "run_rounds poll r = (if rl_running r then run_rounds poll (poll r) else Some r)"

definition loop_run :: "('st running \<Rightarrow> 'st running) \<Rightarrow> 'st running \<Rightarrow> 'st running option" where
  "loop_run poll r = run_rounds poll (r\<lparr>rl_running := True\<rparr>)"

lemma run_rounds_ends:
  "(\<And>k. k < n \<Longrightarrow> rl_running ((poll ^^ k) r)) \<Longrightarrow> \<not> rl_running ((poll ^^ n) r) \<Longrightarrow> run_rounds poll r = Some ((poll ^^ n) r)"
proof (induction n arbitrary: r)
  case 0
  then show ?case by (simp add: run_rounds.simps)
next
  case (Suc n)
  have "rl_running r" using Suc.prems(1) [of 0] by simp
  moreover have "run_rounds poll (poll r) = Some ((poll ^^ n) (poll r))"
  proof (rule Suc.IH)
    show "rl_running ((poll ^^ k) (poll r))" if "k < n" for k using Suc.prems(1) [of "Suc k"] that by (simp add: funpow_swap1)
    show "\<not> rl_running ((poll ^^ n) (poll r))" using Suc.prems(2) by (simp add: funpow_swap1)
  qed
  ultimately show ?case by (subst run_rounds.simps) (simp add: funpow_swap1)
qed

lemma run_rounds_forever:
  assumes "\<And>k. rl_running ((poll ^^ k) r)"
  shows "run_rounds poll r = None"
proof (rule ccontr)
  assume "run_rounds poll r \<noteq> None"
  then obtain out where "run_rounds poll r = Some out" by blast
  then have "(\<And>k. rl_running ((poll ^^ k) r)) \<Longrightarrow> False"
  proof (induct rule: run_rounds.raw_induct [rotated, consumes 1])
    case (1 f poll r out)
    have "rl_running r" using 1(3) [of 0] by simp
    with 1(2) have "f poll (poll r) = Some out" by simp
    then show ?case by (rule 1(1)) (use 1(3) [of "Suc _"] in \<open>simp add: funpow_swap1\<close>)
  qed
  with assms show False by blast
qed

text \<open>
  The loop ends with the first round in which somebody stops it, and only then. But a \<open>stop\<close> that comes before
  \<open>run\<close> is lost: \<open>run\<close> sets the flag first, so the loop goes on until somebody stops it again.
\<close>

theorem loop_runs_until_stopped:
  "loop_run poll r = Some r' \<longleftrightarrow>
     (\<exists>n. (\<forall>k < n. rl_running ((poll ^^ k) (r\<lparr>rl_running := True\<rparr>))) \<and> r' = (poll ^^ n) (r\<lparr>rl_running := True\<rparr>) \<and> \<not> rl_running r')"
    (is "?run \<longleftrightarrow> ?ends")
proof
  let ?r = "r\<lparr>rl_running := True\<rparr>"
  assume run: ?run
  then obtain n where "\<not> rl_running ((poll ^^ n) ?r)"
    using run_rounds_forever [of poll ?r] by (auto simp: loop_run_def)
  then obtain m where m: "\<not> rl_running ((poll ^^ m) ?r)" "\<And>k. k < m \<Longrightarrow> rl_running ((poll ^^ k) ?r)"
    using exists_least_iff [of "\<lambda>n. \<not> rl_running ((poll ^^ n) ?r)"] by blast
  then have "run_rounds poll ?r = Some ((poll ^^ m) ?r)" by (intro run_rounds_ends)
  with run m show ?ends by (auto simp: loop_run_def)
next
  assume ?ends
  then show ?run by (auto simp: loop_run_def intro: run_rounds_ends)
qed

lemma early_stop_is_lost: "loop_run poll (loop_stop r) = loop_run poll r"
  by (simp add: loop_run_def loop_stop_def)

end
