(* ===== verification/Full_Stack.thy ===== *)
theory Full_Stack
  imports Abi_Session Http1_Receive Http2_Safety Quic_Returns Event_Kernel
begin

text \<open>
  The client with its engines: \<open>Client\<close> takes the engines as parameters, here they are the modelled
  HTTP/1.1, HTTP/2 and QUIC engines of every client, over one operating system. A session on the C ABI
  then runs down to the sockets, and what the engines' theorems promise holds for all of it.

  A call that would never return sets a flag of the world instead, so that returning is a fact
  about the flag. The engines' states live in the world: per client, the kept connection of each TCP engine
  and the state of the QUIC engine.
\<close>

section \<open>The world of a process\<close>

record ('s, 'q, 'w) stack =
  sk_http1 :: "nat \<Rightarrow> pooled_connection option"
  sk_http2 :: "nat \<Rightarrow> (pooled_connection \<times> 's) option"
  sk_quic :: "nat \<Rightarrow> ('q, unit) quic_state"
  sk_hung :: bool
  sk_world :: 'w

text \<open>The operating system and the libraries, as each component sees them; per client where they have connections.\<close>

record ('s, 'q, 'w) os_env =
  so_clock :: "'w clock"
  so_sleep :: "int \<Rightarrow> 'w \<Rightarrow> 'w"
  so_dns :: "'w dns_env"
  so_trace :: "'w trace_env option"
  so_ban_order :: "(selector_key, ban_state) hash_order"
  so_pool_order :: "(string, pool_entry) hash_order"
  so_ratio :: "nat \<Rightarrow> nat \<Rightarrow> string"
  so_xquic :: bool
  so_http1 :: "nat \<Rightarrow> 'w h1_env"
  so_http2 :: "nat \<Rightarrow> 'w h2_env"
  so_nghttp2 :: "nat \<Rightarrow> ('s, 'w) nghttp2"
  so_quic :: "nat \<Rightarrow> 'w quic_env"
  so_x509 :: x509_lib
  so_xqlib :: "nat \<Rightarrow> ('q, 'w) xquic"
  so_timer_fd :: "nat \<Rightarrow> int"

text \<open>A call of the system inside the process.\<close>

definition on_world :: "('w \<Rightarrow> 'x \<times> 'w) \<Rightarrow> ('s, 'q, 'w) stack \<Rightarrow> 'x \<times> ('s, 'q, 'w) stack" where
  "on_world f st = (fst (f (sk_world st)), st\<lparr>sk_world := snd (f (sk_world st))\<rparr>)"

definition hang :: "('s, 'q, 'w) stack \<Rightarrow> int \<times> response \<times> ('s, 'q, 'w) stack" where
  "hang st = (ASTERNET_ERR_INTERNAL, default_response, st\<lparr>sk_hung := True\<rparr>)"

definition in_world :: "'w \<Rightarrow> ('q, 'v) quic_state \<Rightarrow> ('q, 'w) quic_state" where
  "in_world w q = \<lparr>qs_loop = qs_loop q, qs_engine = qs_engine q, qs_initialized = qs_initialized q, qs_cur = qs_cur q,
     qs_generation = qs_generation q, qs_world = w\<rparr>"

text \<open>\<open>QuicEngine::QuicEngine\<close>: a fresh event loop and nothing else.\<close>

definition QuicEngine :: "int \<Rightarrow> ('q, unit) quic_state" where
  "QuicEngine timer_fd =
     \<lparr>qs_loop = EpollEventLoop timer_fd, qs_engine = None,
      qs_initialized = False, qs_cur = None, qs_generation = 0, qs_world = ()\<rparr>"

definition cold_stack :: "('s, 'q, 'w) os_env \<Rightarrow> 'w \<Rightarrow> ('s, 'q, 'w) stack" where
  "cold_stack os w = \<lparr>sk_http1 = (\<lambda>_. None), sk_http2 = (\<lambda>_. None), sk_quic = (\<lambda>i. QuicEngine (so_timer_fd os i)),
     sk_hung = False, sk_world = w\<rparr>"

section \<open>The engines of a client\<close>

definition stack_http1 :: "('s, 'q, 'w) os_env \<Rightarrow> nat \<Rightarrow> engine_config \<Rightarrow> ('s, 'q, 'w) stack engine" where
  "stack_http1 os i cfg req st =
     (case http1_request (so_http1 os i) cfg req (sk_http1 st i, sk_world st) of
        None \<Rightarrow> hang st
      | Some (ret, resp, c, w) \<Rightarrow> (ret, resp, st\<lparr>sk_http1 := (sk_http1 st)(i := c), sk_world := w\<rparr>))"

definition stack_http2 :: "('s, 'q, 'w) os_env \<Rightarrow> nat \<Rightarrow> engine_config \<Rightarrow> ('s, 'q, 'w) stack engine" where
  "stack_http2 os i cfg req st =
     (case http2_request (so_http2 os i) (so_nghttp2 os i) cfg req (sk_http2 st i, sk_world st) of
        None \<Rightarrow> hang st
      | Some (ret, resp, c, w) \<Rightarrow> (ret, resp, st\<lparr>sk_http2 := (sk_http2 st)(i := c), sk_world := w\<rparr>))"

definition stack_setting :: "('s, 'q, 'w) os_env \<Rightarrow> nat \<Rightarrow> engine_config \<Rightarrow> ('q, 'w) quic_setting" where
  "stack_setting os i cfg = \<lparr>qx_env = so_quic os i, qx_x509 = so_x509 os, qx_cfg = cfg, qx_lib = so_xqlib os i\<rparr>"

definition stack_quic :: "('s, 'q, 'w) os_env \<Rightarrow> nat \<Rightarrow> engine_config \<Rightarrow> ('s, 'q, 'w) stack engine" where
  "stack_quic os i cfg req st =
     (case quic_request (stack_setting os i cfg) req (in_world (sk_world st) (sk_quic st i)) of
        None \<Rightarrow> hang st
      | Some (ret, resp, q) \<Rightarrow> (ret, resp, st\<lparr>sk_quic := (sk_quic st)(i := in_world () q), sk_world := qs_world q\<rparr>))"

definition stack_migrate_http1 :: "('s, 'q, 'w) os_env \<Rightarrow> nat \<Rightarrow> ('s, 'q, 'w) stack \<Rightarrow> int \<times> ('s, 'q, 'w) stack" where
  "stack_migrate_http1 os i st =
     (let (r, c, w) = http1_migrate_connection (so_http1 os i) (sk_http1 st i, sk_world st)
      in (r, st\<lparr>sk_http1 := (sk_http1 st)(i := c), sk_world := w\<rparr>))"

definition stack_migrate_http2 :: "('s, 'q, 'w) os_env \<Rightarrow> nat \<Rightarrow> ('s, 'q, 'w) stack \<Rightarrow> int \<times> ('s, 'q, 'w) stack" where
  "stack_migrate_http2 os i st =
     (let (r, c, w) = http2_migrate_connection (so_http2 os i) (sk_http2 st i, sk_world st)
      in (r, st\<lparr>sk_http2 := (sk_http2 st)(i := c), sk_world := w\<rparr>))"

definition stack_migrate_quic :: "nat \<Rightarrow> ('s, 'q, 'w) stack \<Rightarrow> int \<times> ('s, 'q, 'w) stack" where
  "stack_migrate_quic i st =
     (let (r, q) = quic_migrate_connection (in_world (sk_world st) (sk_quic st i))
      in (r, st\<lparr>sk_quic := (sk_quic st)(i := in_world () q), sk_world := qs_world q\<rparr>))"

text \<open>
  The end of \<open>~Client\<close>: the engines go one after the other. The QUIC engine's state is put back to a fresh one:
  there is none any more. (A client without a QUIC engine has a fresh one here, whose destruction does nothing.)
\<close>

definition drop_quic :: "('s, 'q, 'w) os_env \<Rightarrow> nat \<Rightarrow> engine_config \<Rightarrow> ('s, 'q, 'w) stack \<Rightarrow> ('s, 'q, 'w) stack" where
  "drop_quic os i cfg st =
     (let st' = st\<lparr>sk_quic := (sk_quic st)(i := QuicEngine (so_timer_fd os i))\<rparr> in
      case quic_destroy (stack_setting os i cfg) (in_world (sk_world st) (sk_quic st i)) of
        None \<Rightarrow> st'\<lparr>sk_hung := True\<rparr>
      | Some w \<Rightarrow> st'\<lparr>sk_world := w\<rparr>)"

definition drop_http2 :: "('s, 'q, 'w) os_env \<Rightarrow> nat \<Rightarrow> ('s, 'q, 'w) stack \<Rightarrow> ('s, 'q, 'w) stack" where
  "drop_http2 os i st =
     (let (c, w) = http2_destroy (so_http2 os i) (sk_http2 st i, sk_world st)
      in st\<lparr>sk_http2 := (sk_http2 st)(i := c), sk_world := w\<rparr>)"

definition drop_http1 :: "('s, 'q, 'w) os_env \<Rightarrow> nat \<Rightarrow> ('s, 'q, 'w) stack \<Rightarrow> ('s, 'q, 'w) stack" where
  "drop_http1 os i st =
     (let (c, w) = http1_destroy (so_http1 os i) (sk_http1 st i, sk_world st)
      in st\<lparr>sk_http1 := (sk_http1 st)(i := c), sk_world := w\<rparr>)"

definition drop_engines :: "('s, 'q, 'w) os_env \<Rightarrow> nat \<Rightarrow> engine_config \<Rightarrow> ('s, 'q, 'w) stack \<Rightarrow> ('s, 'q, 'w) stack" where
  "drop_engines os i cfg st = drop_http1 os i (drop_http2 os i (drop_quic os i cfg st))"

section \<open>The environment of the clients\<close>

definition stack_dns :: "'w dns_env \<Rightarrow> ('s, 'q, 'w) stack dns_env" where
  "stack_dns env =
     \<lparr>de_parser = de_parser env, de_ntop4 = de_ntop4 env, de_ntop6 = de_ntop6 env,
      de_getaddrinfo = (\<lambda>h. on_world (de_getaddrinfo env h)), de_clock = on_world (de_clock env),
      de_thread = (\<lambda>d. on_world (de_thread env d)), de_cache_order = de_cache_order env, de_health_order = de_health_order env\<rparr>"

definition stack_trace :: "'w trace_env \<Rightarrow> ('s, 'q, 'w) stack trace_env" where
  "stack_trace env =
     \<lparr>te_now = on_world (te_now env), te_ntop = te_ntop env, te_getaddrinfo = (\<lambda>h p. on_world (te_getaddrinfo env h p)),
      te_socket = on_world (te_socket env), te_recverr = (\<lambda>fd. on_world (te_recverr env fd)),
      te_connect = (\<lambda>fd a. on_world (te_connect env fd a)), te_set_ttl = (\<lambda>fd n. on_world (te_set_ttl env fd n)),
      te_send = (\<lambda>fd d. on_world (te_send env fd d)), te_poll = (\<lambda>fd t. on_world (te_poll env fd t)),
      te_recv = (\<lambda>fd. on_world (te_recv env fd)), te_close = (\<lambda>fd. sk_world_update (te_close env fd))\<rparr>"

definition stack_env :: "('s, 'q, 'w) os_env \<Rightarrow> ('s, 'q, 'w) stack client_env" where
  "stack_env os =
     \<lparr>ce_clock = on_world (so_clock os), ce_sleep = (\<lambda>ms. sk_world_update (so_sleep os ms)), ce_dns = stack_dns (so_dns os),
      ce_ban_order = so_ban_order os, ce_pool_order = so_pool_order os,
      ce_http1 = stack_http1 os, ce_http2 = stack_http2 os, ce_quic = stack_quic os,
      ce_xquic_enabled = so_xquic os, ce_testing_build = False,
      ce_migrate_http1 = stack_migrate_http1 os, ce_migrate_http2 = stack_migrate_http2 os,
      ce_migrate_quic = stack_migrate_quic, ce_prefetch_quic = (\<lambda>i host st. (quic_prefetch host, st)),
      ce_destroy = drop_engines os, ce_trace = map_option stack_trace (so_trace os), ce_ratio = so_ratio os\<rparr>"

section \<open>What the process keeps\<close>

text \<open>
  A condition \<open>J s c l w\<close> on the system says that \<open>s\<close> sockets, \<open>c\<close> TLS contexts and \<open>l\<close> sessions are
  held, and may record what calls were made. Between calls, the stack holds those of the kept
  connections and nothing else, its QUIC engines are idle and no call hangs.
\<close>

definition kept :: "(nat \<Rightarrow> 'c option) \<Rightarrow> nat set" where
  "kept f = {i. f i \<noteq> None}"

definition open_connections :: "('s, 'q, 'w) stack \<Rightarrow> nat" where
  "open_connections st = card (kept (sk_http1 st)) + card (kept (sk_http2 st))"

definition quic_idle :: "('q, 'w) quic_state \<Rightarrow> bool" where
  "quic_idle q \<longleftrightarrow> qs_cur q = None \<and> timers_past q \<and> engine_ready q"

definition stack_holds :: "'w holding \<Rightarrow> nat \<Rightarrow> ('s, 'q, 'w) stack \<Rightarrow> bool" where
  "stack_holds J extra st \<longleftrightarrow>
     \<not> sk_hung st \<and> finite (kept (sk_http1 st)) \<and> finite (kept (sk_http2 st)) \<and> (\<forall>i. quic_idle (sk_quic st i))
     \<and> (let n = open_connections st in J (extra + n) n n (sk_world st))"

text \<open>The conditions on the system: the disciplines of the engines' calls, and that time passes.\<close>

definition stack_laws :: "('s, 'q, 'w) os_env \<Rightarrow> (string \<Rightarrow> bool) \<Rightarrow> 'w holding \<Rightarrow> bool" where
  "stack_laws os may J \<longleftrightarrow>
     call_keeps J (so_clock os) \<and> (\<forall>ms. call_releases J J (so_sleep os ms))
     \<and> (\<forall>h. call_keeps J (de_getaddrinfo (so_dns os) h)) \<and> call_keeps J (de_clock (so_dns os))
     \<and> (\<forall>d. call_keeps J (de_thread (so_dns os) d))
     \<and> (\<forall>i. h1_discipline (so_http1 os i) may J \<and> (\<exists>left. finite_peer (so_http1 os i) left))
     \<and> (\<forall>i. h2_discipline (so_http2 os i) (so_nghttp2 os i) may J \<and> (\<exists>T K. h2_ticking (so_http2 os i) T K))
     \<and> (\<forall>i cfg n. quic_discipline (stack_setting os i cfg) may (\<lambda>s. J (s + n) n n))
     \<and> (\<forall>i. \<exists>T K left. quic_ticking (so_quic os i) T K left)
     \<and> (case so_trace os of None \<Rightarrow> True
        | Some te \<Rightarrow> (\<exists>T d. ticking te T d) \<and> (\<forall>n. trace_discipline te (\<lambda>s. J (s + n) n n)))"

lemma stack_lawsD:
  assumes "stack_laws os may J"
  shows "call_keeps J (so_clock os)" "call_releases J J (so_sleep os ms)" "call_keeps J (de_getaddrinfo (so_dns os) h)"
    "call_keeps J (de_clock (so_dns os))" "call_keeps J (de_thread (so_dns os) d)"
    "h1_discipline (so_http1 os i) may J" "\<exists>left. finite_peer (so_http1 os i) left"
    "h2_discipline (so_http2 os i) (so_nghttp2 os i) may J" "\<exists>T K. h2_ticking (so_http2 os i) T K"
    "quic_discipline (stack_setting os i cfg) may (\<lambda>s. J (s + n) n n)" "\<exists>T K left. quic_ticking (so_quic os i) T K left"
  using assms unfolding stack_laws_def by simp_all

subsection \<open>Others' connections\<close>

text \<open>An engine keeps its discipline beside \<open>a\<close> connections of others.\<close>

definition beside :: "nat \<Rightarrow> 'w holding \<Rightarrow> 'w holding" where
  "beside a J s c l = J (s + a) (c + a) (l + a)"

lemma keeps_beside:
  "call_keeps J f \<Longrightarrow> call_keeps (beside a J) f"
  "call_keeps (\<lambda>s. J (Suc s)) f \<Longrightarrow> call_keeps (\<lambda>s. beside a J (Suc s)) f"
  "call_keeps (\<lambda>s c. J s (Suc c)) f \<Longrightarrow> call_keeps (\<lambda>s c. beside a J s (Suc c)) f"
  "call_keeps (\<lambda>s c l. J s c (Suc l)) f \<Longrightarrow> call_keeps (\<lambda>s c l. beside a J s c (Suc l)) f"
  "call_keeps (\<lambda>s c l. J (Suc s) (Suc c) (Suc l)) f \<Longrightarrow> call_keeps (\<lambda>s c l. beside a J (Suc s) (Suc c) (Suc l)) f"
  by (simp_all add: call_keeps_def beside_def)

lemma net_discipline_beside: "net_discipline env J \<Longrightarrow> net_discipline env (beside a J)"
  by (simp add: net_discipline_def keeps_beside) (simp add: call_gains_def call_releases_def beside_def)

lemma h1_discipline_beside: "h1_discipline env may J \<Longrightarrow> h1_discipline env may (beside a J)"
  by (simp add: h1_discipline_def net_discipline_beside keeps_beside)

lemma h2_discipline_beside: "h2_discipline env lib may J \<Longrightarrow> h2_discipline env lib may (beside a J)"
  by (simp add: h2_discipline_def net_discipline_beside keeps_beside)

text \<open>One of the kept connections against the others.\<close>

lemma card_kept: "finite (kept f) \<Longrightarrow> card (kept f) = (if f i = None then 0 else 1) + card (kept f - {i})"
  using card_Suc_Diff1 [of "kept f" i] by (cases "f i = None") (simp_all add: kept_def)

lemma kept_update [simp]: "kept (f(i := c)) - {i} = kept f - {i}" "finite (kept (f(i := c))) = finite (kept f)"
proof -
  show "kept (f(i := c)) - {i} = kept f - {i}" by (auto simp: kept_def)
  moreover have "finite (kept g) \<longleftrightarrow> finite (kept g - {i})" for g :: "nat \<Rightarrow> 'a option" by simp
  ultimately show "finite (kept (f(i := c))) = finite (kept f)" by (metis)
qed

lemma beside_holds:
  "holds_connection (beside a J) (c, w) \<longleftrightarrow> (let n = a + (if c = None then 0 else 1) in J n n n w)"
  by (cases c) (simp_all add: beside_def holds_connection_def Let_def)

lemma stack_holds_http1:
  assumes "stack_holds J 0 st"
  shows "holds_connection (beside (card (kept (sk_http1 st) - {i}) + card (kept (sk_http2 st))) J) (sk_http1 st i, sk_world st)"
    and "holds_connection (beside (card (kept (sk_http1 st) - {i}) + card (kept (sk_http2 st))) J) (c, w)
      \<Longrightarrow> stack_holds J 0 (st\<lparr>sk_http1 := (sk_http1 st)(i := c), sk_world := w\<rparr>)"
proof -
  have fin: "finite (kept (sk_http1 st))" using assms by (simp add: stack_holds_def)
  show "holds_connection (beside (card (kept (sk_http1 st) - {i}) + card (kept (sk_http2 st))) J) (sk_http1 st i, sk_world st)"
    using assms card_kept [OF fin, of i]
    by (simp add: beside_holds stack_holds_def open_connections_def Let_def ac_simps split: if_splits)
  show "holds_connection (beside (card (kept (sk_http1 st) - {i}) + card (kept (sk_http2 st))) J) (c, w)
      \<Longrightarrow> stack_holds J 0 (st\<lparr>sk_http1 := (sk_http1 st)(i := c), sk_world := w\<rparr>)"
    using assms card_kept [of "(sk_http1 st)(i := c)" i] fin
    by (simp add: beside_holds stack_holds_def open_connections_def Let_def ac_simps split: if_splits)
qed

lemma stack_holds_http2:
  assumes "stack_holds J 0 st"
  shows "holds_connection (beside (card (kept (sk_http2 st) - {i}) + card (kept (sk_http1 st))) J) (sk_http2 st i, sk_world st)"
    and "holds_connection (beside (card (kept (sk_http2 st) - {i}) + card (kept (sk_http1 st))) J) (c, w)
      \<Longrightarrow> stack_holds J 0 (st\<lparr>sk_http2 := (sk_http2 st)(i := c), sk_world := w\<rparr>)"
proof -
  have fin: "finite (kept (sk_http2 st))" using assms by (simp add: stack_holds_def)
  show "holds_connection (beside (card (kept (sk_http2 st) - {i}) + card (kept (sk_http1 st))) J) (sk_http2 st i, sk_world st)"
    using assms card_kept [OF fin, of i]
    by (simp add: beside_holds stack_holds_def open_connections_def Let_def ac_simps split: if_splits)
  show "holds_connection (beside (card (kept (sk_http2 st) - {i}) + card (kept (sk_http1 st))) J) (c, w)
      \<Longrightarrow> stack_holds J 0 (st\<lparr>sk_http2 := (sk_http2 st)(i := c), sk_world := w\<rparr>)"
    using assms card_kept [of "(sk_http2 st)(i := c)" i] fin
    by (simp add: beside_holds stack_holds_def open_connections_def Let_def ac_simps split: if_splits)
qed

subsection \<open>The engines keep it\<close>

lemma stack_http1_keeps:
  assumes laws: "stack_laws os may J" and "\<not> ec_testing_build cfg" and may: "may (c_str (endpoint_of req))" and st: "stack_holds J 0 st"
  shows "stack_holds J 0 (snd (snd (stack_http1 os i cfg req st)))"
proof -
  let ?a = "card (kept (sk_http1 st) - {i}) + card (kept (sk_http2 st))"
  from stack_lawsD(7) [OF laws] obtain left where "finite_peer (so_http1 os i) left" by blast
  then obtain ret resp c w where run: "http1_request (so_http1 os i) cfg req (sk_http1 st i, sk_world st) = Some (ret, resp, c, w)"
    using http1_request_returns [of "so_http1 os i" left cfg req "(sk_http1 st i, sk_world st)"] by (metis option.exhaust prod_cases4)
  have "holds_connection (beside ?a J) (c, w)"
    by (rule http1_holds [OF h1_discipline_beside [OF stack_lawsD(6) [OF laws]] assms(2) stack_holds_http1(1) [OF st] may run])
  then show ?thesis by (simp add: stack_http1_def run stack_holds_http1(2) [OF st])
qed

lemma stack_http2_keeps:
  assumes laws: "stack_laws os may J" and "\<not> ec_testing_build cfg" and may: "may (c_str (endpoint_of req))" and st: "stack_holds J 0 st"
  shows "stack_holds J 0 (snd (snd (stack_http2 os i cfg req st)))"
proof -
  let ?a = "card (kept (sk_http2 st) - {i}) + card (kept (sk_http1 st))"
  from stack_lawsD(9) [OF laws] obtain T K where "h2_ticking (so_http2 os i) T K" by blast
  then obtain ret resp c w where
    run: "http2_request (so_http2 os i) (so_nghttp2 os i) cfg req (sk_http2 st i, sk_world st) = Some (ret, resp, c, w)"
    using http2_request_returns [of "so_http2 os i" T K "so_nghttp2 os i" cfg req "(sk_http2 st i, sk_world st)"]
    by (metis option.exhaust prod_cases4)
  have "holds_connection (beside ?a J) (c, w)"
    by (rule http2_holds [OF h2_discipline_beside [OF stack_lawsD(8) [OF laws]] assms(2) stack_holds_http2(1) [OF st] may run])
  then show ?thesis by (simp add: stack_http2_def run stack_holds_http2(2) [OF st])
qed

lemma in_world_simps [simp]:
  "qs_world (in_world w q) = w" "quic_idle (in_world w q) = quic_idle q" "qs_cur (in_world w q) = qs_cur q"
  "timers_past (in_world w q) = timers_past q" "engine_ready (in_world w q) = engine_ready q"
  by (simp_all add: in_world_def quic_idle_def timers_past_def engine_ready_def)

lemma stack_holds_quic:
  assumes "stack_holds J 0 st" and "quic_idle q" and "let n = open_connections st in J n n n w"
  shows "stack_holds J 0 (st\<lparr>sk_quic := (sk_quic st)(i := q), sk_world := w\<rparr>)"
  using assms by (simp add: stack_holds_def open_connections_def)

lemma stack_quic_keeps:
  assumes laws: "stack_laws os may J" and may: "may (c_str (endpoint_of req))" and st: "stack_holds J 0 st"
  shows "stack_holds J 0 (snd (snd (stack_quic os i cfg req st)))"
proof -
  let ?x = "stack_setting os i cfg" and ?q = "in_world (sk_world st) (sk_quic st i)" and ?n = "open_connections st"
  from stack_lawsD(11) [OF laws, of i] obtain T K left where "quic_ticking (qx_env ?x) T K left" by (auto simp: stack_setting_def)
  have idle: "qs_cur ?q = None" "timers_past ?q" "engine_ready ?q" and w: "J (0 + ?n) ?n ?n (qs_world ?q)"
    using st by (simp_all add: stack_holds_def quic_idle_def Let_def)
  obtain ret resp q where run: "quic_request ?x req ?q = Some (ret, resp, q)"
    using quic_request_returns [OF \<open>quic_ticking (qx_env ?x) T K left\<close> idle(3), of req] by (metis option.exhaust prod_cases3)
  from quic_releases_lemma [OF stack_lawsD(10) [OF laws, of i cfg ?n] idle(1) w idle(2) may run] quic_request_ready [OF idle(3) run]
  have "quic_idle q" "J ?n ?n ?n (qs_world q)" by (simp_all add: quic_idle_def)
  then show ?thesis using stack_holds_quic [OF st, of "in_world () q"] by (simp add: stack_quic_def run Let_def)
qed

lemma migrate_keeps:
  assumes laws: "stack_laws os may J" and st: "stack_holds J 0 st"
  shows "stack_holds J 0 (snd (stack_migrate_http1 os i st))" "stack_holds J 0 (snd (stack_migrate_http2 os i st))"
    "stack_holds J 0 (snd (stack_migrate_quic i st))"
proof -
  obtain c w where 1: "close_connection (so_http1 os i) (sk_http1 st i, sk_world st) = (c, w)" by (rule prod.exhaust)
  from close_connection_holds [OF h1_disciplineD(1) [OF h1_discipline_beside [OF stack_lawsD(6) [OF laws]]] stack_holds_http1(1) [OF st] 1]
  show "stack_holds J 0 (snd (stack_migrate_http1 os i st))"
    using stack_holds_http1(2) [OF st, of i c w] by (simp add: stack_migrate_http1_def http1_migrate_connection_def 1)
  obtain c' w' where 2: "h2_close_connection (so_http2 os i) (sk_http2 st i, sk_world st) = (c', w')" by (rule prod.exhaust)
  have "holds_connection (beside (card (kept (sk_http2 st) - {i}) + card (kept (sk_http1 st))) J)
      (h2_close_connection (so_http2 os i) (sk_http2 st i, sk_world st))"
    by (rule h2_closed_holds [OF h2_discipline_beside [OF stack_lawsD(8) [OF laws]] stack_holds_http2(1) [OF st]])
  then show "stack_holds J 0 (snd (stack_migrate_http2 os i st))"
    using stack_holds_http2(2) [OF st, of i c' w'] by (simp add: stack_migrate_http2_def http2_migrate_connection_def 2)
  show "stack_holds J 0 (snd (stack_migrate_quic i st))"
    using stack_holds_quic [OF st, of "sk_quic st i" "sk_world st" i] st
    by (simp add: stack_migrate_quic_def quic_migrate_connection_def stack_holds_def open_connections_def Let_def)
qed

lemma drop_keeps:
  assumes laws: "stack_laws os may J" and st: "stack_holds J 0 st"
  shows "stack_holds J 0 (drop_http1 os i st)" "stack_holds J 0 (drop_http2 os i st)" "stack_holds J 0 (drop_quic os i cfg st)"
proof -
  show "stack_holds J 0 (drop_http1 os i st)" "stack_holds J 0 (drop_http2 os i st)"
    using migrate_keeps(1,2) [OF assms, of i]
    by (simp_all add: drop_http1_def drop_http2_def stack_migrate_http1_def stack_migrate_http2_def http1_destroy_def
        http2_destroy_def http1_migrate_connection_def http2_migrate_connection_def case_prod_beta)
  let ?x = "stack_setting os i cfg" and ?q = "in_world (sk_world st) (sk_quic st i)"
  from stack_lawsD(11) [OF laws, of i] obtain T K left where tick: "quic_ticking (qx_env ?x) T K left" by (auto simp: stack_setting_def)
  have idle: "qs_cur ?q = None" using st by (simp add: stack_holds_def quic_idle_def)
  have "quic_destroy ?x ?q = Some (sk_world st)"
  proof (cases "qs_engine ?q")
    case (Some s)
    obtain r s' q where run: "run_xq ?x (xq_engine_destroy (qx_lib ?x) s) ?q = Some (r, s', q)"
      using run_xq_returns [OF tick] by (metis option.exhaust prod_cases3)
    with run_xq_idle [OF run idle] Some idle show ?thesis by (simp add: quic_destroy_def in_world_def)
  qed (use idle in \<open>simp add: quic_destroy_def\<close>)
  moreover have "quic_idle (QuicEngine (so_timer_fd os i) :: ('b, unit) quic_state)"
    by (simp add: quic_idle_def QuicEngine_def EpollEventLoop_def timers_past_def engine_ready_def Let_def)
  ultimately show "stack_holds J 0 (drop_quic os i cfg st)"
    using stack_holds_quic [OF st, of "QuicEngine (so_timer_fd os i)" "sk_world st" i] st
    by (simp add: drop_quic_def Let_def stack_holds_def)
qed

lemma drop_engines_keeps:
  "stack_laws os may J \<Longrightarrow> stack_holds J 0 st \<Longrightarrow> stack_holds J 0 (drop_engines os i cfg st)"
  by (simp add: drop_engines_def drop_keeps)

section \<open>The clients' environment keeps it\<close>

lemma on_world_keeps: "call_keeps J f \<Longrightarrow> stack_holds J k st \<Longrightarrow> stack_holds J k (snd (on_world f st))"
  by (simp add: call_keeps_def stack_holds_def on_world_def open_connections_def Let_def)

lemma trace_calls_keep:
  assumes "trace_discipline te I"
  shows "I n w \<Longrightarrow> I n (snd (te_getaddrinfo te h p w))" "I n w \<Longrightarrow> I n (snd (te_recverr te fd w))"
    "I n w \<Longrightarrow> I n (snd (te_connect te fd a w))" "I n w \<Longrightarrow> fst (te_socket te w) < 0 \<Longrightarrow> I n (snd (te_socket te w))"
    "I n w \<Longrightarrow> \<not> fst (te_socket te w) < 0 \<Longrightarrow> I (Suc n) (snd (te_socket te w))" "I (Suc n) w \<Longrightarrow> I n (te_close te fd w)"
  by (rule trace_disciplineD [OF assms]; (assumption | rule prod.collapse [symmetric]))+

lemma stack_trace_discipline:
  assumes "\<And>n. trace_discipline te (\<lambda>s. J (s + n) n n)"
  shows "trace_discipline (stack_trace te) (stack_holds J)"
proof -
  have calm: "calm te (J (k + n) n n)" for k n using assms [of n] by (simp add: trace_discipline_def)
  have "calm (stack_trace te) (stack_holds J k)" for k
    using calm by (simp add: calm_def stack_trace_def on_world_def stack_holds_def open_connections_def Let_def)
  moreover have others: "J (k + n) n n w \<Longrightarrow> J (k + n) n n (snd (te_getaddrinfo te h p w))"
    "J (k + n) n n w \<Longrightarrow> J (k + n) n n (snd (te_recverr te fd w))" "J (k + n) n n w \<Longrightarrow> J (k + n) n n (snd (te_connect te fd a w))"
    "J (k + n) n n w \<Longrightarrow> fst (te_socket te w) < 0 \<Longrightarrow> J (k + n) n n (snd (te_socket te w))"
    "J (k + n) n n w \<Longrightarrow> \<not> fst (te_socket te w) < 0 \<Longrightarrow> J (Suc k + n) n n (snd (te_socket te w))"
    "J (Suc k + n) n n w \<Longrightarrow> J (k + n) n n (te_close te fd w)" for k n w h p fd a
    by (rule trace_calls_keep [OF assms [of n]]; simp)+
  ultimately show ?thesis
    by (auto simp: trace_discipline_def stack_trace_def on_world_def stack_holds_def open_connections_def Let_def)
qed

lemma trace_discipline_if: "(C \<Longrightarrow> trace_discipline te I) \<Longrightarrow> trace_discipline te (\<lambda>n w. C \<longrightarrow> I n w)"
  by (cases C) (simp_all add: trace_discipline_def calm_def)

lemma stack_ticking: "ticking te T d \<Longrightarrow> ticking (stack_trace te) (\<lambda>st. T (sk_world st)) d"
  by (simp add: ticking_def stack_trace_def on_world_def)

text \<open>The addresses that a session may dial: those that pass the filter, private ones where they are allowed.\<close>

definition dialable :: "address_parser \<Rightarrow> bool \<Rightarrow> string \<Rightarrow> bool" where
  "dialable parser private a \<longleftrightarrow> (\<exists>allow. is_safe_ip parser a allow \<and> (allow \<longrightarrow> private))"

definition rejects_empty :: "address_parser \<Rightarrow> bool" where
  "rejects_empty parser \<longleftrightarrow> pton4 parser [] = None \<and> pton6 parser [] = None"

lemma c_str_c_str: "c_str (c_str s) = c_str s"
  by (auto simp: c_str_def takeWhile_eq_all_conv dest: set_takeWhileD)

lemma dialable_endpoint:
  assumes "rejects_empty parser" and "dialable parser private (req_connect_host q)"
  shows "dialable parser private (c_str (endpoint_of q))"
proof -
  have "req_connect_host q \<noteq> []"
    using assms by (auto simp: dialable_def is_safe_ip_def rejects_empty_def c_str_def)
  moreover have "is_safe_ip parser (c_str a) allow = is_safe_ip parser a allow" for a allow
    unfolding is_safe_ip_def c_str_c_str ..
  ultimately show ?thesis using assms(2) by (simp add: dialable_def endpoint_of_def)
qed

abbreviation stack_kept :: "('s, 'q, 'w) os_env \<Rightarrow> bool \<Rightarrow> 'w holding \<Rightarrow> request list \<Rightarrow> ('s, 'q, 'w) stack \<Rightarrow> ('s, 'q, 'w) stack \<Rightarrow> bool" where
  "stack_kept os private J \<equiv> kept_by (\<lambda>q. dialable (de_parser (so_dns os)) private (req_connect_host q)) (stack_holds J 0)"

lemma kept_single: "(harmless q \<Longrightarrow> P w \<Longrightarrow> P w') \<Longrightarrow> kept_by harmless P [q] w w'"
  and kept_quiet: "(P w \<Longrightarrow> P w') \<Longrightarrow> kept_by harmless P [] w w'"
  by (simp_all add: kept_by_def)

lemma stack_trace_observed:
  assumes laws: "stack_laws os may J"
  shows "case ce_trace (stack_env os) of None \<Rightarrow> True
    | Some te \<Rightarrow> (\<exists>T d. ticking te T d)
        \<and> (\<forall>u. \<exists>I. trace_discipline te I \<and> I 0 u \<and> (\<forall>w. I 0 w \<longrightarrow> kept_by harmless (stack_holds J 0) [] u w))"
proof (cases "so_trace os")
  case (Some te)
  with laws have tick: "\<exists>T d. ticking te T d" and disc: "\<And>n. trace_discipline te (\<lambda>s. J (s + n) n n)"
    by (simp_all add: stack_laws_def)
  have "\<exists>I. trace_discipline (stack_trace te) I \<and> I 0 u \<and> (\<forall>w. I 0 w \<longrightarrow> kept_by harmless (stack_holds J 0) [] u w)" for u
    by (intro exI [of _ "\<lambda>n w. stack_holds J 0 u \<longrightarrow> stack_holds J n w"])
      (simp add: trace_discipline_if [OF stack_trace_discipline [where J = J, OF disc]] kept_by_def)
  with tick show ?thesis by (auto simp: Some stack_env_def intro: stack_ticking)
qed (simp add: stack_env_def)

lemma stack_observed:
  assumes laws: "stack_laws os (dialable (de_parser (so_dns os)) private) J" and parser: "rejects_empty (de_parser (so_dns os))"
  shows "engines_observed (stack_env os) (stack_kept os private J)"
proof -
  note keeps = stack_http1_keeps [OF laws] stack_http2_keeps [OF laws] stack_quic_keeps [OF laws]
  note quiet = stack_lawsD(1-5) [OF laws]
  have "client_quiet (stack_env os) (stack_kept os private J [] u)" for u
    using quiet by (auto simp: client_quiet_def stack_env_def stack_dns_def kept_by_def intro!: on_world_keeps)
      (simp add: stack_holds_def open_connections_def call_releases_def Let_def)
  moreover have "stack_kept os private J [q] w (snd (snd (ce_http1 (stack_env os) i cfg q w)))"
    "stack_kept os private J [q] w (snd (snd (ce_http2 (stack_env os) i cfg q w)))"
    "stack_kept os private J [q] w (snd (snd (ce_quic (stack_env os) i cfg q w)))"
    if "ec_testing_build cfg = ce_testing_build (stack_env os)" for i cfg q w
    using that by (auto simp: stack_env_def intro!: kept_single keeps dialable_endpoint [OF parser])
  moreover have "stack_kept os private J [] w (ce_destroy (stack_env os) i cfg w)" for i cfg w
    by (rule kept_quiet) (simp add: stack_env_def drop_engines_keeps [OF laws])
  moreover have "stack_kept os private J [] w (snd (ce_migrate_http1 (stack_env os) i w))"
    "stack_kept os private J [] w (snd (ce_migrate_http2 (stack_env os) i w))"
    "stack_kept os private J [] w (snd (ce_migrate_quic (stack_env os) i w))"
    "stack_kept os private J [] w (snd (ce_prefetch_quic (stack_env os) i host w))" for i w host
    by (rule kept_quiet, simp add: stack_env_def migrate_keeps [OF laws])+
  ultimately show ?thesis
    unfolding engines_observed_def
    by (intro conjI allI impI condition_kept.world_trace_axioms stack_trace_observed [OF laws]) blast+
qed

section \<open>Sessions down to the sockets\<close>

lemma segment_dialable:
  "segment_ok parser private call new \<Longrightarrow> list_all (\<lambda>q. dialable parser private (req_connect_host q)) new"
  by (cases "(parser, private, call, new)" rule: segment_ok.cases)
    (auto simp: list_all_iff engine_call_sound_def dialable_def)

lemma segments_dialable:
  "list_all2 (segment_ok parser private) cs segs \<Longrightarrow> list_all (\<lambda>q. dialable parser private (req_connect_host q)) (concat segs)"
  by (induction rule: list_all2_induct) (simp_all add: segment_dialable)

text \<open>
  Property C1. The library with its engines, down to the system calls: in a process that starts with
  nothing open, every session of calls on the C ABI returns, with all three engines underneath, as long as
  time passes and the peers' traffic is finite. TCP and UDP sockets of requests are only ever connected to addresses that pass
  the filter, for private ones only if some client was created with them allowed, and every TLS handshake is asked to verify the peer. Afterwards the process
  holds exactly the sockets, TLS contexts and sessions of the engines' kept connections, the QUIC engines
  are idle and no client holds a lease.
\<close>

theorem full_stack_safe:
  assumes "stack_laws os (dialable (de_parser (so_dns os)) (list_ex permits_private cs)) J"
    and "rejects_empty (de_parser (so_dns os))" and "J 0 0 0 w"
  shows "\<exists>rg st. abi_session (stack_env os) cs (empty_registry, cold_stack os w) = Some (rg, st) \<and> \<not> sk_hung st
    \<and> (let n = open_connections st in J n n n (sk_world st)) \<and> (\<forall>i. quic_idle (sk_quic st i)) \<and> clients_idle rg"
proof -
  let ?private = "list_ex permits_private cs"
  from abi_session_good [OF stack_observed [OF assms(1,2)], of cs "cold_stack os w"] obtain s segs where
    run: "abi_session (stack_env os) cs (empty_registry, cold_stack os w) = Some s"
    and R: "stack_kept os ?private J (concat segs) (cold_stack os w) (snd s)"
    and segs: "list_all2 (segment_ok (de_parser (ce_dns (stack_env os))) ?private) cs segs" and idle: "clients_idle (fst s)" by blast
  have "quic_idle (QuicEngine i :: ('b, unit) quic_state)" for i
    by (simp add: quic_idle_def QuicEngine_def EpollEventLoop_def timers_past_def engine_ready_def Let_def)
  then have "stack_holds J 0 (cold_stack os w)"
    using assms(3) by (simp add: stack_holds_def cold_stack_def open_connections_def kept_def)
  with R segments_dialable [OF segs] have "stack_holds J 0 (snd s)"
    by (simp add: kept_by_def stack_env_def stack_dns_def)
  with run idle show ?thesis by (cases s) (auto simp: stack_holds_def Let_def)
qed

section \<open>A system\<close>

text \<open>
  A system whose world counts time and what is held, and lists every address that a request's socket was connected
  to; its peers accept and stay silent.
\<close>

record probe_world =
  pw_time :: nat
  pw_dialled :: "string list"
  pw_sockets :: nat
  pw_contexts :: nat
  pw_sessions :: nat

definition dial :: "string \<Rightarrow> probe_world \<Rightarrow> probe_world" where
  "dial a w = w\<lparr>pw_dialled := a # pw_dialled w\<rparr>"

definition tick :: "probe_world \<Rightarrow> probe_world" where
  "tick w = w\<lparr>pw_time := pw_time w + 1\<rparr>"

definition probe_net :: "probe_world net_env" where
  "probe_net =
     \<lparr>ne_now = (\<lambda>w. (int (pw_time w), w)), ne_getaddrinfo = (\<lambda>h _ w. ([h], w)),
      ne_socket = (\<lambda>_ w. (3, w\<lparr>pw_sockets := pw_sockets w + 1\<rparr>)), ne_close = (\<lambda>_ w. w\<lparr>pw_sockets := pw_sockets w - 1\<rparr>),
      ne_ctx_new = (\<lambda>w. (True, w\<lparr>pw_contexts := pw_contexts w + 1\<rparr>)), ne_load_ca = (\<lambda>_ w. (True, w)),
      ne_default_paths = (\<lambda>w. (True, w)), ne_ctx_free = (\<lambda>w. w\<lparr>pw_contexts := pw_contexts w - 1\<rparr>),
      ne_ssl_new = (\<lambda>w. (True, w\<lparr>pw_sessions := pw_sessions w + 1\<rparr>)),
      ne_ssl_free = (\<lambda>w. w\<lparr>pw_sessions := pw_sessions w - 1\<rparr>),
      ne_set_sni = (\<lambda>_ w. (True, w)), ne_set1_host = (\<lambda>_ w. (True, w))\<rparr>"

definition probe_http1 :: "probe_world h1_env" where
  "probe_http1 = net_env.extend probe_net
     (h1_env.fields (\<lambda>_ a _ w. (True, dial a w)) (\<lambda>_ _ w. (True, w)) (\<lambda>s w. (int (length s), w)) (\<lambda>_ w. ([], w)))"

definition probe_http2 :: "probe_world h2_env" where
  "probe_http2 = net_env.extend probe_net
     (h2_env.fields 1024 (\<lambda>h _ w. ([h], w)) (\<lambda>_ w. (True, w)) (\<lambda>_ a w. (Connected, dial a w)) (\<lambda>_ w. (0, w))
        (\<lambda>_ _ _ _ w. (1, tick w)) (\<lambda>w. (True, w)) (\<lambda>_ w. (True, w)) (\<lambda>_ _ w. (IoWantRead, w)) (\<lambda>w. (''h2'', w))
        (\<lambda>d w. (IoDone (length d), w)) (\<lambda>_ w. (IoWantRead, w)) (\<lambda>w. (True, w)))"

definition probe_nghttp2 :: "(unit, probe_world) nghttp2" where
  "probe_nghttp2 =
     \<lparr>ng_session_new = (\<lambda>w. (Some (), w)), ng_submit_settings = (\<lambda>s. (0, s)), ng_submit_request = (\<lambda>_ _ s. (1, s)),
      ng_send = (\<lambda>s. Return 0 s), ng_mem_recv = (\<lambda>d s. Return (int (length d)) s)\<rparr>"

definition probe_quic :: "probe_world quic_env" where
  "probe_quic = net_env.extend probe_net
     (quic_env.fields (\<lambda>h _ w. ([h], w)) (\<lambda>_ w. (7, w\<lparr>pw_sockets := pw_sockets w + 1\<rparr>)) (\<lambda>_ w. (True, w))
        (\<lambda>_ a w. (True, dial a w)) (\<lambda>_ _ w. (RecvWouldBlock, w)) (\<lambda>_ w. (None, w)) (\<lambda>_ d w. (SentBytes (length d), w))
        (\<lambda>_ w. ([], tick w)))"

definition probe_xquic :: "(unit, probe_world) xquic" where
  "probe_xquic =
     \<lparr>xq_default_config = (\<lambda>w. (True, w)), xq_engine_create = (\<lambda>w. (Some (), w)), xq_h3_ctx_init = (\<lambda>s. (True, s)),
      xq_h3_connect = (\<lambda>_ _ _ s. WriteSocket ''initial'' (\<lambda>_. XqReturn (Some 1) s)),
      xq_packet_process = (\<lambda>_ _ _ s. XqReturn () s), xq_finish_recv = XqReturn (), xq_main_logic = XqReturn (),
      xq_continue_send = (\<lambda>_ s. XqReturn True s),
      xq_conn_get_stats = (\<lambda>_ _. \<lparr>cs_conn_err = 0, cs_send_count = 1, cs_recv_count = 0, cs_lost_count = 0, cs_srtt = 0\<rparr>),
      xq_engine_destroy = (\<lambda>s. H3ConnClose 0 (XqReturn () s)),
      xq_request_create = (\<lambda>_ s. (True, s)), xq_send_headers = (\<lambda>_ _ s. (True, s)),
      xq_send_body = (\<lambda>d s. (BodyAccepted (int (length d)), s)), xq_recv_headers = (\<lambda>s. (None, s)),
      xq_recv_body = (\<lambda>_ s. (ReadAgain, s))\<rparr>"

definition probe_os :: "(unit, unit, probe_world) os_env" where
  "probe_os =
     \<lparr>so_clock = ne_now probe_net, so_sleep = (\<lambda>_. tick),
      so_dns = \<lparr>de_parser = demo_parser, de_ntop4 = (\<lambda>_. Some ''8.8.8.8''), de_ntop6 = (\<lambda>_. None),
        de_getaddrinfo = (\<lambda>_ w. (Some [AF_INET 0x08080808], w)), de_clock = ne_now probe_net,
        de_thread = (\<lambda>_ w. (Done_In_Time True, w)), de_cache_order = (\<lambda>_. 0), de_health_order = (\<lambda>_. 0)\<rparr>,
      so_trace = None, so_ban_order = (\<lambda>_. 0), so_pool_order = (\<lambda>_. 0), so_ratio = (\<lambda>_ _. []), so_xquic = True,
      so_http1 = (\<lambda>_. probe_http1), so_http2 = (\<lambda>_. probe_http2), so_nghttp2 = (\<lambda>_. probe_nghttp2), so_quic = (\<lambda>_. probe_quic),
      so_x509 = qx_x509 (demo_quic []), so_xqlib = (\<lambda>_. probe_xquic), so_timer_fd = (\<lambda>_. 4)\<rparr>"

definition silent_world :: probe_world where
  "silent_world = \<lparr>pw_time = 0, pw_dialled = [], pw_sockets = 0, pw_contexts = 0, pw_sessions = 0\<rparr>"

definition dialled_within :: "(string \<Rightarrow> bool) \<Rightarrow> probe_world holding" where
  "dialled_within may s c l w \<longleftrightarrow>
     pw_sockets w = s \<and> pw_contexts w = c \<and> pw_sessions w = l \<and> list_all may (pw_dialled w)"

lemmas probe_defs = probe_net_def probe_http1_def probe_http2_def probe_nghttp2_def probe_quic_def probe_xquic_def dial_def tick_def
  net_env.defs h1_env.defs h2_env.defs quic_env.defs

lemma probe_net_discipline:
  "net_discipline probe_http1 (dialled_within may)" "net_discipline probe_http2 (dialled_within may)"
  by (simp_all add: net_discipline_def call_keeps_def call_gains_def call_releases_def dialled_within_def probe_defs)

lemma probe_disciplines:
  "h1_discipline probe_http1 may (dialled_within may)" "h2_discipline probe_http2 probe_nghttp2 may (dialled_within may)"
  by (simp_all add: h1_discipline_def h2_discipline_def probe_net_discipline)
    (simp_all add: lookups_within_def call_keeps_def dialled_within_def probe_defs)

lemma probe_quic_discipline:
  "quic_discipline (stack_setting probe_os i cfg) may (\<lambda>s. dialled_within may (s + n) n n)"
  by (simp add: quic_discipline_def quic_quiet_def lookups_within_def stack_setting_def probe_os_def dialled_within_def probe_defs)

lemma probe_time:
  "finite_peer probe_http1 (\<lambda>_. 0)" "h2_ticking probe_http2 pw_time 1" "quic_ticking probe_quic pw_time 1 (\<lambda>_. 0)"
  by (simp_all add: finite_peer_def h2_ticking_def h2_moves_def quic_ticking_def quic_quiet_def later_def probe_defs)

lemma probe_laws: "stack_laws probe_os may (dialled_within may)"
proof -
  have h: "so_http1 probe_os i = probe_http1" "so_http2 probe_os i = probe_http2" "so_nghttp2 probe_os i = probe_nghttp2"
    "so_quic probe_os i = probe_quic" "so_trace probe_os = None" for i by (simp_all add: probe_os_def)
  have "call_keeps (dialled_within may) (so_clock probe_os)" "call_releases (dialled_within may) (dialled_within may) (so_sleep probe_os ms)"
    "call_keeps (dialled_within may) (de_getaddrinfo (so_dns probe_os) host)" "call_keeps (dialled_within may) (de_clock (so_dns probe_os))"
    "call_keeps (dialled_within may) (de_thread (so_dns probe_os) d)" for ms host d
    by (simp_all add: call_keeps_def call_releases_def dialled_within_def probe_os_def probe_defs)
  with probe_disciplines probe_quic_discipline probe_time show ?thesis
    unfolding stack_laws_def h option.case by blast
qed

lemma full_stack_safe_witness:
  "\<exists>rg st. abi_session (stack_env probe_os)
       [Call_Create 0 (Some plain_config), Call_Request [] 3 (Some form_request) None 0 None, Call_Destroy 3]
       (empty_registry, cold_stack probe_os silent_world) = Some (rg, st)
     \<and> \<not> sk_hung st \<and> list_all (\<lambda>a. is_safe_ip demo_parser a False) (pw_dialled (sk_world st))
     \<and> pw_sockets (sk_world st) = open_connections st"
proof -
  let ?cs = "[Call_Create 0 (Some plain_config), Call_Request [] 3 (Some form_request) None 0 None, Call_Destroy 3]"
  have p: "list_ex permits_private ?cs = False" by (simp add: plain_config_def)
  have parser: "rejects_empty (de_parser (so_dns probe_os))" by (simp add: probe_os_def rejects_empty_def demo_parser_def)
  have w: "dialled_within (dialable (de_parser (so_dns probe_os)) False) 0 0 0 silent_world"
    by (simp add: dialled_within_def silent_world_def)
  from full_stack_safe [of probe_os ?cs "dialled_within (dialable (de_parser (so_dns probe_os)) False)" silent_world,
      unfolded p, OF probe_laws parser w] obtain rg st where
    run: "abi_session (stack_env probe_os) ?cs (empty_registry, cold_stack probe_os silent_world) = Some (rg, st)" "\<not> sk_hung st"
    and held: "let n = open_connections st in dialled_within (dialable (de_parser (so_dns probe_os)) False) n n n (sk_world st)" by blast
  have "dialable (de_parser (so_dns probe_os)) False = (\<lambda>a. is_safe_ip demo_parser a False)"
    by (intro ext) (auto simp: dialable_def probe_os_def)
  with held have "list_all (\<lambda>a. is_safe_ip demo_parser a False) (pw_dialled (sk_world st))" "pw_sockets (sk_world st) = open_connections st"
    by (simp_all add: dialled_within_def Let_def)
  with run show ?thesis by blast
qed

end
