(* ===== verification/Jni_Text.thy ===== *)
theory Jni_Text
  imports Json_Text
begin

text \<open>
  How \<open>sdk/android/jni/asternet_jni.cpp\<close> prints bytes as a JSON string: characters that are well-formed
  UTF-8 are kept, every other byte becomes an escape \<open>\u00xx\<close>. What is printed is shown to be UTF-8
  without control characters, and a reader that takes \<open>\u00xx\<close> for the byte \<open>xx\<close> gets the bytes back.
\<close>

section \<open>Printing bytes as a JSON string\<close>

definition continuation :: "char \<Rightarrow> bool" where
  "continuation c \<longleftrightarrow> byte c div 64 = 2"

text \<open>\<open>utf8_length\<close>: how many bytes of \<open>s\<close> form one well-formed character; 0 if none do.\<close>

fun utf8_length :: "string \<Rightarrow> nat" where
  "utf8_length [] = 0"
| "utf8_length (first # s) =
     (if byte first \<ge> 0xc2 \<and> byte first \<le> 0xdf
      then (case s of b # _ \<Rightarrow> if continuation b then 2 else 0 | [] \<Rightarrow> 0)
      else if byte first \<ge> 0xe0 \<and> byte first \<le> 0xef \<and> length s \<ge> 2
      then
        let second_ok = (if byte first = 0xe0 then byte (s ! 0) \<ge> 0xa0 \<and> byte (s ! 0) \<le> 0xbf
             else if byte first = 0xed then byte (s ! 0) \<ge> 0x80 \<and> byte (s ! 0) \<le> 0x9f
             else continuation (s ! 0))
        in if second_ok \<and> continuation (s ! 1) then 3 else 0
      else if byte first \<ge> 0xf0 \<and> byte first \<le> 0xf4 \<and> length s \<ge> 3
      then
        let second_ok = (if byte first = 0xf0 then byte (s ! 0) \<ge> 0x90 \<and> byte (s ! 0) \<le> 0xbf
             else if byte first = 0xf4 then byte (s ! 0) \<ge> 0x80 \<and> byte (s ! 0) \<le> 0x8f
             else continuation (s ! 0))
        in if second_ok \<and> continuation (s ! 1) \<and> continuation (s ! 2) then 4 else 0
      else if byte first < 0x80 then 1 else 0)"

lemma utf8_length_le: "utf8_length s \<le> length s"
  by (cases s) (auto simp: Let_def split: list.splits)

text \<open>One turn of the loop: what is printed and how many bytes it takes.\<close>

definition jni_escape_step :: "string \<Rightarrow> string \<times> nat" where
  "jni_escape_step s =
     (let c = hd s in
      if c = quote then ([backslash, quote], 1) else if c = backslash then ([backslash, backslash], 1)
      else if c = backspace then ([backslash, CHR ''b''], 1) else if c = form_feed then ([backslash, CHR ''f''], 1)
      else if c = newline then ([backslash, CHR ''n''], 1) else if c = carriage_return then ([backslash, CHR ''r''], 1)
      else if c = tab then ([backslash, CHR ''t''], 1)
      else if byte c < 0x20 then (u00_escape c, 1)
      else if byte c \<ge> 0x80 then
        (let n = utf8_length s in if n > 0 then (take n s, n) else (u00_escape c, 1))
      else ([c], 1))"

lemma jni_escape_step_pos: "0 < snd (jni_escape_step s)"
  by (simp add: jni_escape_step_def Let_def)

function jni_escape :: "string \<Rightarrow> string" where
  "jni_escape s =
     (if s = [] then []
      else fst (jni_escape_step s) @ jni_escape (drop (snd (jni_escape_step s)) s))"
  by pat_completeness auto
termination
  by (relation "measure length") (simp_all add: jni_escape_step_pos)

declare jni_escape.simps [simp del]

section \<open>UTF-8\<close>

text \<open>The encoding of the Unicode scalar values (RFC 3629), against which the printer is measured.\<close>

definition scalar_value :: "nat \<Rightarrow> bool" where
  "scalar_value u \<longleftrightarrow> u < 0x110000 \<and> \<not> (0xd800 \<le> u \<and> u < 0xe000)"

definition utf8_encode :: "nat \<Rightarrow> string" where
  "utf8_encode u =
     map char_of
       (if u < 0x80 then [u]
        else if u < 0x800 then [0xc0 + u div 64, 0x80 + u mod 64]
        else if u < 0x10000 then [0xe0 + u div 4096, 0x80 + u div 64 mod 64, 0x80 + u mod 64]
        else [0xf0 + u div 262144, 0x80 + u div 4096 mod 64, 0x80 + u div 64 mod 64, 0x80 + u mod 64])"

definition utf8_text :: "string \<Rightarrow> bool" where
  "utf8_text s \<longleftrightarrow> (\<exists>us. list_all scalar_value us \<and> s = concat (map utf8_encode us))"

lemma utf8_text_Nil: "utf8_text []"
  unfolding utf8_text_def by (rule exI [of _ "[]"]) simp

lemma utf8_text_append: "utf8_text s \<Longrightarrow> utf8_text t \<Longrightarrow> utf8_text (s @ t)"
  unfolding utf8_text_def by (elim exE, rule_tac x = "us @ usa" in exI) simp

lemma utf8_text_one: "scalar_value u \<Longrightarrow> utf8_text (utf8_encode u)"
  unfolding utf8_text_def by (rule exI [of _ "[u]"]) simp

lemma utf8_text_ascii: "list_all (\<lambda>c. byte c < 0x80) s \<Longrightarrow> utf8_text s"
proof (induction s)
  case Nil
  show ?case by (rule utf8_text_Nil)
next
  case (Cons c s)
  have "utf8_encode (byte c) = [c]" using Cons.prems by (simp add: utf8_encode_def)
  moreover have "scalar_value (byte c)" using Cons.prems by (simp add: scalar_value_def)
  ultimately have "utf8_text [c]" using utf8_text_one [of "byte c"] by simp
  from utf8_text_append [OF this Cons.IH] Cons.prems show ?case by simp
qed

lemma continuation_iff: "continuation c \<longleftrightarrow> 0x80 \<le> byte c \<and> byte c \<le> 0xbf"
  unfolding continuation_def by auto

lemma last_six_bits: "v < 64 \<Longrightarrow> (q * 64 + v) mod 64 = v" "v < 64 \<Longrightarrow> (q * 64 + v) div 64 = q" for q v :: nat
  by simp_all

lemma div_six_bits: "u div 4096 = u div 64 div 64" "u div 262144 = u div 64 div 64 div 64" for u :: nat
  by (simp_all add: div_mult2_eq [symmetric])

lemma encode_two:
  assumes "0xc2 \<le> byte a" and "byte a \<le> 0xdf" and "continuation b"
  shows "utf8_text [a, b]"
proof -
  define x y where "x = byte a - 0xc0" and "y = byte b - 0x80"
  have a: "byte a = 0xc0 + x" "2 \<le> x" "x < 32" and b: "byte b = 0x80 + y" "y < 64"
    using assms by (auto simp: x_def y_def continuation_iff)
  define u where "u = x * 64 + y"
  have "u mod 64 = y" "u div 64 = x" unfolding u_def by (rule last_six_bits [OF b(2)])+
  moreover have "\<not> u < 0x80" "u < 0x800" using a b by (simp_all add: u_def)
  ultimately have "utf8_encode u = [a, b]" by (simp add: utf8_encode_def flip: a(1) b(1))
  moreover have "scalar_value u" using \<open>u < 0x800\<close> by (simp add: scalar_value_def)
  ultimately show ?thesis using utf8_text_one by metis
qed

lemma encode_three:
  assumes "0xe0 \<le> byte a" and "byte a \<le> 0xef" and b: "continuation b" and c: "continuation c"
    and "byte a = 0xe0 \<longrightarrow> 0xa0 \<le> byte b" and "byte a = 0xed \<longrightarrow> byte b \<le> 0x9f"
  shows "utf8_text [a, b, c]"
proof -
  define x y z where "x = byte a - 0xe0" and "y = byte b - 0x80" and "z = byte c - 0x80"
  have a: "byte a = 0xe0 + x" "x < 16" and b: "byte b = 0x80 + y" "y < 64" and c: "byte c = 0x80 + z" "z < 64"
    using assms by (auto simp: x_def y_def z_def continuation_iff)
  define u where "u = (x * 64 + y) * 64 + z"
  have d: "u mod 64 = z" "u div 64 = x * 64 + y" unfolding u_def by (rule last_six_bits [OF c(2)])+
  then have "u div 64 mod 64 = y" "u div 4096 = x" by (simp_all add: last_six_bits b(2) div_six_bits)
  moreover have "\<not> u < 0x800" "u < 0x10000" using a b c assms(5) by (cases "x = 0"; simp add: u_def)+
  ultimately have "utf8_encode u = [a, b, c]" using d(1) by (simp add: utf8_encode_def flip: a(1) b(1) c(1))
  moreover have "scalar_value u" using a b c assms(6) \<open>u < 0x10000\<close> by (cases "x = 13") (auto simp: scalar_value_def u_def)
  ultimately show ?thesis using utf8_text_one by metis
qed

lemma encode_four:
  assumes "0xf0 \<le> byte a" and "byte a \<le> 0xf4" and b: "continuation b" and c: "continuation c" and d: "continuation d"
    and "byte a = 0xf0 \<longrightarrow> 0x90 \<le> byte b" and "byte a = 0xf4 \<longrightarrow> byte b \<le> 0x8f"
  shows "utf8_text [a, b, c, d]"
proof -
  define x y z v where "x = byte a - 0xf0" and "y = byte b - 0x80" and "z = byte c - 0x80" and "v = byte d - 0x80"
  have a: "byte a = 0xf0 + x" "x < 5" and b: "byte b = 0x80 + y" "y < 64" and c: "byte c = 0x80 + z" "z < 64"
    and d: "byte d = 0x80 + v" "v < 64"
    using assms by (auto simp: x_def y_def z_def v_def continuation_iff)
  define u where "u = ((x * 64 + y) * 64 + z) * 64 + v"
  have e: "u mod 64 = v" "u div 64 = (x * 64 + y) * 64 + z" unfolding u_def by (rule last_six_bits [OF d(2)])+
  then have f: "u div 64 mod 64 = z" "u div 4096 = x * 64 + y" by (simp_all only: last_six_bits c(2) div_six_bits)
  then have "u div 4096 mod 64 = y" "u div 262144 = x" by (simp_all add: last_six_bits b(2) div_six_bits)
  moreover have "\<not> u < 0x10000" using a b c d assms(6) by (cases "x = 0") (simp_all add: u_def)
  ultimately have "utf8_encode u = [a, b, c, d]"
    using e(1) f(1) by (simp add: utf8_encode_def flip: a(1) b(1) c(1) d(1))
  moreover have "scalar_value u" using a b c d assms(7) \<open>\<not> u < 0x10000\<close> by (cases "x = 4") (auto simp: scalar_value_def u_def)
  ultimately show ?thesis using utf8_text_one by metis
qed

lemma utf8_length_text:
  assumes "0 < utf8_length s"
  shows "utf8_text (take (utf8_length s) s)" and "0x80 \<le> byte (hd s) \<Longrightarrow> list_all (\<lambda>c. 0x80 \<le> byte c) (take (utf8_length s) s)"
proof -
  obtain a t where s: "s = a # t" using assms by (cases s) auto
  have take2: "take 2 t = [t ! 0, t ! 1]" if "length t \<ge> 2"
    using that by (cases t; cases "tl t") (auto simp: numeral_nat)
  have take3: "take 3 t = [t ! 0, t ! 1, t ! 2]" if "length t \<ge> 3"
    using that by (cases t; cases "tl t"; cases "tl (tl t)") (auto simp: numeral_nat)
  consider (one) "byte a < 0x80" "utf8_length s = 1"
    | (two) b r where "t = b # r" "0xc2 \<le> byte a" "byte a \<le> 0xdf" "continuation b" "utf8_length s = 2"
    | (three) "0xe0 \<le> byte a" "byte a \<le> 0xef" "length t \<ge> 2" "utf8_length s = 3" "continuation (t ! 0)" "continuation (t ! 1)"
        "byte a = 0xe0 \<longrightarrow> 0xa0 \<le> byte (t ! 0)" "byte a = 0xed \<longrightarrow> byte (t ! 0) \<le> 0x9f"
    | (four) "0xf0 \<le> byte a" "byte a \<le> 0xf4" "length t \<ge> 3" "utf8_length s = 4" "continuation (t ! 0)" "continuation (t ! 1)"
        "continuation (t ! 2)" "byte a = 0xf0 \<longrightarrow> 0x90 \<le> byte (t ! 0)" "byte a = 0xf4 \<longrightarrow> byte (t ! 0) \<le> 0x8f"
    using assms unfolding s by (auto simp: Let_def continuation_iff split: if_splits list.splits)
  then have "utf8_text (take (utf8_length s) s) \<and> (0x80 \<le> byte (hd s) \<longrightarrow> list_all (\<lambda>c. 0x80 \<le> byte c) (take (utf8_length s) s))"
  proof cases
    case one
    then show ?thesis using utf8_text_ascii [of "[a]"] by (simp add: s)
  next
    case two
    then show ?thesis using encode_two [of a b] by (simp add: s continuation_iff)
  next
    case three
    then show ?thesis
      using encode_three [of a "t ! 0" "t ! 1"] take2 [OF three(3)] unfolding three(4) s by (simp add: continuation_iff)
  next
    case four
    then show ?thesis
      using encode_four [of a "t ! 0" "t ! 1" "t ! 2"] take3 [OF four(3)] unfolding four(4) s by (simp add: continuation_iff)
  qed
  then show "utf8_text (take (utf8_length s) s)" "0x80 \<le> byte (hd s) \<Longrightarrow> list_all (\<lambda>c. 0x80 \<le> byte c) (take (utf8_length s) s)"
    by simp_all
qed

lemma json_string_high:
  "list_all (\<lambda>c. 0x80 \<le> byte c) xs \<Longrightarrow> json_string (xs @ r) = map_option (apfst ((@) xs)) (json_string r)"
proof (induction xs)
  case Nil
  show ?case by (cases "json_string r") auto
next
  case (Cons c xs)
  then have "c \<noteq> quote" "c \<noteq> backslash" "32 \<le> byte c" by (auto simp: byte_def)
  with Cons show ?case by (simp add: json_string_plain option.map_comp comp_def) (cases "json_string r"; auto)
qed

lemma hex_digit_ascii: "n < 16 \<Longrightarrow> byte (kHex ! n) < 0x80"
proof -
  have "\<forall>i \<in> set [0..<16]. byte (kHex ! i) < 0x80"
    by (simp add: kHex_def upt_rec numeral_nat byte_def)
  then show "n < 16 \<Longrightarrow> byte (kHex ! n) < 0x80" by simp
qed

lemma u00_escape_ascii: "list_all (\<lambda>c. byte c < 0x80) (u00_escape c)"
proof -
  have "byte c div 16 < 16" "byte c mod 16 < 16" using byte_less [of c] by auto
  then show ?thesis by (simp add: u00_escape_def hex_byte_def hex_digit_ascii byte_def [of backslash] byte_def [of "CHR ''u''"] byte_def [of "CHR ''0''"])
qed

lemma jni_escape_step_reads:
  assumes "s \<noteq> []"
  shows "json_string (fst (jni_escape_step s) @ r) = map_option (apfst ((@) (take (snd (jni_escape_step s)) s))) (json_string r)"
    and "utf8_text (fst (jni_escape_step s))"
proof -
  obtain c t where s: "s = c # t" using assms by (cases s) auto
  let ?e = "\<lambda>x. map_option (apfst (Cons x)) (json_string r)"
  have one: "map_option (apfst ((@) (take 1 s))) (json_string r) = ?e c" by (simp add: s apfst_def map_prod_def)
  have "json_string (fst (jni_escape_step s) @ r) = map_option (apfst ((@) (take (snd (jni_escape_step s)) s))) (json_string r)
    \<and> utf8_text (fst (jni_escape_step s))"
  proof (cases "c \<in> {quote, backslash, backspace, form_feed, newline, carriage_return, tab}")
    case True
    then show ?thesis
      by (elim insertE emptyE)
        (simp_all add: jni_escape_step_def s Let_def json_string_escape single_escape_def apfst_def map_prod_def
          utf8_text_ascii byte_def)
  next
    case False
    consider (control) "byte c < 0x20" | (plain) "0x20 \<le> byte c" "byte c < 0x80"
      | (text_char) "0x80 \<le> byte c" "0 < utf8_length s" | (bad) "0x80 \<le> byte c" "utf8_length s = 0"
      by linarith
    then show ?thesis
    proof cases
      case control
      with False have "jni_escape_step s = (u00_escape c, 1)" by (simp add: jni_escape_step_def s Let_def)
      with one show ?thesis by (simp add: json_string_u00 utf8_text_ascii [OF u00_escape_ascii])
    next
      case plain
      with False have "jni_escape_step s = ([c], 1)" by (simp add: jni_escape_step_def s Let_def)
      with one plain False show ?thesis by (simp add: json_string_plain utf8_text_ascii)
    next
      case text_char
      with False have "jni_escape_step s = (take (utf8_length s) s, utf8_length s)"
        by (simp add: jni_escape_step_def s Let_def del: utf8_length.simps)
      with utf8_length_text [OF text_char(2)] text_char(1) show ?thesis
        by (simp add: json_string_high s del: utf8_length.simps take_Suc_Cons)
    next
      case bad
      with False have "jni_escape_step s = (u00_escape c, 1)"
        by (simp add: jni_escape_step_def s Let_def del: utf8_length.simps)
      with one show ?thesis by (simp add: json_string_u00 utf8_text_ascii [OF u00_escape_ascii])
    qed
  qed
  then show "json_string (fst (jni_escape_step s) @ r) = map_option (apfst ((@) (take (snd (jni_escape_step s)) s))) (json_string r)"
    "utf8_text (fst (jni_escape_step s))" by simp_all
qed

lemma jni_escape_reads: "json_string (jni_escape s @ quote # r) = Some (s, r) \<and> utf8_text (jni_escape s)"
proof (induction s rule: jni_escape.induct)
  case (1 s)
  show ?case
  proof (cases "s = []")
    case True
    then show ?thesis by (simp add: jni_escape.simps [of "[]"] json_string_quote utf8_text_Nil)
  next
    case False
    note step = jni_escape_step_reads [OF False] and ih = 1 [OF False]
    have "jni_escape s = fst (jni_escape_step s) @ jni_escape (drop (snd (jni_escape_step s)) s)"
      using False by (simp add: jni_escape.simps [of s])
    with step ih show ?thesis by (simp add: utf8_text_append)
  qed
qed

lemma not_control_iff: "list_all (\<lambda>c. 0x20 \<le> byte c) s \<Longrightarrow> nul \<notin> set s \<and> newline \<notin> set s"
  by (auto simp: list_all_iff byte_def)

lemma hex_digit_visible: "n < 16 \<Longrightarrow> 0x20 \<le> byte (kHex ! n)"
proof -
  have "\<forall>i \<in> set [0..<16]. 0x20 \<le> byte (kHex ! i)"
    by (simp add: kHex_def upt_rec numeral_nat byte_def)
  then show "n < 16 \<Longrightarrow> 0x20 \<le> byte (kHex ! n)" by simp
qed

lemma u00_escape_visible: "list_all (\<lambda>c. 0x20 \<le> byte c) (u00_escape c)"
proof -
  have "byte c div 16 < 16" "byte c mod 16 < 16" using byte_less [of c] by auto
  then show ?thesis by (simp add: u00_escape_def hex_byte_def hex_digit_visible byte_def [of backslash] byte_def [of "CHR ''u''"] byte_def [of "CHR ''0''"])
qed

lemma jni_escape_step_visible:
  assumes "s \<noteq> []"
  shows "list_all (\<lambda>c. 0x20 \<le> byte c) (fst (jni_escape_step s))"
proof -
  have "list_all (\<lambda>c. 0x20 \<le> byte c) (take (utf8_length s) s)" if "0 < utf8_length s" "0x80 \<le> byte (hd s)"
    using utf8_length_text(2) [OF that] by (auto simp: list_all_iff)
  then show ?thesis
    by (auto simp: jni_escape_step_def Let_def u00_escape_visible byte_def [of backslash] byte_def [of quote]
        byte_def [of "CHR ''b''"] byte_def [of "CHR ''f''"] byte_def [of "CHR ''n''"] byte_def [of "CHR ''r''"]
        byte_def [of "CHR ''t''"])
qed

lemma jni_escape_visible: "list_all (\<lambda>c. 0x20 \<le> byte c) (jni_escape s)"
proof (induction s rule: jni_escape.induct)
  case (1 s)
  then show ?case
    using jni_escape_step_visible [of s] by (cases "s = []") (simp_all add: jni_escape.simps [of s] jni_escape.simps [of "[]"])
qed

end
