(* ===== verification/String_Vector.thy ===== *)
theory String_Vector
  imports Api_Types
begin

text \<open>
  \<open>std::vector<std::string>\<close> as far as the addresses of its strings matter. The language bindings fill such
  a vector and hand out \<open>c_str()\<close> pointers to its elements while it still grows.

  A vector has a block of memory (numbered), a capacity and its strings. Growing beyond the capacity
  moves the strings into a new block; by how much the capacity grows is the library's choice, the
  parameter \<open>grow\<close>. A string made with at most \<open>sso\<close> bytes lives inside its object (short string
  optimisation), a longer one in memory of its own that moving and shortening leave in place; an element
  is kept with the length it was made with. A \<open>c_str()\<close> is a block and an index; it may be read where
  the block is still the vector's or the text is outside of it. Reading any other pointer is undefined
  and has the value \<open>None\<close>.
\<close>

section \<open>Vectors of strings\<close>

record string_vector =
  sv_block :: nat
  sv_capacity :: nat
  sv_items :: "(nat \<times> string) list"

definition empty_vector :: string_vector where
  "empty_vector = \<lparr>sv_block = 0, sv_capacity = 0, sv_items = []\<rparr>"

definition vector_reserve :: "nat \<Rightarrow> string_vector \<Rightarrow> string_vector" where
  "vector_reserve n v = (if n > sv_capacity v then v\<lparr>sv_block := sv_block v + 1, sv_capacity := n\<rparr> else v)"

definition push_back :: "(nat \<Rightarrow> nat) \<Rightarrow> string \<Rightarrow> string_vector \<Rightarrow> string_vector" where
  "push_back grow s v =
     (let v = (if length (sv_items v) < sv_capacity v then v
               else v\<lparr>sv_block := sv_block v + 1, sv_capacity := grow (sv_capacity v)\<rparr>)
      in v\<lparr>sv_items := sv_items v @ [(length s, s)]\<rparr>)"

text \<open>\<open>back()\<close> changed in place, without making it longer.\<close>

definition edit_back :: "(string \<Rightarrow> string) \<Rightarrow> string_vector \<Rightarrow> string_vector" where
  "edit_back edit v = v\<lparr>sv_items := butlast (sv_items v) @ [apsnd edit (last (sv_items v))]\<rparr>"

type_synonym c_pointer = "nat \<times> nat"

definition pointer_to :: "string_vector \<Rightarrow> nat \<Rightarrow> c_pointer" where
  "pointer_to v i = (sv_block v, i)"

definition read_pointer :: "nat \<Rightarrow> string_vector \<Rightarrow> c_pointer \<Rightarrow> string option" where
  "read_pointer sso v p =
     (if snd p < length (sv_items v) \<and> (fst p = sv_block v \<or> fst (sv_items v ! snd p) > sso)
      then Some (c_str (snd (sv_items v ! snd p))) else None)"

section \<open>Headers behind such pointers\<close>

text \<open>
  The loop of both bindings: name and value are pushed, the value may be edited in place, and the two
  pointers of the header are taken.
\<close>

fun store_headers ::
  "(nat \<Rightarrow> nat) \<Rightarrow> (string \<Rightarrow> string) \<Rightarrow> (string \<times> string) list \<Rightarrow> string_vector
     \<Rightarrow> string_vector \<times> (c_pointer \<times> c_pointer) list" where
  "store_headers grow edit [] v = (v, [])"
| "store_headers grow edit ((name, value) # rest) v =
     (let v = edit_back edit (push_back grow value (push_back grow name v));
          n = length (sv_items v);
          (w, ps) = store_headers grow edit rest v
      in (w, (pointer_to v (n - 2), pointer_to v (n - 1)) # ps))"

text \<open>What a callee reads through the pointers.\<close>

fun read_headers :: "nat \<Rightarrow> string_vector \<Rightarrow> (c_pointer \<times> c_pointer) list \<Rightarrow> c_header list option" where
  "read_headers sso v [] = Some []"
| "read_headers sso v ((p, q) # ps) =
     (case (read_pointer sso v p, read_pointer sso v q, read_headers sso v ps) of
        (Some n, Some x, Some hs) \<Rightarrow> Some (\<lparr>ch_name = Some n, ch_value = Some x\<rparr> # hs)
      | _ \<Rightarrow> None)"

definition c_headers :: "(string \<times> string) list \<Rightarrow> c_header list" where
  "c_headers hs = map (\<lambda>(n, x). \<lparr>ch_name = Some (c_str n), ch_value = Some (c_str x)\<rparr>) hs"

definition header_items :: "(string \<Rightarrow> string) \<Rightarrow> (string \<times> string) list \<Rightarrow> (nat \<times> string) list" where
  "header_items edit hs = concat (map (\<lambda>(n, x). [(length n, n), (length x, edit x)]) hs)"

lemma header_items_simps [simp]:
  "header_items edit [] = []"
  "header_items edit ((n, x) # hs) = (length n, n) # (length x, edit x) # header_items edit hs"
  by (simp_all add: header_items_def)

lemma upt_Suc_first: "[0..<Suc n] = 0 # map Suc [0..<n]"
  by (simp only: map_Suc_upt upt_conv_Cons [OF zero_less_Suc])

lemma edit_back_pushed: "edit_back edit (v\<lparr>sv_items := xs @ [x]\<rparr>) = v\<lparr>sv_items := xs @ [apsnd edit x]\<rparr>"
  by (simp add: edit_back_def)

lemma push_back_room:
  "length (sv_items v) < sv_capacity v \<Longrightarrow> push_back grow s v = v\<lparr>sv_items := sv_items v @ [(length s, s)]\<rparr>"
  by (simp add: push_back_def)

lemma store_headers_room:
  "length (sv_items v) + 2 * length hs \<le> sv_capacity v \<Longrightarrow>
     store_headers grow edit hs v =
       (v\<lparr>sv_items := sv_items v @ header_items edit hs\<rparr>,
        map (\<lambda>i. ((sv_block v, length (sv_items v) + 2 * i), (sv_block v, length (sv_items v) + 2 * i + 1))) [0..<length hs])"
proof (induction hs arbitrary: v)
  case Nil
  then show ?case by simp
next
  case (Cons h hs)
  obtain n x where h: "h = (n, x)" by (rule prod.exhaust)
  let ?v = "v\<lparr>sv_items := sv_items v @ [(length n, n), (length x, edit x)]\<rparr>"
  have "edit_back edit (push_back grow x (push_back grow n v)) = ?v"
    using Cons.prems edit_back_pushed [where edit = edit and v = v and xs = "sv_items v @ [(length n, n)]" and x = "(length x, x)"] by (simp add: push_back_room)
  moreover note Cons.IH [of ?v]
  moreover have "[0..<length (h # hs)] = 0 # map Suc [0..<length hs]"
    by (simp only: upt_Suc_first list.size add_Suc_right add_0_right)
  ultimately show ?case using Cons.prems by (simp add: h pointer_to_def Let_def comp_def)
qed

lemma read_headers_in_block:
  "read_headers sso \<lparr>sv_block = b, sv_capacity = c, sv_items = xs @ header_items edit hs\<rparr>
     (map (\<lambda>i. ((b, length xs + 2 * i), (b, length xs + 2 * i + 1))) [0..<length hs]) = Some (c_headers (map (apsnd edit) hs))"
proof (induction hs arbitrary: xs)
  case Nil
  then show ?case by (simp add: c_headers_def)
next
  case (Cons h hs)
  obtain n x where h: "h = (n, x)" by (rule prod.exhaust)
  have "[0..<length (h # hs)] = 0 # map Suc [0..<length hs]"
    by (simp only: upt_Suc_first list.size add_Suc_right add_0_right)
  with Cons.IH [of "xs @ [(length n, n), (length x, edit x)]"] show ?case
    by (simp add: h c_headers_def read_pointer_def nth_append comp_def)
qed

text \<open>With room for all of them reserved, every pointer can be read.\<close>

lemma reserved_headers_readable:
  "(case store_headers grow edit hs (vector_reserve (2 * length hs) empty_vector) of (v, ps) \<Rightarrow> read_headers sso v ps)
     = Some (c_headers (map (apsnd edit) hs))"
proof -
  let ?v = "vector_reserve (2 * length hs) empty_vector"
  have v: "sv_items ?v = []" "2 * length hs \<le> sv_capacity ?v" by (simp_all add: vector_reserve_def empty_vector_def)
  obtain b c where vv: "?v = \<lparr>sv_block = b, sv_capacity = c, sv_items = []\<rparr>" using v(1) by (cases ?v) simp
  show ?thesis
    using store_headers_room [of ?v hs grow edit] v read_headers_in_block [of sso b c "[]" edit hs] by (simp add: vv)
qed

text \<open>
  Without: as soon as a further header needs a new block, the pointers into the old one to strings
  without memory of their own are lost.
\<close>

lemma block_grows:
  "sv_block v \<le> sv_block (push_back grow s v)" "sv_block (edit_back edit v) = sv_block v"
  "sv_block v \<le> sv_block (fst (store_headers grow edit hs v))"
proof -
  show push: "sv_block v \<le> sv_block (push_back grow s v)" for v s by (simp add: push_back_def Let_def)
  show edit: "sv_block (edit_back edit v) = sv_block v" for v by (simp add: edit_back_def)
  show "sv_block v \<le> sv_block (fst (store_headers grow edit hs v))"
  proof (induction hs arbitrary: v)
    case (Cons h hs)
    obtain n x where h: "h = (n, x)" by (rule prod.exhaust)
    let ?v = "edit_back edit (push_back grow x (push_back grow n v))"
    from push [of v n] push [of "push_back grow n v" x] Cons.IH [of ?v] show ?case
      by (simp add: h edit Let_def case_prod_beta)
  qed simp
qed

lemma read_headers_None: "(p, q) \<in> set ps \<Longrightarrow> read_pointer sso v p = None \<Longrightarrow> read_headers sso v ps = None"
  by (induction ps) (auto split: option.splits)

lemma items_kept:
  "i < length (sv_items v) \<Longrightarrow> sv_items (fst (store_headers grow edit hs v)) ! i = sv_items v ! i"
proof (induction hs arbitrary: v)
  case (Cons h hs)
  obtain n x where h: "h = (n, x)" by (rule prod.exhaust)
  let ?v = "edit_back edit (push_back grow x (push_back grow n v))"
  have "sv_items ?v = sv_items v @ [(length n, n), (length x, edit x)]"
    by (simp add: edit_back_def push_back_def Let_def butlast_append)
  with Cons.prems Cons.IH [of ?v] show ?case by (simp add: h Let_def nth_append case_prod_beta)
qed simp

lemma dangling_headers:
  assumes "length n \<le> sso" and "sv_items v = []"
    and full: "sv_capacity (push_back grow x (push_back grow n v)) = 2"
  shows "case store_headers grow edit ((n, x) # h # hs) v of (v, ps) \<Rightarrow> read_headers sso v ps = None"
proof -
  obtain m y where h: "h = (m, y)" by (rule prod.exhaust)
  let ?v = "edit_back edit (push_back grow x (push_back grow n v))"
  let ?u = "edit_back edit (push_back grow y (push_back grow m ?v))"
  let ?w = "fst (store_headers grow edit (h # hs) ?v)"
  have items: "sv_items ?v = [(length n, n), (length x, edit x)]"
    using assms(2) by (simp add: edit_back_def push_back_def Let_def)
  have "sv_capacity ?v = 2" using full by (simp add: edit_back_def)
  then have "sv_block ?v < sv_block (push_back grow m ?v)" using items by (simp add: push_back_def)
  also have "\<dots> \<le> sv_block ?u" by (simp add: block_grows)
  also have "\<dots> \<le> sv_block ?w" using block_grows(3) [of ?u grow edit hs] by (simp add: h Let_def case_prod_beta)
  finally have "sv_block ?v \<noteq> sv_block ?w" by simp
  moreover have "sv_items ?w ! 0 = (length n, n)" using items_kept [of 0 ?v grow edit "h # hs"] items by simp
  ultimately have "read_pointer sso ?w (pointer_to ?v 0) = None"
    using assms(1) by (simp add: read_pointer_def pointer_to_def)
  then show ?thesis using items by (auto simp: Let_def intro!: read_headers_None split: prod.splits)
qed

end
