(* ===== verification/Jni.thy ===== *)
theory Jni
  imports Abi_Safety Jni_Text String_Vector
begin

text \<open>
  The Android binding \<open>sdk/android/jni/asternet_jni.cpp\<close>: what a Java caller passes becomes a call of the
  C ABI, and what comes back is printed as one JSON text. A Java string arrives as the bytes of
  \<open>GetStringUTFChars\<close> (\<open>None\<close> for null or a failed conversion), a \<open>jint\<close> as an integer. \<open>NewStringUTF\<close>
  reads its argument up to the first NUL. A \<open>jlong\<close> handle is the ABI's token. Running out of memory is
  not modelled.
\<close>

section \<open>Clients\<close>

definition native_create_client ::
  "'w client_env \<Rightarrow> nat \<Rightarrow> int \<Rightarrow> bool \<Rightarrow> bool \<Rightarrow> string option \<Rightarrow> bool \<Rightarrow> 'w client registry
     \<Rightarrow> 64 word \<times> 'w client registry" where
  "native_create_client env i abi_version enable_h3 insecure ca_cert_pem allow_private_networks rg =
     (case asternet_client_create env i
         (Some \<lparr>cfg_struct_size = sizeof_client_config, cfg_abi_version = word_of_int abi_version,
                cfg_default_timeout_ms = 12000, cfg_max_response_body_bytes = 4 * 1024 * 1024,
                cfg_enable_http3 = (if enable_h3 then 1 else 0),
                cfg_allow_insecure_tls_for_testing = (if insecure then 1 else 0),
                cfg_ca_cert_pem = ca_cert_pem,
                cfg_allow_private_networks = (if allow_private_networks then 1 else 0)\<rparr>) rg of
        (token, _, rg) \<Rightarrow> (token, rg))"

definition native_destroy_client :: "64 word \<Rightarrow> 'w client registry \<Rightarrow> 'w client registry" where
  "native_destroy_client handle rg = asternet_client_destroy handle rg"

definition native_prefetch :: "'w client_env \<Rightarrow> 64 word \<Rightarrow> string option \<Rightarrow> 'w abi_state \<Rightarrow> int \<times> 'w abi_state" where
  "native_prefetch env handle host st =
     (if host = None then (ASTERNET_ERR_INVALID_ARGUMENT, st) else asternet_client_prefetch env handle host st)"

definition native_port :: "int \<Rightarrow> bool" where
  "native_port port \<longleftrightarrow> \<not> (port \<le> 0 \<or> port > 65535)"

text \<open>The texts of a buffer of 64 KiB: nothing, cut off, or complete.\<close>

definition diagnostics_capacity :: nat where "diagnostics_capacity = 64 * 1024"

definition diagnostics_text :: "nat \<times> string option \<Rightarrow> string" where
  "diagnostics_text r =
     (if fst r = 0 then ''{}''
      else if fst r \<ge> diagnostics_capacity - 1 then ''{\"error\":\"TRUNCATED\"}''
      else c_str (the (snd r)))"

definition native_trace_route ::
  "'w client_env \<Rightarrow> 64 word \<Rightarrow> string option \<Rightarrow> int \<Rightarrow> 'w abi_state \<Rightarrow> (string \<times> 'w abi_state) option" where
  "native_trace_route env handle host port st =
     (if host = None \<or> \<not> native_port port then Some (''{}'', st)
      else map_option (apfst diagnostics_text)
        (asternet_client_trace_route env handle host (nat port) (Some (replicate diagnostics_capacity nul))
          diagnostics_capacity st))"

definition native_dump_diagnostics :: "'w client_env \<Rightarrow> nat list \<Rightarrow> 64 word \<Rightarrow> 'w abi_state \<Rightarrow> string \<times> 'w abi_state" where
  "native_dump_diagnostics env active handle st =
     apfst diagnostics_text
       (asternet_client_dump_diagnostics env active handle (Some (replicate diagnostics_capacity nul)) diagnostics_capacity st)"

definition native_on_network_change :: "'w client_env \<Rightarrow> nat list \<Rightarrow> 64 word \<Rightarrow> int \<Rightarrow> 'w abi_state \<Rightarrow> 'w abi_state" where
  "native_on_network_change env active handle network st =
     asternet_client_on_network_change env active handle (network_of_int network) st"

section \<open>Header lines\<close>

definition header_of_line :: "string \<Rightarrow> (string \<times> string) list" where
  "header_of_line line =
     (let name = takeWhile (\<lambda>c. c \<noteq> CHR '':'') line
      in if name = line \<or> name = [] then []
         else [(name, dropWhile (\<lambda>c. c = CHR '' '') (tl (dropWhile (\<lambda>c. c \<noteq> CHR '':'') line)))])"

lemma dropWhile_shorter: "dropWhile P s = c # r \<Longrightarrow> length r < length s"
  by (metis Suc_le_lessD length_Cons length_dropWhile_le)

text \<open>One turn per line; the last line is the one without a line break behind it.\<close>

function headers_of_lines :: "string \<Rightarrow> (string \<times> string) list" where
  "headers_of_lines raw =
     header_of_line (takeWhile (\<lambda>c. c \<noteq> newline) raw)
     @ (case dropWhile (\<lambda>c. c \<noteq> newline) raw of [] \<Rightarrow> [] | _ # rest \<Rightarrow> headers_of_lines rest)"
  by pat_completeness auto
termination
  by (relation "measure length") (auto dest: dropWhile_shorter)

declare headers_of_lines.simps [simp del]

definition native_headers :: "string option \<Rightarrow> (string \<times> string) list" where
  "native_headers headers = (case headers of None \<Rightarrow> [] | Some h \<Rightarrow> if c_str h = [] then [] else headers_of_lines (c_str h))"

section \<open>Requests\<close>

record native_args =
  na_host :: "string option"
  na_port :: int
  na_method :: "string option"
  na_path :: "string option"
  na_policy :: int
  na_headers :: "string option"
  na_body :: "string option"
  na_timeout_ms :: int
  na_idempotent :: bool
  na_allow_insecure :: bool

definition native_refused :: "native_args \<Rightarrow> bool" where
  "native_refused a \<longleftrightarrow> na_host a = None \<or> na_method a = None \<or> na_path a = None \<or> \<not> native_port (na_port a)"

text \<open>\<open>data()\<close> of a vector that never held anything is a null pointer.\<close>

definition vector_data :: "'a list \<Rightarrow> 'a list option" where
  "vector_data xs = (if xs = [] then None else Some xs)"

definition native_c_request :: "native_args \<Rightarrow> c_header list \<Rightarrow> c_request" where
  "native_c_request a hs =
     (let body = (case na_body a of None \<Rightarrow> [] | Some b \<Rightarrow> b)
      in \<lparr>cr_host = na_host a, cr_port = nat (na_port a), cr_method = na_method a, cr_path = na_path a,
          cr_headers = vector_data hs, cr_header_count = length hs, cr_body = vector_data body, cr_body_len = length body,
          cr_protocol_policy = policy_of_int (na_policy a), cr_timeout_ms = na_timeout_ms a,
          cr_idempotent = (if na_idempotent a then 1 else 0),
          cr_allow_insecure_tls_for_testing = (if na_allow_insecure a then 1 else 0)\<rparr>)"

definition response_json_head :: "int \<Rightarrow> response_info \<Rightarrow> string" where
  "response_json_head result r =
     ''{\"result\":'' @ to_string result @ '',\"error\":\"'' @ asternet_result_string result
     @ ''\",\"status\":'' @ to_string (ri_http_status r) @ '',\"protocol\":'' @ to_string (protocol_code (ri_protocol r))
     @ '',\"degraded\":'' @ to_string (ri_degraded r) @ '',\"body_size\":'' @ dec_digits (ri_body_size r)
     @ '',\"dns_ms\":'' @ to_string (ri_dns_ms r) @ '',\"connect_ms\":'' @ to_string (ri_connect_ms r)
     @ '',\"tls_ms\":'' @ to_string (ri_tls_ms r) @ '',\"ttfb_ms\":'' @ to_string (ri_ttfb_ms r)
     @ '',\"total_ms\":'' @ to_string (ri_total_ms r) @ '',\"body\":\"''"

definition response_capacity :: nat where "response_capacity = 4 * 1024 * 1024"

text \<open>
  \<open>None\<close> would be a read through a header pointer that is no longer valid. \<open>grow\<close> and \<open>sso\<close> are the choices
  of the C++ library for vectors and strings.
\<close>

definition native_request ::
  "'w client_env \<Rightarrow> nat list \<Rightarrow> (nat \<Rightarrow> nat) \<Rightarrow> nat \<Rightarrow> 64 word \<Rightarrow> native_args \<Rightarrow> 'w abi_state \<Rightarrow> (string \<times> 'w abi_state) option" where
  "native_request env active grow sso handle a st =
     (if native_refused a then Some (''{\"result\":-2,\"error\":\"INVALID_ARGUMENT\"}'', st)
      else
        let parsed_headers = native_headers (na_headers a);
            header_storage = vector_reserve (2 * length parsed_headers) empty_vector;
            (header_storage, pointers) = store_headers grow id parsed_headers header_storage
        in case read_headers sso header_storage pointers of
            None \<Rightarrow> None
          | Some hs \<Rightarrow>
              (case asternet_client_request_sync env active handle (Some (native_c_request a hs))
                  (Some (replicate response_capacity nul)) response_capacity (Some zero_response_info) st of
                 ((result, response_body, info), st) \<Rightarrow>
                   let json = response_json_head result (the info)
                         @ (if result = ASTERNET_OK
                            then jni_escape (take (ri_body_copied (the info)) (the response_body)) else [])
                         @ ''\"}''
                   in Some (c_str json, st)))"

section \<open>What a Java caller writes as headers is what is sent\<close>

definition header_text :: "string \<times> string \<Rightarrow> bool" where
  "header_text h \<longleftrightarrow>
     (case h of (n, v) \<Rightarrow> n \<noteq> [] \<and> set n \<inter> {CHR '':'', newline, nul} = {} \<and> set v \<inter> {newline, nul} = {}
        \<and> (case v of [] \<Rightarrow> True | c # _ \<Rightarrow> c \<noteq> CHR '' ''))"

fun header_lines :: "(string \<times> string) list \<Rightarrow> string" where
  "header_lines [] = []"
| "header_lines [(n, v)] = n @ '': '' @ v"
| "header_lines ((n, v) # hs) = n @ '': '' @ v @ newline # header_lines hs"

lemma header_of_line_text:
  assumes "header_text (n, v)"
  shows "header_of_line (n @ '': '' @ v) = [(n, v)]"
proof -
  have n: "n \<noteq> []" "\<forall>c \<in> set n. c \<noteq> CHR '':''" using assms by (auto simp: header_text_def)
  have v: "dropWhile (\<lambda>c. c = CHR '' '') v = v" using assms by (cases v) (auto simp: header_text_def)
  from n v show ?thesis by (simp add: header_of_line_def takeWhile_append2 dropWhile_append2 Let_def)
qed

lemma header_line_unbroken: "header_text (n, v) \<Longrightarrow> c \<in> set (n @ '': '' @ v) \<Longrightarrow> c \<noteq> newline \<and> c \<noteq> nul"
  by (auto simp: header_text_def)

lemma headers_of_lines_line:
  assumes "\<And>c. c \<in> set line \<Longrightarrow> c \<noteq> newline"
  shows "headers_of_lines line = header_of_line line"
    and "headers_of_lines (line @ newline # rest) = header_of_line line @ headers_of_lines rest"
proof -
  have whole: "takeWhile (\<lambda>c. c \<noteq> newline) line = line" "dropWhile (\<lambda>c. c \<noteq> newline) line = []"
    using assms by (auto simp: takeWhile_eq_all_conv)
  show "headers_of_lines line = header_of_line line"
    by (simp only: headers_of_lines.simps [of line] whole list.case append_Nil2)
  have "takeWhile (\<lambda>c. c \<noteq> newline) (line @ newline # rest) = line"
    "dropWhile (\<lambda>c. c \<noteq> newline) (line @ newline # rest) = newline # rest"
    using assms by (simp_all add: takeWhile_append2 dropWhile_append2)
  then show "headers_of_lines (line @ newline # rest) = header_of_line line @ headers_of_lines rest"
    by (simp only: headers_of_lines.simps [of "line @ newline # rest"] list.case)
qed

lemma headers_of_header_lines: "hs \<noteq> [] \<Longrightarrow> list_all header_text hs \<Longrightarrow> headers_of_lines (header_lines hs) = hs"
proof (induction hs rule: header_lines.induct)
  case 1
  then show ?case by simp
next
  case (2 n v)
  then show ?case
    using headers_of_lines_line(1) [of "n @ '': '' @ v"] header_line_unbroken [of n v] header_of_line_text [of n v] by auto
next
  case (3 n v h hs)
  then show ?case
    using headers_of_lines_line(2) [of "n @ '': '' @ v" "header_lines (h # hs)"] header_line_unbroken [of n v]
      header_of_line_text [of n v] by auto
qed

lemma header_lines_no_nul: "list_all header_text hs \<Longrightarrow> nul \<notin> set (header_lines hs)"
  by (induction hs rule: header_lines.induct) (auto simp: header_text_def)

lemma c_str_id: "nul \<notin> set s \<Longrightarrow> c_str s = s"
  by (auto simp: c_str_def takeWhile_eq_all_conv)

text \<open>
  Headers written one per line as \<open>name: value\<close> arrive as they were meant, in their order and with
  their duplicates, for all names without colon and all values that do not begin with a blank, where
  neither holds a line break or a NUL.
\<close>

theorem native_headers_roundtrip:
  assumes "list_all header_text hs"
  shows "native_headers (Some (header_lines hs)) = hs"
proof (cases hs)
  case Nil
  then show ?thesis by (simp add: native_headers_def c_str_def)
next
  case (Cons h t)
  then have "header_lines hs \<noteq> []" by (cases h; cases t) auto
  moreover have "headers_of_lines (header_lines hs) = hs" using Cons by (intro headers_of_header_lines [OF _ assms]) simp
  ultimately show ?thesis by (simp add: native_headers_def c_str_id [OF header_lines_no_nul [OF assms]])
qed

lemma native_headers_roundtrip_witness:
  "native_headers (Some (header_lines [(''A'', ''1: 2''), (''A'', [])])) = [(''A'', ''1: 2''), (''A'', [])]"
  by (rule native_headers_roundtrip) (simp add: header_text_def)

section \<open>What a Java caller gets back\<close>

definition ascii_visible :: "string \<Rightarrow> bool" where
  "ascii_visible s \<longleftrightarrow> list_all (\<lambda>c. 0x20 \<le> byte c \<and> byte c < 0x80) s"

lemma ascii_visible_simps [simp]:
  "ascii_visible []" "ascii_visible (c # s) \<longleftrightarrow> 0x20 \<le> byte c \<and> byte c < 0x80 \<and> ascii_visible s"
  "ascii_visible (s @ t) \<longleftrightarrow> ascii_visible s \<and> ascii_visible t"
  by (auto simp: ascii_visible_def)

lemma ascii_visible_text: "ascii_visible s \<Longrightarrow> utf8_text s \<and> list_all (\<lambda>c. 0x20 \<le> byte c) s"
  using utf8_text_ascii [of s] by (auto simp: ascii_visible_def list_all_iff)

lemma dec_digits_visible: "ascii_visible (dec_digits n)"
  using dec_digits_isdigit [of _ n] by (fastforce simp: ascii_visible_def list_all_iff isdigit_def)

lemma to_string_visible: "ascii_visible (to_string i)"
  by (simp add: to_string_def dec_digits_visible byte_def)

lemma result_string_visible: "ascii_visible (asternet_result_string r)"
  by (simp add: asternet_result_string_def byte_def)

lemma response_json_head_visible: "ascii_visible (response_json_head result r)"
  unfolding response_json_head_def
  by (simp add: to_string_visible dec_digits_visible result_string_visible byte_def)

lemma json_closed: "json_string (jni_escape s @ ''\"}'') = Some (s, ''}'')"
  using jni_escape_reads [of s "''}''"] by (simp add: append_Cons [symmetric] del: append_Cons)

lemma jni_escape_ok: "utf8_text (jni_escape s) \<and> list_all (\<lambda>c. 0x20 \<le> byte c) (jni_escape s)"
  using jni_escape_reads [of s "[]"] jni_escape_visible by simp

text \<open>The result, the buffer and the struct that the ABI leaves behind.\<close>

lemma request_sync_buffers:
  assumes "asternet_client_request_sync env active handle request (Some b) (length b) (Some i) st = (r, st')"
  shows "\<exists>result out info. r = (result, Some out, Some info)
    \<and> length (if result = ASTERNET_OK then take (ri_body_copied info) out else [])
        = (if result = ASTERNET_OK then ri_body_copied info else 0)"
proof -
  obtain result out info where r: "r = (result, out, info)" by (rule prod_cases3)
  from request_sync_outcome [of "Some b" "length b" "Some i" env active handle request st]
  have "outcome_ok (Some b) (length b) (Some i) (result, out, info)" using assms r by simp
  then have "info \<noteq> None" and "if result = ASTERNET_OK
      then (\<exists>body. length body \<le> length b \<and> out = Some (body @ drop (length body) b) \<and> (\<forall>i. info = Some i \<longrightarrow> ri_body_copied i = length body))
      else out = Some b"
    by (auto simp: outcome_ok_def)
  then show ?thesis by (auto simp: r split: if_splits)
qed


section \<open>Diagnostics are never handed out cut\<close>

lemma diagnostics_text_copied:
  "diagnostics_text (map_prod id Some (copy_diagnostics d (replicate diagnostics_capacity nul) diagnostics_capacity))
     = (if d = [] then ''{}'' else if length d \<ge> diagnostics_capacity - 1 then ''{\"error\":\"TRUNCATED\"}'' else c_str d)"
proof -
  have "c_str (d @ nul # r) = c_str d" for r by (induction d) (simp_all add: c_str_def)
  moreover have "0 < diagnostics_capacity - 1" by (simp add: diagnostics_capacity_def)
  ultimately show ?thesis by (simp add: diagnostics_text_def copy_diagnostics_def Let_def)
qed

lemma native_dump_whole:
  "native_dump_diagnostics env active handle st =
     (case with_client handle (\<lambda>c w. (dump_diag env active c, c, w)) st of
        (None, st) \<Rightarrow> (''{}'', st)
      | (Some d, st) \<Rightarrow>
          (if d = [] then ''{}'' else if length d \<ge> diagnostics_capacity - 1 then ''{\"error\":\"TRUNCATED\"}'' else c_str d, st))"
proof -
  have "diagnostics_capacity \<noteq> 0" by (simp add: diagnostics_capacity_def)
  moreover have "diagnostics_text (0, Some b) = ''{}''" for b by (simp add: diagnostics_text_def)
  ultimately show ?thesis
    using diagnostics_text_copied
    by (auto simp: native_dump_diagnostics_def asternet_client_dump_diagnostics_def simp del: map_prod_simp
        split: prod.splits option.splits)
qed

end
