(* ===== verification/Napi.thy ===== *)
theory Napi
  imports Abi Json_Text String_Vector
begin

text \<open>
  The HarmonyOS binding of the example application, \<open>examples/harmonyos/.../napi_init.cpp\<close>. The one client
  of the module is the global \<open>g_client\<close> (\<open>0\<close> for a null pointer). What \<open>napi_get_value_string_utf8\<close> leaves
  in a buffer of a given size is the parameter \<open>fetch\<close>; whether \<open>char\<close> is signed is a parameter too, since
  it differs between the platform's processors.
\<close>

section \<open>Clients\<close>

type_synonym 'w napi_state = "64 word \<times> 'w abi_state"

text \<open>The argument is \<open>None\<close> if it is missing or no boolean.\<close>

definition napi_create_client ::
  "'w client_env \<Rightarrow> nat \<Rightarrow> bool option \<Rightarrow> 'w napi_state \<Rightarrow> int \<times> 'w napi_state" where
  "napi_create_client env i arg s =
     (case s of (g, rg, w) \<Rightarrow>
        let enable_h3 = (case arg of None \<Rightarrow> True | Some b \<Rightarrow> b);
            rg = (if g \<noteq> 0 then asternet_client_destroy g rg else rg);
            (g, err, rg) = asternet_client_create env i
              (Some \<lparr>cfg_struct_size = sizeof_client_config, cfg_abi_version = ASTERNET_ABI_VERSION,
                     cfg_default_timeout_ms = 12000, cfg_max_response_body_bytes = 4 * 1024 * 1024,
                     cfg_enable_http3 = (if enable_h3 then 1 else 0), cfg_allow_insecure_tls_for_testing = 0,
                     cfg_ca_cert_pem = None, cfg_allow_private_networks = 0\<rparr>) rg
        in (err, g, rg, w))"

definition napi_destroy :: "'w napi_state \<Rightarrow> 'w napi_state" where
  "napi_destroy s = (case s of (g, rg, w) \<Rightarrow> if g \<noteq> 0 then (0, asternet_client_destroy g rg, w) else s)"

section \<open>Requests\<close>

text \<open>The arguments; \<open>None\<close> if missing or of another type, which leaves the variable as it was set before.\<close>

record napi_args =
  nx_host :: "string option"
  nx_port :: "int option"
  nx_method :: "string option"
  nx_path :: "string option"
  nx_policy :: "int option"
  nx_headers :: "string option"
  nx_body :: "string option"
  nx_timeout_ms :: "int option"
  nx_idempotent :: "bool option"

definition or_default :: "'a \<Rightarrow> 'a option \<Rightarrow> 'a" where
  "or_default d v = (case v of None \<Rightarrow> d | Some x \<Rightarrow> x)"

text \<open>A zeroed buffer of \<open>size\<close> bytes into which the argument was copied, as a C string.\<close>

definition fetch_string :: "(nat \<Rightarrow> string \<Rightarrow> string) \<Rightarrow> nat \<Rightarrow> string option \<Rightarrow> string" where
  "fetch_string fetch size_of v = (case v of None \<Rightarrow> [] | Some s \<Rightarrow> c_str (fetch size_of s))"

definition napi_header_of_line :: "string \<Rightarrow> (string \<times> string) list" where
  "napi_header_of_line line =
     (let name = takeWhile (\<lambda>c. c \<noteq> CHR '':'') line
      in if name = line then [] else [(name, tl (dropWhile (\<lambda>c. c \<noteq> CHR '':'') line))])"

lemma napi_rest_shorter: "dropWhile P s = c # r \<Longrightarrow> length r < length s"
  by (metis Suc_le_lessD length_Cons length_dropWhile_le)

function napi_headers :: "string \<Rightarrow> (string \<times> string) list" where
  "napi_headers raw =
     (if raw = [] then []
      else napi_header_of_line (takeWhile (\<lambda>c. c \<noteq> newline) raw)
        @ (case dropWhile (\<lambda>c. c \<noteq> newline) raw of [] \<Rightarrow> [] | _ # rest \<Rightarrow> napi_headers rest))"
  by pat_completeness auto
termination
  by (relation "measure length") (auto dest: napi_rest_shorter)

declare napi_headers.simps [simp del]

definition drop_blanks :: "string \<Rightarrow> string" where
  "drop_blanks v = dropWhile (\<lambda>c. c = CHR '' '') v"

definition null_if_empty :: "'a list \<Rightarrow> 'a list option" where
  "null_if_empty xs = (if xs = [] then None else Some xs)"

definition napi_c_request :: "(nat \<Rightarrow> string \<Rightarrow> string) \<Rightarrow> napi_args \<Rightarrow> c_header list \<Rightarrow> c_request" where
  "napi_c_request fetch a hs =
     (let body_str = fetch_string fetch 65536 (nx_body a)
      in \<lparr>cr_host = Some (fetch_string fetch 256 (nx_host a)), cr_port = nat (or_default 443 (nx_port a) mod 65536),
          cr_method = Some (fetch_string fetch 16 (nx_method a)), cr_path = Some (fetch_string fetch 512 (nx_path a)),
          cr_headers = null_if_empty hs, cr_header_count = length hs, cr_body = null_if_empty body_str,
          cr_body_len = length body_str, cr_protocol_policy = policy_of_int (or_default 0 (nx_policy a)),
          cr_timeout_ms = or_default 12000 (nx_timeout_ms a),
          cr_idempotent = (if or_default True (nx_idempotent a) then 1 else 0), cr_allow_insecure_tls_for_testing = 0\<rparr>)"

definition char_value :: "bool \<Rightarrow> char \<Rightarrow> int" where
  "char_value char_signed c = (if char_signed \<and> byte c \<ge> 128 then int (byte c) - 256 else int (byte c))"

definition napi_escape_char :: "bool \<Rightarrow> char \<Rightarrow> string" where
  "napi_escape_char char_signed c =
     (if c = quote then [backslash, quote] else if c = backslash then [backslash, backslash]
      else if c = newline then [backslash, CHR ''n''] else if c = carriage_return then [backslash, CHR ''r'']
      else if c = tab then [backslash, CHR ''t''] else if char_value char_signed c \<ge> 0x20 then [c] else [])"

definition napi_body :: "bool \<Rightarrow> nat \<Rightarrow> string \<Rightarrow> string" where
  "napi_body char_signed body_copied buffer = concat (map (napi_escape_char char_signed) (take 4000 (take body_copied buffer)))"

definition napi_json :: "int \<Rightarrow> response_info \<Rightarrow> string \<Rightarrow> string" where
  "napi_json ret r body =
     ''{\"result\":'' @ to_string ret @ '',\"error\":\"'' @ asternet_result_string ret
     @ ''\",\"status\":'' @ to_string (ri_http_status r) @ '',\"protocol\":'' @ to_string (protocol_code (ri_protocol r))
     @ '',\"degraded\":'' @ to_string (ri_degraded r) @ '',\"bodySize\":'' @ dec_digits (ri_body_size r)
     @ '',\"dnsMs\":'' @ to_string (ri_dns_ms r) @ '',\"connectMs\":'' @ to_string (ri_connect_ms r)
     @ '',\"tlsMs\":'' @ to_string (ri_tls_ms r) @ '',\"ttfbMs\":'' @ to_string (ri_ttfb_ms r)
     @ '',\"totalMs\":'' @ to_string (ri_total_ms r) @ '',\"body\":\"'' @ body @ ''\"}''"

definition napi_capacity :: nat where "napi_capacity = 4 * 1024 * 1024"

text \<open>\<open>None\<close> is a read through a header pointer that is no longer valid.\<close>

definition napi_request ::
  "'w client_env \<Rightarrow> nat list \<Rightarrow> (nat \<Rightarrow> nat) \<Rightarrow> nat \<Rightarrow> bool \<Rightarrow> (nat \<Rightarrow> string \<Rightarrow> string) \<Rightarrow> napi_args
     \<Rightarrow> 'w napi_state \<Rightarrow> (string \<times> 'w napi_state) option" where
  "napi_request env active grow sso char_signed fetch a s =
     (case s of (g, st) \<Rightarrow>
        if g = 0 then Some (''{\"result\":-3}'', s)
        else
          let (hdr_storage, hdr_vec) =
                store_headers grow drop_blanks (napi_headers (fetch_string fetch 4096 (nx_headers a))) empty_vector
          in case read_headers sso hdr_storage hdr_vec of
              None \<Rightarrow> None
            | Some hs \<Rightarrow>
                (case asternet_client_request_sync env active g (Some (napi_c_request fetch a hs))
                    (Some (replicate napi_capacity nul)) napi_capacity (Some zero_response_info) st of
                   ((ret, resp_buf, resp_info), st) \<Rightarrow>
                     let body = (if ret = ASTERNET_OK \<and> ri_body_copied (the resp_info) > 0
                                 then napi_body char_signed (ri_body_copied (the resp_info)) (the resp_buf) else [])
                     in Some (napi_json ret (the resp_info) body, g, st)))"

section \<open>What the caller can rely on\<close>

text \<open>The characters of a body that reach the caller.\<close>

definition napi_kept :: "bool \<Rightarrow> char \<Rightarrow> bool" where
  "napi_kept char_signed c \<longleftrightarrow> c \<in> {newline, carriage_return, tab} \<or> char_value char_signed c \<ge> 0x20"

lemma napi_escape_char_reads:
  "json_string (napi_escape_char char_signed c @ s) = (if napi_kept char_signed c then map_option (apfst (Cons c)) (json_string s) else json_string s)"
proof (cases "c \<in> {quote, backslash, newline, carriage_return, tab}")
  case True
  then show ?thesis
    by (elim insertE emptyE)
      (simp_all add: napi_escape_char_def napi_kept_def char_value_def byte_def json_string_escape single_escape_def)
next
  case False
  then show ?thesis
    by (auto simp: napi_escape_char_def napi_kept_def char_value_def json_string_plain split: if_splits)
qed

lemma napi_body_reads:
  "json_string (napi_body char_signed n buffer @ quote # r) = Some (filter (napi_kept char_signed) (take 4000 (take n buffer)), r)"
proof -
  have "json_string (concat (map (napi_escape_char char_signed) s) @ quote # r) = Some (filter (napi_kept char_signed) s, r)" for s
    by (induction s) (simp_all add: json_string_quote napi_escape_char_reads)
  then show ?thesis by (simp only: napi_body_def)
qed

text \<open>A single header is safe: its pointers are taken after the last growth.\<close>

lemma one_header_readable:
  "case store_headers grow edit [(n, x)] empty_vector of (v, ps) \<Rightarrow> read_headers sso v ps = Some (c_headers [(n, edit x)])"
  by (simp add: push_back_def edit_back_def empty_vector_def read_pointer_def pointer_to_def c_headers_def Let_def)

lemma napi_one_header_defined:
  assumes "length (napi_headers (fetch_string fetch 4096 (nx_headers a))) \<le> 1"
  shows "napi_request env active grow sso char_signed fetch a s \<noteq> None"
proof (cases "napi_headers (fetch_string fetch 4096 (nx_headers a))")
  case Nil
  then show ?thesis by (simp add: napi_request_def Let_def split: prod.splits)
next
  case (Cons h hs)
  with assms obtain n x where "napi_headers (fetch_string fetch 4096 (nx_headers a)) = [(n, x)]" by (cases h) auto
  then show ?thesis
    using one_header_readable [where grow = grow and edit = drop_blanks and n = n and x = x and sso = sso]
    by (auto simp: napi_request_def Let_def simp del: store_headers.simps split: prod.splits)
qed

text \<open>
  Property C38. With a vector that doubles its capacity, as both usual C++ libraries do, a request with two
  or more headers whose first name fits into a string object (15 or 22 bytes) reads its first header
  through a pointer into memory that the vector has given back. The storage is never reserved, unlike in
  the JNI binding.
\<close>

theorem napi_headers_dangle:
  assumes "grow 0 = 1" and "grow 1 = 2" and "g \<noteq> 0"
    and "napi_headers (fetch_string fetch 4096 (nx_headers a)) = (n, x) # h # hs" and "length n \<le> sso"
  shows "napi_request env active grow sso char_signed fetch a (g, st) = None"
proof -
  have "sv_capacity (push_back grow x (push_back grow n empty_vector)) = 2"
    using assms(1,2) by (simp add: push_back_def empty_vector_def)
  then have "case store_headers grow drop_blanks ((n, x) # h # hs) empty_vector of (v, ps) \<Rightarrow> read_headers sso v ps = None"
    by (intro dangling_headers [OF assms(5)]) (simp_all add: empty_vector_def)
  then show ?thesis using assms(3,4) by (simp add: napi_request_def split: prod.splits)
qed

definition two_headers :: napi_args where
  "two_headers =
     \<lparr>nx_host = Some ''a.example'', nx_port = Some 443, nx_method = Some ''GET'', nx_path = Some ''/'', nx_policy = Some 0,
      nx_headers = Some (''A: 1'' @ newline # ''B: 2''), nx_body = None, nx_timeout_ms = None, nx_idempotent = None\<rparr>"

lemma two_headers_parsed:
  "napi_headers (fetch_string (\<lambda>n. take (n - 1)) 4096 (nx_headers two_headers)) = (''A'', '' 1'') # (''B'', '' 2'') # []"
  by (simp add: two_headers_def fetch_string_def c_str_def napi_headers.simps napi_header_of_line_def Let_def)

lemma napi_headers_dangle_witness:
  "\<forall>env :: unit client_env. napi_request env [] (\<lambda>c. max 1 (2 * c)) 15 False (\<lambda>n. take (n - 1)) two_headers (3, empty_registry, ()) = None"
proof
  fix env :: "unit client_env"
  show "napi_request env [] (\<lambda>c. max 1 (2 * c)) 15 False (\<lambda>n. take (n - 1)) two_headers (3, empty_registry, ()) = None"
    by (rule napi_headers_dangle [OF _ _ _ two_headers_parsed]) simp_all
qed

end
