(* ===== verification/Log.thy ===== *)
theory Log
  imports Api_Types
begin

text \<open>
  \<open>platform/log.cpp\<close>: the level filter in front of the host's callback or the platform's log. A message is
  given by its text before it is cut to the buffer of 1024 bytes. The callback and the level are read
  together under the mutex, so a message sees one setting.
\<close>

datatype log_level = kOff | kError | kWarn | kInfo | kDebug

fun log_level_code :: "log_level \<Rightarrow> int" where
  "log_level_code kOff = 0"
| "log_level_code kError = 1"
| "log_level_code kWarn = 2"
| "log_level_code kInfo = 3"
| "log_level_code kDebug = 4"

record 'cb log_state =
  lg_callback :: "'cb option"
  lg_level :: int

definition initial_log_state :: "'cb log_state" where
  "initial_log_state = \<lparr>lg_callback = None, lg_level = log_level_code kInfo\<rparr>"

definition set_log_callback :: "'cb option \<Rightarrow> int \<Rightarrow> 'cb log_state \<Rightarrow> 'cb log_state" where
  "set_log_callback callback level st = \<lparr>lg_callback = callback, lg_level = level\<rparr>"

definition asternet_set_log_callback :: "'cb option \<Rightarrow> int \<Rightarrow> 'cb log_state \<Rightarrow> 'cb log_state" where
  "asternet_set_log_callback callback level st = set_log_callback callback level st"

datatype log_priority = ANDROID_LOG_ERROR | ANDROID_LOG_WARN | ANDROID_LOG_DEBUG | ANDROID_LOG_INFO

definition android_priority :: "log_level \<Rightarrow> log_priority" where
  "android_priority level =
     (if level = kError then ANDROID_LOG_ERROR else if level = kWarn then ANDROID_LOG_WARN
      else if level = kDebug then ANDROID_LOG_DEBUG else ANDROID_LOG_INFO)"

datatype 'cb log_output = To_Callback 'cb int string string | To_Android log_priority string string | To_Stderr string

definition log_message :: "bool \<Rightarrow> log_level \<Rightarrow> string \<Rightarrow> string \<Rightarrow> 'cb log_state \<Rightarrow> 'cb log_output option" where
  "log_message android level tag formatted st =
     (if log_level_code level > lg_level st \<or> lg_level st = 0 then None
      else
        let message = take 1023 formatted
        in Some (case lg_callback st of
             Some cb \<Rightarrow> To_Callback cb (log_level_code level) tag message
           | None \<Rightarrow> if android then To_Android (android_priority level) tag message
                     else To_Stderr (CHR ''['' # tag @ ''] '' @ message @ [newline])))"

lemma log_off: "log_message android level tag formatted (asternet_set_log_callback cb 0 st) = None"
  by (simp add: log_message_def asternet_set_log_callback_def set_log_callback_def)

lemma log_errors_last:
  "log_message android level tag formatted st \<noteq> None \<Longrightarrow> log_level_code level' \<le> log_level_code level \<Longrightarrow>
     log_message android level' tag' formatted' st \<noteq> None"
  by (auto simp: log_message_def Let_def split: if_splits)

end
